(* ===== verification/Ntprof_Prelude.thy ===== *)
theory Ntprof_Prelude
  imports Main "HOL-Library.Word" "HOL-Library.Multiset"
begin

text \<open>
  Shared vocabulary of the ntprof development: names for the fixed-width integers of the C
  sources, the collections of rewrite rules the component theories add to, and generic
  lemmas on words, lists and multisets that more than one component uses.
\<close>

unbundle bit_operations_syntax

subsection \<open>Fixed-width integers\<close>

type_synonym u8 = "8 word"
type_synonym u16 = "16 word"
type_synonym u24 = "24 word"
type_synonym u32 = "32 word"
type_synonym u64 = "64 word"

text \<open>
  A signed 64-bit value is kept as its two's complement word: addition and subtraction are
  the same operation on the word, and \<open>sint\<close> reads the signed value.
\<close>
type_synonym i64 = "64 word"
type_synonym s32 = "32 word"

subsection \<open>Collections\<close>

named_theorems ntp_defs \<open>definitions that a component's own proofs unfold\<close>
named_theorems ntp_frame \<open>which fields an operation leaves alone\<close>
named_theorems ntp_inv \<open>an operation preserves the invariant of its component\<close>

subsection \<open>Flags and single bits\<close>

text \<open>A C test of a flag word against a mask: \<open>flags & mask\<close> used as a truth value.\<close>

definition has_flag :: "'a::len word \<Rightarrow> 'a word \<Rightarrow> bool" where
  "has_flag f m \<longleftrightarrow> f AND m \<noteq> 0"

lemma has_flag_bit: "has_flag f (2 ^ n) \<longleftrightarrow> bit f n"
proof -
  have "has_flag f (2 ^ n) \<longleftrightarrow> (\<exists>k < LENGTH('a). bit (f AND 2 ^ n) k)" for f :: "'a::len word"
    by (simp add: has_flag_def bit_eq_iff)
  then show ?thesis
    by (auto simp: bit_simps dest: bit_imp_le_length)
qed

lemma has_flag_or: "has_flag (f OR g) m \<longleftrightarrow> has_flag f m \<or> has_flag g m"
  by (auto simp: has_flag_def bit_eq_iff bit_simps)

lemma has_flag_0 [simp]: "\<not> has_flag 0 m"
  by (simp add: has_flag_def)

lemma bit_two_power: "bit (2 ^ n :: 'a::len word) m \<longleftrightarrow> m = n \<and> n < LENGTH('a)"
  by (auto simp: bit_simps)

subsection \<open>Enumerations\<close>

text \<open>
  A C enumeration without gaps is a datatype of class \<open>enum\<close>; its numeric value is the
  position of the constructor.
\<close>

definition ord_of :: "'a::enum \<Rightarrow> nat" where
  "ord_of x = length (takeWhile (\<lambda>y. y \<noteq> x) enum_class.enum)"

lemma ord_of_less: "ord_of (x :: 'a) < length (enum_class.enum :: 'a::enum list)"
proof -
  have "x \<in> set enum_class.enum" by (simp add: enum_UNIV)
  then obtain xs ys where split: "enum_class.enum = xs @ x # ys" and new: "x \<notin> set xs"
    by (meson split_list_first)
  from new have "takeWhile (\<lambda>y. y \<noteq> x) (xs @ x # ys) = xs"
    by (subst takeWhile_append2) auto
  then show ?thesis unfolding ord_of_def split by simp
qed

lemma enum_nth_ord_of: "(enum_class.enum :: 'a::enum list) ! ord_of x = x"
  using nth_length_takeWhile [of "\<lambda>y. y \<noteq> x" enum_class.enum] ord_of_less [of x]
  by (simp add: ord_of_def)

lemma ord_of_inject [simp]: "ord_of x = ord_of y \<longleftrightarrow> x = y"
  by (metis enum_nth_ord_of)

subsection \<open>Signed differences of unsigned timestamps\<close>

lemma sint_eq_uint: "w < 2 ^ 63 \<Longrightarrow> sint (w :: 64 word) = uint w"
  by (simp add: sint_uint signed_take_bit_int_eq_self_iff word_less_def
      order_trans [OF _ uint_ge_0])

lemma uint_diff: "a \<le> b \<Longrightarrow> uint (b - a :: 64 word) = uint b - uint a"
  by (simp add: uint_minus_simple_alt [symmetric] word_le_def uint_sub_if')

lemma sint_diff: 
  assumes "a \<le> b" and "b < 2 ^ 63" 
  shows "sint (b - a :: 64 word) = uint b - uint a"
proof -
  have "uint (b - a) \<le> uint b" using assms(1) by (simp add: uint_diff)
  then have "b - a < 2 ^ 63" using assms(2) by (simp add: word_less_def)
  then show ?thesis using assms(1) by (simp add: sint_eq_uint uint_diff)
qed

lemma sint_diff_add: 
  assumes "a \<le> b" and "b \<le> c" and "c \<le> e" and "e < 2 ^ 63" 
  shows "sint ((b - a) + (e - c) :: 64 word) = (uint b - uint a) + (uint e - uint c)"
proof -
  have lim: "uint e < 9223372036854775808" "uint b \<le> uint c" "uint a \<le> uint b" "uint c \<le> uint e" "0 \<le> uint a"
    using assms by (simp_all add: word_less_def word_le_def)
  have "uint (b - a) + uint (e - c) < 18446744073709551616"
    using lim uint_diff [OF assms(1)] uint_diff [OF assms(3)] by linarith
  then have sum: "uint ((b - a) + (e - c)) = (uint b - uint a) + (uint e - uint c)"
    using assms by (simp add: uint_diff uint_plus_if')
  have "(uint b - uint a) + (uint e - uint c) < 9223372036854775808" using lim by linarith
  with sum have "(b - a) + (e - c) < 2 ^ 63" by (simp add: word_less_def)
  then show ?thesis using sum by (simp add: sint_eq_uint)
qed

end
