(* ===== verification/Ntprof_Records.thy ===== *)
theory Ntprof_Records
  imports Ntprof_Prelude
begin

text \<open>
  The definitions that the BPF programs and the user-space tool share
  (\<^verbatim>\<open>src/bpf/ntprof.h\<close>): the events of each side, the identity of a command on the wire, the
  host and target records, the counters, the filter, and the sampling hash. An array indexed
  by an enumeration is a function from that enumeration; a timestamp of 0 means that the event
  was not seen.
\<close>

subsection \<open>Events\<close>

datatype ntp_host_ts =
    NTP_H_START | NTP_H_QUEUE_RQ | NTP_H_CMD_SENT | NTP_H_R2T_ARR | NTP_H_R2T_PROC |
    NTP_H_DATA_START | NTP_H_DATA_SENT | NTP_H_C2H_ARR | NTP_H_C2H_PROC | NTP_H_RSP_ARR |
    NTP_H_RSP_PROC | NTP_H_NVME_DONE | NTP_H_BLK_DONE | NTP_H_SEND_DONE |
    NTP_H_C2H_LAST_ARR | NTP_H_C2H_DONE

instantiation ntp_host_ts :: enum
begin
definition enum_ntp_host_ts :: "ntp_host_ts list" where
  "enum_ntp_host_ts =
    [NTP_H_START, NTP_H_QUEUE_RQ, NTP_H_CMD_SENT, NTP_H_R2T_ARR, NTP_H_R2T_PROC,
     NTP_H_DATA_START, NTP_H_DATA_SENT, NTP_H_C2H_ARR, NTP_H_C2H_PROC, NTP_H_RSP_ARR,
     NTP_H_RSP_PROC, NTP_H_NVME_DONE, NTP_H_BLK_DONE, NTP_H_SEND_DONE, NTP_H_C2H_LAST_ARR,
     NTP_H_C2H_DONE]"
definition enum_all_ntp_host_ts :: "(ntp_host_ts \<Rightarrow> bool) \<Rightarrow> bool" where
  "enum_all_ntp_host_ts P = list_all P enum_class.enum"
definition enum_ex_ntp_host_ts :: "(ntp_host_ts \<Rightarrow> bool) \<Rightarrow> bool" where
  "enum_ex_ntp_host_ts P = list_ex P enum_class.enum"
instance
proof
  show UNIV: "(UNIV :: ntp_host_ts set) = set enum_class.enum"
    by (auto simp: enum_ntp_host_ts_def intro: ntp_host_ts.exhaust)
  show "distinct (enum_class.enum :: ntp_host_ts list)"
    by (simp add: enum_ntp_host_ts_def)
  show "enum_class.enum_all P = Ball UNIV P" for P :: "ntp_host_ts \<Rightarrow> bool"
    by (simp only: enum_all_ntp_host_ts_def UNIV list_all_iff)
  show "enum_class.enum_ex P = Bex UNIV P" for P :: "ntp_host_ts \<Rightarrow> bool"
    by (simp only: enum_ex_ntp_host_ts_def UNIV list_ex_iff)
qed
end

datatype ntp_tgt_ts =
    NTP_T_CMD_ARR | NTP_T_CMD_PROC | NTP_T_R2T_QUEUED | NTP_T_R2T_SENT | NTP_T_DATA_ARR |
    NTP_T_DATA_PROC | NTP_T_EXEC | NTP_T_BE_ISSUE | NTP_T_BE_DONE | NTP_T_COMPLETE |
    NTP_T_RSP_QUEUED | NTP_T_C2H_SENT | NTP_T_RSP_SENT | NTP_T_SEND_DONE |
    NTP_T_DATA_LAST_ARR | NTP_T_DATA_DONE

instantiation ntp_tgt_ts :: enum
begin
definition enum_ntp_tgt_ts :: "ntp_tgt_ts list" where
  "enum_ntp_tgt_ts =
    [NTP_T_CMD_ARR, NTP_T_CMD_PROC, NTP_T_R2T_QUEUED, NTP_T_R2T_SENT, NTP_T_DATA_ARR,
     NTP_T_DATA_PROC, NTP_T_EXEC, NTP_T_BE_ISSUE, NTP_T_BE_DONE, NTP_T_COMPLETE,
     NTP_T_RSP_QUEUED, NTP_T_C2H_SENT, NTP_T_RSP_SENT, NTP_T_SEND_DONE,
     NTP_T_DATA_LAST_ARR, NTP_T_DATA_DONE]"
definition enum_all_ntp_tgt_ts :: "(ntp_tgt_ts \<Rightarrow> bool) \<Rightarrow> bool" where
  "enum_all_ntp_tgt_ts P = list_all P enum_class.enum"
definition enum_ex_ntp_tgt_ts :: "(ntp_tgt_ts \<Rightarrow> bool) \<Rightarrow> bool" where
  "enum_ex_ntp_tgt_ts P = list_ex P enum_class.enum"
instance
proof
  show UNIV: "(UNIV :: ntp_tgt_ts set) = set enum_class.enum"
    by (auto simp: enum_ntp_tgt_ts_def intro: ntp_tgt_ts.exhaust)
  show "distinct (enum_class.enum :: ntp_tgt_ts list)"
    by (simp add: enum_ntp_tgt_ts_def)
  show "enum_class.enum_all P = Ball UNIV P" for P :: "ntp_tgt_ts \<Rightarrow> bool"
    by (simp only: enum_all_ntp_tgt_ts_def UNIV list_all_iff)
  show "enum_class.enum_ex P = Bex UNIV P" for P :: "ntp_tgt_ts \<Rightarrow> bool"
    by (simp only: enum_ex_ntp_tgt_ts_def UNIV list_ex_iff)
qed
end

subsection \<open>Records\<close>

definition NTP_REC_HOST :: u8 where [ntp_defs]: "NTP_REC_HOST = 1"
definition NTP_REC_TARGET :: u8 where [ntp_defs]: "NTP_REC_TARGET = 2"

definition NTP_TR_TCP :: u8 where [ntp_defs]: "NTP_TR_TCP = 1"
definition NTP_TR_RDMA :: u8 where [ntp_defs]: "NTP_TR_RDMA = 2"

text \<open>The flags of a record header.\<close>

definition NTP_F_WRITE :: u16 where "NTP_F_WRITE = push_bit 0 1"
definition NTP_F_INLINE_DATA :: u16 where "NTP_F_INLINE_DATA = push_bit 1 1"
definition NTP_F_R2T :: u16 where "NTP_F_R2T = push_bit 2 1"
definition NTP_F_DATA_SUCCESS :: u16 where "NTP_F_DATA_SUCCESS = push_bit 3 1"
definition NTP_F_MULTI_R2T :: u16 where "NTP_F_MULTI_R2T = push_bit 4 1"
definition NTP_F_QUEUES :: u16 where "NTP_F_QUEUES = push_bit 5 1"
definition NTP_F_RDMA_READ :: u16 where "NTP_F_RDMA_READ = push_bit 6 1"
definition NTP_F_SPDK :: u16 where "NTP_F_SPDK = push_bit 7 1"
definition NTP_F_REUSED :: u16 where "NTP_F_REUSED = push_bit 8 1"

lemmas flag_defs =
  NTP_F_WRITE_def NTP_F_INLINE_DATA_def NTP_F_R2T_def NTP_F_DATA_SUCCESS_def
  NTP_F_MULTI_R2T_def NTP_F_QUEUES_def NTP_F_RDMA_READ_def NTP_F_SPDK_def NTP_F_REUSED_def

text \<open>What identifies a command on the wire, on both sides (the three pad bytes as one value).\<close>

record ntp_cmd_id =
  id_slba :: u64
  id_nsid :: u32
  id_cntlid :: u16
  id_qid :: u16
  id_cid :: u16
  id_nlb :: u16
  id_opcode :: u8
  id_pad :: u24

record ntp_rec_hdr =
  hdr_kind :: u8
  hdr_transport :: u8
  hdr_flags :: u16
  hdr_cpu :: u32

text \<open>\<open>h_disk\<close> holds the 32 bytes of the fixed-size disk name.\<close>

record ntp_host_rec =
  h_hdr :: ntp_rec_hdr
  h_id :: ntp_cmd_id
  h_bytes :: u32
  h_ctrl_instance :: u32
  h_q_unsent :: u16
  h_q_inflight :: u16
  h_pad :: u32
  h_disk :: "u8 list"
  h_ts :: "ntp_host_ts \<Rightarrow> u64"
  h_c2h_busy_ns :: u64
  h_c2h_skbs :: u32
  h_pad2 :: u32

record ntp_tgt_rec =
  t_hdr :: ntp_rec_hdr
  t_id :: ntp_cmd_id
  t_bytes :: u32
  t_q_outstanding :: u16
  t_q_resp_queue :: u16
  t_ts :: "ntp_tgt_ts \<Rightarrow> u64"
  t_h2c_busy_ns :: u64
  t_h2c_skbs :: u32
  t_pad2 :: u32

definition NTP_DISK_NAME_LEN :: nat where "NTP_DISK_NAME_LEN = 32"

definition zero_cmd_id :: ntp_cmd_id where
  "zero_cmd_id = \<lparr>id_slba = 0, id_nsid = 0, id_cntlid = 0, id_qid = 0, id_cid = 0, id_nlb = 0,
     id_opcode = 0, id_pad = 0\<rparr>"

definition zero_rec_hdr :: ntp_rec_hdr where
  "zero_rec_hdr = \<lparr>hdr_kind = 0, hdr_transport = 0, hdr_flags = 0, hdr_cpu = 0\<rparr>"

text \<open>A record whose memory was cleared (\<^verbatim>\<open>memset\<close> with 0).\<close>

definition zero_host_rec :: ntp_host_rec where
  "zero_host_rec = \<lparr>h_hdr = zero_rec_hdr, h_id = zero_cmd_id, h_bytes = 0, h_ctrl_instance = 0,
     h_q_unsent = 0, h_q_inflight = 0, h_pad = 0, h_disk = replicate NTP_DISK_NAME_LEN 0,
     h_ts = (\<lambda>_. 0), h_c2h_busy_ns = 0, h_c2h_skbs = 0, h_pad2 = 0\<rparr>"

definition zero_tgt_rec :: ntp_tgt_rec where
  "zero_tgt_rec = \<lparr>t_hdr = zero_rec_hdr, t_id = zero_cmd_id, t_bytes = 0, t_q_outstanding = 0,
     t_q_resp_queue = 0, t_ts = (\<lambda>_. 0), t_h2c_busy_ns = 0, t_h2c_skbs = 0, t_pad2 = 0\<rparr>"

lemmas zero_rec_defs = zero_cmd_id_def zero_rec_hdr_def zero_host_rec_def zero_tgt_rec_def

text \<open>Flag tests that the sources repeat.\<close>

abbreviation host_flag :: "ntp_host_rec \<Rightarrow> u16 \<Rightarrow> bool" where
  "host_flag h m \<equiv> has_flag (hdr_flags (h_hdr h)) m"

abbreviation tgt_flag :: "ntp_tgt_rec \<Rightarrow> u16 \<Rightarrow> bool" where
  "tgt_flag t m \<equiv> has_flag (hdr_flags (t_hdr t)) m"

subsection \<open>Counters\<close>

datatype ntp_counter =
    NTP_CNT_HOST_READ_IOS | NTP_CNT_HOST_READ_BYTES | NTP_CNT_HOST_WRITE_IOS |
    NTP_CNT_HOST_WRITE_BYTES | NTP_CNT_HOST_SAMPLED | NTP_CNT_HOST_EMITTED |
    NTP_CNT_TGT_CMDS | NTP_CNT_TGT_SAMPLED | NTP_CNT_TGT_EMITTED | NTP_CNT_RB_DROPS |
    NTP_CNT_MAP_FULL | NTP_CNT_STALE

subsection \<open>Filter\<close>

definition NTP_MAX_SIZE_FILTERS :: nat where "NTP_MAX_SIZE_FILTERS = 16"
definition NTP_MAX_PIDS :: nat where "NTP_MAX_PIDS = 8"

text \<open>What user space sets before the programs load; \<open>f_track_queues\<close> is a byte used as a truth value.\<close>

record ntp_filter =
  f_sample_every :: u32
  f_io_type :: u8
  f_n_sizes :: u8
  f_ctrl_filter :: u8
  f_track_queues :: bool
  f_min_bytes :: u32
  f_max_bytes :: u32
  f_sizes :: "u32 list"
  f_ctrl_mask :: "u64 list"
  f_nsid :: u32
  f_real_minus_mono :: i64
  f_npids :: u8
  f_pids :: "u32 list"

subsection \<open>Opcodes and the sampling hash\<close>

definition NTP_NVME_CMD_FLUSH :: u8 where [ntp_defs]: "NTP_NVME_CMD_FLUSH = 0"
definition NTP_NVME_CMD_WRITE :: u8 where [ntp_defs]: "NTP_NVME_CMD_WRITE = 1"
definition NTP_NVME_CMD_READ :: u8 where [ntp_defs]: "NTP_NVME_CMD_READ = 2"

text \<open>The splitmix64 finaliser over the identifying fields.\<close>

definition ntp_sample_hash :: "u16 \<Rightarrow> u64 \<Rightarrow> u16 \<Rightarrow> u64" where
  "ntp_sample_hash cid slba nlb =
    (let x = slba XOR push_bit 48 (ucast cid) XOR push_bit 32 (ucast nlb);
         x = x XOR drop_bit 30 x;
         x = x * 0xbf58476d1ce4e5b9;
         x = x XOR drop_bit 27 x;
         x = x * 0x94d049bb133111eb;
         x = x XOR drop_bit 31 x
     in x)"

end
