(* ===== verification/Stage_Model.thy ===== *)
theory Stage_Model
  imports Ntprof_Records
begin

text \<open>
  The stage model (\<^verbatim>\<open>src/src/model.h\<close>, \<^verbatim>\<open>src/src/model.c\<close>): one host record, and where the two
  sides were joined its target record, become latency components and stage sums. Only
  differences of timestamps of one machine are taken. Values are 64-bit two's complement words,
  so the sums below hold as the machine computes them; a second group of lemmas shows that the
  signed values are exact and not negative when the events are in path order.
\<close>

subsection \<open>Data\<close>

datatype ntp_io_class = NTP_IO_CLASS_READ | NTP_IO_CLASS_WRITE_INLINE | NTP_IO_CLASS_WRITE_R2T

datatype ntp_comp =
    NTP_C_BLK_SUB | NTP_C_TR_SUB | NTP_C_NET | NTP_C_TGT_RX | NTP_C_TGT_SUB |
    NTP_C_TGT_WAIT | NTP_C_TGT_DATA | NTP_C_TGT_BE | NTP_C_TGT_CMPL | NTP_C_HOST_RX |
    NTP_C_HOST_WAIT | NTP_C_HOST_DATA | NTP_C_TR_CMPL | NTP_C_BLK_CMPL | NTP_C_REMOTE |
    NTP_C_E2E | NTP_C_TGT_BE_SUB | NTP_C_TGT_DEV | NTP_C_TGT_BE_CMPL | NTP_C_CMPL_IPI |
    NTP_C_NET_DATA

instantiation ntp_comp :: enum
begin
definition enum_ntp_comp :: "ntp_comp list" where
  "enum_ntp_comp =
    [NTP_C_BLK_SUB, NTP_C_TR_SUB, NTP_C_NET, NTP_C_TGT_RX, NTP_C_TGT_SUB, NTP_C_TGT_WAIT,
     NTP_C_TGT_DATA, NTP_C_TGT_BE, NTP_C_TGT_CMPL, NTP_C_HOST_RX, NTP_C_HOST_WAIT,
     NTP_C_HOST_DATA, NTP_C_TR_CMPL, NTP_C_BLK_CMPL, NTP_C_REMOTE, NTP_C_E2E,
     NTP_C_TGT_BE_SUB, NTP_C_TGT_DEV, NTP_C_TGT_BE_CMPL, NTP_C_CMPL_IPI, NTP_C_NET_DATA]"
definition enum_all_ntp_comp :: "(ntp_comp \<Rightarrow> bool) \<Rightarrow> bool" where
  "enum_all_ntp_comp P = list_all P enum_class.enum"
definition enum_ex_ntp_comp :: "(ntp_comp \<Rightarrow> bool) \<Rightarrow> bool" where
  "enum_ex_ntp_comp P = list_ex P enum_class.enum"
instance
proof
  show UNIV: "(UNIV :: ntp_comp set) = set enum_class.enum"
    by (auto simp: enum_ntp_comp_def intro: ntp_comp.exhaust)
  show "distinct (enum_class.enum :: ntp_comp list)"
    by (simp add: enum_ntp_comp_def)
  show "enum_class.enum_all P = Ball UNIV P" for P :: "ntp_comp \<Rightarrow> bool"
    by (simp only: enum_all_ntp_comp_def UNIV list_all_iff)
  show "enum_class.enum_ex P = Bex UNIV P" for P :: "ntp_comp \<Rightarrow> bool"
    by (simp only: enum_ex_ntp_comp_def UNIV list_ex_iff)
qed
end

datatype ntp_stage =
    NTP_S1 | NTP_S2 | NTP_S3_S5 | NTP_S6 | NTP_S7_S9

instantiation ntp_stage :: enum
begin
definition enum_ntp_stage :: "ntp_stage list" where
  "enum_ntp_stage =
    [NTP_S1, NTP_S2, NTP_S3_S5, NTP_S6, NTP_S7_S9]"
definition enum_all_ntp_stage :: "(ntp_stage \<Rightarrow> bool) \<Rightarrow> bool" where
  "enum_all_ntp_stage P = list_all P enum_class.enum"
definition enum_ex_ntp_stage :: "(ntp_stage \<Rightarrow> bool) \<Rightarrow> bool" where
  "enum_ex_ntp_stage P = list_ex P enum_class.enum"
instance
proof
  show UNIV: "(UNIV :: ntp_stage set) = set enum_class.enum"
    by (auto simp: enum_ntp_stage_def intro: ntp_stage.exhaust)
  show "distinct (enum_class.enum :: ntp_stage list)"
    by (simp add: enum_ntp_stage_def)
  show "enum_class.enum_all P = Ball UNIV P" for P :: "ntp_stage \<Rightarrow> bool"
    by (simp only: enum_all_ntp_stage_def UNIV list_all_iff)
  show "enum_class.enum_ex P = Bex UNIV P" for P :: "ntp_stage \<Rightarrow> bool"
    by (simp only: enum_ex_ntp_stage_def UNIV list_ex_iff)
qed
end

text \<open>Bit \<open>ord_of c\<close> of \<open>bd_valid\<close> says that component \<open>c\<close> holds a value; likewise for stages.\<close>

record ntp_breakdown_t =
  bd_io_class :: ntp_io_class
  bd_joined :: bool
  bd_post_estimated :: bool
  bd_valid :: u32
  bd_comp :: "ntp_comp \<Rightarrow> i64"
  bd_stage :: "ntp_stage \<Rightarrow> i64"
  bd_stage_valid :: u32

datatype ntp_model_err =
  NTP_MODEL_OK | NTP_MODEL_INCOMPLETE_HOST | NTP_MODEL_INCOMPLETE_TARGET

record ntp_comp_info =
  ci_name :: string
  ci_stage :: string
  ci_desc :: string
  ci_detail :: bool

fun ntp_comps :: "ntp_comp \<Rightarrow> ntp_comp_info" where
  "ntp_comps NTP_C_BLK_SUB =
     \<lparr>ci_name = ''blk_submission'', ci_stage = ''host_block_layer'',
      ci_desc = ''host block layer, submission'', ci_detail = False\<rparr>"
| "ntp_comps NTP_C_TR_SUB =
     \<lparr>ci_name = ''transport_submission'', ci_stage = ''host_driver'',
      ci_desc = ''host driver, submission'', ci_detail = False\<rparr>"
| "ntp_comps NTP_C_NET =
     \<lparr>ci_name = ''network'', ci_stage = ''network'',
      ci_desc = ''network: wire and NICs (computed)'', ci_detail = False\<rparr>"
| "ntp_comps NTP_C_TGT_RX =
     \<lparr>ci_name = ''target_rx_stack'', ci_stage = ''network'',
      ci_desc = ''network: target receive path'', ci_detail = False\<rparr>"
| "ntp_comps NTP_C_TGT_SUB =
     \<lparr>ci_name = ''target_transport_submission'', ci_stage = ''target_driver'',
      ci_desc = ''target driver, submission'', ci_detail = False\<rparr>"
| "ntp_comps NTP_C_TGT_WAIT =
     \<lparr>ci_name = ''target_data_wait'', ci_stage = ''network'',
      ci_desc = ''network: rest of the data arriving'', ci_detail = False\<rparr>"
| "ntp_comps NTP_C_TGT_DATA =
     \<lparr>ci_name = ''target_data_processing'', ci_stage = ''target_driver'',
      ci_desc = ''target driver, processing the data'', ci_detail = False\<rparr>"
| "ntp_comps NTP_C_TGT_BE =
     \<lparr>ci_name = ''target_subsystem'', ci_stage = ''storage'',
      ci_desc = ''storage: target block layer and drive'', ci_detail = False\<rparr>"
| "ntp_comps NTP_C_TGT_CMPL =
     \<lparr>ci_name = ''target_transport_completion'', ci_stage = ''target_driver'',
      ci_desc = ''target driver, completion'', ci_detail = False\<rparr>"
| "ntp_comps NTP_C_HOST_RX =
     \<lparr>ci_name = ''host_rx_stack'', ci_stage = ''network'',
      ci_desc = ''network: host receive path'', ci_detail = False\<rparr>"
| "ntp_comps NTP_C_HOST_WAIT =
     \<lparr>ci_name = ''host_data_wait'', ci_stage = ''network'',
      ci_desc = ''network: rest of the data arriving'', ci_detail = False\<rparr>"
| "ntp_comps NTP_C_HOST_DATA =
     \<lparr>ci_name = ''host_data_processing'', ci_stage = ''host_driver'',
      ci_desc = ''host driver, processing the data'', ci_detail = False\<rparr>"
| "ntp_comps NTP_C_TR_CMPL =
     \<lparr>ci_name = ''transport_completion'', ci_stage = ''host_driver'',
      ci_desc = ''host driver, completion'', ci_detail = False\<rparr>"
| "ntp_comps NTP_C_BLK_CMPL =
     \<lparr>ci_name = ''blk_completion'', ci_stage = ''host_block_layer'',
      ci_desc = ''host block layer, completion'', ci_detail = False\<rparr>"
| "ntp_comps NTP_C_REMOTE =
     \<lparr>ci_name = ''remote'', ci_stage = ''network_and_target'',
      ci_desc = ''network and target (no target record)'', ci_detail = False\<rparr>"
| "ntp_comps NTP_C_E2E =
     \<lparr>ci_name = ''end_to_end'', ci_stage = ''end_to_end'',
      ci_desc = ''end to end'', ci_detail = False\<rparr>"
| "ntp_comps NTP_C_TGT_BE_SUB =
     \<lparr>ci_name = ''target_blk_submission'', ci_stage = ''storage'',
      ci_desc = ''target block layer, submission'', ci_detail = True\<rparr>"
| "ntp_comps NTP_C_TGT_DEV =
     \<lparr>ci_name = ''target_device'', ci_stage = ''storage'',
      ci_desc = ''drive'', ci_detail = True\<rparr>"
| "ntp_comps NTP_C_TGT_BE_CMPL =
     \<lparr>ci_name = ''target_blk_completion'', ci_stage = ''storage'',
      ci_desc = ''target block layer, completion'', ci_detail = True\<rparr>"
| "ntp_comps NTP_C_CMPL_IPI =
     \<lparr>ci_name = ''completion_ipi'', ci_stage = ''host_block_layer'',
      ci_desc = ''handoff to nvme_complete_rq'', ci_detail = True\<rparr>"
| "ntp_comps NTP_C_NET_DATA =
     \<lparr>ci_name = ''net_data_transfer'', ci_stage = ''network'',
      ci_desc = ''data transfer (RDMA, at the target)'', ci_detail = True\<rparr>"

fun ntp_stage_keys :: "ntp_stage \<Rightarrow> string" where
  "ntp_stage_keys NTP_S1 = ''host_block_layer''"
| "ntp_stage_keys NTP_S2 = ''host_driver''"
| "ntp_stage_keys NTP_S3_S5 = ''network''"
| "ntp_stage_keys NTP_S6 = ''target_driver''"
| "ntp_stage_keys NTP_S7_S9 = ''storage''"

definition ntp_comp_valid :: "ntp_breakdown_t \<Rightarrow> ntp_comp \<Rightarrow> bool" where
  "ntp_comp_valid b c \<longleftrightarrow> has_flag (bd_valid b) (push_bit (ord_of c) 1)"

definition ntp_stage_valid :: "ntp_breakdown_t \<Rightarrow> ntp_stage \<Rightarrow> bool" where
  "ntp_stage_valid b s \<longleftrightarrow> has_flag (bd_stage_valid b) (push_bit (ord_of s) 1)"

subsection \<open>Which events a record must have\<close>

definition ntp_io_class_of :: "ntp_host_rec \<Rightarrow> ntp_io_class" where
  "ntp_io_class_of h =
    (if \<not> host_flag h NTP_F_WRITE then NTP_IO_CLASS_READ
     else if host_flag h NTP_F_R2T then NTP_IO_CLASS_WRITE_R2T
     else NTP_IO_CLASS_WRITE_INLINE)"

primrec have_all :: "('e \<Rightarrow> u64) \<Rightarrow> 'e list \<Rightarrow> bool" where
  "have_all ts [] = True"
| "have_all ts (i # idx) = (if ts i = 0 then False else have_all ts idx)"

definition host_req_read :: "ntp_host_ts list" where
  "host_req_read = [NTP_H_QUEUE_RQ, NTP_H_CMD_SENT, NTP_H_C2H_ARR, NTP_H_C2H_PROC,
     NTP_H_RSP_PROC, NTP_H_BLK_DONE]"

definition host_req_inline :: "ntp_host_ts list" where
  "host_req_inline = [NTP_H_QUEUE_RQ, NTP_H_CMD_SENT, NTP_H_RSP_ARR, NTP_H_RSP_PROC,
     NTP_H_BLK_DONE]"

definition host_req_r2t :: "ntp_host_ts list" where
  "host_req_r2t = [NTP_H_QUEUE_RQ, NTP_H_CMD_SENT, NTP_H_R2T_ARR, NTP_H_R2T_PROC,
     NTP_H_DATA_START, NTP_H_RSP_ARR, NTP_H_RSP_PROC, NTP_H_BLK_DONE]"

definition tgt_req_read :: "ntp_tgt_ts list" where
  "tgt_req_read = [NTP_T_CMD_ARR, NTP_T_CMD_PROC, NTP_T_EXEC, NTP_T_COMPLETE, NTP_T_C2H_SENT]"

definition tgt_req_inline :: "ntp_tgt_ts list" where
  "tgt_req_inline = [NTP_T_CMD_ARR, NTP_T_CMD_PROC, NTP_T_EXEC, NTP_T_COMPLETE, NTP_T_RSP_SENT]"

definition tgt_req_r2t :: "ntp_tgt_ts list" where
  "tgt_req_r2t = [NTP_T_CMD_ARR, NTP_T_CMD_PROC, NTP_T_R2T_SENT, NTP_T_DATA_ARR,
     NTP_T_DATA_PROC, NTP_T_EXEC, NTP_T_COMPLETE, NTP_T_RSP_SENT]"

definition host_req_rdma :: "ntp_host_ts list" where
  "host_req_rdma = [NTP_H_QUEUE_RQ, NTP_H_CMD_SENT, NTP_H_RSP_ARR, NTP_H_RSP_PROC,
     NTP_H_BLK_DONE]"

definition tgt_req_rdma :: "ntp_tgt_ts list" where
  "tgt_req_rdma = [NTP_T_CMD_ARR, NTP_T_CMD_PROC, NTP_T_EXEC, NTP_T_COMPLETE]"

definition host_complete :: "ntp_host_rec \<Rightarrow> ntp_io_class \<Rightarrow> bool" where
  "host_complete h c =
    (case c of
       NTP_IO_CLASS_READ \<Rightarrow> have_all (h_ts h) host_req_read
     | NTP_IO_CLASS_WRITE_INLINE \<Rightarrow> have_all (h_ts h) host_req_inline
     | NTP_IO_CLASS_WRITE_R2T \<Rightarrow> have_all (h_ts h) host_req_r2t)"

definition target_complete :: "ntp_tgt_rec \<Rightarrow> ntp_io_class \<Rightarrow> bool" where
  "target_complete t c =
    (case c of
       NTP_IO_CLASS_READ \<Rightarrow> have_all (t_ts t) tgt_req_read
     | NTP_IO_CLASS_WRITE_INLINE \<Rightarrow> have_all (t_ts t) tgt_req_inline
     | NTP_IO_CLASS_WRITE_R2T \<Rightarrow> have_all (t_ts t) tgt_req_r2t)"

lemmas req_defs =
  host_req_read_def host_req_inline_def host_req_r2t_def host_req_rdma_def
  tgt_req_read_def tgt_req_inline_def tgt_req_r2t_def tgt_req_rdma_def

subsection \<open>Components\<close>

definition set_comp :: "ntp_breakdown_t \<Rightarrow> ntp_comp \<Rightarrow> i64 \<Rightarrow> ntp_breakdown_t" where
  "set_comp b c v =
    b\<lparr>bd_comp := (bd_comp b)(c := v), bd_valid := bd_valid b OR push_bit (ord_of c) 1\<rparr>"

definition d_ns :: "u64 \<Rightarrow> u64 \<Rightarrow> i64" where
  "d_ns later earlier = later - earlier"

definition common_host :: "ntp_host_rec \<Rightarrow> ntp_breakdown_t \<Rightarrow> ntp_breakdown_t" where
  "common_host h b =
    (let H = h_ts h;
         b = set_comp b NTP_C_TR_SUB (d_ns (H NTP_H_CMD_SENT) (H NTP_H_QUEUE_RQ));
         b = set_comp b NTP_C_BLK_CMPL (d_ns (H NTP_H_BLK_DONE) (H NTP_H_RSP_PROC));
         b = (if H NTP_H_START \<noteq> 0 \<and> H NTP_H_START \<le> H NTP_H_QUEUE_RQ
              then set_comp
                     (set_comp b NTP_C_BLK_SUB (d_ns (H NTP_H_QUEUE_RQ) (H NTP_H_START)))
                     NTP_C_E2E (d_ns (H NTP_H_BLK_DONE) (H NTP_H_START))
              else set_comp b NTP_C_E2E (d_ns (H NTP_H_BLK_DONE) (H NTP_H_QUEUE_RQ)))
     in if H NTP_H_NVME_DONE \<noteq> 0
        then set_comp b NTP_C_CMPL_IPI (d_ns (H NTP_H_NVME_DONE) (H NTP_H_RSP_PROC))
        else b)"

definition backend_details :: "(ntp_tgt_ts \<Rightarrow> u64) \<Rightarrow> ntp_breakdown_t \<Rightarrow> ntp_breakdown_t" where
  "backend_details T b =
    (if T NTP_T_BE_ISSUE = 0 \<or> T NTP_T_BE_DONE = 0 \<or> T NTP_T_BE_DONE > T NTP_T_COMPLETE
     then b
     else
       let b = set_comp b NTP_C_TGT_BE_SUB (d_ns (T NTP_T_BE_ISSUE) (T NTP_T_EXEC));
           b = set_comp b NTP_C_TGT_DEV (d_ns (T NTP_T_BE_DONE) (T NTP_T_BE_ISSUE))
       in set_comp b NTP_C_TGT_BE_CMPL (d_ns (T NTP_T_COMPLETE) (T NTP_T_BE_DONE)))"

text \<open>
  A TCP data phase. The result says whether the record has one; without one, the breakdown is
  returned unchanged. The comparison with \<open>span\<close> is between unsigned values, as in the source.
\<close>

definition data_phase ::
  "u64 \<Rightarrow> u64 \<Rightarrow> u64 \<Rightarrow> u64 \<Rightarrow> ntp_comp \<Rightarrow> ntp_comp \<Rightarrow> ntp_breakdown_t \<Rightarrow> bool \<times> ntp_breakdown_t"
where
  "data_phase first done nxt busy_ns busy_c wait_c b =
    (if busy_ns = 0 \<or> done = 0 \<or> done < first \<or> done > nxt then (False, b)
     else
       let span = d_ns done first;
           busy = (if busy_ns > span then span else busy_ns)
       in (True, set_comp (set_comp b busy_c busy) wait_c (span - busy)))"

definition read_data_phase :: "ntp_host_rec \<Rightarrow> ntp_breakdown_t \<Rightarrow> ntp_breakdown_t" where
  "read_data_phase h b =
    (let H = h_ts h;
         (r, b) = data_phase (H NTP_H_C2H_PROC) (H NTP_H_C2H_DONE) (H NTP_H_RSP_PROC)
                    (h_c2h_busy_ns h) NTP_C_HOST_DATA NTP_C_HOST_WAIT b
     in if r then set_comp b NTP_C_TR_CMPL (d_ns (H NTP_H_RSP_PROC) (H NTP_H_C2H_DONE))
        else set_comp b NTP_C_TR_CMPL (d_ns (H NTP_H_RSP_PROC) (H NTP_H_C2H_PROC)))"

definition write_data_phase :: "ntp_tgt_rec \<Rightarrow> ntp_breakdown_t \<Rightarrow> i64 \<times> ntp_breakdown_t" where
  "write_data_phase t b =
    (let T = t_ts t;
         (r, b) = data_phase (T NTP_T_DATA_PROC) (T NTP_T_DATA_DONE) (T NTP_T_EXEC)
                    (t_h2c_busy_ns t) NTP_C_TGT_DATA NTP_C_TGT_WAIT b
     in if r then (d_ns (T NTP_T_EXEC) (T NTP_T_DATA_DONE), b)
        else (d_ns (T NTP_T_EXEC) (T NTP_T_DATA_PROC), b))"

definition host_side :: "ntp_host_rec \<Rightarrow> ntp_breakdown_t \<Rightarrow> ntp_breakdown_t" where
  "host_side h b =
    (let H = h_ts h;
         b = common_host h b
     in case bd_io_class b of
          NTP_IO_CLASS_READ \<Rightarrow>
            (let b = set_comp b NTP_C_REMOTE (d_ns (H NTP_H_C2H_ARR) (H NTP_H_CMD_SENT));
                 b = set_comp b NTP_C_HOST_RX (d_ns (H NTP_H_C2H_PROC) (H NTP_H_C2H_ARR))
             in read_data_phase h b)
        | NTP_IO_CLASS_WRITE_INLINE \<Rightarrow>
            (let b = set_comp b NTP_C_REMOTE (d_ns (H NTP_H_RSP_ARR) (H NTP_H_CMD_SENT));
                 b = set_comp b NTP_C_HOST_RX (d_ns (H NTP_H_RSP_PROC) (H NTP_H_RSP_ARR))
             in set_comp b NTP_C_TR_CMPL 0)
        | NTP_IO_CLASS_WRITE_R2T \<Rightarrow>
            (let b = b\<lparr>bd_comp := (bd_comp b)(NTP_C_TR_SUB := bd_comp b NTP_C_TR_SUB +
                        d_ns (H NTP_H_DATA_START) (H NTP_H_R2T_PROC))\<rparr>;
                 b = set_comp b NTP_C_REMOTE (d_ns (H NTP_H_R2T_ARR) (H NTP_H_CMD_SENT) +
                        d_ns (H NTP_H_RSP_ARR) (H NTP_H_DATA_START));
                 b = set_comp b NTP_C_HOST_RX (d_ns (H NTP_H_R2T_PROC) (H NTP_H_R2T_ARR) +
                        d_ns (H NTP_H_RSP_PROC) (H NTP_H_RSP_ARR))
             in set_comp b NTP_C_TR_CMPL 0))"

text \<open>The end of both target sides: the network takes what the residence leaves of the wait.\<close>

definition split_remote :: "i64 \<Rightarrow> ntp_breakdown_t \<Rightarrow> ntp_breakdown_t" where
  "split_remote residence b =
    (let b = set_comp b NTP_C_NET (bd_comp b NTP_C_REMOTE - residence);
         b = b\<lparr>bd_valid := bd_valid b AND NOT (push_bit (ord_of NTP_C_REMOTE) 1)\<rparr>
     in b\<lparr>bd_comp := (bd_comp b)(NTP_C_REMOTE := 0)\<rparr>)"

definition target_side :: "ntp_tgt_rec \<Rightarrow> ntp_breakdown_t \<Rightarrow> ntp_breakdown_t" where
  "target_side t b =
    (let T = t_ts t;
         b = set_comp b NTP_C_TGT_BE (d_ns (T NTP_T_COMPLETE) (T NTP_T_EXEC));
         (residence, b) =
           (case bd_io_class b of
              NTP_IO_CLASS_READ \<Rightarrow>
                (let b = set_comp b NTP_C_TGT_RX (d_ns (T NTP_T_CMD_PROC) (T NTP_T_CMD_ARR));
                     b = set_comp b NTP_C_TGT_SUB (d_ns (T NTP_T_EXEC) (T NTP_T_CMD_PROC));
                     b = set_comp b NTP_C_TGT_CMPL (d_ns (T NTP_T_C2H_SENT) (T NTP_T_COMPLETE))
                 in (d_ns (T NTP_T_C2H_SENT) (T NTP_T_CMD_ARR), b))
            | NTP_IO_CLASS_WRITE_INLINE \<Rightarrow>
                (let b = set_comp b NTP_C_TGT_RX (d_ns (T NTP_T_CMD_PROC) (T NTP_T_CMD_ARR));
                     b = set_comp b NTP_C_TGT_SUB (d_ns (T NTP_T_EXEC) (T NTP_T_CMD_PROC));
                     b = set_comp b NTP_C_TGT_CMPL (d_ns (T NTP_T_RSP_SENT) (T NTP_T_COMPLETE))
                 in (d_ns (T NTP_T_RSP_SENT) (T NTP_T_CMD_ARR), b))
            | NTP_IO_CLASS_WRITE_R2T \<Rightarrow>
                (let b = set_comp b NTP_C_TGT_RX (d_ns (T NTP_T_CMD_PROC) (T NTP_T_CMD_ARR) +
                           d_ns (T NTP_T_DATA_PROC) (T NTP_T_DATA_ARR));
                     (sub, b) = write_data_phase t b;
                     b = set_comp b NTP_C_TGT_SUB
                           (d_ns (T NTP_T_R2T_SENT) (T NTP_T_CMD_PROC) + sub);
                     b = set_comp b NTP_C_TGT_CMPL (d_ns (T NTP_T_RSP_SENT) (T NTP_T_COMPLETE))
                 in (d_ns (T NTP_T_R2T_SENT) (T NTP_T_CMD_ARR) +
                     d_ns (T NTP_T_RSP_SENT) (T NTP_T_DATA_ARR), b)))
     in backend_details T (split_remote residence b))"

definition rdma_host_side :: "ntp_host_rec \<Rightarrow> ntp_breakdown_t \<Rightarrow> ntp_breakdown_t" where
  "rdma_host_side h b =
    (let H = h_ts h;
         b = common_host h b;
         b = set_comp b NTP_C_REMOTE (d_ns (H NTP_H_RSP_ARR) (H NTP_H_CMD_SENT));
         b = set_comp b NTP_C_HOST_RX (d_ns (H NTP_H_RSP_PROC) (H NTP_H_RSP_ARR))
     in set_comp b NTP_C_TR_CMPL 0)"

text \<open>
  The target's timestamps as the RDMA model uses them: a posting after its own send completion
  is dropped, and a missing posting is replaced by the completion's time. The second component
  says that the posting time is the estimate; the result is \<open>None\<close> when there is neither a
  posting nor a send completion.
\<close>

definition rdma_posting ::
  "u16 \<Rightarrow> (ntp_tgt_ts \<Rightarrow> u64) \<Rightarrow> ((ntp_tgt_ts \<Rightarrow> u64) \<times> bool) option"
where
  "rdma_posting flags T =
    (let T = (if T NTP_T_SEND_DONE \<noteq> 0 \<and> T NTP_T_RSP_SENT > T NTP_T_SEND_DONE
              then T(NTP_T_C2H_SENT := 0, NTP_T_RSP_SENT := 0) else T)
     in if T NTP_T_RSP_SENT = 0
        then if T NTP_T_SEND_DONE = 0 then None
             else
               let T = T(NTP_T_RSP_SENT := T NTP_T_COMPLETE);
                   T = (if \<not> has_flag flags NTP_F_WRITE
                        then T(NTP_T_C2H_SENT := T NTP_T_COMPLETE) else T)
               in Some (T, True)
        else Some (T, False))"

text \<open>The result says whether the target record could be used; if not, nothing was set.\<close>

definition rdma_target_side :: "ntp_tgt_rec \<Rightarrow> ntp_breakdown_t \<Rightarrow> bool \<times> ntp_breakdown_t" where
  "rdma_target_side t b =
    (let fl = hdr_flags (t_hdr t);
         fetch = has_flag fl NTP_F_RDMA_READ;
         T = t_ts t
     in if \<not> have_all T tgt_req_rdma \<or>
           (fetch \<and> (T NTP_T_R2T_SENT = 0 \<or> T NTP_T_DATA_PROC = 0))
        then (False, b)
        else
          case rdma_posting fl T of
            None \<Rightarrow> (False, b)
          | Some (T, estimated) \<Rightarrow>
              let b = (if estimated then b\<lparr>bd_post_estimated := True\<rparr> else b);
                  b = set_comp b NTP_C_TGT_RX (d_ns (T NTP_T_CMD_PROC) (T NTP_T_CMD_ARR));
                  (fetch_ns, b) =
                    (if fetch
                     then
                       let fetch_ns = d_ns (T NTP_T_DATA_PROC) (T NTP_T_R2T_SENT);
                           b = set_comp b NTP_C_TGT_SUB
                                 (d_ns (T NTP_T_R2T_SENT) (T NTP_T_CMD_PROC) +
                                  d_ns (T NTP_T_EXEC) (T NTP_T_DATA_PROC));
                           b = b\<lparr>bd_io_class := NTP_IO_CLASS_WRITE_R2T\<rparr>
                       in (fetch_ns, set_comp b NTP_C_NET_DATA fetch_ns)
                     else (0, set_comp b NTP_C_TGT_SUB (d_ns (T NTP_T_EXEC) (T NTP_T_CMD_PROC))));
                  b = (if \<not> has_flag fl NTP_F_WRITE \<and> T NTP_T_C2H_SENT \<noteq> 0 \<and>
                          T NTP_T_SEND_DONE \<noteq> 0
                       then set_comp b NTP_C_NET_DATA (d_ns (T NTP_T_SEND_DONE) (T NTP_T_C2H_SENT))
                       else b);
                  b = set_comp b NTP_C_TGT_BE (d_ns (T NTP_T_COMPLETE) (T NTP_T_EXEC));
                  b = set_comp b NTP_C_TGT_CMPL (d_ns (T NTP_T_RSP_SENT) (T NTP_T_COMPLETE));
                  residence = d_ns (T NTP_T_RSP_SENT) (T NTP_T_CMD_ARR) - fetch_ns
              in (True, backend_details T (split_remote residence b)))"

subsection \<open>Stages\<close>

text \<open>The loop over the required parts: \<open>None\<close> at the first one without a value.\<close>

primrec stage_parts :: "ntp_breakdown_t \<Rightarrow> ntp_comp list \<Rightarrow> i64 \<Rightarrow> i64 option" where
  "stage_parts b [] acc = Some acc"
| "stage_parts b (c # cs) acc =
     (if \<not> ntp_comp_valid b c then None else stage_parts b cs (acc + bd_comp b c))"

primrec stage_extras :: "ntp_breakdown_t \<Rightarrow> ntp_comp list \<Rightarrow> i64 \<Rightarrow> i64" where
  "stage_extras b [] acc = acc"
| "stage_extras b (c # cs) acc =
     stage_extras b cs (if ntp_comp_valid b c then acc + bd_comp b c else acc)"

definition stage ::
  "ntp_breakdown_t \<Rightarrow> ntp_stage \<Rightarrow> ntp_comp list \<Rightarrow> ntp_comp list \<Rightarrow> ntp_breakdown_t"
where
  "stage b s parts extras =
    (case stage_parts b parts 0 of
       None \<Rightarrow> b
     | Some v \<Rightarrow> b\<lparr>bd_stage := (bd_stage b)(s := stage_extras b extras v),
                  bd_stage_valid := bd_stage_valid b OR push_bit (ord_of s) 1\<rparr>)"

definition stages :: "ntp_breakdown_t \<Rightarrow> ntp_breakdown_t" where
  "stages b =
    (let b = stage b NTP_S1 [NTP_C_BLK_SUB, NTP_C_BLK_CMPL] [];
         b = stage b NTP_S2 [NTP_C_TR_SUB, NTP_C_TR_CMPL] [NTP_C_HOST_DATA];
         b = stage b NTP_S3_S5 [NTP_C_NET, NTP_C_TGT_RX, NTP_C_HOST_RX]
               [NTP_C_HOST_WAIT, NTP_C_TGT_WAIT];
         b = stage b NTP_S6 [NTP_C_TGT_SUB, NTP_C_TGT_CMPL] [NTP_C_TGT_DATA]
     in stage b NTP_S7_S9 [NTP_C_TGT_BE] [])"

subsection \<open>The breakdown\<close>

definition zero_breakdown :: ntp_breakdown_t where
  "zero_breakdown = \<lparr>bd_io_class = NTP_IO_CLASS_READ, bd_joined = False,
     bd_post_estimated = False, bd_valid = 0, bd_comp = (\<lambda>_. 0), bd_stage = (\<lambda>_. 0),
     bd_stage_valid = 0\<rparr>"

definition ntp_breakdown ::
  "ntp_host_rec \<Rightarrow> ntp_tgt_rec option \<Rightarrow> ntp_model_err \<times> ntp_breakdown_t"
where
  "ntp_breakdown h t =
    (let out = zero_breakdown\<lparr>bd_io_class := ntp_io_class_of h\<rparr>
     in if hdr_transport (h_hdr h) = NTP_TR_RDMA
        then
          if \<not> have_all (h_ts h) host_req_rdma then (NTP_MODEL_INCOMPLETE_HOST, out)
          else
            let out = rdma_host_side h out
            in case t of
                 None \<Rightarrow> (NTP_MODEL_OK, stages out)
               | Some t \<Rightarrow>
                   let same_dir =
                         ((\<not> tgt_flag t NTP_F_WRITE) = (\<not> host_flag h NTP_F_WRITE));
                       (used, out) =
                         (if same_dir \<and> hdr_transport (t_hdr t) = NTP_TR_RDMA
                          then rdma_target_side t out else (False, out))
                   in if used then (NTP_MODEL_OK, stages (out\<lparr>bd_joined := True\<rparr>))
                      else (NTP_MODEL_INCOMPLETE_TARGET, stages out)
        else if \<not> host_complete h (bd_io_class out) then (NTP_MODEL_INCOMPLETE_HOST, out)
        else
          let out = host_side h out
          in case t of
               None \<Rightarrow> (NTP_MODEL_OK, stages out)
             | Some t \<Rightarrow>
                 let same_class =
                       (tgt_flag t NTP_F_R2T = (bd_io_class out = NTP_IO_CLASS_WRITE_R2T))
                 in if same_class \<and> target_complete t (bd_io_class out)
                    then (NTP_MODEL_OK, stages ((target_side t out)\<lparr>bd_joined := True\<rparr>))
                    else (NTP_MODEL_INCOMPLETE_TARGET, stages out))"

subsection \<open>Lemmas\<close>

lemma comp_ord_less: "ord_of (c :: ntp_comp) < 32"
  using ord_of_less [of c] by (simp add: enum_ntp_comp_def)

lemma stage_ord_less: "ord_of (s :: ntp_stage) < 32"
  using ord_of_less [of s] by (simp add: enum_ntp_stage_def)

lemma bd_comp_set_comp [simp]: "bd_comp (set_comp b c v) = (bd_comp b)(c := v)"
  by (simp add: set_comp_def)

lemma ntp_comp_valid_bit: "ntp_comp_valid b c \<longleftrightarrow> bit (bd_valid b) (ord_of c)"
  by (simp add: ntp_comp_valid_def has_flag_bit)

lemma ntp_stage_valid_bit: "ntp_stage_valid b s \<longleftrightarrow> bit (bd_stage_valid b) (ord_of s)"
  by (simp add: ntp_stage_valid_def has_flag_bit)

lemma ntp_comp_valid_set_comp [simp]:
  "ntp_comp_valid (set_comp b c v) c' \<longleftrightarrow> c' = c \<or> ntp_comp_valid b c'"
  using comp_ord_less [of c]
  by (auto simp: ntp_comp_valid_bit set_comp_def bit_simps bit_two_power)

lemma set_comp_frame [simp]:
  "bd_io_class (set_comp b c v) = bd_io_class b"
  "bd_joined (set_comp b c v) = bd_joined b"
  "bd_post_estimated (set_comp b c v) = bd_post_estimated b"
  "bd_stage (set_comp b c v) = bd_stage b"
  "bd_stage_valid (set_comp b c v) = bd_stage_valid b"
  by (simp_all add: set_comp_def)

lemma ntp_comp_valid_update [simp]:
  "ntp_comp_valid (b\<lparr>bd_comp := f\<rparr>) c = ntp_comp_valid b c"
  "ntp_comp_valid (b\<lparr>bd_io_class := k\<rparr>) c = ntp_comp_valid b c"
  "ntp_comp_valid (b\<lparr>bd_joined := j\<rparr>) c = ntp_comp_valid b c"
  "ntp_comp_valid (b\<lparr>bd_post_estimated := j\<rparr>) c = ntp_comp_valid b c"
  "ntp_comp_valid (b\<lparr>bd_stage := g\<rparr>) c = ntp_comp_valid b c"
  "ntp_comp_valid (b\<lparr>bd_stage_valid := w\<rparr>) c = ntp_comp_valid b c"
  by (simp_all add: ntp_comp_valid_def)

lemma split_remote_simps [simp]:
  "bd_comp (split_remote r b) =
    (bd_comp b)(NTP_C_NET := bd_comp b NTP_C_REMOTE - r, NTP_C_REMOTE := 0)"
  "ntp_comp_valid (split_remote r b) c \<longleftrightarrow>
    c \<noteq> NTP_C_REMOTE \<and> (c = NTP_C_NET \<or> ntp_comp_valid b c)"
  "bd_io_class (split_remote r b) = bd_io_class b"
  "bd_joined (split_remote r b) = bd_joined b"
  "bd_post_estimated (split_remote r b) = bd_post_estimated b"
  "bd_stage (split_remote r b) = bd_stage b"
  "bd_stage_valid (split_remote r b) = bd_stage_valid b"
  using comp_ord_less [of c] comp_ord_less [of NTP_C_NET]
  by (auto simp: split_remote_def Let_def ntp_comp_valid_bit set_comp_def bit_simps
      bit_two_power)

lemma zero_breakdown_simps [simp]:
  "\<not> ntp_comp_valid zero_breakdown c"
  "bd_comp zero_breakdown = (\<lambda>_. 0)"
  "bd_stage_valid zero_breakdown = 0"
  "bd_valid zero_breakdown = 0"
  "\<not> bd_joined zero_breakdown"
  by (simp_all add: zero_breakdown_def ntp_comp_valid_def)

lemma stage_frame [simp]:
  "bd_comp (stage b s ps es) = bd_comp b"
  "bd_valid (stage b s ps es) = bd_valid b"
  "bd_io_class (stage b s ps es) = bd_io_class b"
  "bd_joined (stage b s ps es) = bd_joined b"
  "bd_post_estimated (stage b s ps es) = bd_post_estimated b"
  "ntp_comp_valid (stage b s ps es) c = ntp_comp_valid b c"
  by (simp_all add: stage_def ntp_comp_valid_def split: option.splits)

lemma stages_frame [simp]:
  "bd_comp (stages b) = bd_comp b"
  "bd_valid (stages b) = bd_valid b"
  "bd_io_class (stages b) = bd_io_class b"
  "bd_joined (stages b) = bd_joined b"
  "bd_post_estimated (stages b) = bd_post_estimated b"
  "ntp_comp_valid (stages b) c = ntp_comp_valid b c"
  by (simp_all add: stages_def Let_def)

definition path_comps :: "ntp_comp list" where
  "path_comps = [NTP_C_BLK_SUB, NTP_C_TR_SUB, NTP_C_NET, NTP_C_TGT_RX, NTP_C_TGT_SUB,
     NTP_C_TGT_WAIT, NTP_C_TGT_DATA, NTP_C_TGT_BE, NTP_C_TGT_CMPL, NTP_C_HOST_RX,
     NTP_C_HOST_WAIT, NTP_C_HOST_DATA, NTP_C_TR_CMPL, NTP_C_BLK_CMPL, NTP_C_REMOTE]"

definition comp_or_0 :: "ntp_breakdown_t \<Rightarrow> ntp_comp \<Rightarrow> i64" where
  "comp_or_0 b c = (if ntp_comp_valid b c then bd_comp b c else 0)"

definition path_sum :: "ntp_breakdown_t \<Rightarrow> i64" where
  "path_sum b = sum_list (map (comp_or_0 b) path_comps)"

lemma path_sum_stages [simp]: "path_sum (stages b) = path_sum b"
  by (simp add: path_sum_def comp_or_0_def path_comps_def)

definition tgt_comps :: "ntp_comp list" where
  "tgt_comps = [NTP_C_NET, NTP_C_TGT_RX, NTP_C_TGT_SUB, NTP_C_TGT_WAIT, NTP_C_TGT_DATA,
     NTP_C_TGT_BE, NTP_C_TGT_CMPL]"

definition host_only :: "ntp_breakdown_t \<Rightarrow> bool" where
  "host_only b \<longleftrightarrow> ntp_comp_valid b NTP_C_REMOTE \<and> list_all (\<lambda>c. \<not> ntp_comp_valid b c) tgt_comps"

lemmas host_defs = host_side_def rdma_host_side_def common_host_def read_data_phase_def data_phase_def Let_def 
lemmas path_defs = path_sum_def path_comps_def comp_or_0_def d_ns_def

lemma host_side_host_only: "host_only (host_side h (zero_breakdown\<lparr>bd_io_class := k\<rparr>))"
  by (cases k) (simp_all add: host_defs host_only_def tgt_comps_def)

lemma rdma_host_side_host_only: "host_only (rdma_host_side h (zero_breakdown\<lparr>bd_io_class := k\<rparr>))"
  by (simp add: host_defs host_only_def tgt_comps_def)


lemma backend_details_comp:
  "c \<notin> {NTP_C_TGT_BE_SUB, NTP_C_TGT_DEV, NTP_C_TGT_BE_CMPL} \<Longrightarrow>
    bd_comp (backend_details T b) c = bd_comp b c \<and>
    ntp_comp_valid (backend_details T b) c = ntp_comp_valid b c"
  by (auto simp: backend_details_def Let_def)

lemma path_sum_host_side:
  "path_sum (host_side h (zero_breakdown\<lparr>bd_io_class := k\<rparr>)) =
   bd_comp (host_side h (zero_breakdown\<lparr>bd_io_class := k\<rparr>)) NTP_C_E2E"
  by (cases k) (simp_all add: host_defs path_defs)

lemma path_sum_rdma_host_side:
  "path_sum (rdma_host_side h (zero_breakdown\<lparr>bd_io_class := k\<rparr>)) =
   bd_comp (rdma_host_side h (zero_breakdown\<lparr>bd_io_class := k\<rparr>)) NTP_C_E2E"
  by (simp add: host_defs path_defs)

lemma sum_list_map_upd:
  fixes f :: "'c \<Rightarrow> 'b::ab_group_add"
  assumes "distinct xs" and "c \<in> set xs"
  shows "sum_list (map (f(c := v)) xs) = sum_list (map f xs) - f c + v"
  using assms
proof (induction xs)
  case Nil
  then show ?case by simp
next
  case (Cons x xs)
  show ?case
  proof (cases "x = c")
    case True
    with Cons.prems have "map (f(c := v)) xs = map f xs"
      by (intro map_cong) auto
    with True have "sum_list (map (f(c := v)) (x # xs)) = v + sum_list (map f xs)"
      by (simp only: list.map sum_list.Cons fun_upd_same)
    with True show ?thesis by (simp only: list.map sum_list.Cons) simp
  next
    case False
    with Cons show ?thesis by (simp add: algebra_simps)
  qed
qed

lemma comp_or_0_set_comp: "comp_or_0 (set_comp b c v) = (comp_or_0 b)(c := v)"
  by (auto simp: comp_or_0_def)

lemma distinct_path_comps: "distinct path_comps"
  by (simp add: path_comps_def)

lemma path_sum_set_comp:
  "\<not> ntp_comp_valid b c \<Longrightarrow> c \<in> set path_comps \<Longrightarrow>
    path_sum (set_comp b c v) = path_sum b + v"
  by (simp add: path_sum_def comp_or_0_set_comp comp_or_0_def sum_list_map_upd
      distinct_path_comps)

lemma path_sum_set_detail:
  "c \<notin> set path_comps \<Longrightarrow> path_sum (set_comp b c v) = path_sum b"
  unfolding path_sum_def comp_or_0_set_comp by (simp add: map_fun_upd)

lemma path_sum_zero: "path_sum (zero_breakdown\<lparr>bd_io_class := k\<rparr>) = 0"
  by (simp add: path_sum_def path_comps_def comp_or_0_def)

lemma path_sum_update [simp]:
  "path_sum (b\<lparr>bd_joined := j\<rparr>) = path_sum b"
  "path_sum (b\<lparr>bd_io_class := k\<rparr>) = path_sum b"
  "path_sum (b\<lparr>bd_post_estimated := e\<rparr>) = path_sum b"
  by (simp_all add: path_sum_def comp_or_0_def path_comps_def)

lemma path_sum_backend_details [simp]: "path_sum (backend_details T b) = path_sum b"
  by (simp add: path_sum_def comp_or_0_def path_comps_def backend_details_comp)

lemma path_sum_split_remote:
  "ntp_comp_valid b NTP_C_REMOTE \<Longrightarrow> \<not> ntp_comp_valid b NTP_C_NET \<Longrightarrow>
    path_sum (split_remote r b) = path_sum b - r"
  by (simp add: path_sum_def path_comps_def comp_or_0_def)

lemma in_path_comps: "c \<in> set path_comps \<longleftrightarrow> c \<notin> {NTP_C_E2E, NTP_C_TGT_BE_SUB, NTP_C_TGT_DEV, NTP_C_TGT_BE_CMPL, NTP_C_CMPL_IPI, NTP_C_NET_DATA}"
  by (cases c) (simp_all add: path_comps_def)

lemmas path_sum_rules = path_sum_set_comp path_sum_set_detail in_path_comps path_sum_split_remote path_sum_zero d_ns_def

lemma path_sum_target_side:
  "host_only b \<Longrightarrow> path_sum (target_side t b) = path_sum b"
  by (cases "bd_io_class b")
   (simp_all add: target_side_def write_data_phase_def data_phase_def Let_def host_only_def tgt_comps_def path_sum_rules)

lemma path_sum_rdma_target_side:
  "host_only b \<Longrightarrow> rdma_target_side t b = (True, b') \<Longrightarrow> path_sum b' = path_sum b"
  by (auto simp add: rdma_target_side_def Let_def host_only_def tgt_comps_def path_sum_rules split: option.splits if_splits)

subsection \<open>The two halves of a breakdown\<close>

text \<open>
  Whatever the transport, a breakdown is a host half and, for a target record that can be used,
  a target half. The abbreviations name the two; \<open>ntp_breakdown_eq\<close> is the normal form that the
  properties below are proved on.
\<close>

definition host_ok :: "ntp_host_rec \<Rightarrow> bool" where
  "host_ok h = (if hdr_transport (h_hdr h) = NTP_TR_RDMA then have_all (h_ts h) host_req_rdma
     else host_complete h (ntp_io_class_of h))"

definition host_half :: "ntp_host_rec \<Rightarrow> ntp_breakdown_t" where
  "host_half h =
    (let out = zero_breakdown\<lparr>bd_io_class := ntp_io_class_of h\<rparr>
     in if hdr_transport (h_hdr h) = NTP_TR_RDMA then rdma_host_side h out else host_side h out)"

definition target_half :: "ntp_host_rec \<Rightarrow> ntp_tgt_rec \<Rightarrow> bool \<times> ntp_breakdown_t" where
  "target_half h t =
    (if hdr_transport (h_hdr h) = NTP_TR_RDMA
     then if tgt_flag t NTP_F_WRITE = host_flag h NTP_F_WRITE \<and>
             hdr_transport (t_hdr t) = NTP_TR_RDMA
          then rdma_target_side t (host_half h) else (False, host_half h)
     else if tgt_flag t NTP_F_R2T = (ntp_io_class_of h = NTP_IO_CLASS_WRITE_R2T) \<and>
             target_complete t (ntp_io_class_of h)
          then (True, target_side t (host_half h)) else (False, host_half h))"

lemma common_host_class [simp]: "bd_io_class (common_host h b) = bd_io_class b"
  by (simp add: common_host_def Let_def)

lemma host_side_class [simp]: "bd_io_class (host_side h b) = bd_io_class b"
  by (cases "bd_io_class b") (simp_all add: host_side_def read_data_phase_def data_phase_def Let_def)

lemma ntp_breakdown_eq:
  "ntp_breakdown h t =
    (if \<not> host_ok h
     then (NTP_MODEL_INCOMPLETE_HOST, zero_breakdown\<lparr>bd_io_class := ntp_io_class_of h\<rparr>)
     else case t of
            None \<Rightarrow> (NTP_MODEL_OK, stages (host_half h))
          | Some t \<Rightarrow>
              (let (used, b) = target_half h t
               in if used then (NTP_MODEL_OK, stages (b\<lparr>bd_joined := True\<rparr>))
                  else (NTP_MODEL_INCOMPLETE_TARGET, stages b)))"
  by (simp add: ntp_breakdown_def host_ok_def host_half_def target_half_def Let_def split: option.splits)

lemma rdma_target_side_unused: "rdma_target_side t b = (False, b') \<Longrightarrow> b' = b"
  by (auto simp: rdma_target_side_def Let_def split: option.splits if_splits)

lemma target_half_unused: "target_half h t = (False, b) \<Longrightarrow> b = host_half h"
  by (auto simp: target_half_def dest: rdma_target_side_unused split: if_splits)

definition host_comps :: "ntp_comp set" where
  "host_comps = {NTP_C_BLK_SUB, NTP_C_TR_SUB, NTP_C_HOST_RX, NTP_C_HOST_WAIT, NTP_C_HOST_DATA,
     NTP_C_TR_CMPL, NTP_C_BLK_CMPL, NTP_C_E2E, NTP_C_CMPL_IPI}"

definition same_host_comps :: "ntp_breakdown_t \<Rightarrow> ntp_breakdown_t \<Rightarrow> bool" where
  "same_host_comps b b' \<longleftrightarrow>
    (\<forall>c \<in> host_comps. bd_comp b' c = bd_comp b c \<and> ntp_comp_valid b' c = ntp_comp_valid b c)"

lemma target_side_host_comps: "same_host_comps b (target_side t b)"
  by (cases "bd_io_class b")
   (simp_all add: same_host_comps_def host_comps_def target_side_def write_data_phase_def data_phase_def Let_def backend_details_comp)

lemma rdma_target_side_host_comps:
  "rdma_target_side t b = (True, b') \<Longrightarrow> same_host_comps b b'"
  unfolding same_host_comps_def host_comps_def
  by (auto simp: rdma_target_side_def Let_def backend_details_comp split: option.splits if_splits)

subsection \<open>The stage sums\<close>

lemma stage_parts_eq:
  "stage_parts b ps acc =
    (if list_all (ntp_comp_valid b) ps then Some (acc + sum_list (map (bd_comp b) ps)) else None)"
  by (induction ps arbitrary: acc) (auto simp: algebra_simps)

lemma stage_extras_eq: "stage_extras b es acc = acc + sum_list (map (comp_or_0 b) es)"
  by (induction es arbitrary: acc) (auto simp: comp_or_0_def algebra_simps)

lemma ntp_stage_valid_stage:
  "ntp_stage_valid (stage b s ps es) s' \<longleftrightarrow>
    (s' = s \<and> list_all (ntp_comp_valid b) ps) \<or> ntp_stage_valid b s'"
  using stage_ord_less [of s]
  by (auto simp: stage_def stage_parts_eq ntp_stage_valid_bit bit_simps bit_two_power)

lemma bd_stage_stage:
  "bd_stage (stage b s ps es) s' =
    (if s' = s \<and> list_all (ntp_comp_valid b) ps
     then sum_list (map (bd_comp b) ps) + sum_list (map (comp_or_0 b) es)
     else bd_stage b s')"
  by (simp add: stage_def stage_parts_eq stage_extras_eq)

lemma comp_or_0_stage [simp]: "comp_or_0 (stage b s ps es) = comp_or_0 b"
  by (auto simp: comp_or_0_def)

definition stage_parts_of :: "ntp_stage \<Rightarrow> ntp_comp list" where
  "stage_parts_of s =
    (case s of NTP_S1 \<Rightarrow> [NTP_C_BLK_SUB, NTP_C_BLK_CMPL]
     | NTP_S2 \<Rightarrow> [NTP_C_TR_SUB, NTP_C_TR_CMPL]
     | NTP_S3_S5 \<Rightarrow> [NTP_C_NET, NTP_C_TGT_RX, NTP_C_HOST_RX]
     | NTP_S6 \<Rightarrow> [NTP_C_TGT_SUB, NTP_C_TGT_CMPL]
     | NTP_S7_S9 \<Rightarrow> [NTP_C_TGT_BE])"

definition stage_extras_of :: "ntp_stage \<Rightarrow> ntp_comp list" where
  "stage_extras_of s =
    (case s of NTP_S1 \<Rightarrow> [] | NTP_S2 \<Rightarrow> [NTP_C_HOST_DATA]
     | NTP_S3_S5 \<Rightarrow> [NTP_C_HOST_WAIT, NTP_C_TGT_WAIT] | NTP_S6 \<Rightarrow> [NTP_C_TGT_DATA]
     | NTP_S7_S9 \<Rightarrow> [])"

lemma ntp_stage_valid_0: "bd_stage_valid b = 0 \<Longrightarrow> \<not> ntp_stage_valid b s"
  by (simp add: ntp_stage_valid_def)

lemma ntp_stage_valid_stages:
  "bd_stage_valid b = 0 \<Longrightarrow>
    ntp_stage_valid (stages b) s \<longleftrightarrow> list_all (ntp_comp_valid b) (stage_parts_of s)"
  by (cases s) (simp_all add: stages_def Let_def ntp_stage_valid_stage stage_parts_of_def
      ntp_stage_valid_0)

lemma bd_stage_stages:
  "list_all (ntp_comp_valid b) (stage_parts_of s) \<Longrightarrow>
    bd_stage (stages b) s =
      sum_list (map (comp_or_0 b) (stage_parts_of s @ stage_extras_of s))"
  by (cases s) (simp_all add: stages_def Let_def bd_stage_stage stage_parts_of_def
      stage_extras_of_def comp_or_0_def)

text \<open>Every path component but the one that only a host-only breakdown has is in one stage.\<close>

lemma stage_comps_path:
  "mset (concat (map (\<lambda>s. stage_parts_of s @ stage_extras_of s) enum_class.enum)) =
   mset (remove1 NTP_C_REMOTE path_comps)"
  by (simp add: enum_ntp_stage_def stage_parts_of_def stage_extras_of_def path_comps_def)

lemma sum_stages_path_sum:
  "(\<Sum>s\<leftarrow>enum_class.enum. sum_list (map (comp_or_0 b) (stage_parts_of s @ stage_extras_of s))) =
   path_sum b - comp_or_0 b NTP_C_REMOTE"
  by (simp add: enum_ntp_stage_def stage_parts_of_def stage_extras_of_def path_comps_def path_sum_def)

subsection \<open>What each half sets\<close>

lemma host_half_host_only: "host_only (host_half h)"
  by (simp add: host_half_def Let_def host_side_host_only rdma_host_side_host_only)

lemma host_half_path_sum: "path_sum (host_half h) = bd_comp (host_half h) NTP_C_E2E"
  by (simp add: host_half_def Let_def path_sum_host_side path_sum_rdma_host_side)

lemma common_host_frame [simp]:
  "bd_stage_valid (common_host h b) = bd_stage_valid b"
  "bd_joined (common_host h b) = bd_joined b"
  by (simp_all add: common_host_def Let_def)

lemma host_half_frame [simp]:
  "bd_stage_valid (host_half h) = 0" "\<not> bd_joined (host_half h)"
  by (cases "ntp_io_class_of h"; simp add: host_half_def host_side_def rdma_host_side_def read_data_phase_def data_phase_def Let_def)+

lemma host_half_valid:
  "ntp_comp_valid (host_half h) NTP_C_E2E"
  "ntp_comp_valid (host_half h) NTP_C_TR_SUB"
  "ntp_comp_valid (host_half h) NTP_C_TR_CMPL"
  "ntp_comp_valid (host_half h) NTP_C_BLK_CMPL"
  "ntp_comp_valid (host_half h) NTP_C_HOST_RX"
  by (cases "ntp_io_class_of h"; simp add: host_half_def host_defs)+

lemma target_half_path_sum: "target_half h t = (True, b) \<Longrightarrow> path_sum b = path_sum (host_half h)"
  using host_half_host_only [of h]
  by (auto simp: target_half_def path_sum_target_side path_sum_rdma_target_side split: if_splits)

lemma target_half_host_comps: "target_half h t = (True, b) \<Longrightarrow> same_host_comps (host_half h) b"
  by (auto simp: target_half_def target_side_host_comps rdma_target_side_host_comps split: if_splits)

lemma backend_details_frame [simp]:
  "bd_stage_valid (backend_details T b) = bd_stage_valid b"
  by (simp add: backend_details_def Let_def)

lemma target_side_sets:
  "bd_stage_valid (target_side t b) = bd_stage_valid b"
  "\<not> ntp_comp_valid (target_side t b) NTP_C_REMOTE"
  "list_all (ntp_comp_valid (target_side t b))
    [NTP_C_NET, NTP_C_TGT_RX, NTP_C_TGT_SUB, NTP_C_TGT_CMPL, NTP_C_TGT_BE]"
  by (cases "bd_io_class b"; simp add: target_side_def write_data_phase_def data_phase_def Let_def
      backend_details_comp)+

lemma rdma_target_side_sets:
  assumes "rdma_target_side t b = (True, b')"
  shows "bd_stage_valid b' = bd_stage_valid b"
    and "\<not> ntp_comp_valid b' NTP_C_REMOTE"
    and "list_all (ntp_comp_valid b')
      [NTP_C_NET, NTP_C_TGT_RX, NTP_C_TGT_SUB, NTP_C_TGT_CMPL, NTP_C_TGT_BE]"
  using assms
  by (auto simp: rdma_target_side_def Let_def backend_details_comp split: option.splits if_splits)

lemma target_half_sets:
  assumes "target_half h t = (True, b)"
  shows "bd_stage_valid b = 0"
    and "\<not> ntp_comp_valid b NTP_C_REMOTE"
    and "list_all (ntp_comp_valid b)
      [NTP_C_NET, NTP_C_TGT_RX, NTP_C_TGT_SUB, NTP_C_TGT_CMPL, NTP_C_TGT_BE]"
  using assms target_side_sets [of t "host_half h"] rdma_target_side_sets [of t "host_half h" b]
  by (auto simp: target_half_def split: if_splits)

subsection \<open>Signed values\<close>

text \<open>
  The path of a command seen at the host, from \<open>->queue_rq()\<close> on: the events in the order in which
  they happen, each with the component that the time since the event before it belongs to. The
  block layer's start and the end of the data phase of a TCP read are optional events: the path
  starts at the first and has the second in it where the record has them.
\<close>

definition host_path :: "ntp_host_rec \<Rightarrow> (ntp_comp \<times> ntp_host_ts) list" where
  "host_path h =
    (if hdr_transport (h_hdr h) \<noteq> NTP_TR_RDMA \<and> \<not> host_flag h NTP_F_WRITE
     then [(NTP_C_TR_SUB, NTP_H_CMD_SENT), (NTP_C_REMOTE, NTP_H_C2H_ARR),
           (NTP_C_HOST_RX, NTP_H_C2H_PROC), (NTP_C_TR_CMPL, NTP_H_RSP_PROC),
           (NTP_C_BLK_CMPL, NTP_H_BLK_DONE)]
     else if hdr_transport (h_hdr h) \<noteq> NTP_TR_RDMA \<and> host_flag h NTP_F_R2T
     then [(NTP_C_TR_SUB, NTP_H_CMD_SENT), (NTP_C_REMOTE, NTP_H_R2T_ARR),
           (NTP_C_HOST_RX, NTP_H_R2T_PROC), (NTP_C_TR_SUB, NTP_H_DATA_START),
           (NTP_C_REMOTE, NTP_H_RSP_ARR), (NTP_C_HOST_RX, NTP_H_RSP_PROC),
           (NTP_C_BLK_CMPL, NTP_H_BLK_DONE)]
     else [(NTP_C_TR_SUB, NTP_H_CMD_SENT), (NTP_C_REMOTE, NTP_H_RSP_ARR),
           (NTP_C_HOST_RX, NTP_H_RSP_PROC), (NTP_C_BLK_CMPL, NTP_H_BLK_DONE)])"

text \<open>The events on the path, which are the ones a record must have.\<close>

definition path_events :: "ntp_host_rec \<Rightarrow> ntp_host_ts list" where
  "path_events h = NTP_H_QUEUE_RQ # map snd (host_path h)"

definition host_start :: "ntp_host_rec \<Rightarrow> ntp_host_ts" where
  "host_start h =
    (if h_ts h NTP_H_START \<noteq> 0 \<and> h_ts h NTP_H_START \<le> h_ts h NTP_H_QUEUE_RQ
     then NTP_H_START else NTP_H_QUEUE_RQ)"

text \<open>A TCP read has a data phase, which ends at \<open>NTP_H_C2H_DONE\<close>.\<close>

definition data_seen :: "ntp_host_rec \<Rightarrow> bool" where
  "data_seen h \<longleftrightarrow>
    hdr_transport (h_hdr h) \<noteq> NTP_TR_RDMA \<and> \<not> host_flag h NTP_F_WRITE \<and>
    h_c2h_busy_ns h \<noteq> 0 \<and> h_ts h NTP_H_C2H_DONE \<noteq> 0 \<and>
    h_ts h NTP_H_C2H_PROC \<le> h_ts h NTP_H_C2H_DONE \<and> h_ts h NTP_H_C2H_DONE \<le> h_ts h NTP_H_RSP_PROC"

fun data_between :: "(ntp_comp \<times> ntp_host_ts) list \<Rightarrow> (ntp_comp \<times> ntp_host_ts) list" where
  "data_between [] = []"
| "data_between ((c, e) # p) =
    (if c = NTP_C_TR_CMPL then (NTP_C_HOST_DATA, NTP_H_C2H_DONE) # (c, e) # p
     else (c, e) # data_between p)"

definition host_timeline :: "ntp_host_rec \<Rightarrow> (ntp_comp \<times> ntp_host_ts) list" where
  "host_timeline h = (NTP_C_BLK_SUB, NTP_H_QUEUE_RQ) #
    (if data_seen h then data_between (host_path h) else host_path h)"

text \<open>The time that component \<open>c\<close> has on a path that starts at event \<open>s\<close>.\<close>

fun time_in :: "('e \<Rightarrow> u64) \<Rightarrow> 'e \<Rightarrow> (ntp_comp \<times> 'e) list \<Rightarrow> ntp_comp \<Rightarrow> int" where
  "time_in ts s [] c = 0"
| "time_in ts s ((c', e) # p) c =
    (if c' = c then uint (ts e) - uint (ts s) else 0) + time_in ts e p c"

definition host_time :: "ntp_host_rec \<Rightarrow> ntp_comp \<Rightarrow> int" where
  "host_time h c = time_in (h_ts h) (host_start h) (host_timeline h) c"

text \<open>Events in path order, at times a signed 64-bit value can hold (292 years of ns).\<close>

definition in_path_order :: "('e \<Rightarrow> u64) \<Rightarrow> 'e list \<Rightarrow> bool" where
  "in_path_order ts idx \<longleftrightarrow> sorted (map ts idx) \<and> ts (last idx) < 2 ^ 63"

lemma have_all_iff: "have_all ts idx \<longleftrightarrow> (\<forall>i \<in> set idx. ts i \<noteq> 0)"
  by (induction idx) auto

lemma data_phase_exact:
  assumes "data_phase first done nxt busy_ns bc wc b = (True, b')" and "bc \<noteq> wc"
    and "nxt < 2 ^ 63"
  shows "sint (bd_comp b' bc) = min (uint busy_ns) (uint done - uint first)"
    and "sint (bd_comp b' bc) + sint (bd_comp b' wc) = uint done - uint first"
    and "0 \<le> sint (bd_comp b' bc)" and "0 \<le> sint (bd_comp b' wc)"
proof -
  define span where "span = done - first"
  have ord: "first \<le> done" "done < 2 ^ 63"
    using assms by (auto simp: data_phase_def Let_def split: if_splits)
  have span: "uint span = uint done - uint first"
    unfolding span_def using ord(1) by (rule uint_diff)
  have lim: "span < 2 ^ 63"
    unfolding span_def using word_sub_le [OF ord(1)] ord(2) by (rule le_less_trans)
  have b': "b' = set_comp (set_comp b bc (if busy_ns > span then span else busy_ns)) wc
      (span - (if busy_ns > span then span else busy_ns))"
    using assms(1) by (auto simp: data_phase_def Let_def span_def d_ns_def split: if_splits)
  show "sint (bd_comp b' bc) = min (uint busy_ns) (uint done - uint first)"
    using assms(2) lim span by (auto simp: b' sint_eq_uint min_def word_less_def)
  show "sint (bd_comp b' bc) + sint (bd_comp b' wc) = uint done - uint first"
    using assms(2) lim span by (auto simp: b' sint_eq_uint sint_diff word_less_def word_le_def)
  show "0 \<le> sint (bd_comp b' bc)" "0 \<le> sint (bd_comp b' wc)"
    using assms(2) lim by (auto simp: b' sint_eq_uint sint_diff word_less_def word_le_def)
qed

lemma comp_or_0_stages [simp]: "comp_or_0 (stages b) = comp_or_0 b"
  by (auto simp: comp_or_0_def)

lemma sint_diff': 
  "uint a \<le> uint b \<Longrightarrow> uint b < 9223372036854775808 \<Longrightarrow> sint (b - a :: 64 word) = uint b - uint a"
  by (rule sint_diff) (simp_all add: word_le_def word_less_def)

lemma sint_diff_add': 
  "uint a \<le> uint b \<Longrightarrow> uint b \<le> uint c \<Longrightarrow> uint c \<le> uint e \<Longrightarrow> uint e < 9223372036854775808 \<Longrightarrow>
    sint ((b - a) + (e - c) :: 64 word) = (uint b - uint a) + (uint e - uint c)"
  by (rule sint_diff_add) (simp_all add: word_le_def word_less_def)

lemmas sint_exact = sint_diff' sint_diff_add'

lemma data_phase_False: "data_phase first done nxt busy_ns bc wc b = (False, b') \<Longrightarrow> b' = b"
  by (auto simp: data_phase_def Let_def split: if_splits)

lemma data_phase_True:
  assumes "data_phase first done nxt busy_ns bc wc b = (True, b')"
  shows "c \<noteq> bc \<Longrightarrow> c \<noteq> wc \<Longrightarrow> bd_comp b' c = bd_comp b c"
    and "ntp_comp_valid b' c \<longleftrightarrow> c = wc \<or> c = bc \<or> ntp_comp_valid b c"
    and "uint first \<le> uint done" and "uint done \<le> uint nxt"
  using assms by (auto simp: data_phase_def Let_def word_le_def word_less_def split: if_splits)

lemma comp_or_0_data_phase:
  "data_phase first done nxt busy_ns bc wc b = (True, b') \<Longrightarrow> bc \<noteq> wc \<Longrightarrow>
    comp_or_0 b' = (comp_or_0 b)(bc := bd_comp b' bc, wc := bd_comp b' wc)"
  by (rule ext) (auto simp: comp_or_0_def data_phase_True)

text \<open>What a read has before its data phase.\<close>

definition read_start :: "ntp_host_rec \<Rightarrow> ntp_breakdown_t" where
  "read_start h =
    set_comp
      (set_comp (common_host h (zero_breakdown\<lparr>bd_io_class := NTP_IO_CLASS_READ\<rparr>))
        NTP_C_REMOTE (d_ns (h_ts h NTP_H_C2H_ARR) (h_ts h NTP_H_CMD_SENT)))
      NTP_C_HOST_RX (d_ns (h_ts h NTP_H_C2H_PROC) (h_ts h NTP_H_C2H_ARR))"

lemma host_half_read:
  assumes "hdr_transport (h_hdr h) \<noteq> NTP_TR_RDMA" and "ntp_io_class_of h = NTP_IO_CLASS_READ"
  shows "host_half h = read_data_phase h (read_start h)"
  using assms by (simp add: host_half_def host_side_def read_start_def Let_def)

lemma host_ok_events: "host_ok h \<longleftrightarrow> (\<forall>e \<in> set (path_events h). h_ts h e \<noteq> 0)"
  by (auto simp: host_ok_def host_complete_def have_all_iff req_defs path_events_def host_path_def
      ntp_io_class_of_def)

text \<open>What the components of the host have to be.\<close>

definition host_exact :: "ntp_breakdown_t \<Rightarrow> ntp_host_rec \<Rightarrow> bool" where
  "host_exact b h \<longleftrightarrow>
    (\<forall>c \<in> {NTP_C_BLK_SUB, NTP_C_TR_SUB, NTP_C_HOST_RX, NTP_C_TR_CMPL, NTP_C_BLK_CMPL}.
       sint (comp_or_0 b c) = host_time h c) \<and>
    sint (comp_or_0 b NTP_C_HOST_DATA) = min (uint (h_c2h_busy_ns h)) (host_time h NTP_C_HOST_DATA) \<and>
    sint (comp_or_0 b NTP_C_HOST_DATA) + sint (comp_or_0 b NTP_C_HOST_WAIT) = host_time h NTP_C_HOST_DATA \<and>
    sint (comp_or_0 b NTP_C_E2E) = uint (h_ts h NTP_H_BLK_DONE) - uint (h_ts h (host_start h))"

lemmas path_value_defs = in_path_order_def path_events_def host_path_def host_timeline_def host_time_def
  host_start_def ntp_io_class_of_def data_seen_def

lemma common_host_values:
  assumes "in_path_order (h_ts h) (path_events h)"
  shows "sint (comp_or_0 (common_host h (zero_breakdown\<lparr>bd_io_class := k\<rparr>)) NTP_C_BLK_SUB) =
      uint (h_ts h NTP_H_QUEUE_RQ) - uint (h_ts h (host_start h))"
    "sint (comp_or_0 (common_host h (zero_breakdown\<lparr>bd_io_class := k\<rparr>)) NTP_C_TR_SUB) =
      uint (h_ts h NTP_H_CMD_SENT) - uint (h_ts h NTP_H_QUEUE_RQ)"
    "sint (comp_or_0 (common_host h (zero_breakdown\<lparr>bd_io_class := k\<rparr>)) NTP_C_BLK_CMPL) =
      uint (h_ts h NTP_H_BLK_DONE) - uint (h_ts h NTP_H_RSP_PROC)"
    "sint (comp_or_0 (common_host h (zero_breakdown\<lparr>bd_io_class := k\<rparr>)) NTP_C_E2E) =
      uint (h_ts h NTP_H_BLK_DONE) - uint (h_ts h (host_start h))"
  using assms
  by (auto simp add: path_value_defs common_host_def Let_def comp_or_0_def d_ns_def sint_exact word_le_def word_less_def split: if_splits)

lemma host_half_values_single:
  assumes ord: "in_path_order (h_ts h) (path_events h)"
    and cls: "hdr_transport (h_hdr h) = NTP_TR_RDMA \<or> ntp_io_class_of h = NTP_IO_CLASS_WRITE_INLINE"
  shows "host_exact (host_half h) h"
    and "sint (comp_or_0 (host_half h) NTP_C_REMOTE) = host_time h NTP_C_REMOTE"
proof -
  define b where "b = common_host h (zero_breakdown\<lparr>bd_io_class := ntp_io_class_of h\<rparr>)"
  have half: "host_half h = set_comp (set_comp (set_comp b NTP_C_REMOTE
      (d_ns (h_ts h NTP_H_RSP_ARR) (h_ts h NTP_H_CMD_SENT)))
      NTP_C_HOST_RX (d_ns (h_ts h NTP_H_RSP_PROC) (h_ts h NTP_H_RSP_ARR))) NTP_C_TR_CMPL 0"
    using cls by (auto simp: host_half_def b_def host_side_def rdma_host_side_def Let_def)
  have path: "host_path h = [(NTP_C_TR_SUB, NTP_H_CMD_SENT), (NTP_C_REMOTE, NTP_H_RSP_ARR),
      (NTP_C_HOST_RX, NTP_H_RSP_PROC), (NTP_C_BLK_CMPL, NTP_H_BLK_DONE)]" "\<not> data_seen h"
    using cls by (auto simp: host_path_def ntp_io_class_of_def data_seen_def split: if_splits)
  have none: "comp_or_0 b NTP_C_HOST_DATA = 0" "comp_or_0 b NTP_C_HOST_WAIT = 0"
    by (simp_all add: b_def comp_or_0_def common_host_def Let_def)
  note common = common_host_values [OF ord, of "ntp_io_class_of h", folded b_def]
  show "host_exact (host_half h) h"
    and "sint (comp_or_0 (host_half h) NTP_C_REMOTE) = host_time h NTP_C_REMOTE"
    using common none ord path
    by (simp_all add: half comp_or_0_set_comp host_exact_def host_time_def host_timeline_def d_ns_def
        sint_exact in_path_order_def path_events_def word_le_def word_less_def)
qed

lemma host_half_values_r2t:
  assumes ord: "in_path_order (h_ts h) (path_events h)"
    and tr: "hdr_transport (h_hdr h) \<noteq> NTP_TR_RDMA" and cls: "ntp_io_class_of h = NTP_IO_CLASS_WRITE_R2T"
  shows "host_exact (host_half h) h"
    and "sint (comp_or_0 (host_half h) NTP_C_REMOTE) = host_time h NTP_C_REMOTE"
proof -
  define b where "b = common_host h (zero_breakdown\<lparr>bd_io_class := ntp_io_class_of h\<rparr>)"
  let ?H = "h_ts h"
  have b: "bd_comp b NTP_C_TR_SUB = d_ns (?H NTP_H_CMD_SENT) (?H NTP_H_QUEUE_RQ)" "ntp_comp_valid b NTP_C_TR_SUB"
    "bd_io_class b = NTP_IO_CLASS_WRITE_R2T"
    using cls by (simp_all add: b_def common_host_def Let_def)
  have half: "host_half h = set_comp (set_comp (set_comp
      (b\<lparr>bd_comp := (bd_comp b)(NTP_C_TR_SUB := bd_comp b NTP_C_TR_SUB +
         d_ns (?H NTP_H_DATA_START) (?H NTP_H_R2T_PROC))\<rparr>)
      NTP_C_REMOTE (d_ns (?H NTP_H_R2T_ARR) (?H NTP_H_CMD_SENT) + d_ns (?H NTP_H_RSP_ARR) (?H NTP_H_DATA_START)))
      NTP_C_HOST_RX (d_ns (?H NTP_H_R2T_PROC) (?H NTP_H_R2T_ARR) + d_ns (?H NTP_H_RSP_PROC) (?H NTP_H_RSP_ARR)))
      NTP_C_TR_CMPL 0"
    using tr cls by (simp add: host_half_def host_side_def Let_def b_def)
  have "comp_or_0 (host_half h) = (comp_or_0 b)
      (NTP_C_TR_SUB := d_ns (?H NTP_H_CMD_SENT) (?H NTP_H_QUEUE_RQ) + d_ns (?H NTP_H_DATA_START) (?H NTP_H_R2T_PROC),
       NTP_C_REMOTE := d_ns (?H NTP_H_R2T_ARR) (?H NTP_H_CMD_SENT) + d_ns (?H NTP_H_RSP_ARR) (?H NTP_H_DATA_START),
       NTP_C_HOST_RX := d_ns (?H NTP_H_R2T_PROC) (?H NTP_H_R2T_ARR) + d_ns (?H NTP_H_RSP_PROC) (?H NTP_H_RSP_ARR),
       NTP_C_TR_CMPL := 0)"
    by (rule ext) (auto simp: half comp_or_0_def b)
  moreover have path: "host_path h = [(NTP_C_TR_SUB, NTP_H_CMD_SENT), (NTP_C_REMOTE, NTP_H_R2T_ARR),
      (NTP_C_HOST_RX, NTP_H_R2T_PROC), (NTP_C_TR_SUB, NTP_H_DATA_START),
      (NTP_C_REMOTE, NTP_H_RSP_ARR), (NTP_C_HOST_RX, NTP_H_RSP_PROC),
      (NTP_C_BLK_CMPL, NTP_H_BLK_DONE)]" "\<not> data_seen h"
    using tr cls by (auto simp: host_path_def ntp_io_class_of_def data_seen_def split: if_splits)
  moreover have none: "comp_or_0 b NTP_C_HOST_DATA = 0" "comp_or_0 b NTP_C_HOST_WAIT = 0"
    by (simp_all add: b_def comp_or_0_def common_host_def Let_def)
  moreover note common_host_values [OF ord, of "ntp_io_class_of h", folded b_def] ord
  ultimately show "host_exact (host_half h) h"
    and "sint (comp_or_0 (host_half h) NTP_C_REMOTE) = host_time h NTP_C_REMOTE"
    by (simp_all add: host_exact_def host_time_def host_timeline_def d_ns_def
        sint_exact in_path_order_def path_events_def word_le_def word_less_def)
qed

lemma read_start_values:
  assumes "in_path_order (h_ts h) (path_events h)"
    and "hdr_transport (h_hdr h) \<noteq> NTP_TR_RDMA" "\<not> host_flag h NTP_F_WRITE"
  shows "sint (comp_or_0 (read_start h) NTP_C_REMOTE) =
      uint (h_ts h NTP_H_C2H_ARR) - uint (h_ts h NTP_H_CMD_SENT)"
    "sint (comp_or_0 (read_start h) NTP_C_HOST_RX) =
      uint (h_ts h NTP_H_C2H_PROC) - uint (h_ts h NTP_H_C2H_ARR)"
    "sint (comp_or_0 (read_start h) NTP_C_BLK_SUB) =
      uint (h_ts h NTP_H_QUEUE_RQ) - uint (h_ts h (host_start h))"
    "sint (comp_or_0 (read_start h) NTP_C_TR_SUB) =
      uint (h_ts h NTP_H_CMD_SENT) - uint (h_ts h NTP_H_QUEUE_RQ)"
    "sint (comp_or_0 (read_start h) NTP_C_BLK_CMPL) =
      uint (h_ts h NTP_H_BLK_DONE) - uint (h_ts h NTP_H_RSP_PROC)"
    "sint (comp_or_0 (read_start h) NTP_C_E2E) =
      uint (h_ts h NTP_H_BLK_DONE) - uint (h_ts h (host_start h))"
    "comp_or_0 (read_start h) NTP_C_HOST_DATA = 0" "comp_or_0 (read_start h) NTP_C_HOST_WAIT = 0"
  using assms common_host_values [OF assms(1)]
  by (simp_all add: read_start_def comp_or_0_set_comp, simp_all add: path_value_defs d_ns_def sint_exact word_le_def
      word_less_def comp_or_0_def common_host_def Let_def)

lemma host_half_values_read:
  assumes ord: "in_path_order (h_ts h) (path_events h)"
    and tr: "hdr_transport (h_hdr h) \<noteq> NTP_TR_RDMA" and rd: "\<not> host_flag h NTP_F_WRITE"
  shows "host_exact (host_half h) h"
    and "sint (comp_or_0 (host_half h) NTP_C_REMOTE) = host_time h NTP_C_REMOTE"
proof -
  let ?H = "h_ts h"
  have cls: "ntp_io_class_of h = NTP_IO_CLASS_READ" using rd by (simp add: ntp_io_class_of_def)
  obtain r b1 where dp: "data_phase (?H NTP_H_C2H_PROC) (?H NTP_H_C2H_DONE) (?H NTP_H_RSP_PROC)
      (h_c2h_busy_ns h) NTP_C_HOST_DATA NTP_C_HOST_WAIT (read_start h) = (r, b1)"
    by (metis prod.exhaust)
  have seen: "r \<longleftrightarrow> data_seen h"
    using dp tr rd by (auto simp: data_phase_def data_seen_def Let_def not_less split: if_splits)
  define v where "v = d_ns (?H NTP_H_RSP_PROC) (?H (if r then NTP_H_C2H_DONE else NTP_H_C2H_PROC))"
  have half: "host_half h = set_comp b1 NTP_C_TR_CMPL v"
    using dp by (simp add: host_half_read [OF tr cls] read_data_phase_def v_def Let_def)
  have chain: "uint (?H NTP_H_C2H_PROC) \<le> uint (?H NTP_H_RSP_PROC)"
    and lim: "?H NTP_H_RSP_PROC < 2 ^ 63" "uint (?H NTP_H_RSP_PROC) < 9223372036854775808"
    using ord tr rd by (simp_all add: path_value_defs word_le_def word_less_def)
  note start = read_start_values [OF ord tr rd]
  have "host_exact (host_half h) h \<and> sint (comp_or_0 (host_half h) NTP_C_REMOTE) = host_time h NTP_C_REMOTE"
  proof (cases r)
    case False
    with dp have "b1 = read_start h" by (simp add: data_phase_False)
    moreover have "sint v = uint (?H NTP_H_RSP_PROC) - uint (?H NTP_H_C2H_PROC)"
      using False lim chain by (simp add: v_def d_ns_def sint_exact)
    ultimately show ?thesis
      using start False seen tr rd
      by (simp add: half comp_or_0_set_comp host_exact_def host_time_def host_timeline_def host_path_def)
  next
    case True
    note dpT = dp [simplified True]
    have "sint v = uint (?H NTP_H_RSP_PROC) - uint (?H NTP_H_C2H_DONE)"
      using True lim data_phase_True(3,4) [OF dpT] by (simp add: v_def d_ns_def sint_exact)
    then show ?thesis
      using start True seen tr rd data_phase_exact(1,2) [OF dpT _ lim(1)]
      by (simp add: half comp_or_0_set_comp comp_or_0_data_phase [OF dpT] host_exact_def host_time_def
          host_timeline_def host_path_def)
  qed
  then show "host_exact (host_half h) h"
    and "sint (comp_or_0 (host_half h) NTP_C_REMOTE) = host_time h NTP_C_REMOTE" by auto
qed

lemma host_half_values:
  assumes "in_path_order (h_ts h) (path_events h)"
  shows "host_exact (host_half h) h"
    and "sint (comp_or_0 (host_half h) NTP_C_REMOTE) = host_time h NTP_C_REMOTE"
proof -
  consider "hdr_transport (h_hdr h) = NTP_TR_RDMA \<or> ntp_io_class_of h = NTP_IO_CLASS_WRITE_INLINE"
    | "hdr_transport (h_hdr h) \<noteq> NTP_TR_RDMA" "ntp_io_class_of h = NTP_IO_CLASS_WRITE_R2T"
    | "hdr_transport (h_hdr h) \<noteq> NTP_TR_RDMA" "\<not> host_flag h NTP_F_WRITE"
    by (metis ntp_io_class_of_def)
  then show "host_exact (host_half h) h"
    and "sint (comp_or_0 (host_half h) NTP_C_REMOTE) = host_time h NTP_C_REMOTE"
    using host_half_values_single [OF assms] host_half_values_r2t [OF assms] host_half_values_read [OF assms]
    by metis+
qed

lemma time_in_nonneg: "sorted (map ts (s # map snd p)) \<Longrightarrow> 0 \<le> time_in ts s p c"
  by (induction p arbitrary: s) (auto simp: word_le_def)

lemma host_time_nonneg:
  assumes "in_path_order (h_ts h) (path_events h)"
  shows "0 \<le> host_time h c"
  unfolding host_time_def using assms
  by (intro time_in_nonneg) (auto simp: path_value_defs)

lemma host_time_total:
  "host_time h NTP_C_BLK_SUB + host_time h NTP_C_TR_SUB + host_time h NTP_C_REMOTE + host_time h NTP_C_HOST_RX +
    host_time h NTP_C_HOST_DATA + host_time h NTP_C_TR_CMPL + host_time h NTP_C_BLK_CMPL =
    uint (h_ts h NTP_H_BLK_DONE) - uint (h_ts h (host_start h))"
  by (simp add: host_time_def host_timeline_def host_path_def data_seen_def)

end
