(* ===== verification/Stage_Props.thy ===== *)
theory Stage_Props
  imports Stage_Model
begin

text \<open>
  The properties of the stage model. A breakdown is either incomplete on the host's side, or the
  host half alone, or the host half completed by a target record; every property is a case
  analysis over these three, with the lemmas of the halves.
\<close>

subsection \<open>The cases of a breakdown\<close>

lemma breakdown_used:
  assumes "host_ok h"
  obtains (host) "fst (ntp_breakdown h t) \<noteq> NTP_MODEL_INCOMPLETE_HOST"
      "snd (ntp_breakdown h t) = stages (host_half h)"
  | (joined) t' b where "t = Some t'" "target_half h t' = (True, b)"
      "fst (ntp_breakdown h t) = NTP_MODEL_OK"
      "snd (ntp_breakdown h t) = stages (b\<lparr>bd_joined := True\<rparr>)"
proof (cases t)
  case None
  then show ?thesis using assms host by (simp add: ntp_breakdown_eq)
next
  case (Some t')
  obtain u b where th: "target_half h t' = (u, b)" by (metis prod.exhaust)
  show ?thesis
  proof (cases u)
    case True
    then show ?thesis using assms Some th joined by (simp add: ntp_breakdown_eq)
  next
    case False
    with th have "b = host_half h" by (simp add: target_half_unused)
    then show ?thesis using assms Some th False host by (simp add: ntp_breakdown_eq)
  qed
qed

lemma host_ok_if: "fst (ntp_breakdown h t) \<noteq> NTP_MODEL_INCOMPLETE_HOST \<longleftrightarrow> host_ok h"
  by (auto simp: ntp_breakdown_eq Let_def split: option.splits prod.splits)

lemma host_ok_if_joined: "bd_joined (snd (ntp_breakdown h t)) \<Longrightarrow> host_ok h"
  by (auto simp: ntp_breakdown_eq zero_breakdown_def split: if_splits)

lemma same_host_compsD:
  "same_host_comps b b' \<Longrightarrow> c \<in> host_comps \<Longrightarrow> bd_comp b' c = bd_comp b c"
  "same_host_comps b b' \<Longrightarrow> c \<in> host_comps \<Longrightarrow> ntp_comp_valid b' c = ntp_comp_valid b c"
  by (simp_all add: same_host_comps_def)

lemma target_half_host_valid:
  "target_half h t = (True, b) \<Longrightarrow> c \<in> host_comps \<Longrightarrow>
    ntp_comp_valid b c = ntp_comp_valid (host_half h) c"
  by (rule same_host_compsD(2) [OF target_half_host_comps])

lemma target_half_host_comp:
  "target_half h t = (True, b) \<Longrightarrow> c \<in> host_comps \<Longrightarrow> bd_comp b c = bd_comp (host_half h) c"
  by (rule same_host_compsD(1) [OF target_half_host_comps])

lemma path_sum_eq_e2e:
  assumes "host_ok h"
  shows "ntp_comp_valid (snd (ntp_breakdown h t)) NTP_C_E2E"
    and "path_sum (snd (ntp_breakdown h t)) = bd_comp (snd (ntp_breakdown h t)) NTP_C_E2E"
proof -
  have e2e: "NTP_C_E2E \<in> host_comps" by (simp add: host_comps_def)
  have "ntp_comp_valid (snd (ntp_breakdown h t)) NTP_C_E2E \<and>
    path_sum (snd (ntp_breakdown h t)) = bd_comp (snd (ntp_breakdown h t)) NTP_C_E2E"
    using assms
  proof (cases rule: breakdown_used [of h t, consumes 1, case_names host joined])
    case host
    then show ?thesis by (simp add: host_half_path_sum host_half_valid)
  next
    case (joined t' b)
    then show ?thesis
      using target_half_host_comp [OF joined(2) e2e] target_half_host_valid [OF joined(2) e2e]
      by (simp add: target_half_path_sum host_half_path_sum host_half_valid)
  qed
  then show "ntp_comp_valid (snd (ntp_breakdown h t)) NTP_C_E2E"
    and "path_sum (snd (ntp_breakdown h t)) = bd_comp (snd (ntp_breakdown h t)) NTP_C_E2E" by auto
qed

lemma joined_cases:
  assumes "bd_joined (snd (ntp_breakdown h t))"
  obtains t' b where "t = Some t'" "target_half h t' = (True, b)"
    "snd (ntp_breakdown h t) = stages (b\<lparr>bd_joined := True\<rparr>)"
  using host_ok_if_joined [OF assms]
  by (cases rule: breakdown_used [of h t, consumes 1, case_names host joined])
    (use assms that in auto)

lemma host_only_cases:
  assumes "host_ok h" and "\<not> bd_joined (snd (ntp_breakdown h t))"
  shows "snd (ntp_breakdown h t) = stages (host_half h)"
  using assms(1)
  by (cases rule: breakdown_used [of h t, consumes 1, case_names host joined])
    (use assms(2) in auto)

subsection \<open>Example records\<close>

text \<open>A TCP read as the host sees it, and the target record of the same command.\<close>

definition ex_read :: ntp_host_rec where
  "ex_read = zero_host_rec\<lparr>
     h_hdr := zero_rec_hdr\<lparr>hdr_kind := NTP_REC_HOST, hdr_transport := NTP_TR_TCP\<rparr>,
     h_ts := (\<lambda>_. 0)(NTP_H_START := 100, NTP_H_QUEUE_RQ := 110, NTP_H_CMD_SENT := 120,
       NTP_H_C2H_ARR := 200, NTP_H_C2H_PROC := 210, NTP_H_C2H_DONE := 250,
       NTP_H_RSP_PROC := 260, NTP_H_BLK_DONE := 270),
     h_c2h_busy_ns := 25\<rparr>"

definition ex_tgt_read :: ntp_tgt_rec where
  "ex_tgt_read = zero_tgt_rec\<lparr>
     t_hdr := zero_rec_hdr\<lparr>hdr_kind := NTP_REC_TARGET, hdr_transport := NTP_TR_TCP\<rparr>,
     t_ts := (\<lambda>_. 0)(NTP_T_CMD_ARR := 1000, NTP_T_CMD_PROC := 1005, NTP_T_EXEC := 1010,
       NTP_T_BE_ISSUE := 1015, NTP_T_BE_DONE := 1045, NTP_T_COMPLETE := 1050,
       NTP_T_C2H_SENT := 1060)\<rparr>"

subsection \<open>Properties\<close>

text \<open>
  \<^bold>\<open>C1.\<close> Whatever the transport and the class of a command, and with or without a target record,
  the components of a breakdown add up to its end-to-end latency, as 64-bit values.
\<close>

theorem breakdown_path_sum:
  assumes "fst (ntp_breakdown h t) \<noteq> NTP_MODEL_INCOMPLETE_HOST"
  shows "ntp_comp_valid (snd (ntp_breakdown h t)) NTP_C_E2E \<and>
    path_sum (snd (ntp_breakdown h t)) = bd_comp (snd (ntp_breakdown h t)) NTP_C_E2E"
  using path_sum_eq_e2e assms [unfolded host_ok_if] by blast

theorem breakdown_path_sum_witness:
  "fst (ntp_breakdown ex_read (Some ex_tgt_read)) = NTP_MODEL_OK \<and>
   path_sum (snd (ntp_breakdown ex_read (Some ex_tgt_read))) = 170"
proof -
  have ok: "fst (ntp_breakdown ex_read (Some ex_tgt_read)) = NTP_MODEL_OK" by code_simp
  moreover have "bd_comp (snd (ntp_breakdown ex_read (Some ex_tgt_read))) NTP_C_E2E = 170"
    by code_simp
  ultimately show ?thesis
    using breakdown_path_sum [of ex_read "Some ex_tgt_read"] by simp
qed

lemma joined_stage_sum:
  assumes "bd_joined (snd (ntp_breakdown h t))"
    and "ntp_comp_valid (snd (ntp_breakdown h t)) NTP_C_BLK_SUB"
  shows "(\<forall>s. ntp_stage_valid (snd (ntp_breakdown h t)) s) \<and>
    (\<Sum>s\<leftarrow>enum_class.enum. bd_stage (snd (ntp_breakdown h t)) s) =
      bd_comp (snd (ntp_breakdown h t)) NTP_C_E2E"
proof -
  obtain t' b' where joined: "t = Some t'" "target_half h t' = (True, b')"
    "snd (ntp_breakdown h t) = stages (b'\<lparr>bd_joined := True\<rparr>)"
    using joined_cases [OF assms(1)] by blast
  let ?b = "b'\<lparr>bd_joined := True\<rparr>"
  note sets = target_half_sets [OF joined(2)]
  have parts: "list_all (ntp_comp_valid ?b) (stage_parts_of s)" for s
    using sets(3) assms(2) target_half_host_valid [OF joined(2)] host_half_valid [of h] joined(3)
    by (cases s) (simp_all add: stage_parts_of_def host_comps_def)
  then have "(\<Sum>s\<leftarrow>enum_class.enum. bd_stage (stages ?b) s) =
      path_sum ?b - comp_or_0 ?b NTP_C_REMOTE"
    by (simp only: bd_stage_stages sum_stages_path_sum)
  also have "comp_or_0 ?b NTP_C_REMOTE = 0" using sets(2) by (simp add: comp_or_0_def)
  finally show ?thesis
    using parts sets(1) path_sum_eq_e2e(2) [OF host_ok_if_joined [OF assms(1)], of t] joined(3)
    by (simp add: ntp_stage_valid_stages)
qed

text \<open>
  \<^bold>\<open>C6.\<close> A joined breakdown whose record has the block layer's start has all five stages, and the
  stages add up to the end-to-end latency.
\<close>

theorem breakdown_stage_sum:
  assumes "bd_joined (snd (ntp_breakdown h t))"
    and "ntp_comp_valid (snd (ntp_breakdown h t)) NTP_C_BLK_SUB"
  shows "(\<forall>s. ntp_stage_valid (snd (ntp_breakdown h t)) s) \<and>
    (\<Sum>s\<leftarrow>enum_class.enum. bd_stage (snd (ntp_breakdown h t)) s) =
      bd_comp (snd (ntp_breakdown h t)) NTP_C_E2E"
  using joined_stage_sum [OF assms] .

theorem breakdown_stage_sum_witness:
  "bd_joined (snd (ntp_breakdown ex_read (Some ex_tgt_read))) \<and>
   ntp_comp_valid (snd (ntp_breakdown ex_read (Some ex_tgt_read))) NTP_C_BLK_SUB \<and>
   (\<Sum>s\<leftarrow>enum_class.enum. bd_stage (snd (ntp_breakdown ex_read (Some ex_tgt_read))) s) = 170"
proof -
  have "bd_joined (snd (ntp_breakdown ex_read (Some ex_tgt_read)))" by code_simp
  moreover have "ntp_comp_valid (snd (ntp_breakdown ex_read (Some ex_tgt_read))) NTP_C_BLK_SUB"
    by code_simp
  moreover have "bd_comp (snd (ntp_breakdown ex_read (Some ex_tgt_read))) NTP_C_E2E = 170"
    by code_simp
  ultimately show ?thesis
    using breakdown_stage_sum [of ex_read "Some ex_tgt_read"] by simp
qed

lemma host_only_rows_sum:
  assumes "fst (ntp_breakdown h t) \<noteq> NTP_MODEL_INCOMPLETE_HOST"
    and "\<not> bd_joined (snd (ntp_breakdown h t))"
    and "ntp_comp_valid (snd (ntp_breakdown h t)) NTP_C_BLK_SUB"
  shows "(\<forall>s. ntp_stage_valid (snd (ntp_breakdown h t)) s \<longleftrightarrow> s \<in> {NTP_S1, NTP_S2}) \<and>
    bd_stage (snd (ntp_breakdown h t)) NTP_S1 + bd_stage (snd (ntp_breakdown h t)) NTP_S2 +
    bd_comp (snd (ntp_breakdown h t)) NTP_C_HOST_RX +
    comp_or_0 (snd (ntp_breakdown h t)) NTP_C_HOST_WAIT +
    bd_comp (snd (ntp_breakdown h t)) NTP_C_REMOTE =
    bd_comp (snd (ntp_breakdown h t)) NTP_C_E2E"
proof -
  let ?b = "host_half h"
  have b: "snd (ntp_breakdown h t) = stages ?b"
    using assms(1,2) by (simp add: host_ok_if host_only_cases)
  have only: "host_only ?b" by (rule host_half_host_only)
  have valid: "ntp_stage_valid (stages ?b) s \<longleftrightarrow> s \<in> {NTP_S1, NTP_S2}" for s
    using only host_half_valid [of h] assms(3)
    by (cases s) (simp_all add: b ntp_stage_valid_stages stage_parts_of_def host_only_def
        tgt_comps_def)
  have "bd_stage (stages ?b) NTP_S1 = comp_or_0 ?b NTP_C_BLK_SUB + comp_or_0 ?b NTP_C_BLK_CMPL"
    "bd_stage (stages ?b) NTP_S2 = comp_or_0 ?b NTP_C_TR_SUB + comp_or_0 ?b NTP_C_TR_CMPL +
      comp_or_0 ?b NTP_C_HOST_DATA"
    using host_half_valid [of h] assms(3)
    by (simp_all add: b bd_stage_stages stage_parts_of_def stage_extras_of_def)
  with valid only host_half_path_sum [of h] host_half_valid(5) [of h] show ?thesis
    by (simp add: b path_sum_def path_comps_def host_only_def tgt_comps_def comp_or_0_def
        algebra_simps)
qed

text \<open>
  Without a target record that could be used, the stages beyond the host have no value, and
  the rows that the report then shows (the two host stages, the host's receive path, the wait for
  the rest of the data, and network and target together) add up to the end-to-end latency.
\<close>

theorem breakdown_host_rows:
  assumes "fst (ntp_breakdown h t) \<noteq> NTP_MODEL_INCOMPLETE_HOST"
    and "\<not> bd_joined (snd (ntp_breakdown h t))"
    and "ntp_comp_valid (snd (ntp_breakdown h t)) NTP_C_BLK_SUB"
  shows "(\<forall>s. ntp_stage_valid (snd (ntp_breakdown h t)) s \<longleftrightarrow> s \<in> {NTP_S1, NTP_S2}) \<and>
    bd_stage (snd (ntp_breakdown h t)) NTP_S1 + bd_stage (snd (ntp_breakdown h t)) NTP_S2 +
    bd_comp (snd (ntp_breakdown h t)) NTP_C_HOST_RX +
    comp_or_0 (snd (ntp_breakdown h t)) NTP_C_HOST_WAIT +
    bd_comp (snd (ntp_breakdown h t)) NTP_C_REMOTE =
    bd_comp (snd (ntp_breakdown h t)) NTP_C_E2E"
  using host_only_rows_sum [OF assms] .

theorem breakdown_host_rows_witness:
  "fst (ntp_breakdown ex_read None) \<noteq> NTP_MODEL_INCOMPLETE_HOST \<and>
   \<not> bd_joined (snd (ntp_breakdown ex_read None)) \<and>
   bd_stage (snd (ntp_breakdown ex_read None)) NTP_S1 +
   bd_stage (snd (ntp_breakdown ex_read None)) NTP_S2 +
   bd_comp (snd (ntp_breakdown ex_read None)) NTP_C_HOST_RX +
   comp_or_0 (snd (ntp_breakdown ex_read None)) NTP_C_HOST_WAIT +
   bd_comp (snd (ntp_breakdown ex_read None)) NTP_C_REMOTE = 170"
proof -
  have "fst (ntp_breakdown ex_read None) \<noteq> NTP_MODEL_INCOMPLETE_HOST" by code_simp
  moreover have "\<not> bd_joined (snd (ntp_breakdown ex_read None))" by code_simp
  moreover have "ntp_comp_valid (snd (ntp_breakdown ex_read None)) NTP_C_BLK_SUB" by code_simp
  moreover have "bd_comp (snd (ntp_breakdown ex_read None)) NTP_C_E2E = 170" by code_simp
  ultimately show ?thesis using breakdown_host_rows [of ex_read None] by simp
qed

text \<open>
  A target record that misses events (or belongs to another kind of command) is not used at
  all: the breakdown is the one of the host record alone, in every field.
\<close>

theorem breakdown_incomplete_target:
  assumes "ntp_breakdown h (Some t) = (NTP_MODEL_INCOMPLETE_TARGET, b)"
  shows "ntp_breakdown h None = (NTP_MODEL_OK, b)"
  using assms target_half_unused [of h t]
  by (auto simp: ntp_breakdown_eq Let_def split: if_splits prod.splits)

theorem breakdown_incomplete_target_witness:
  "ntp_breakdown ex_read None =
    (NTP_MODEL_OK, snd (ntp_breakdown ex_read (Some zero_tgt_rec)))"
proof -
  have "fst (ntp_breakdown ex_read (Some zero_tgt_rec)) = NTP_MODEL_INCOMPLETE_TARGET"
    by code_simp
  then have "ntp_breakdown ex_read (Some zero_tgt_rec) =
      (NTP_MODEL_INCOMPLETE_TARGET, snd (ntp_breakdown ex_read (Some zero_tgt_rec)))"
    by (metis prod.collapse)
  then show ?thesis by (rule breakdown_incomplete_target)
qed

text \<open>
  \<^bold>\<open>C34.\<close> The host record is refused exactly when it lacks the time of \<open>->queue_rq()\<close> or of an event
  on the path of its class and transport (\<open>host_path\<close>): every time that a component of the host is
  computed from is required, and no other. A refused record gives no component, no stage and no
  join.
\<close>

theorem breakdown_incomplete_host:
  "(fst (ntp_breakdown h t) = NTP_MODEL_INCOMPLETE_HOST \<longleftrightarrow>
     h_ts h NTP_H_QUEUE_RQ = 0 \<or> (\<exists>(c, e) \<in> set (host_path h). h_ts h e = 0)) \<and>
   (fst (ntp_breakdown h t) = NTP_MODEL_INCOMPLETE_HOST \<longrightarrow>
     bd_valid (snd (ntp_breakdown h t)) = 0 \<and> bd_stage_valid (snd (ntp_breakdown h t)) = 0 \<and>
     \<not> bd_joined (snd (ntp_breakdown h t)))"
proof -
  have "fst (ntp_breakdown h t) = NTP_MODEL_INCOMPLETE_HOST \<longleftrightarrow> \<not> host_ok h"
    using host_ok_if [of h t] by blast
  moreover have "\<not> host_ok h \<longleftrightarrow> h_ts h NTP_H_QUEUE_RQ = 0 \<or> (\<exists>(c, e) \<in> set (host_path h). h_ts h e = 0)"
    by (force simp: host_ok_events path_events_def)
  moreover have "\<not> host_ok h \<Longrightarrow>
      snd (ntp_breakdown h t) = zero_breakdown\<lparr>bd_io_class := ntp_io_class_of h\<rparr>"
    by (simp add: ntp_breakdown_eq)
  ultimately show ?thesis by auto
qed

theorem breakdown_incomplete_host_witness:
  "fst (ntp_breakdown (ex_read\<lparr>h_ts := (h_ts ex_read)(NTP_H_C2H_ARR := 0)\<rparr>) None) =
     NTP_MODEL_INCOMPLETE_HOST \<and>
   bd_valid (snd (ntp_breakdown (ex_read\<lparr>h_ts := (h_ts ex_read)(NTP_H_C2H_ARR := 0)\<rparr>) None)) = 0"
proof -
  have "fst (ntp_breakdown (ex_read\<lparr>h_ts := (h_ts ex_read)(NTP_H_C2H_ARR := 0)\<rparr>) None) =
      NTP_MODEL_INCOMPLETE_HOST"
    by code_simp
  with breakdown_incomplete_host [of "ex_read\<lparr>h_ts := (h_ts ex_read)(NTP_H_C2H_ARR := 0)\<rparr>" None]
  show ?thesis by blast
qed

text \<open>
  \<^bold>\<open>C33.\<close> When the events on a host record's path are in their order, below \<open>2 ^ 63\<close> ns, no signed value
  overflows, with or without a target record: each component of the host is, as an integer, the time
  of its own intervals on the path, from one event to the next (\<open>host_path\<close> lists them with their
  components), and for a record that is not joined so is the remote component. In the data phase of
  a TCP read the processing is the busy time, at most the whole phase, and the wait is the rest. All
  these times are at least 0 and add up to the end-to-end latency, which runs from the start of the
  path to the block layer's completion.
\<close>

theorem breakdown_host_exact:
  assumes "fst (ntp_breakdown h t) \<noteq> NTP_MODEL_INCOMPLETE_HOST" and "in_path_order (h_ts h) (path_events h)"
  defines "b \<equiv> snd (ntp_breakdown h t)"
  shows "(\<forall>c \<in> {NTP_C_BLK_SUB, NTP_C_TR_SUB, NTP_C_HOST_RX, NTP_C_TR_CMPL, NTP_C_BLK_CMPL}.
       sint (comp_or_0 b c) = host_time h c) \<and>
    sint (comp_or_0 b NTP_C_HOST_DATA) = min (uint (h_c2h_busy_ns h)) (host_time h NTP_C_HOST_DATA) \<and>
    sint (comp_or_0 b NTP_C_HOST_WAIT) = host_time h NTP_C_HOST_DATA - sint (comp_or_0 b NTP_C_HOST_DATA) \<and>
    sint (comp_or_0 b NTP_C_E2E) = uint (h_ts h NTP_H_BLK_DONE) - uint (h_ts h (host_start h)) \<and>
    (\<not> bd_joined b \<longrightarrow> sint (comp_or_0 b NTP_C_REMOTE) = host_time h NTP_C_REMOTE) \<and>
    (\<forall>c. 0 \<le> host_time h c) \<and>
    host_time h NTP_C_BLK_SUB + host_time h NTP_C_TR_SUB + host_time h NTP_C_REMOTE + host_time h NTP_C_HOST_RX +
      host_time h NTP_C_HOST_DATA + host_time h NTP_C_TR_CMPL + host_time h NTP_C_BLK_CMPL =
      sint (comp_or_0 b NTP_C_E2E)"
proof -
  have ok: "host_ok h" using assms(1) by (simp add: host_ok_if)
  have same: "comp_or_0 b c = comp_or_0 (host_half h) c" if "c \<in> host_comps" for c
  proof (cases rule: breakdown_used [OF ok, of t, case_names host joined])
    case host
    then show ?thesis by (simp add: b_def)
  next
    case (joined t' b')
    with that show ?thesis
      by (simp add: b_def comp_or_0_def target_half_host_valid [OF joined(2)] target_half_host_comp [OF joined(2)])
  qed
  have remote: "comp_or_0 b NTP_C_REMOTE = comp_or_0 (host_half h) NTP_C_REMOTE" if "\<not> bd_joined b"
    using ok that unfolding b_def
    by (cases rule: breakdown_used [of h t, consumes 1, case_names host joined]) simp_all
  have cs: "{NTP_C_BLK_SUB, NTP_C_TR_SUB, NTP_C_HOST_RX, NTP_C_TR_CMPL, NTP_C_BLK_CMPL, NTP_C_HOST_DATA,
      NTP_C_HOST_WAIT, NTP_C_E2E} \<subseteq> host_comps"
    by (simp add: host_comps_def)
  show ?thesis
    using host_half_values [OF assms(2)] host_time_nonneg [OF assms(2)] host_time_total [of h] remote cs
    by (auto simp: host_exact_def same)
qed

theorem breakdown_host_exact_witness:
  "sint (comp_or_0 (snd (ntp_breakdown ex_read (Some ex_tgt_read))) NTP_C_TR_SUB) = host_time ex_read NTP_C_TR_SUB \<and>
   sint (comp_or_0 (snd (ntp_breakdown ex_read (Some ex_tgt_read))) NTP_C_E2E) = 170"
proof -
  have "fst (ntp_breakdown ex_read (Some ex_tgt_read)) \<noteq> NTP_MODEL_INCOMPLETE_HOST" by code_simp
  moreover have "in_path_order (h_ts ex_read) (path_events ex_read)" by code_simp
  moreover have "uint (h_ts ex_read NTP_H_BLK_DONE) - uint (h_ts ex_read (host_start ex_read)) = 170" by code_simp
  ultimately show ?thesis
    using breakdown_host_exact [of ex_read "Some ex_tgt_read"] by simp
qed

lemma backend_details_split:
  assumes "\<not> ntp_comp_valid b NTP_C_TGT_DEV" and "ntp_comp_valid (backend_details T b) NTP_C_TGT_DEV"
    and "bd_comp b NTP_C_TGT_BE = d_ns (T NTP_T_COMPLETE) (T NTP_T_EXEC)"
  shows "bd_comp (backend_details T b) NTP_C_TGT_BE_SUB +
    bd_comp (backend_details T b) NTP_C_TGT_DEV +
    bd_comp (backend_details T b) NTP_C_TGT_BE_CMPL = bd_comp (backend_details T b) NTP_C_TGT_BE"
  using assms by (auto simp: backend_details_def Let_def d_ns_def split: if_splits)

lemma target_side_split:
  assumes "\<not> ntp_comp_valid b NTP_C_TGT_DEV" and "ntp_comp_valid (target_side t b) NTP_C_TGT_DEV"
  shows "bd_comp (target_side t b) NTP_C_TGT_BE_SUB + bd_comp (target_side t b) NTP_C_TGT_DEV +
    bd_comp (target_side t b) NTP_C_TGT_BE_CMPL = bd_comp (target_side t b) NTP_C_TGT_BE"
  using assms unfolding target_side_def Let_def
  by (cases "bd_io_class b")
    (auto simp: write_data_phase_def data_phase_def Let_def intro!: backend_details_split)

lemma rdma_target_side_split:
  assumes "rdma_target_side t b = (True, b')" and "\<not> ntp_comp_valid b NTP_C_TGT_DEV"
    and "ntp_comp_valid b' NTP_C_TGT_DEV"
  shows "bd_comp b' NTP_C_TGT_BE_SUB + bd_comp b' NTP_C_TGT_DEV + bd_comp b' NTP_C_TGT_BE_CMPL =
    bd_comp b' NTP_C_TGT_BE"
  using assms
  by (auto simp: rdma_target_side_def Let_def split: if_splits option.splits
      intro!: backend_details_split)

lemma host_half_no_detail: "\<not> ntp_comp_valid (host_half h) NTP_C_TGT_DEV"
  by (cases "ntp_io_class_of h") (simp_all add: host_half_def host_defs)

text \<open>
  Where the target's block request was seen, its three parts (submission, drive, completion)
  add up to the storage component.
\<close>

theorem breakdown_backend_split:
  assumes "ntp_comp_valid (snd (ntp_breakdown h t)) NTP_C_TGT_DEV"
  shows "bd_comp (snd (ntp_breakdown h t)) NTP_C_TGT_BE_SUB +
    bd_comp (snd (ntp_breakdown h t)) NTP_C_TGT_DEV +
    bd_comp (snd (ntp_breakdown h t)) NTP_C_TGT_BE_CMPL =
    bd_comp (snd (ntp_breakdown h t)) NTP_C_TGT_BE"
proof -
  have ok: "host_ok h" using assms by (auto simp: ntp_breakdown_eq split: if_splits)
  then show ?thesis
  proof (cases rule: breakdown_used [of h t, consumes 1, case_names host joined])
    case host
    with assms show ?thesis by (simp add: host_half_no_detail)
  next
    case (joined t' b)
    then have "ntp_comp_valid b NTP_C_TGT_DEV" using assms by simp
    with joined(2) have "bd_comp b NTP_C_TGT_BE_SUB + bd_comp b NTP_C_TGT_DEV +
        bd_comp b NTP_C_TGT_BE_CMPL = bd_comp b NTP_C_TGT_BE"
      using host_half_no_detail [of h]
      by (auto simp: target_half_def target_side_split rdma_target_side_split split: if_splits)
    with joined show ?thesis by simp
  qed
qed

theorem breakdown_backend_split_witness:
  "ntp_comp_valid (snd (ntp_breakdown ex_read (Some ex_tgt_read))) NTP_C_TGT_DEV \<and>
   bd_comp (snd (ntp_breakdown ex_read (Some ex_tgt_read))) NTP_C_TGT_BE_SUB +
   bd_comp (snd (ntp_breakdown ex_read (Some ex_tgt_read))) NTP_C_TGT_DEV +
   bd_comp (snd (ntp_breakdown ex_read (Some ex_tgt_read))) NTP_C_TGT_BE_CMPL = 40"
proof -
  have "ntp_comp_valid (snd (ntp_breakdown ex_read (Some ex_tgt_read))) NTP_C_TGT_DEV" by code_simp
  moreover have "bd_comp (snd (ntp_breakdown ex_read (Some ex_tgt_read))) NTP_C_TGT_BE = 40"
    by code_simp
  ultimately show ?thesis using breakdown_backend_split [of ex_read "Some ex_tgt_read"] by simp
qed

end
