(* ===== verification/Join_Table.thy ===== *)
theory Join_Table
  imports Ntprof_Records
begin

text \<open>
  The table of records that wait for their counterpart (\<^verbatim>\<open>src/src/join.c\<close>): a chained hash table
  of buckets, one bucket per (cntlid, qid, cid), each holding its records in arrival order. A
  bucket's array is a list and its length; \<open>bk_cap\<close> is the number of records the allocation has
  room for. The two offsets that the table keeps become the two accessor functions of its
  records.
\<close>

subsection \<open>Definitions\<close>

record 'r bucket =
  bk_key :: u64
  bk_cap :: nat
  bk_recs :: "'r list"

record 'r table =
  tb_v :: "nat \<Rightarrow> 'r bucket list"
  tb_nbuckets :: nat
  tb_id :: "'r \<Rightarrow> ntp_cmd_id"
  tb_ts :: "'r \<Rightarrow> u64"
  tb_pending :: u64

definition key_of :: "ntp_cmd_id \<Rightarrow> u64" where
  "key_of i = push_bit 32 (ucast (id_cntlid i)) OR push_bit 16 (ucast (id_qid i)) OR ucast (id_cid i)"

definition same_command :: "ntp_cmd_id \<Rightarrow> ntp_cmd_id \<Rightarrow> bool" where
  "same_command a b \<longleftrightarrow> id_opcode a = id_opcode b \<and> id_nsid a = id_nsid b \<and>
     id_slba a = id_slba b \<and> id_nlb a = id_nlb b"

definition table_init :: "('r \<Rightarrow> ntp_cmd_id) \<Rightarrow> ('r \<Rightarrow> u64) \<Rightarrow> 'r table" where
  "table_init idf tsf = \<lparr>tb_v = (\<lambda>_. []), tb_nbuckets = 2 ^ 16, tb_id = idf, tb_ts = tsf,
     tb_pending = 0\<rparr>"

text \<open>The array index of a key's chain.\<close>

definition slot_of :: "nat \<Rightarrow> u64 \<Rightarrow> nat" where
  "slot_of nbuckets key =
    (let h = key;
         h = h XOR drop_bit 33 h;
         h = h * 0xff51afd7ed558ccd;
         h = h XOR drop_bit 33 h
     in unat (h AND (of_nat nbuckets - 1)))"

text \<open>
  The link that points at the bucket of a key: the buckets of the chain before it, and the chain
  from it on (empty when the link is \<^verbatim>\<open>NULL\<close>).
\<close>

fun lookup_chain :: "u64 \<Rightarrow> 'r bucket list \<Rightarrow> 'r bucket list \<times> 'r bucket list" where
  "lookup_chain key [] = ([], [])"
| "lookup_chain key (b # bs) =
     (if bk_key b \<noteq> key then (let (pre, rest) = lookup_chain key bs in (b # pre, rest))
      else ([], b # bs))"

definition lookup :: "'r table \<Rightarrow> u64 \<Rightarrow> 'r bucket list \<times> 'r bucket list" where
  "lookup t key = lookup_chain key (tb_v t (slot_of (tb_nbuckets t) key))"

definition set_chain :: "'r table \<Rightarrow> u64 \<Rightarrow> 'r bucket list \<Rightarrow> 'r table" where
  "set_chain t key bs = t\<lparr>tb_v := (tb_v t)(slot_of (tb_nbuckets t) key := bs)\<rparr>"

definition table_push :: "nat \<Rightarrow> 'r table \<Rightarrow> 'r \<Rightarrow> bool \<times> 'r table" where
  "table_push max_per_key t r =
    (let key = key_of (tb_id t r);
         (pre, rest) = lookup t key
     in case rest of
          [] \<Rightarrow>
            (False, (set_chain t key (pre @ [\<lparr>bk_key = key, bk_cap = 1, bk_recs = [r]\<rparr>]))
              \<lparr>tb_pending := tb_pending t + 1\<rparr>)
        | b # post \<Rightarrow>
            if max_per_key \<noteq> 0 \<and> length (bk_recs b) = max_per_key
            then (True, (set_chain t key (pre @ b\<lparr>bk_recs := tl (bk_recs b) @ [r]\<rparr> # post))
                   \<lparr>tb_pending := tb_pending t - 1 + 1\<rparr>)
            else
              let cap = (if length (bk_recs b) = bk_cap b
                         then if max_per_key \<noteq> 0 \<and> bk_cap b * 2 > max_per_key
                              then max_per_key else bk_cap b * 2
                         else bk_cap b)
              in (False,
                  (set_chain t key (pre @ b\<lparr>bk_cap := cap, bk_recs := bk_recs b @ [r]\<rparr> # post))
                   \<lparr>tb_pending := tb_pending t + 1\<rparr>))"

text \<open>The loop over a bucket: the first record of the command, and the records without it.\<close>

fun take_first :: "('r \<Rightarrow> bool) \<Rightarrow> 'r list \<Rightarrow> ('r \<times> 'r list) option" where
  "take_first P [] = None"
| "take_first P (x # xs) =
     (if \<not> P x then map_option (\<lambda>(y, ys). (y, x # ys)) (take_first P xs) else Some (x, xs))"

definition table_take :: "'r table \<Rightarrow> ntp_cmd_id \<Rightarrow> ('r \<times> 'r table) option" where
  "table_take t i =
    (let key = key_of i;
         (pre, rest) = lookup t key
     in case rest of
          [] \<Rightarrow> None
        | b # post \<Rightarrow>
            (case take_first (\<lambda>r. same_command (tb_id t r) i) (bk_recs b) of
               None \<Rightarrow> None
             | Some (r, rs) \<Rightarrow>
                 Some (r, (set_chain t key
                            (if rs = [] then pre @ post else pre @ b\<lparr>bk_recs := rs\<rparr> # post))
                          \<lparr>tb_pending := tb_pending t - 1\<rparr>)))"

text \<open>One bucket: the records kept, and those dropped, both in order.\<close>

fun expire_recs :: "('r \<Rightarrow> u64) \<Rightarrow> u64 \<Rightarrow> 'r list \<Rightarrow> 'r list \<times> 'r list" where
  "expire_recs tsf before [] = ([], [])"
| "expire_recs tsf before (r # rs) =
     (let (keep, gone) = expire_recs tsf before rs
      in if tsf r < before then (keep, r # gone) else (r # keep, gone))"

fun expire_chain ::
  "('r \<Rightarrow> u64) \<Rightarrow> u64 \<Rightarrow> 'r bucket list \<Rightarrow> 'r bucket list \<times> 'r list"
where
  "expire_chain tsf before [] = ([], [])"
| "expire_chain tsf before (b # bs) =
     (let (keep, gone) = expire_recs tsf before (bk_recs b);
          (bs', gone') = expire_chain tsf before bs
      in (if keep = [] then bs' else b\<lparr>bk_recs := keep\<rparr> # bs', gone @ gone'))"

text \<open>
  The loop over the slots. The result lists the dropped records in the order in which they are
  passed to the callback.
\<close>

fun expire_slots :: "u64 \<Rightarrow> nat list \<Rightarrow> 'r table \<Rightarrow> 'r table \<times> 'r list" where
  "expire_slots before [] t = (t, [])"
| "expire_slots before (s # ss) t =
     (let (bs, gone) = expire_chain (tb_ts t) before (tb_v t s);
          t = t\<lparr>tb_v := (tb_v t)(s := bs), tb_pending := tb_pending t - of_nat (length gone)\<rparr>;
          (t, gone') = expire_slots before ss t
      in (t, gone @ gone'))"

definition table_expire :: "'r table \<Rightarrow> u64 \<Rightarrow> 'r table \<times> 'r list" where
  "table_expire t before = expire_slots before [0..<tb_nbuckets t] t"

subsection \<open>Chains\<close>

text \<open>The records that a chain holds under a key; with one bucket per key, that bucket's.\<close>

definition chain_queue :: "u64 \<Rightarrow> 'r bucket list \<Rightarrow> 'r list" where
  "chain_queue k bs = concat (map bk_recs (filter (\<lambda>b. bk_key b = k) bs))"

definition chain_mset :: "'r bucket list \<Rightarrow> 'r multiset" where
  "chain_mset bs = mset (concat (map bk_recs bs))"

lemma chain_queue_simps [simp]:
  "chain_queue k [] = []"
  "chain_queue k (b # bs) = (if bk_key b = k then bk_recs b else []) @ chain_queue k bs"
  "chain_queue k (xs @ ys) = chain_queue k xs @ chain_queue k ys"
  by (simp_all add: chain_queue_def)

lemma chain_mset_simps [simp]:
  "chain_mset [] = {#}"
  "chain_mset (b # bs) = mset (bk_recs b) + chain_mset bs"
  "chain_mset (xs @ ys) = chain_mset xs + chain_mset ys"
  by (simp_all add: chain_mset_def)

lemma chain_queue_absent: "k \<notin> bk_key ` set bs \<Longrightarrow> chain_queue k bs = []"
  by (induction bs) auto

lemma lookup_chain_split:
  "lookup_chain key bs = (pre, rest) \<Longrightarrow>
    bs = pre @ rest \<and> key \<notin> bk_key ` set pre \<and> (\<forall>b bs'. rest = b # bs' \<longrightarrow> bk_key b = key)"
  by (induction bs arbitrary: pre rest) (auto split: if_splits prod.splits)

lemma expire_recs_eq:
  "expire_recs tsf before rs = (filter (\<lambda>r. \<not> tsf r < before) rs, filter (\<lambda>r. tsf r < before) rs)"
  by (induction rs) (auto split: prod.splits)

lemma expire_chain_queue:
  "expire_chain tsf before bs = (bs', gone) \<Longrightarrow>
    chain_queue k bs' = filter (\<lambda>r. \<not> tsf r < before) (chain_queue k bs)"
  by (induction bs arbitrary: bs' gone) (auto simp: expire_recs_eq split: prod.splits if_splits)

lemma expire_chain_gone:
  "expire_chain tsf before bs = (bs', gone) \<Longrightarrow>
    mset gone = filter_mset (\<lambda>r. tsf r < before) (chain_mset bs) \<and>
    chain_mset bs' = filter_mset (\<lambda>r. \<not> tsf r < before) (chain_mset bs)"
  by (induction bs arbitrary: bs' gone)
    (auto simp: expire_recs_eq filter_empty_conv filter_mset_eq_mempty_iff split: prod.splits if_splits)

lemma expire_chain_buckets:
  "expire_chain tsf before bs = (bs', gone) \<Longrightarrow> b' \<in> set bs' \<Longrightarrow>
    \<exists>b \<in> set bs. bk_key b' = bk_key b \<and> bk_cap b' = bk_cap b \<and> bk_recs b' \<noteq> [] \<and>
      bk_recs b' = filter (\<lambda>r. \<not> tsf r < before) (bk_recs b)"
  by (induction bs arbitrary: bs' gone) (auto simp: expire_recs_eq split: prod.splits if_splits)

lemma expire_chain_keys:
  "expire_chain tsf before bs = (bs', gone) \<Longrightarrow> distinct (map bk_key bs) \<Longrightarrow>
    distinct (map bk_key bs') \<and> bk_key ` set bs' \<subseteq> bk_key ` set bs"
  by (induction bs arbitrary: bs' gone)
    (auto simp: expire_recs_eq split: prod.splits if_splits, blast+)

subsection \<open>The invariant\<close>

definition bucket_ok :: "nat \<Rightarrow> ('r \<Rightarrow> ntp_cmd_id) \<Rightarrow> nat \<Rightarrow> nat \<Rightarrow> 'r bucket \<Rightarrow> bool" where
  "bucket_ok m idf nb s b \<longleftrightarrow> bk_recs b \<noteq> [] \<and> length (bk_recs b) \<le> bk_cap b \<and>
     slot_of nb (bk_key b) = s \<and> (\<forall>r \<in> set (bk_recs b). key_of (idf r) = bk_key b) \<and>
     (m \<noteq> 0 \<longrightarrow> length (bk_recs b) \<le> m)"

definition chain_ok :: "nat \<Rightarrow> ('r \<Rightarrow> ntp_cmd_id) \<Rightarrow> nat \<Rightarrow> nat \<Rightarrow> 'r bucket list \<Rightarrow> bool" where
  "chain_ok m idf nb s bs \<longleftrightarrow>
     distinct (map bk_key bs) \<and> (\<forall>b \<in> set bs. bucket_ok m idf nb s b)"

definition tb_mset :: "'r table \<Rightarrow> 'r multiset" where
  "tb_mset t = (\<Sum>s<tb_nbuckets t. chain_mset (tb_v t s))"

definition table_inv :: "nat \<Rightarrow> ('r \<Rightarrow> ntp_cmd_id) \<Rightarrow> ('r \<Rightarrow> u64) \<Rightarrow> 'r table \<Rightarrow> bool" where
  "table_inv m idf tsf t \<longleftrightarrow> tb_id t = idf \<and> tb_ts t = tsf \<and>
     (\<exists>k < 64. tb_nbuckets t = 2 ^ k) \<and>
     (\<forall>s < tb_nbuckets t. chain_ok m idf (tb_nbuckets t) s (tb_v t s)) \<and>
     tb_pending t = of_nat (size (tb_mset t))"

text \<open>What the table holds under a key, oldest first.\<close>

definition tb_queue :: "'r table \<Rightarrow> u64 \<Rightarrow> 'r list" where
  "tb_queue t k = chain_queue k (tb_v t (slot_of (tb_nbuckets t) k))"

lemma unat_and_mask_less: "unat (w AND mask k :: 'a::len word) < 2 ^ k"
  by (simp add: unsigned_take_bit_eq flip: take_bit_eq_mask)

lemma slot_of_less: "slot_of (2 ^ k) key < 2 ^ k"
  unfolding slot_of_def Let_def by (simp add: unat_and_mask_less flip: mask_eq_exp_minus_1)

lemma table_inv_slot: "table_inv m idf tsf t \<Longrightarrow> slot_of (tb_nbuckets t) key < tb_nbuckets t"
  by (auto simp: table_inv_def slot_of_less)

lemma sum_upd_add:
  fixes f :: "'b \<Rightarrow> 'c::comm_monoid_add"
  assumes "s < (n::nat)"
  shows "(\<Sum>i<n. f ((g(s := x)) i)) + f (g s) = (\<Sum>i<n. f (g i)) + f x"
proof -
  have "(\<Sum>i<n. f ((g(s := x)) i)) = f x + (\<Sum>i\<in>{..<n} - {s}. f (g i))"
    using assms by (simp add: sum.remove [of _ s])
  moreover have "(\<Sum>i<n. f (g i)) = f (g s) + (\<Sum>i\<in>{..<n} - {s}. f (g i))"
    using assms by (simp add: sum.remove [of _ s])
  ultimately show ?thesis by (simp add: ac_simps)
qed

lemma set_chain_frame [simp]:
  "tb_nbuckets (set_chain t k bs) = tb_nbuckets t"
  "tb_id (set_chain t k bs) = tb_id t"
  "tb_ts (set_chain t k bs) = tb_ts t"
  "tb_pending (set_chain t k bs) = tb_pending t"
  by (simp_all add: set_chain_def)

lemma tb_mset_pending [simp]: "tb_mset (t\<lparr>tb_pending := p\<rparr>) = tb_mset t"
  by (simp add: tb_mset_def)

lemma tb_queue_pending [simp]: "tb_queue (t\<lparr>tb_pending := p\<rparr>) k = tb_queue t k"
  by (simp add: tb_queue_def)

lemma tb_mset_set_chain:
  assumes "table_inv m idf tsf t"
  shows "tb_mset (set_chain t k bs) + chain_mset (tb_v t (slot_of (tb_nbuckets t) k)) =
    tb_mset t + chain_mset bs"
  using sum_upd_add [OF table_inv_slot [OF assms], where f = chain_mset]
  by (simp add: tb_mset_def set_chain_def)

lemma tb_queue_set_chain:
  "tb_queue (set_chain t k bs) k' =
    (if slot_of (tb_nbuckets t) k' = slot_of (tb_nbuckets t) k then chain_queue k' bs
     else tb_queue t k')"
  by (simp add: tb_queue_def set_chain_def)

lemma table_inv_set_chain:
  assumes inv: "table_inv m idf tsf t"
    and ok: "chain_ok m idf (tb_nbuckets t) (slot_of (tb_nbuckets t) k) bs"
    and p: "p = of_nat (size (tb_mset (set_chain t k bs)))"
  shows "table_inv m idf tsf ((set_chain t k bs)\<lparr>tb_pending := p\<rparr>)"
  using inv ok p by (auto simp: table_inv_def set_chain_def)

lemma lookup_split:
  assumes inv: "table_inv m idf tsf t" and l: "lookup t k = (pre, rest)"
  shows "tb_v t (slot_of (tb_nbuckets t) k) = pre @ rest"
    and "k \<notin> bk_key ` set pre"
    and "chain_ok m idf (tb_nbuckets t) (slot_of (tb_nbuckets t) k) (pre @ rest)"
    and "rest = b # post \<Longrightarrow> bk_key b = k \<and> k \<notin> bk_key ` set post"
    and "tb_queue t k = (case rest of [] \<Rightarrow> [] | b # _ \<Rightarrow> bk_recs b)"
proof -
  note split = lookup_chain_split [OF l [unfolded lookup_def]]
  show v: "tb_v t (slot_of (tb_nbuckets t) k) = pre @ rest" and pre: "k \<notin> bk_key ` set pre"
    using split by auto
  show ok: "chain_ok m idf (tb_nbuckets t) (slot_of (tb_nbuckets t) k) (pre @ rest)"
    using inv table_inv_slot [OF inv, of k] v by (auto simp: table_inv_def)
  show rest: "bk_key b = k \<and> k \<notin> bk_key ` set post" if "rest = b # post" for b post
    using that split ok by (auto simp: chain_ok_def)
  show "tb_queue t k = (case rest of [] \<Rightarrow> [] | b # _ \<Rightarrow> bk_recs b)"
    using pre rest by (auto simp: tb_queue_def v chain_queue_absent split: list.split)
qed

subsection \<open>Push\<close>

text \<open>What a push leaves of a queue: nothing is dropped below the limit, else the oldest.\<close>

definition push_queue :: "nat \<Rightarrow> 'r list \<Rightarrow> 'r \<Rightarrow> 'r list" where
  "push_queue m q r = (if m \<noteq> 0 \<and> length q = m then tl q else q) @ [r]"

definition push_drops :: "nat \<Rightarrow> 'r list \<Rightarrow> bool" where
  "push_drops m q \<longleftrightarrow> m \<noteq> 0 \<and> length q = m"

lemma size_add_mset_word: "of_nat (size (add_mset r M)) = of_nat (size M) + (1 :: u64)"
  by simp

lemma tb_mset_replace:
  assumes inv: "table_inv m idf tsf t" and l: "lookup t k = (pre, rest)"
    and eq: "chain_mset bs + D = chain_mset (pre @ rest) + A"
  shows "tb_mset (set_chain t k bs) + D = tb_mset t + A"
proof -
  have "tb_mset (set_chain t k bs) + chain_mset (pre @ rest) = tb_mset t + chain_mset bs"
    using tb_mset_set_chain [OF inv, of k bs] lookup_split(1) [OF inv l] by simp
  then have "tb_mset (set_chain t k bs) + D + chain_mset (pre @ rest) =
      tb_mset t + A + chain_mset (pre @ rest)"
    using eq by (metis (no_types, lifting) add.commute add.left_commute)
  then show ?thesis by simp
qed

lemma tb_queue_replace:
  assumes "table_inv m idf tsf t" and "lookup t k = (pre, rest)"
    and "\<And>k'. k' \<noteq> k \<Longrightarrow> chain_queue k' bs = chain_queue k' (pre @ rest)"
    and "chain_queue k bs = q"
  shows "tb_queue (set_chain t k bs) k' = (if k' = k then q else tb_queue t k')"
  using assms lookup_split(1) [OF assms(1,2)] unfolding tb_queue_set_chain
  by (auto simp: tb_queue_def)

lemma table_push_chain:
  assumes inv: "table_inv m idf tsf t" and push: "table_push m t r = (dropped, t')"
    and l: "lookup t (key_of (idf r)) = (pre, rest)"
  shows "\<exists>bs. t' = (set_chain t (key_of (idf r)) bs)\<lparr>tb_pending := tb_pending t + (if dropped then 0 else 1)\<rparr> \<and>
      chain_ok m idf (tb_nbuckets t) (slot_of (tb_nbuckets t) (key_of (idf r))) bs \<and>
      (\<forall>k'. k' \<noteq> key_of (idf r) \<longrightarrow> chain_queue k' bs = chain_queue k' (pre @ rest)) \<and>
      chain_queue (key_of (idf r)) bs = push_queue m (tb_queue t (key_of (idf r))) r \<and>
      (dropped \<longleftrightarrow> push_drops m (tb_queue t (key_of (idf r)))) \<and>
      chain_mset bs + (if dropped then {#hd (tb_queue t (key_of (idf r)))#} else {#}) =
        chain_mset (pre @ rest) + {#r#}"
proof -
  have idf: "tb_id t = idf" using inv by (auto simp: table_inv_def)
  note sp = lookup_split [OF inv l]
  show ?thesis
  proof (cases rest)
    case Nil
    with l push idf sp show ?thesis
      by (intro exI [of _ "pre @ [\<lparr>bk_key = key_of (idf r), bk_cap = 1, bk_recs = [r]\<rparr>]"])
        (auto simp: table_push_def chain_ok_def bucket_ok_def push_queue_def push_drops_def
          chain_queue_absent Let_def)
  next
    case (Cons b post)
    have ok: "bucket_ok m idf (tb_nbuckets t) (slot_of (tb_nbuckets t) (key_of (idf r))) b"
      and key: "bk_key b = key_of (idf r)" "key_of (idf r) \<notin> bk_key ` set post"
      using sp(3) sp(4) [OF Cons] by (auto simp: Cons chain_ok_def)
    have q: "tb_queue t (key_of (idf r)) = bk_recs b" using sp(5) Cons by simp
    show ?thesis
    proof (cases "push_drops m (bk_recs b)")
      case True
      then obtain x xs where "bk_recs b = x # xs" by (cases "bk_recs b") (auto simp: push_drops_def)
      with True Cons l push idf sp q ok key show ?thesis
        by (intro exI [of _ "pre @ b\<lparr>bk_recs := tl (bk_recs b) @ [r]\<rparr> # post"])
          (auto simp: table_push_def chain_ok_def bucket_ok_def push_queue_def push_drops_def
            chain_queue_absent Let_def)
    next
      case False
      let ?cap = "if length (bk_recs b) = bk_cap b
        then if m \<noteq> 0 \<and> bk_cap b * 2 > m then m else bk_cap b * 2 else bk_cap b"
      let ?b = "b\<lparr>bk_cap := ?cap, bk_recs := bk_recs b @ [r]\<rparr>"
      have nd: "\<not> (m \<noteq> 0 \<and> length (bk_recs b) = m)" using False by (simp add: push_drops_def)
      have pair: "dropped = False \<and> t' = (set_chain t (key_of (idf r)) (pre @ ?b # post))
          \<lparr>tb_pending := tb_pending t + 1\<rparr>"
        using push nd by (simp add: table_push_def l idf Cons Let_def del: not_gr_zero neq0_conv)
      have "length (bk_recs b) \<le> bk_cap b" "m \<noteq> 0 \<Longrightarrow> length (bk_recs b) \<le> m"
        using ok by (auto simp: bucket_ok_def)
      then have "bucket_ok m idf (tb_nbuckets t) (slot_of (tb_nbuckets t) (key_of (idf r))) ?b"
        using ok key nd by (cases "bk_recs b"; cases "m = 0"; auto simp: bucket_ok_def)
      then have "chain_ok m idf (tb_nbuckets t) (slot_of (tb_nbuckets t) (key_of (idf r))) (pre @ ?b # post)"
        using sp(3) key by (simp add: chain_ok_def Cons)
      then show ?thesis
        using pair False q key sp(2)
        by (intro exI [of _ "pre @ ?b # post"]) (auto simp: Cons push_queue_def push_drops_def chain_queue_absent)
    qed
  qed
qed

lemma table_push_spec:
  assumes inv: "table_inv m idf tsf t" and push: "table_push m t r = (dropped, t')"
  shows "table_inv m idf tsf t'"
    and "dropped \<longleftrightarrow> push_drops m (tb_queue t (key_of (idf r)))"
    and "tb_queue t' k = (if k = key_of (idf r) then push_queue m (tb_queue t k) r else tb_queue t k)"
    and "tb_mset t' + (if dropped then {#hd (tb_queue t (key_of (idf r)))#} else {#}) = add_mset r (tb_mset t)"
proof -
  let ?k = "key_of (idf r)" 
  have idf: "tb_id t = idf" and pend: "tb_pending t = of_nat (size (tb_mset t))"
    using inv by (auto simp: table_inv_def)
  obtain pre rest where l: "lookup t ?k = (pre, rest)" by fastforce
  obtain bs where t': "t' = (set_chain t ?k bs)\<lparr>tb_pending := tb_pending t + (if dropped then 0 else 1)\<rparr>"
    and ok: "chain_ok m idf (tb_nbuckets t) (slot_of (tb_nbuckets t) ?k) bs"
    and oth: "\<And>k'. k' \<noteq> ?k \<Longrightarrow> chain_queue k' bs = chain_queue k' (pre @ rest)"
    and q: "chain_queue ?k bs = push_queue m (tb_queue t ?k) r"
    and dr: "dropped \<longleftrightarrow> push_drops m (tb_queue t ?k)"
    and ms: "chain_mset bs + (if dropped then {#hd (tb_queue t ?k)#} else {#}) = chain_mset (pre @ rest) + {#r#}"
    using table_push_chain [OF inv push l] by blast
  have ms': "tb_mset (set_chain t ?k bs) + (if dropped then {#hd (tb_queue t ?k)#} else {#}) = tb_mset t + {#r#}"
    by (rule tb_mset_replace [OF inv l ms])
  show "dropped \<longleftrightarrow> push_drops m (tb_queue t ?k)" by (rule dr)
  show "tb_queue t' k = (if k = ?k then push_queue m (tb_queue t k) r else tb_queue t k)"
    using tb_queue_replace [OF inv l oth q, of k] by (simp add: t')
  show "tb_mset t' + (if dropped then {#hd (tb_queue t ?k)#} else {#}) = add_mset r (tb_mset t)"
    using ms' by (simp add: t')
  have "tb_pending t + (if dropped then 0 else 1) = of_nat (size (tb_mset (set_chain t ?k bs)))"
    using arg_cong [OF ms', of "\<lambda>M. (of_nat (size M) :: u64)"] by (auto simp: pend split: if_splits)
  then show "table_inv m idf tsf t'"
    unfolding t' by (rule table_inv_set_chain [OF inv ok])
qed


subsection \<open>Take\<close>

lemma take_first_SomeD:
  "take_first P xs = Some (y, ys) \<Longrightarrow>
    \<exists>us vs. xs = us @ y # vs \<and> ys = us @ vs \<and> P y \<and> (\<forall>u \<in> set us. \<not> P u)"
proof (induction xs arbitrary: ys)
  case (Cons x xs)
  show ?case
  proof (cases "P x")
    case True
    with Cons.prems show ?thesis by (intro exI [of _ "[]"] exI [of _ xs]) simp
  next
    case False
    with Cons.prems obtain zs where "take_first P xs = Some (y, zs)" and "ys = x # zs" by auto
    with Cons.IH False show ?thesis by (metis append_Cons set_ConsD)
  qed
qed simp

lemma take_first_None: "take_first P xs = None \<longleftrightarrow> (\<forall>x \<in> set xs. \<not> P x)"
  by (induction xs) auto

definition cmd_matches :: "('r \<Rightarrow> ntp_cmd_id) \<Rightarrow> ntp_cmd_id \<Rightarrow> 'r \<Rightarrow> bool" where
  "cmd_matches idf i r \<longleftrightarrow> same_command (idf r) i"

lemma table_take_None:
  assumes inv: "table_inv m idf tsf t"
  shows "table_take t i = None \<longleftrightarrow> take_first (cmd_matches idf i) (tb_queue t (key_of i)) = None"
proof -
  obtain pre rest where l: "lookup t (key_of i) = (pre, rest)" by fastforce
  show ?thesis
    using inv l lookup_split(5) [OF inv l]
    by (auto simp: table_take_def Let_def table_inv_def cmd_matches_def [abs_def] split: list.split option.split)
qed

lemma table_take_Some:
  assumes inv: "table_inv m idf tsf t" and take: "table_take t i = Some (r, t')"
  shows "\<exists>rs. take_first (cmd_matches idf i) (tb_queue t (key_of i)) = Some (r, rs) \<and>
      table_inv m idf tsf t' \<and> tb_mset t = add_mset r (tb_mset t') \<and>
      (\<forall>k. tb_queue t' k = (if k = key_of i then rs else tb_queue t k))"
proof -
  let ?k = "key_of i"
  have idf: "tb_id t = idf" and pend: "tb_pending t = of_nat (size (tb_mset t))"
    using inv by (auto simp: table_inv_def)
  obtain pre rest where l: "lookup t ?k = (pre, rest)" by fastforce
  note sp = lookup_split [OF inv l]
  obtain b post rs where rest: "rest = b # post"
    and tf: "take_first (cmd_matches idf i) (bk_recs b) = Some (r, rs)"
    and t': "t' = (set_chain t ?k (if rs = [] then pre @ post else pre @ b\<lparr>bk_recs := rs\<rparr> # post))
      \<lparr>tb_pending := tb_pending t - 1\<rparr>" (is "_ = tb_pending_update _ (set_chain t ?k ?bs)")
    using take by (auto simp: table_take_def l idf Let_def cmd_matches_def [abs_def]
        split: list.splits option.splits)
  obtain us vs where b: "bk_recs b = us @ r # vs" and rs: "rs = us @ vs"
    using tf by (auto dest: take_first_SomeD)
  have key: "bk_key b = ?k" "?k \<notin> bk_key ` set post" using sp(4) [OF rest] by auto
  have ok: "chain_ok m idf (tb_nbuckets t) (slot_of (tb_nbuckets t) ?k) ?bs"
    using sp(3) by (auto simp: rest chain_ok_def bucket_ok_def b rs)
  have ms: "chain_mset ?bs + {#r#} = chain_mset (pre @ rest) + {#}"
    by (auto simp: rest b rs)
  have ms': "tb_mset t = add_mset r (tb_mset (set_chain t ?k ?bs))"
    using tb_mset_replace [OF inv l ms] by simp
  have q: "chain_queue ?k ?bs = rs" 
    using sp(2) key by (simp add: chain_queue_absent)
  have oth: "k' \<noteq> ?k \<Longrightarrow> chain_queue k' ?bs = chain_queue k' (pre @ rest)" for k'
    using key by (auto simp: rest)
  have "table_inv m idf tsf t'"
    unfolding t' by (rule table_inv_set_chain [OF inv ok]) (simp add: pend ms')
  moreover have "\<forall>k. tb_queue t' k = (if k = ?k then rs else tb_queue t k)"
    using tb_queue_replace [OF inv l oth q] by (simp add: t')
  ultimately show ?thesis
    using tf sp(5) ms' by (simp add: rest t')
qed

subsection \<open>Expire\<close>

lemma expire_slots_spec:
  assumes "expire_slots before ss t = (t', gone)" and "distinct ss"
  shows "t' = t\<lparr>tb_v := (\<lambda>s. if s \<in> set ss then fst (expire_chain (tb_ts t) before (tb_v t s)) else tb_v t s),
      tb_pending := tb_pending t - of_nat (length gone)\<rparr> \<and>
    mset gone = (\<Sum>s\<in>set ss. mset (snd (expire_chain (tb_ts t) before (tb_v t s))))"
  using assms
proof (induction ss arbitrary: t t' gone)
  case Nil
  then show ?case by (cases t) auto
next
  case (Cons s ss)
  let ?t = "t\<lparr>tb_v := (tb_v t)(s := fst (expire_chain (tb_ts t) before (tb_v t s))),
    tb_pending := tb_pending t - of_nat (length (snd (expire_chain (tb_ts t) before (tb_v t s))))\<rparr>"
  obtain t1 g where rec: "expire_slots before ss ?t = (t1, g)" by fastforce
  have eq: "t' = t1" "gone = snd (expire_chain (tb_ts t) before (tb_v t s)) @ g"
    using Cons.prems(1) rec by (auto simp: case_prod_unfold Let_def)
  have new: "s \<notin> set ss" using Cons.prems(2) by simp
  have "(\<Sum>x\<in>set ss. mset (snd (expire_chain (tb_ts t) before (((tb_v t)(s := z)) x)))) =
      (\<Sum>x\<in>set ss. mset (snd (expire_chain (tb_ts t) before (tb_v t x))))" for z
    by (rule sum.cong) (use new in auto)
  with Cons.IH [OF rec] Cons.prems(2) new eq show ?case
    by (auto simp: fun_eq_iff)
qed

lemma sum_filter_mset:
  "finite A \<Longrightarrow> (\<Sum>s\<in>A. filter_mset P (f s)) = filter_mset P (\<Sum>s\<in>A. f s)"
  by (induction A rule: finite_induct) auto

lemma table_expire_spec:
  assumes inv: "table_inv m idf tsf t" and ex: "table_expire t before = (t', gone)"
  shows "table_inv m idf tsf t'"
    and "tb_queue t' k = filter (\<lambda>r. \<not> tsf r < before) (tb_queue t k)"
    and "mset gone = filter_mset (\<lambda>r. tsf r < before) (tb_mset t)"
    and "tb_mset t' = filter_mset (\<lambda>r. \<not> tsf r < before) (tb_mset t)"
proof -
  have tsf: "tb_ts t = tsf" and idf: "tb_id t = idf" and pend: "tb_pending t = of_nat (size (tb_mset t))"
    and pow: "\<exists>k < 64. tb_nbuckets t = 2 ^ k"
    using inv by (auto simp: table_inv_def)
  let ?n = "tb_nbuckets t" 
  let ?ex = "\<lambda>s. expire_chain tsf before (tb_v t s)"
  have spec: "t' = t\<lparr>tb_v := (\<lambda>s. if s < ?n then fst (?ex s) else tb_v t s),
      tb_pending := tb_pending t - of_nat (length gone)\<rparr>"
    "mset gone = (\<Sum>s<?n. mset (snd (?ex s)))"
    using expire_slots_spec [OF ex [unfolded table_expire_def], unfolded tsf]
    by (simp_all add: lessThan_atLeast0)
  have chain: "mset (snd (?ex s)) = filter_mset (\<lambda>r. tsf r < before) (chain_mset (tb_v t s))"
    "chain_mset (fst (?ex s)) = filter_mset (\<lambda>r. \<not> tsf r < before) (chain_mset (tb_v t s))" for s
    using expire_chain_gone [of tsf before "tb_v t s"] by (metis prod.collapse)+
  show gone: "mset gone = filter_mset (\<lambda>r. tsf r < before) (tb_mset t)"
    by (simp add: spec(2) chain tb_mset_def sum_filter_mset)
  show kept: "tb_mset t' = filter_mset (\<lambda>r. \<not> tsf r < before) (tb_mset t)"
    by (simp add: spec(1) tb_mset_def chain flip: sum_filter_mset)
  show "tb_queue t' k = filter (\<lambda>r. \<not> tsf r < before) (tb_queue t k)"
    using expire_chain_queue [of tsf before "tb_v t (slot_of ?n k)"] table_inv_slot [OF inv, of k]
    by (simp add: spec(1) tb_queue_def) (metis prod.collapse)
  have "chain_ok m idf ?n s (fst (?ex s))" if "s < ?n" for s
  proof -
    have old: "chain_ok m idf ?n s (tb_v t s)" using inv that by (auto simp: table_inv_def)
    obtain bs g where e: "?ex s = (bs, g)" by fastforce
    have "bucket_ok m idf ?n s b'" if b': "b' \<in> set bs" for b'
    proof -
      obtain b where b: "b \<in> set (tb_v t s)" "bk_key b' = bk_key b" "bk_cap b' = bk_cap b" "bk_recs b' \<noteq> []"
        and f: "bk_recs b' = filter (\<lambda>r. \<not> tsf r < before) (bk_recs b)"
        using expire_chain_buckets [OF e b'] by blast
      have len: "length (bk_recs b') \<le> length (bk_recs b)" and sub: "set (bk_recs b') \<subseteq> set (bk_recs b)"
        by (auto simp: f)
      have "bucket_ok m idf ?n s b" using old b(1) by (simp add: chain_ok_def)
      then show ?thesis using b(2-4) len sub unfolding bucket_ok_def by (metis le_trans subsetD)
    qed
    with expire_chain_keys [OF e] old e show ?thesis by (auto simp: chain_ok_def)
  qed
  moreover have "size (tb_mset t) = size (tb_mset t') + length gone"
    using arg_cong [OF gone, of size] arg_cong [OF kept, of size]
    by (metis add.commute multiset_partition size_mset size_union)
  ultimately show "table_inv m idf tsf t'"
    using pow idf tsf kept by (auto simp: table_inv_def spec(1) pend)
qed

lemma table_init_spec:
  "table_inv m idf tsf (table_init idf tsf)" 
  "tb_queue (table_init idf tsf) k = []" 
  "tb_mset (table_init idf tsf) = {#}"
proof -
  show e: "tb_mset (table_init idf tsf) = {#}"
    by (simp add: table_init_def tb_mset_def)
  show "tb_queue (table_init idf tsf) k = []"
    by (simp add: table_init_def tb_queue_def)
  have "\<exists>k < 64. tb_nbuckets (table_init idf tsf) = 2 ^ k"
    by (intro exI [of _ 16]) (simp add: table_init_def)
  then show "table_inv m idf tsf (table_init idf tsf)"
    by (simp add: table_inv_def e) (simp add: table_init_def chain_ok_def)
qed


subsection \<open>The interface that the joiner relies on\<close>

text \<open>
  A bag of records, counted: what a push, a take and an expire do to the records it holds.
\<close>

locale record_bag =
  fixes inv :: "'s \<Rightarrow> bool"
    and held :: "'s \<Rightarrow> 'r multiset"
    and pending :: "'s \<Rightarrow> u64"
    and age :: "'r \<Rightarrow> u64"
    and push :: "'s \<Rightarrow> 'r \<Rightarrow> bool \<times> 's"
    and take :: "'s \<Rightarrow> ntp_cmd_id \<Rightarrow> ('r \<times> 's) option"
    and expire :: "'s \<Rightarrow> u64 \<Rightarrow> 's \<times> 'r list"
  assumes pending_held: "inv s \<Longrightarrow> pending s = of_nat (size (held s))"
    and push_inv: "inv s \<Longrightarrow> push s r = (dr, s') \<Longrightarrow> inv s'"
    and push_held: "inv s \<Longrightarrow> push s r = (dr, s') \<Longrightarrow>
      \<exists>D. held s' + D = add_mset r (held s) \<and> size D = (if dr then 1 else 0)"
    and take_inv: "inv s \<Longrightarrow> take s i = Some (r, s') \<Longrightarrow> inv s'"
    and take_held: "inv s \<Longrightarrow> take s i = Some (r, s') \<Longrightarrow> held s = add_mset r (held s')"
    and expire_inv: "inv s \<Longrightarrow> expire s b = (s', gone) \<Longrightarrow> inv s'"
    and expire_held: "inv s \<Longrightarrow> expire s b = (s', gone) \<Longrightarrow>
      held s' = filter_mset (\<lambda>r. \<not> age r < b) (held s) \<and>
      mset gone = filter_mset (\<lambda>r. age r < b) (held s)"
begin

lemma push_pending:
  assumes "inv s" and "push s r = (dr, s')"
  shows "pending s' + of_bool dr = pending s + 1"
proof -
  obtain D where D: "held s' + D = add_mset r (held s)" and dr: "size D = (if dr then 1 else 0)"
    using push_held [OF assms] by blast
  have "of_nat (size (held s') + size D) = (of_nat (size (held s) + 1) :: u64)"
    using arg_cong [OF D, of size] by simp
  with dr show ?thesis
    by (simp add: pending_held assms(1) push_inv [OF assms] split: if_splits)
qed

lemma push_subset:
  assumes "inv s" and "push s r = (dr, s')"
  shows "held s' \<subseteq># add_mset r (held s)"
  using push_held [OF assms] by (metis mset_subset_eq_add_left)

lemma take_pending:
  assumes "inv s" and "take s i = Some (r, s')"
  shows "pending s = pending s' + 1"
  using take_held [OF assms] by (simp add: pending_held assms(1) take_inv [OF assms])

lemma expire_pending:
  assumes "inv s" and "expire s b = (s', gone)"
  shows "pending s = pending s' + of_nat (length gone)"
proof -
  have "held s = held s' + mset gone"
    using expire_held [OF assms] by (metis add.commute multiset_partition)
  then show ?thesis by (simp add: pending_held assms(1) expire_inv [OF assms])
qed

lemma expire_age:
  assumes "inv s" and "expire s b = (s', gone)"
  shows "r \<in> set gone \<Longrightarrow> age r < b" and "r \<in># held s' \<Longrightarrow> \<not> age r < b"
  using expire_held [OF assms] by (auto simp flip: set_mset_mset)

end

text \<open>
  A store that keeps the records of a key in arrival order, at most \<open>limit\<close> of them (no limit
  when it is 0), and gives back the oldest of a command.
\<close>

definition cmd_eq :: "ntp_cmd_id \<Rightarrow> ntp_cmd_id \<Rightarrow> bool" where
  "cmd_eq a b \<longleftrightarrow> key_of a = key_of b \<and> same_command a b"

lemma cmd_eq_refl [simp]: "cmd_eq a a"
  and cmd_eq_sym: "cmd_eq a b \<longleftrightarrow> cmd_eq b a"
  and cmd_eq_trans: "cmd_eq a b \<Longrightarrow> cmd_eq b c \<Longrightarrow> cmd_eq a c"
  by (auto simp: cmd_eq_def same_command_def)

locale fifo_store = record_bag inv held pending age push take expire
  for inv :: "'s \<Rightarrow> bool"
    and held :: "'s \<Rightarrow> 'r multiset"
    and pending :: "'s \<Rightarrow> u64"
    and age :: "'r \<Rightarrow> u64"
    and push :: "'s \<Rightarrow> 'r \<Rightarrow> bool \<times> 's"
    and take :: "'s \<Rightarrow> ntp_cmd_id \<Rightarrow> ('r \<times> 's) option"
    and expire :: "'s \<Rightarrow> u64 \<Rightarrow> 's \<times> 'r list" +
  fixes limit :: nat
    and ident :: "'r \<Rightarrow> ntp_cmd_id"
    and queue :: "'s \<Rightarrow> u64 \<Rightarrow> 'r list"
  assumes queue_key: "inv s \<Longrightarrow> r \<in> set (queue s k) \<Longrightarrow> key_of (ident r) = k"
    and queue_held: "inv s \<Longrightarrow> r \<in># held s \<longleftrightarrow> r \<in> set (queue s (key_of (ident r)))"
    and queue_limit: "inv s \<Longrightarrow> limit \<noteq> 0 \<Longrightarrow> length (queue s k) \<le> limit"
    and push_queue: "inv s \<Longrightarrow> push s r = (dr, s') \<Longrightarrow>
      queue s' k = (if k = key_of (ident r) then push_queue limit (queue s k) r else queue s k)"
    and push_drop: "inv s \<Longrightarrow> push s r = (dr, s') \<Longrightarrow>
      dr \<longleftrightarrow> push_drops limit (queue s (key_of (ident r)))"
    and take_None: "inv s \<Longrightarrow> take s i = None \<longleftrightarrow>
      take_first (cmd_matches ident i) (queue s (key_of i)) = None"
    and take_Some: "inv s \<Longrightarrow> take s i = Some (r, s') \<Longrightarrow>
      \<exists>rs. take_first (cmd_matches ident i) (queue s (key_of i)) = Some (r, rs) \<and>
        (\<forall>k. queue s' k = (if k = key_of i then rs else queue s k))"
    and expire_queue: "inv s \<Longrightarrow> expire s b = (s', gone) \<Longrightarrow>
      queue s' k = filter (\<lambda>r. \<not> age r < b) (queue s k)"
begin

text \<open>The records of one command, oldest first: the abstract state of the store.\<close>

definition line :: "'s \<Rightarrow> ntp_cmd_id \<Rightarrow> 'r list" where
  "line s i = filter (cmd_matches ident i) (queue s (key_of i))"

lemma line_member: "inv s \<Longrightarrow> r \<in> set (line s i) \<longleftrightarrow> r \<in># held s \<and> cmd_eq (ident r) i"
  by (auto simp: line_def queue_held cmd_eq_def cmd_matches_def dest: queue_key)

lemma line_cong: "cmd_eq i j \<Longrightarrow> line s i = line s j"
  by (auto simp: line_def cmd_eq_def cmd_matches_def same_command_def intro!: filter_cong)

lemma take_line:
  assumes inv: "inv s"
  shows "take s i = None \<longleftrightarrow> line s i = []"
    and "take s i = Some (r, s') \<Longrightarrow> line s i = r # line s' i"
    and "take s i = Some (r, s') \<Longrightarrow> \<not> cmd_eq j i \<Longrightarrow> line s' j = line s j"
proof -
  show "take s i = None \<longleftrightarrow> line s i = []"
    by (simp add: take_None [OF inv] take_first_None line_def filter_empty_conv)
  assume t: "take s i = Some (r, s')"
  obtain rs where tf: "take_first (cmd_matches ident i) (queue s (key_of i)) = Some (r, rs)"
    and q: "\<And>k. queue s' k = (if k = key_of i then rs else queue s k)"
    using take_Some [OF inv t] by blast
  obtain us vs where "queue s (key_of i) = us @ r # vs" and "rs = us @ vs" and "cmd_matches ident i r"
    and "\<forall>u \<in> set us. \<not> cmd_matches ident i u"
    using take_first_SomeD [OF tf] by blast
  then show "line s i = r # line s' i"
    by (simp add: line_def q filter_empty_conv)
  assume "\<not> cmd_eq j i"
  then show "line s' j = line s j"
    using \<open>queue s (key_of i) = us @ r # vs\<close> \<open>rs = us @ vs\<close> \<open>cmd_matches ident i r\<close>
    by (auto simp: line_def q cmd_eq_def cmd_matches_def same_command_def)
qed

lemma take_ident:
  assumes "inv s" and "take s i = Some (r, s')"
  shows "cmd_eq (ident r) i"
  using take_line(2) [OF assms] line_member [OF assms(1), of r i] by simp

lemma push_line:
  assumes inv: "inv s" and p: "push s r = (dr, s')"
  shows "\<not> dr \<Longrightarrow> line s' i = line s i @ (if cmd_eq (ident r) i then [r] else [])"
    and "set (line s' i) \<subseteq> set (line s i) \<union> (if cmd_eq (ident r) i then {r} else {})"
  using push_drop [OF inv p] list.set_sel(2) [of "queue s (key_of (ident r))"]
  by (auto simp: line_def push_queue [OF inv p] cmd_eq_def cmd_matches_def push_queue_def
      push_drops_def split: if_splits)

lemma push_unlimited: "inv s \<Longrightarrow> push s r = (dr, s') \<Longrightarrow> limit = 0 \<Longrightarrow> \<not> dr"
  using push_drop by (simp add: push_drops_def)

lemma expire_line:
  assumes "inv s" and "expire s b = (s', gone)"
  shows "line s' i = filter (\<lambda>r. \<not> age r < b) (line s i)"
  by (simp add: line_def expire_queue [OF assms] conj_commute)

end

lemma tb_queue_held:
  assumes inv: "table_inv m idf tsf t"
  shows "r \<in> set (tb_queue t k) \<Longrightarrow> key_of (idf r) = k"
    and "r \<in># tb_mset t \<longleftrightarrow> r \<in> set (tb_queue t (key_of (idf r)))"
    and "m \<noteq> 0 \<Longrightarrow> length (tb_queue t k) \<le> m"
proof -
  have ok: "bucket_ok m idf (tb_nbuckets t) s b" if "s < tb_nbuckets t" "b \<in> set (tb_v t s)" for s b
    using inv that by (auto simp: table_inv_def chain_ok_def)
  have slot: "slot_of (tb_nbuckets t) k < tb_nbuckets t" for k by (rule table_inv_slot [OF inv])
  show "r \<in> set (tb_queue t k) \<Longrightarrow> key_of (idf r) = k"
    using ok [OF slot] by (auto simp: tb_queue_def chain_queue_def bucket_ok_def)
  have "r \<in># tb_mset t \<longleftrightarrow> (\<exists>s < tb_nbuckets t. \<exists>b \<in> set (tb_v t s). r \<in> set (bk_recs b))"
    by (auto simp: tb_mset_def chain_mset_def set_mset_sum)
  also have "\<dots> \<longleftrightarrow> r \<in> set (tb_queue t (key_of (idf r)))"
  proof
    assume "\<exists>s < tb_nbuckets t. \<exists>b \<in> set (tb_v t s). r \<in> set (bk_recs b)"
    then obtain s b where s: "s < tb_nbuckets t" and b: "b \<in> set (tb_v t s)" and r: "r \<in> set (bk_recs b)"
      by blast
    have "slot_of (tb_nbuckets t) (bk_key b) = s" and "key_of (idf r) = bk_key b"
      using ok [OF s b] r by (auto simp: bucket_ok_def)
    then show "r \<in> set (tb_queue t (key_of (idf r)))"
      using b r by (auto simp: tb_queue_def chain_queue_def)
  next
    assume "r \<in> set (tb_queue t (key_of (idf r)))"
    then show "\<exists>s < tb_nbuckets t. \<exists>b \<in> set (tb_v t s). r \<in> set (bk_recs b)"
      using slot by (auto simp: tb_queue_def chain_queue_def)
  qed
  finally show "r \<in># tb_mset t \<longleftrightarrow> r \<in> set (tb_queue t (key_of (idf r)))" .
  obtain pre rest where l: "lookup t k = (pre, rest)" by fastforce
  show "m \<noteq> 0 \<Longrightarrow> length (tb_queue t k) \<le> m"
    using lookup_split(3,5) [OF inv l] 
    by (cases rest) (auto simp: chain_ok_def bucket_ok_def)
qed

interpretation tb: fifo_store "table_inv m idf tsf" tb_mset tb_pending tsf "table_push m" table_take
    table_expire m idf tb_queue
  for m idf tsf
proof unfold_locales
  fix s :: "'a table" and r s' i b k gone dr
  assume inv: "table_inv m idf tsf s"
  show "tb_pending s = of_nat (size (tb_mset s))"
    using inv by (simp add: table_inv_def)
  show "r \<in> set (tb_queue s k) \<Longrightarrow> key_of (idf r) = k"
    and "r \<in># tb_mset s \<longleftrightarrow> r \<in> set (tb_queue s (key_of (idf r)))"
    and "m \<noteq> 0 \<Longrightarrow> length (tb_queue s k) \<le> m"
    by (rule tb_queue_held [OF inv]; assumption)+
  show "table_take s i = None \<longleftrightarrow> take_first (cmd_matches idf i) (tb_queue s (key_of i)) = None"
    by (rule table_take_None [OF inv])
  show "table_inv m idf tsf s'" and "tb_mset s = add_mset r (tb_mset s')"
    and "\<exists>rs. take_first (cmd_matches idf i) (tb_queue s (key_of i)) = Some (r, rs) \<and>
        (\<forall>k. tb_queue s' k = (if k = key_of i then rs else tb_queue s k))"
    if "table_take s i = Some (r, s')"
    using table_take_Some [OF inv that] by auto
  show "table_inv m idf tsf s'"
    and "\<exists>D. tb_mset s' + D = add_mset r (tb_mset s) \<and> size D = (if dr then 1 else 0)"
    and "tb_queue s' k = (if k = key_of (idf r) then push_queue m (tb_queue s k) r else tb_queue s k)"
    and "dr \<longleftrightarrow> push_drops m (tb_queue s (key_of (idf r)))"
    if "table_push m s r = (dr, s')"
    using table_push_spec [OF inv that] by (blast intro: size_single size_empty, auto)
  show "table_inv m idf tsf s'"
    and "tb_mset s' = filter_mset (\<lambda>r. \<not> tsf r < b) (tb_mset s) \<and>
      mset gone = filter_mset (\<lambda>r. tsf r < b) (tb_mset s)"
    and "tb_queue s' k = filter (\<lambda>r. \<not> tsf r < b) (tb_queue s k)"
    if "table_expire s b = (s', gone)"
    using table_expire_spec [OF inv that] by auto
qed

end
