(* ===== verification/Joiner.thy ===== *)
theory Joiner
  imports Join_Table
begin

text \<open>
  The joiner of host and target records (\<^verbatim>\<open>src/src/join.c\<close>, \<^verbatim>\<open>src/src/join.h\<close>): two tables and the
  statistics. Each operation returns what the C function returns or passes to its callback,
  and the new joiner.
\<close>

subsection \<open>Definitions\<close>

record ntp_join_stats =
  targets_added :: u64
  targets_evicted :: u64
  targets_expired :: u64
  matched :: u64
  host_unmatched :: u64

record ntp_joiner =
  jn_targets :: "ntp_tgt_rec table"
  jn_hosts :: "ntp_host_rec table"
  jn_max_per_key :: nat
  jn_st :: ntp_join_stats

definition tgt_age :: "ntp_tgt_rec \<Rightarrow> u64" where
  "tgt_age t = t_ts t NTP_T_CMD_ARR"

definition host_age :: "ntp_host_rec \<Rightarrow> u64" where
  "host_age h = h_ts h NTP_H_BLK_DONE"

definition ntp_joiner_new :: "nat \<Rightarrow> ntp_joiner" where
  "ntp_joiner_new max_per_key =
    \<lparr>jn_targets = table_init t_id tgt_age, jn_hosts = table_init h_id host_age,
     jn_max_per_key = max_per_key,
     jn_st = \<lparr>targets_added = 0, targets_evicted = 0, targets_expired = 0, matched = 0,
              host_unmatched = 0\<rparr>\<rparr>"

definition ntp_joiner_add_target :: "ntp_joiner \<Rightarrow> ntp_tgt_rec \<Rightarrow> ntp_joiner" where
  "ntp_joiner_add_target j t =
    (let (dropped, tb) = table_push (jn_max_per_key j) (jn_targets j) t;
         st = jn_st j
     in j\<lparr>jn_targets := tb,
          jn_st := st\<lparr>targets_evicted := targets_evicted st + of_bool dropped,
                      targets_added := targets_added st + 1\<rparr>\<rparr>)"

definition ntp_joiner_match :: "ntp_joiner \<Rightarrow> ntp_host_rec \<Rightarrow> ntp_tgt_rec option \<times> ntp_joiner" where
  "ntp_joiner_match j h =
    (let st = jn_st j
     in case table_take (jn_targets j) (h_id h) of
          Some (t, tb) \<Rightarrow>
            (Some t, j\<lparr>jn_targets := tb, jn_st := st\<lparr>matched := matched st + 1\<rparr>\<rparr>)
        | None \<Rightarrow> (None, j\<lparr>jn_st := st\<lparr>host_unmatched := host_unmatched st + 1\<rparr>\<rparr>))"

definition ntp_joiner_target_arrives ::
  "ntp_joiner \<Rightarrow> ntp_tgt_rec \<Rightarrow> ntp_host_rec option \<times> ntp_joiner"
where
  "ntp_joiner_target_arrives j t =
    (let st = jn_st j
     in case table_take (jn_hosts j) (t_id t) of
          Some (h, tb) \<Rightarrow>
            (Some h, j\<lparr>jn_hosts := tb,
                       jn_st := st\<lparr>targets_added := targets_added st + 1,
                                   matched := matched st + 1\<rparr>\<rparr>)
        | None \<Rightarrow> (None, ntp_joiner_add_target j t))"

definition ntp_joiner_host_arrives ::
  "ntp_joiner \<Rightarrow> ntp_host_rec \<Rightarrow> ntp_tgt_rec option \<times> ntp_joiner"
where
  "ntp_joiner_host_arrives j h =
    (let st = jn_st j
     in case table_take (jn_targets j) (h_id h) of
          Some (t, tb) \<Rightarrow>
            (Some t, j\<lparr>jn_targets := tb, jn_st := st\<lparr>matched := matched st + 1\<rparr>\<rparr>)
        | None \<Rightarrow>
            let (dropped, tb) = table_push (jn_max_per_key j) (jn_hosts j) h
            in (None, j\<lparr>jn_hosts := tb,
                        jn_st := if dropped then st\<lparr>host_unmatched := host_unmatched st + 1\<rparr>
                                 else st\<rparr>))"

text \<open>The released records go to the callback in this order; their number is the result.\<close>

definition ntp_joiner_release_hosts :: "ntp_joiner \<Rightarrow> u64 \<Rightarrow> ntp_host_rec list \<times> ntp_joiner" where
  "ntp_joiner_release_hosts j before =
    (let (tb, gone) = table_expire (jn_hosts j) before;
         st = jn_st j
     in (gone, j\<lparr>jn_hosts := tb,
                 jn_st := st\<lparr>host_unmatched := host_unmatched st + of_nat (length gone)\<rparr>\<rparr>))"

definition ntp_joiner_expire :: "ntp_joiner \<Rightarrow> u64 \<Rightarrow> nat \<times> ntp_joiner" where
  "ntp_joiner_expire j before =
    (let (tb, gone) = table_expire (jn_targets j) before;
         st = jn_st j
     in (length gone,
         j\<lparr>jn_targets := tb,
           jn_st := st\<lparr>targets_expired := targets_expired st + of_nat (length gone)\<rparr>\<rparr>))"

definition ntp_joiner_pending :: "ntp_joiner \<Rightarrow> u64" where
  "ntp_joiner_pending j = tb_pending (jn_targets j)"

definition ntp_joiner_waiting_hosts :: "ntp_joiner \<Rightarrow> u64" where
  "ntp_joiner_waiting_hosts j = tb_pending (jn_hosts j)"

subsection \<open>Runs\<close>

text \<open>
  A call of the joiner's interface, and what it hands back: a pair of records of one command, or
  a host record given up.
\<close>

datatype jcall =
    AddTarget ntp_tgt_rec
  | Match ntp_host_rec
  | TargetArrives ntp_tgt_rec
  | HostArrives ntp_host_rec
  | ReleaseHosts u64
  | Expire u64

datatype jout = Joined ntp_host_rec ntp_tgt_rec | Alone ntp_host_rec

fun jstep :: "jcall \<Rightarrow> ntp_joiner \<Rightarrow> jout list \<times> ntp_joiner" where
  "jstep (AddTarget t) j = ([], ntp_joiner_add_target j t)"
| "jstep (Match h) j =
     (let (r, j) = ntp_joiner_match j h
      in ([case r of Some t \<Rightarrow> Joined h t | None \<Rightarrow> Alone h], j))"
| "jstep (TargetArrives t) j =
     (let (r, j) = ntp_joiner_target_arrives j t
      in (case r of Some h \<Rightarrow> [Joined h t] | None \<Rightarrow> [], j))"
| "jstep (HostArrives h) j =
     (let (r, j) = ntp_joiner_host_arrives j h
      in (case r of Some t \<Rightarrow> [Joined h t] | None \<Rightarrow> [], j))"
| "jstep (ReleaseHosts b) j = (let (gone, j) = ntp_joiner_release_hosts j b in (map Alone gone, j))"
| "jstep (Expire b) j = ([], snd (ntp_joiner_expire j b))"

fun jrun :: "jcall list \<Rightarrow> ntp_joiner \<Rightarrow> jout list \<times> ntp_joiner" where
  "jrun [] j = ([], j)"
| "jrun (c # cs) j = (let (os, j) = jstep c j; (os', j) = jrun cs j in (os @ os', j))"

fun target_of :: "jcall \<Rightarrow> ntp_tgt_rec list" where
  "target_of (AddTarget t) = [t]"
| "target_of (TargetArrives t) = [t]"
| "target_of _ = []"

fun host_of :: "jcall \<Rightarrow> ntp_host_rec list" where
  "host_of (Match h) = [h]"
| "host_of (HostArrives h) = [h]"
| "host_of _ = []"

fun pair_of :: "jout \<Rightarrow> (ntp_host_rec \<times> ntp_tgt_rec) list" where
  "pair_of (Joined h t) = [(h, t)]"
| "pair_of (Alone h) = []"

fun alone_of :: "jout \<Rightarrow> ntp_host_rec list" where
  "alone_of (Alone h) = [h]"
| "alone_of (Joined h t) = []"

subsection \<open>The invariant\<close>

definition joiner_inv :: "ntp_joiner \<Rightarrow> bool" where
  "joiner_inv j \<longleftrightarrow>
     table_inv (jn_max_per_key j) t_id tgt_age (jn_targets j) \<and>
     table_inv (jn_max_per_key j) h_id host_age (jn_hosts j)"

abbreviation targets_held :: "ntp_joiner \<Rightarrow> ntp_tgt_rec multiset" where
  "targets_held j \<equiv> tb_mset (jn_targets j)"

abbreviation hosts_held :: "ntp_joiner \<Rightarrow> ntp_host_rec multiset" where
  "hosts_held j \<equiv> tb_mset (jn_hosts j)"

lemmas joiner_op_defs = ntp_joiner_add_target_def ntp_joiner_match_def
  ntp_joiner_target_arrives_def ntp_joiner_host_arrives_def ntp_joiner_release_hosts_def
  ntp_joiner_expire_def

lemma joiner_inv_new [ntp_inv]: "joiner_inv (ntp_joiner_new m)"
  by (simp add: joiner_inv_def ntp_joiner_new_def table_init_spec)

lemma joiner_invD:
  assumes "joiner_inv j"
  shows "table_inv (jn_max_per_key j) t_id tgt_age (jn_targets j)"
    and "table_inv (jn_max_per_key j) h_id host_age (jn_hosts j)"
  using assms by (auto simp: joiner_inv_def)

text \<open>
  One step, over the two tables: which records come in, which go out, and how the statistics
  follow. \<open>D\<close> and \<open>E\<close> are the records that a full key or the age drops without handing them back.
\<close>

definition targets_balance :: "ntp_tgt_rec list \<Rightarrow> jout list \<Rightarrow> ntp_joiner \<Rightarrow> ntp_joiner \<Rightarrow> bool" where
  "targets_balance ts os j j' \<longleftrightarrow>
    (\<exists>D. targets_held j + mset ts = targets_held j' + mset (map snd (concat (map pair_of os))) + D \<and>
      targets_evicted (jn_st j') + targets_expired (jn_st j') =
        targets_evicted (jn_st j) + targets_expired (jn_st j) + of_nat (size D)) \<and>
    targets_added (jn_st j') = targets_added (jn_st j) + of_nat (length ts)"

definition hosts_balance :: "ntp_host_rec list \<Rightarrow> jout list \<Rightarrow> ntp_joiner \<Rightarrow> ntp_joiner \<Rightarrow> bool" where
  "hosts_balance hs os j j' \<longleftrightarrow>
    (\<exists>E. hosts_held j + mset hs =
        hosts_held j' + mset (map fst (concat (map pair_of os))) + mset (concat (map alone_of os)) + E \<and>
      host_unmatched (jn_st j') =
        host_unmatched (jn_st j) + of_nat (size E + length (concat (map alone_of os)))) \<and>
    matched (jn_st j') = matched (jn_st j) + of_nat (length (concat (map pair_of os)))"

lemmas balance_defs = targets_balance_def hosts_balance_def

definition step_ok :: "jcall \<Rightarrow> jout list \<Rightarrow> ntp_joiner \<Rightarrow> ntp_joiner \<Rightarrow> bool" where
  "step_ok c os j j' \<longleftrightarrow> joiner_inv j' \<and> jn_max_per_key j' = jn_max_per_key j \<and>
     targets_balance (target_of c) os j j' \<and> hosts_balance (host_of c) os j j'"

lemma add_target_ok:
  assumes inv: "joiner_inv j"
  shows "joiner_inv (ntp_joiner_add_target j t)"
    and "jn_max_per_key (ntp_joiner_add_target j t) = jn_max_per_key j"
    and "targets_balance [t] [] j (ntp_joiner_add_target j t)"
    and "hosts_balance [] [] j (ntp_joiner_add_target j t)"
proof -
  obtain dr tb where p: "table_push (jn_max_per_key j) (jn_targets j) t = (dr, tb)" by fastforce
  note ti = joiner_invD(1) [OF inv]
  obtain D where D: "tb_mset tb + D = add_mset t (targets_held j)" "size D = (if dr then 1 else 0)"
    using tb.push_held [OF ti p] by blast
  show "joiner_inv (ntp_joiner_add_target j t)"
    using tb.push_inv [OF ti p] joiner_invD(2) [OF inv] p
    by (simp add: ntp_joiner_add_target_def Let_def joiner_inv_def)
  show "jn_max_per_key (ntp_joiner_add_target j t) = jn_max_per_key j"
    using p by (simp add: ntp_joiner_add_target_def Let_def)
  show "targets_balance [t] [] j (ntp_joiner_add_target j t)"
    using p D by (auto simp: ntp_joiner_add_target_def Let_def targets_balance_def intro!: exI [of _ D])
  show "hosts_balance [] [] j (ntp_joiner_add_target j t)"
    using p by (auto simp: ntp_joiner_add_target_def Let_def hosts_balance_def)
qed

text \<open>A host record that finds its target takes it, whether it was matched or arrived online.\<close>

lemma take_target_ok:
  assumes inv: "joiner_inv j" and tk: "table_take (jn_targets j) (h_id h) = Some (t, tb)"
    and j': "j' = j\<lparr>jn_targets := tb, jn_st := (jn_st j)\<lparr>matched := matched (jn_st j) + 1\<rparr>\<rparr>"
  shows "joiner_inv j'" and "targets_balance [] [Joined h t] j j'" and "hosts_balance [h] [Joined h t] j j'"
proof -
  note ti = joiner_invD(1) [OF inv]
  show "joiner_inv j'"
    using tb.take_inv [OF ti tk] joiner_invD(2) [OF inv] by (simp add: j' joiner_inv_def)
  show "targets_balance [] [Joined h t] j j'"
    using tb.take_held [OF ti tk] by (simp add: j' targets_balance_def)
  show "hosts_balance [h] [Joined h t] j j'"
    by (simp add: j' hosts_balance_def)
qed

lemma match_ok:
  assumes inv: "joiner_inv j" and step: "jstep (Match h) j = (os, j')"
  shows "step_ok (Match h) os j j'"
proof (cases "table_take (jn_targets j) (h_id h)")
  case None
  with inv step show ?thesis
    by (auto simp: ntp_joiner_match_def Let_def step_ok_def joiner_inv_def balance_defs)
next
  case (Some a)
  then obtain t tb where tk: "table_take (jn_targets j) (h_id h) = Some (t, tb)" by (cases a) auto
  with step take_target_ok [OF inv tk refl] show ?thesis
    by (auto simp: ntp_joiner_match_def Let_def step_ok_def)
qed

lemma host_arrives_ok:
  assumes inv: "joiner_inv j" and step: "jstep (HostArrives h) j = (os, j')"
  shows "step_ok (HostArrives h) os j j'"
proof (cases "table_take (jn_targets j) (h_id h)")
  case None
  obtain dr tb where p: "table_push (jn_max_per_key j) (jn_hosts j) h = (dr, tb)" by fastforce
  note hi = joiner_invD(2) [OF inv]
  obtain D where D: "tb_mset tb + D = add_mset h (hosts_held j)" "size D = (if dr then 1 else 0)"
    using tb.push_held [OF hi p] by blast
  have j': "os = []" "j' = j\<lparr>jn_hosts := tb, jn_st := if dr
      then (jn_st j)\<lparr>host_unmatched := host_unmatched (jn_st j) + 1\<rparr> else jn_st j\<rparr>"
    using step None p by (auto simp: ntp_joiner_host_arrives_def Let_def Let_def)
  have "joiner_inv j'"
    using tb.push_inv [OF hi p] joiner_invD(1) [OF inv] by (simp add: j' joiner_inv_def)
  moreover have "hosts_balance [h] [] j j'"
    using D by (auto simp: j' hosts_balance_def intro!: exI [of _ D])
  ultimately show ?thesis by (simp add: step_ok_def j' targets_balance_def)
next
  case (Some a)
  then obtain t tb where tk: "table_take (jn_targets j) (h_id h) = Some (t, tb)" by (cases a) auto
  with step take_target_ok [OF inv tk refl] show ?thesis
    by (auto simp: ntp_joiner_host_arrives_def Let_def step_ok_def)
qed

lemma target_arrives_ok:
  assumes inv: "joiner_inv j" and step: "jstep (TargetArrives t) j = (os, j')"
  shows "step_ok (TargetArrives t) os j j'"
proof (cases "table_take (jn_hosts j) (t_id t)")
  case None
  with step add_target_ok [OF inv, of t] show ?thesis
    by (auto simp: ntp_joiner_target_arrives_def Let_def step_ok_def)
next
  case (Some a)
  then obtain h tb where tk: "table_take (jn_hosts j) (t_id t) = Some (h, tb)" by (cases a) auto
  note hi = joiner_invD(2) [OF inv]
  have "joiner_inv j'" "jn_max_per_key j' = jn_max_per_key j"
    using step tk tb.take_inv [OF hi tk] joiner_invD(1) [OF inv]
    by (auto simp: ntp_joiner_target_arrives_def Let_def joiner_inv_def)
  with step tk tb.take_held [OF hi tk] show ?thesis
    by (auto simp: ntp_joiner_target_arrives_def Let_def step_ok_def balance_defs)
qed

lemma concat_map_Alone [simp]:
  "concat (map (pair_of \<circ> Alone) hs) = []" "concat (map (alone_of \<circ> Alone) hs) = hs"
  by (induction hs) auto

lemma release_hosts_ok:
  assumes inv: "joiner_inv j" and step: "jstep (ReleaseHosts b) j = (os, j')"
  shows "step_ok (ReleaseHosts b) os j j'"
proof -
  obtain tb gone where e: "table_expire (jn_hosts j) b = (tb, gone)" by fastforce
  note hi = joiner_invD(2) [OF inv]
  have "hosts_held j = tb_mset tb + mset gone"
    using tb.expire_held [OF hi e] by (metis add.commute multiset_partition)
  moreover have "joiner_inv j'" "jn_max_per_key j' = jn_max_per_key j"
    using step e tb.expire_inv [OF hi e] joiner_invD(1) [OF inv]
    by (auto simp: ntp_joiner_release_hosts_def Let_def joiner_inv_def)
  ultimately show ?thesis
    using step e by (auto simp: ntp_joiner_release_hosts_def Let_def step_ok_def balance_defs)
qed

lemma expire_ok:
  assumes inv: "joiner_inv j" and step: "jstep (Expire b) j = (os, j')"
  shows "step_ok (Expire b) os j j'"
proof -
  obtain tb gone where e: "table_expire (jn_targets j) b = (tb, gone)" by fastforce
  note ti = joiner_invD(1) [OF inv]
  have "targets_held j = tb_mset tb + mset gone"
    using tb.expire_held [OF ti e] by (metis add.commute multiset_partition)
  moreover have "joiner_inv j'" "jn_max_per_key j' = jn_max_per_key j"
    using step e tb.expire_inv [OF ti e] joiner_invD(2) [OF inv]
    by (auto simp: ntp_joiner_expire_def Let_def joiner_inv_def)
  ultimately show ?thesis
    using step e
    by (auto simp: ntp_joiner_expire_def Let_def step_ok_def balance_defs intro!: exI [of _ "mset gone"])
qed

lemma jstep_ok:
  assumes "joiner_inv j" and "jstep c j = (os, j')"
  shows "step_ok c os j j'"
proof (cases c)
  case (AddTarget t)
  with assms add_target_ok [OF assms(1), of t] show ?thesis by (auto simp: step_ok_def)
qed (use assms in \<open>simp_all only: match_ok host_arrives_ok target_arrives_ok release_hosts_ok expire_ok\<close>)

lemma balance_add:
  fixes a :: "'a::ab_semigroup_add"
  assumes "a + x = b + p" and "b + y = c + q"
  shows "a + (x + y) = c + (p + q)"
proof -
  have "a + (x + y) = (a + x) + y" by (simp add: add.assoc)
  also have "\<dots> = (b + y) + p" unfolding assms(1) by (simp add: ac_simps)
  also have "\<dots> = c + (p + q)" unfolding assms(2) by (simp add: ac_simps)
  finally show ?thesis .
qed

lemma targets_balance_trans:
  assumes "targets_balance ts os j j1" and "targets_balance ts' os' j1 j2"
  shows "targets_balance (ts @ ts') (os @ os') j j2"
proof -
  obtain D D' where
    m: "targets_held j + mset ts = targets_held j1 + (mset (map snd (concat (map pair_of os))) + D)"
    "targets_held j1 + mset ts' = targets_held j2 + (mset (map snd (concat (map pair_of os'))) + D')"
    and c: "targets_evicted (jn_st j1) + targets_expired (jn_st j1) =
        targets_evicted (jn_st j) + targets_expired (jn_st j) + of_nat (size D)"
      "targets_evicted (jn_st j2) + targets_expired (jn_st j2) =
        targets_evicted (jn_st j1) + targets_expired (jn_st j1) + of_nat (size D')"
    using assms unfolding targets_balance_def by (auto simp: add.assoc)
  have "targets_held j + mset (ts @ ts') =
      targets_held j2 + mset (map snd (concat (map pair_of (os @ os')))) + (D + D')"
    using balance_add [OF m] by (simp add: ac_simps)
  with c assms show ?thesis
    unfolding targets_balance_def by (intro conjI exI [of _ "D + D'"]) simp_all
qed

lemma hosts_balance_trans:
  assumes "hosts_balance hs os j j1" and "hosts_balance hs' os' j1 j2"
  shows "hosts_balance (hs @ hs') (os @ os') j j2"
proof -
  let ?out = "\<lambda>os. mset (map fst (concat (map pair_of os))) + mset (concat (map alone_of os))"
  obtain E E' where
    m: "hosts_held j + mset hs = hosts_held j1 + (?out os + E)"
    "hosts_held j1 + mset hs' = hosts_held j2 + (?out os' + E')"
    and c: "host_unmatched (jn_st j1) =
        host_unmatched (jn_st j) + of_nat (size E + length (concat (map alone_of os)))"
      "host_unmatched (jn_st j2) =
        host_unmatched (jn_st j1) + of_nat (size E' + length (concat (map alone_of os')))"
    using assms unfolding hosts_balance_def by (auto simp: add.assoc)
  have "hosts_held j + mset (hs @ hs') = hosts_held j2 + ?out (os @ os') + (E + E')"
    using balance_add [OF m] by (simp add: ac_simps)
  with c assms show ?thesis
    unfolding hosts_balance_def by (intro conjI exI [of _ "E + E'"]) (simp_all add: ac_simps)
qed

lemma jrun_ok:
  assumes "joiner_inv j" and "jrun cs j = (os, j')"
  shows "joiner_inv j' \<and> jn_max_per_key j' = jn_max_per_key j \<and>
    targets_balance (concat (map target_of cs)) os j j' \<and>
    hosts_balance (concat (map host_of cs)) os j j'"
  using assms
proof (induction cs arbitrary: j os j')
  case Nil
  then show ?case by (auto simp: balance_defs)
next
  case (Cons c cs)
  obtain os1 j1 where s: "jstep c j = (os1, j1)" by fastforce
  obtain os2 j2 where r: "jrun cs j1 = (os2, j2)" by fastforce
  have eq: "os = os1 @ os2" "j' = j2" using Cons.prems(2) s r by auto
  have ok: "joiner_inv j1" "jn_max_per_key j1 = jn_max_per_key j"
    and b1: "targets_balance (target_of c) os1 j j1" "hosts_balance (host_of c) os1 j j1"
    using jstep_ok [OF Cons.prems(1) s] by (auto simp: step_ok_def)
  note ih = Cons.IH [OF ok(1) r]
  show ?case
    using ih ok(2) targets_balance_trans [OF b1(1)] hosts_balance_trans [OF b1(2)] by (simp add: eq)
qed


subsection \<open>Keys\<close>

lemma key_of_inject:
  "key_of a = key_of b \<longleftrightarrow> id_cntlid a = id_cntlid b \<and> id_qid a = id_qid b \<and> id_cid a = id_cid b"
proof
  assume eq: "key_of a = key_of b"
  have bit: "bit (key_of x) n \<longleftrightarrow> 32 \<le> n \<and> bit (id_cntlid x) (n - 32) \<or>
      16 \<le> n \<and> bit (id_qid x) (n - 16) \<or> bit (id_cid x) n" if "n < 64" for x n
    using that by (auto simp: key_of_def bit_simps)
  have hi [simp]: "16 \<le> n \<Longrightarrow> \<not> bit w n" for w :: u16 and n using bit_imp_le_length [of w n] by auto
  have "id_cntlid a = id_cntlid b"
  proof (rule bit_word_eqI)
    fix n assume "n < LENGTH(16)"
    then show "bit (id_cntlid a) n \<longleftrightarrow> bit (id_cntlid b) n"
      using arg_cong [OF eq, of "\<lambda>k. bit k (n + 32)"] by (simp add: bit)
  qed
  moreover have "id_qid a = id_qid b"
  proof (rule bit_word_eqI)
    fix n assume "n < LENGTH(16)"
    then show "bit (id_qid a) n \<longleftrightarrow> bit (id_qid b) n"
      using arg_cong [OF eq, of "\<lambda>k. bit k (n + 16)"] by (simp add: bit)
  qed
  moreover have "id_cid a = id_cid b"
  proof (rule bit_word_eqI)
    fix n assume "n < LENGTH(16)"
    then show "bit (id_cid a) n \<longleftrightarrow> bit (id_cid b) n"
      using arg_cong [OF eq, of "\<lambda>k. bit k n"] by (simp add: bit)
  qed
  ultimately show "id_cntlid a = id_cntlid b \<and> id_qid a = id_qid b \<and> id_cid a = id_cid b" by simp
qed (simp add: key_of_def)

subsection \<open>Pairs are records of one command\<close>

lemma jstep_pairs:
  assumes inv: "joiner_inv j" and step: "jstep c j = (os, j')" and p: "Joined h t \<in> set os"
  shows "cmd_eq (t_id t) (h_id h)"
proof (cases c)
  case (Match x)
  with step p show ?thesis
    by (auto simp: ntp_joiner_match_def Let_def dest: tb.take_ident [OF joiner_invD(1) [OF inv]]
        split: option.splits)
next
  case (TargetArrives x)
  with step p show ?thesis
    by (auto simp: ntp_joiner_target_arrives_def Let_def cmd_eq_sym [of "t_id t"]
        dest: tb.take_ident [OF joiner_invD(2) [OF inv]] split: option.splits)
next
  case (HostArrives x)
  with step p show ?thesis
    by (auto simp: ntp_joiner_host_arrives_def Let_def dest: tb.take_ident [OF joiner_invD(1) [OF inv]]
        split: option.splits prod.splits)
next
  case (ReleaseHosts x)
  with step p show ?thesis by (auto split: prod.splits)
qed (use step p in auto)

lemma jrun_pairs:
  "joiner_inv j \<Longrightarrow> jrun cs j = (os, j') \<Longrightarrow> Joined h t \<in> set os \<Longrightarrow> cmd_eq (t_id t) (h_id h)"
proof (induction cs arbitrary: j os j')
  case (Cons c cs)
  obtain os1 j1 where s: "jstep c j = (os1, j1)" by fastforce
  obtain os2 j2 where r: "jrun cs j1 = (os2, j2)" by fastforce
  have "joiner_inv j1" using jstep_ok [OF Cons.prems(1) s] by (simp add: step_ok_def)
  with Cons.prems s r Cons.IH [OF _ r] jstep_pairs [OF Cons.prems(1) s] show ?case by auto
qed simp

subsection \<open>Online, no match is missed\<close>

definition no_missed :: "ntp_joiner \<Rightarrow> bool" where
  "no_missed j \<longleftrightarrow>
    (\<forall>h t. h \<in># hosts_held j \<and> t \<in># targets_held j \<longrightarrow> \<not> cmd_eq (t_id t) (h_id h))"

fun online :: "jcall \<Rightarrow> bool" where
  "online (AddTarget t) \<longleftrightarrow> False"
| "online (Match h) \<longleftrightarrow> False"
| "online _ \<longleftrightarrow> True"

lemma no_missed_sub:
  "no_missed j \<Longrightarrow> hosts_held j' \<subseteq># hosts_held j \<Longrightarrow> targets_held j' \<subseteq># targets_held j \<Longrightarrow> no_missed j'"
  unfolding no_missed_def by (meson mset_subset_eqD)

lemma take_None_held:
  assumes "table_inv m idf tsf t" and "table_take t i = None" and "r \<in># tb_mset t"
  shows "\<not> cmd_eq (idf r) i"
  using tb.take_line(1) [OF assms(1), of i] tb.line_member [OF assms(1), of r i] assms by auto

lemma jstep_no_missed:
  assumes inv: "joiner_inv j" and nm: "no_missed j" and on: "online c" and step: "jstep c j = (os, j')"
  shows "no_missed j'"
proof (cases c)
  case (TargetArrives t)
  show ?thesis
  proof (cases "table_take (jn_hosts j) (t_id t)")
    case None
    obtain dr tb where p: "table_push (jn_max_per_key j) (jn_targets j) t = (dr, tb)" by fastforce
    have "\<not> cmd_eq (t_id t) (h_id h)" if "h \<in># hosts_held j" for h
      using take_None_held [OF joiner_invD(2) [OF inv] None that] by (simp add: cmd_eq_sym)
    moreover have "tb_mset tb \<subseteq># add_mset t (targets_held j)"
      by (rule tb.push_subset [OF joiner_invD(1) [OF inv] p])
    ultimately show ?thesis
      using nm step p None unfolding TargetArrives no_missed_def
      by (auto simp: ntp_joiner_target_arrives_def ntp_joiner_add_target_def Let_def dest!: mset_subset_eqD)
  next
    case (Some a)
    with step TargetArrives tb.take_held [OF joiner_invD(2) [OF inv], of "t_id t"] show ?thesis
      by (cases a) (auto simp: ntp_joiner_target_arrives_def Let_def intro!: no_missed_sub [OF nm])
  qed
next
  case (HostArrives h)
  show ?thesis
  proof (cases "table_take (jn_targets j) (h_id h)")
    case None
    obtain dr tb where p: "table_push (jn_max_per_key j) (jn_hosts j) h = (dr, tb)" by fastforce
    have "\<not> cmd_eq (t_id t) (h_id h)" if "t \<in># targets_held j" for t
      by (rule take_None_held [OF joiner_invD(1) [OF inv] None that])
    moreover have "tb_mset tb \<subseteq># add_mset h (hosts_held j)"
      by (rule tb.push_subset [OF joiner_invD(2) [OF inv] p])
    ultimately show ?thesis
      using nm step p None unfolding HostArrives no_missed_def
      by (auto simp: ntp_joiner_host_arrives_def Let_def dest!: mset_subset_eqD)
  next
    case (Some a)
    with step HostArrives tb.take_held [OF joiner_invD(1) [OF inv], of "h_id h"] show ?thesis
      by (cases a) (auto simp: ntp_joiner_host_arrives_def Let_def intro!: no_missed_sub [OF nm])
  qed
next
  case (ReleaseHosts b)
  obtain tb gone where "table_expire (jn_hosts j) b = (tb, gone)" by fastforce
  with step ReleaseHosts tb.expire_held [OF joiner_invD(2) [OF inv] this] show ?thesis
    by (auto simp: ntp_joiner_release_hosts_def Let_def intro!: no_missed_sub [OF nm])
next
  case (Expire b)
  obtain tb gone where "table_expire (jn_targets j) b = (tb, gone)" by fastforce
  with step Expire tb.expire_held [OF joiner_invD(1) [OF inv] this] show ?thesis
    by (auto simp: ntp_joiner_expire_def Let_def intro!: no_missed_sub [OF nm])
qed (use on in simp_all)

lemma jrun_no_missed:
  "joiner_inv j \<Longrightarrow> no_missed j \<Longrightarrow> list_all online cs \<Longrightarrow> jrun cs j = (os, j') \<Longrightarrow> no_missed j'"
proof (induction cs arbitrary: j os j')
  case (Cons c cs)
  obtain os1 j1 where s: "jstep c j = (os1, j1)" by fastforce
  obtain os2 j2 where r: "jrun cs j1 = (os2, j2)" by fastforce
  have "joiner_inv j1" using jstep_ok [OF Cons.prems(1) s] by (simp add: step_ok_def)
  with Cons.prems s r Cons.IH [OF _ _ _ r] jstep_no_missed [OF Cons.prems(1,2) _ s] show ?case by auto
qed simp

subsection \<open>Offline, the n-th host record of a command gets the n-th target record\<close>

abbreviation target_line :: "ntp_joiner \<Rightarrow> ntp_cmd_id \<Rightarrow> ntp_tgt_rec list" where
  "target_line j i \<equiv> tb.line t_id (jn_targets j) i"

lemma add_targets_line:
  "joiner_inv j \<Longrightarrow> jn_max_per_key j = 0 \<Longrightarrow> jrun (map AddTarget ts) j = (os, j') \<Longrightarrow>
    os = [] \<and> joiner_inv j' \<and> target_line j' i = target_line j i @ filter (\<lambda>t. cmd_eq (t_id t) i) ts"
proof (induction ts arbitrary: j os j')
  case (Cons t ts)
  let ?j = "ntp_joiner_add_target j t"
  obtain dr tb where p: "table_push (jn_max_per_key j) (jn_targets j) t = (dr, tb)" by fastforce
  note ti = joiner_invD(1) [OF Cons.prems(1)]
  have "target_line ?j i = target_line j i @ (if cmd_eq (t_id t) i then [t] else [])"
    using tb.push_line(1) [OF ti p] tb.push_unlimited [OF ti p] p Cons.prems(2)
    by (simp add: ntp_joiner_add_target_def Let_def)
  moreover obtain os1 j1 where "jrun (map AddTarget ts) ?j = (os1, j1)" by fastforce
  ultimately show ?case
    using Cons.prems Cons.IH [of ?j os1 j1] add_target_ok(1,2) [OF Cons.prems(1), of t] by auto
qed simp

definition pairs_of :: "ntp_cmd_id \<Rightarrow> jout list \<Rightarrow> (ntp_host_rec \<times> ntp_tgt_rec) list" where
  "pairs_of i os = filter (\<lambda>(h, t). cmd_eq (h_id h) i) (concat (map pair_of os))"

lemma matches_zip:
  "joiner_inv j \<Longrightarrow> jrun (map Match hs) j = (os, j') \<Longrightarrow>
    pairs_of i os = zip (filter (\<lambda>h. cmd_eq (h_id h) i) hs) (target_line j i)"
proof (induction hs arbitrary: j os j')
  case (Cons h hs)
  obtain os1 j1 where s: "jstep (Match h) j = (os1, j1)" by fastforce
  obtain os2 j2 where r: "jrun (map Match hs) j1 = (os2, j2)" by fastforce
  note ti = joiner_invD(1) [OF Cons.prems(1)]
  have os: "os = os1 @ os2" using Cons.prems(2) s r by auto
  have "joiner_inv j1" using jstep_ok [OF Cons.prems(1) s] by (simp add: step_ok_def)
  note ih = Cons.IH [OF this r]
  have "pairs_of i os1 @ zip (filter (\<lambda>h. cmd_eq (h_id h) i) hs) (target_line j1 i) =
      zip (filter (\<lambda>h. cmd_eq (h_id h) i) (h # hs)) (target_line j i)"
  proof (cases "table_take (jn_targets j) (h_id h)")
    case None
    then have "target_line j (h_id h) = []" by (simp add: tb.take_line(1) [OF ti])
    then have "cmd_eq (h_id h) i \<Longrightarrow> target_line j i = []" using tb.line_cong by metis
    with None s show ?thesis by (auto simp: ntp_joiner_match_def pairs_of_def Let_def)
  next
    case (Some a)
    then obtain t tb where tk: "table_take (jn_targets j) (h_id h) = Some (t, tb)" by (cases a) auto
    then have j1: "os1 = [Joined h t]" "jn_targets j1 = tb"
      using s by (auto simp: ntp_joiner_match_def Let_def)
    show ?thesis
    proof (cases "cmd_eq (h_id h) i")
      case True
      then have "target_line j i = t # target_line j1 i"
        using tb.take_line(2) [OF ti tk] tb.line_cong j1(2) by metis
      with True show ?thesis by (simp add: j1 pairs_of_def)
    next
      case False
      then have "target_line j1 i = target_line j i"
        using tb.take_line(3) [OF ti tk] j1(2) cmd_eq_sym by metis
      with False show ?thesis by (simp add: j1 pairs_of_def)
    qed
  qed
  with ih show ?case by (simp add: os pairs_of_def)
qed (simp add: pairs_of_def)


subsection \<open>Properties of the joiner\<close>

text \<open>
  \<^bold>\<open>C3.\<close> The statistics account for every record, over any sequence of calls on a fresh joiner,
  whatever the limit: the target records added are those matched, evicted, expired and still
  pending, and the host records given are those matched, reported unmatched and still waiting
  (64-bit counters).
\<close>

theorem joiner_accounts:
  "(case jrun cs (ntp_joiner_new m) of (os, j) \<Rightarrow>
     let st = jn_st j in
     targets_added st = of_nat (length (concat (map target_of cs))) \<and>
     targets_added st =
       matched st + targets_evicted st + targets_expired st + ntp_joiner_pending j \<and>
     of_nat (length (concat (map host_of cs))) =
       matched st + host_unmatched st + ntp_joiner_waiting_hosts j)"
proof -
  obtain os j where r: "jrun cs (ntp_joiner_new m) = (os, j)" by fastforce
  let ?ts = "concat (map target_of cs)" and ?hs = "concat (map host_of cs)"
  have inv: "joiner_inv j" and tb: "targets_balance ?ts os (ntp_joiner_new m) j"
    and hb: "hosts_balance ?hs os (ntp_joiner_new m) j"
    using jrun_ok [OF joiner_inv_new r] by auto
  note zero = ntp_joiner_new_def table_init_spec
  obtain D where D: "mset ?ts = targets_held j + mset (map snd (concat (map pair_of os))) + D"
      "targets_evicted (jn_st j) + targets_expired (jn_st j) = of_nat (size D)"
    and added: "targets_added (jn_st j) = of_nat (length ?ts)"
    using tb by (auto simp: targets_balance_def zero)
  obtain E where E: "mset ?hs = hosts_held j + mset (map fst (concat (map pair_of os))) +
        mset (concat (map alone_of os)) + E"
      "host_unmatched (jn_st j) = of_nat (size E + length (concat (map alone_of os)))"
    and m: "matched (jn_st j) = of_nat (length (concat (map pair_of os)))"
    using hb by (auto simp: hosts_balance_def zero)
  have "of_nat (length ?ts) = (of_nat (size (targets_held j)) + matched (jn_st j) + of_nat (size D) :: u64)"
    using arg_cong [OF D(1), of "\<lambda>M. of_nat (size M) :: u64"] by (simp add: m)
  moreover have "of_nat (length ?hs) = (of_nat (size (hosts_held j)) + matched (jn_st j) + host_unmatched (jn_st j) :: u64)"
    using arg_cong [OF E(1), of "\<lambda>M. of_nat (size M) :: u64"] by (simp add: m E(2))
  ultimately show ?thesis
    using added D(2) tb.pending_held [OF joiner_invD(1) [OF inv]] tb.pending_held [OF joiner_invD(2) [OF inv]]
    by (simp add: r Let_def ntp_joiner_pending_def ntp_joiner_waiting_hosts_def algebra_simps)
qed

text \<open>
  \<^bold>\<open>C9.\<close> No record is invented and none is used twice: over any sequence of calls, the target
  records handed out in pairs together with those still held are among the target records
  given, counted with multiplicity, and so are the host records paired, given up or waiting
  among the host records given.
\<close>

theorem joiner_linear:
  "(case jrun cs (ntp_joiner_new m) of (os, j) \<Rightarrow>
     mset (map snd (concat (map pair_of os))) + tb_mset (jn_targets j) \<subseteq>#
       mset (concat (map target_of cs)) \<and>
     mset (map fst (concat (map pair_of os))) + mset (concat (map alone_of os)) +
       tb_mset (jn_hosts j) \<subseteq># mset (concat (map host_of cs)))"
proof -
  obtain os j where r: "jrun cs (ntp_joiner_new m) = (os, j)" by fastforce
  have tb: "targets_balance (concat (map target_of cs)) os (ntp_joiner_new m) j"
    and hb: "hosts_balance (concat (map host_of cs)) os (ntp_joiner_new m) j"
    using jrun_ok [OF joiner_inv_new r] by auto
  obtain D where D: "mset (concat (map target_of cs)) =
      (mset (map snd (concat (map pair_of os))) + targets_held j) + D"
    using tb by (auto simp: targets_balance_def ntp_joiner_new_def table_init_spec ac_simps)
  obtain E where E: "mset (concat (map host_of cs)) =
      (mset (map fst (concat (map pair_of os))) + mset (concat (map alone_of os)) + hosts_held j) + E"
    using hb by (auto simp: hosts_balance_def ntp_joiner_new_def table_init_spec ac_simps)
  show ?thesis unfolding r case_prod_conv D E by simp
qed

text \<open>
  Every pair handed out is of one command: controller, queue, command id, opcode,
  namespace, start and length agree.
\<close>

theorem joiner_pairs_agree:
  "list_all (\<lambda>(h, t). id_cntlid (t_id t) = id_cntlid (h_id h) \<and> id_qid (t_id t) = id_qid (h_id h) \<and>
       id_cid (t_id t) = id_cid (h_id h) \<and> id_opcode (t_id t) = id_opcode (h_id h) \<and>
       id_nsid (t_id t) = id_nsid (h_id h) \<and> id_slba (t_id t) = id_slba (h_id h) \<and>
       id_nlb (t_id t) = id_nlb (h_id h))
     (concat (map pair_of (fst (jrun cs (ntp_joiner_new m)))))"
proof -
  obtain os j where r: "jrun cs (ntp_joiner_new m) = (os, j)" by fastforce
  have "cmd_eq (t_id t) (h_id h)" if "x \<in> set os" and "(h, t) \<in> set (pair_of x)" for x h t
    by (cases x) (use that jrun_pairs [OF joiner_inv_new r] in auto)
  then show ?thesis
    by (auto simp: r list_all_iff cmd_eq_def key_of_inject same_command_def)
qed

text \<open>
  \<^bold>\<open>C4.\<close> Online, no match is missed: as long as records come through \<open>host_arrives\<close> and
  \<open>target_arrives\<close> (with releases and expiries in between), a host record and a target record of
  the same command are never both waiting.
\<close>

theorem joiner_online_complete:
  assumes "list_all online cs"
  shows "no_missed (snd (jrun cs (ntp_joiner_new m)))"
proof -
  have "no_missed (ntp_joiner_new m)"
    by (simp add: no_missed_def ntp_joiner_new_def table_init_spec)
  then show ?thesis
    using jrun_no_missed [OF joiner_inv_new _ assms] by (metis prod.collapse)
qed

theorem joiner_online_complete_witness:
  "no_missed (snd (jrun [HostArrives zero_host_rec, ReleaseHosts 0, TargetArrives zero_tgt_rec,
     Expire 5, HostArrives zero_host_rec] (ntp_joiner_new 4)))"
  by (rule joiner_online_complete) simp

text \<open>
  \<^bold>\<open>C2.\<close> Offline (every target record added first, no limit, then the host records matched),
  the pairs of each command are its host records and its target records, zipped in arrival
  order: the n-th host record of a command gets its n-th target record.
\<close>

theorem joiner_offline_fifo:
  "pairs_of i (fst (jrun (map AddTarget ts @ map Match hs) (ntp_joiner_new 0))) =
    zip (filter (\<lambda>h. cmd_eq (h_id h) i) hs) (filter (\<lambda>t. cmd_eq (t_id t) i) ts)"
proof -
  have app: "jrun (cs @ cs') j = (case jrun cs j of (os, j) \<Rightarrow> case jrun cs' j of (os', j) \<Rightarrow> (os @ os', j))"
    for cs cs' j by (induction cs arbitrary: j) (auto split: prod.splits)
  obtain os j where a: "jrun (map AddTarget ts) (ntp_joiner_new 0) = (os, j)" by fastforce
  obtain os' j' where b: "jrun (map Match hs) j = (os', j')" by fastforce
  have "target_line (ntp_joiner_new 0) i = []"
    by (simp add: tb.line_def ntp_joiner_new_def table_init_spec)
  moreover have "jn_max_per_key (ntp_joiner_new 0) = 0" by (simp add: ntp_joiner_new_def)
  ultimately have "os = []" "joiner_inv j" "target_line j i = filter (\<lambda>t. cmd_eq (t_id t) i) ts"
    using add_targets_line [OF joiner_inv_new _ a, of i] by auto
  then show ?thesis using matches_zip [OF _ b, of i] by (simp add: app a b)
qed

text \<open>
  \<^bold>\<open>C35.\<close> Memory is bounded: over any sequence of calls on a joiner made with a limit, no key
  holds more records than the limit, on either side, and no bucket more records than its
  allocation has room for.
\<close>

theorem joiner_bounded:
  assumes "0 < m"
  shows "(case snd (jrun cs (ntp_joiner_new m)) of j \<Rightarrow>
    length (tb_queue (jn_targets j) k) \<le> m \<and> length (tb_queue (jn_hosts j) k) \<le> m \<and>
    list_all (\<lambda>b. length (bk_recs b) \<le> bk_cap b) (tb_v (jn_targets j) (slot_of (tb_nbuckets (jn_targets j)) k)) \<and>
    list_all (\<lambda>b. length (bk_recs b) \<le> bk_cap b) (tb_v (jn_hosts j) (slot_of (tb_nbuckets (jn_hosts j)) k)))"
proof -
  obtain os j where r: "jrun cs (ntp_joiner_new m) = (os, j)" by fastforce
  have inv: "joiner_inv j" and m: "jn_max_per_key j = m"
    using jrun_ok [OF joiner_inv_new r] by (auto simp: ntp_joiner_new_def)
  note ti = joiner_invD(1) [OF inv] and hi = joiner_invD(2) [OF inv]
  have cap: "list_all (\<lambda>b. length (bk_recs b) \<le> bk_cap b) (tb_v t (slot_of (tb_nbuckets t) k))"
    if "table_inv m idf tsf t" for m idf tsf and t :: "'x table"
    using that table_inv_slot [OF that, of k]
    by (auto simp: table_inv_def chain_ok_def bucket_ok_def list_all_iff)
  show ?thesis
    using tb.queue_limit [OF ti, of k] tb.queue_limit [OF hi, of k] cap [OF ti] cap [OF hi] assms m
    by (simp add: r)
qed

theorem joiner_bounded_witness:
  "(case snd (jrun [HostArrives zero_host_rec, HostArrives zero_host_rec] (ntp_joiner_new 1)) of j \<Rightarrow>
    length (tb_queue (jn_targets j) 0) \<le> 1 \<and> length (tb_queue (jn_hosts j) 0) \<le> 1)"
  using joiner_bounded [of 1 "[HostArrives zero_host_rec, HostArrives zero_host_rec]" 0] by simp

subsection \<open>Runs without a full line\<close>

text \<open>No waiting host record has to make room for another one in this run.\<close>

fun host_fits :: "jcall \<Rightarrow> ntp_joiner \<Rightarrow> bool" where
  "host_fits (HostArrives h) j \<longleftrightarrow> length (tb_queue (jn_hosts j) (key_of (h_id h))) < jn_max_per_key j"
| "host_fits _ j \<longleftrightarrow> True"

fun never_full :: "jcall list \<Rightarrow> ntp_joiner \<Rightarrow> bool" where
  "never_full [] j \<longleftrightarrow> True"
| "never_full (c # cs) j \<longleftrightarrow> host_fits c j \<and> never_full cs (snd (jstep c j))"

definition hosts_exact :: "ntp_host_rec list \<Rightarrow> jout list \<Rightarrow> ntp_joiner \<Rightarrow> ntp_joiner \<Rightarrow> bool" where
  "hosts_exact hs os j j' \<longleftrightarrow>
    hosts_held j + mset hs =
      hosts_held j' + (mset (map fst (concat (map pair_of os))) + mset (concat (map alone_of os))) \<and>
    host_unmatched (jn_st j') = host_unmatched (jn_st j) + of_nat (length (concat (map alone_of os)))"

lemma jstep_exact:
  assumes inv: "joiner_inv j" and step: "jstep c j = (os, j')" and fits: "host_fits c j"
  shows "hosts_exact (host_of c) os j j'"
proof (cases c)
  case (AddTarget t)
  with step show ?thesis
    by (auto simp: ntp_joiner_add_target_def Let_def hosts_exact_def split: prod.splits)
next
  case (Match h)
  with step show ?thesis
    by (auto simp: ntp_joiner_match_def Let_def hosts_exact_def split: option.splits prod.splits)
next
  case (TargetArrives t)
  with step tb.take_held [OF joiner_invD(2) [OF inv], of "t_id t"] show ?thesis
    by (auto simp: ntp_joiner_target_arrives_def ntp_joiner_add_target_def Let_def hosts_exact_def
        split: option.splits prod.splits)
next
  case (HostArrives h)
  obtain dr tb where p: "table_push (jn_max_per_key j) (jn_hosts j) h = (dr, tb)" by fastforce
  have "\<not> dr"
    using tb.push_drop [OF joiner_invD(2) [OF inv] p] fits HostArrives by (simp add: push_drops_def)
  with tb.push_held [OF joiner_invD(2) [OF inv] p] have "tb_mset tb = add_mset h (hosts_held j)" by auto
  with HostArrives step p \<open>\<not> dr\<close> show ?thesis
    by (auto simp: ntp_joiner_host_arrives_def Let_def hosts_exact_def split: option.splits prod.splits)
next
  case (ReleaseHosts b)
  obtain tb gone where e: "table_expire (jn_hosts j) b = (tb, gone)" by fastforce
  have "hosts_held j = tb_mset tb + mset gone"
    using tb.expire_held [OF joiner_invD(2) [OF inv] e] by (metis add.commute multiset_partition)
  with ReleaseHosts step e show ?thesis
    by (auto simp: ntp_joiner_release_hosts_def Let_def hosts_exact_def)
next
  case (Expire b)
  with step show ?thesis
    by (auto simp: ntp_joiner_expire_def Let_def hosts_exact_def split: prod.splits)
qed

lemma jrun_exact:
  assumes "joiner_inv j" and "jrun cs j = (os, j')" and "never_full cs j"
  shows "hosts_exact (concat (map host_of cs)) os j j'"
  using assms
proof (induction cs arbitrary: j os j')
  case Nil
  then show ?case by (simp add: hosts_exact_def)
next
  case (Cons c cs)
  obtain os1 j1 where s: "jstep c j = (os1, j1)" by fastforce
  obtain os2 j2 where r: "jrun cs j1 = (os2, j2)" by fastforce
  have eq: "os = os1 @ os2" "j' = j2" using Cons.prems(2) s r by auto
  have "joiner_inv j1" using jstep_ok [OF Cons.prems(1) s] by (simp add: step_ok_def)
  then have ih: "hosts_exact (concat (map host_of cs)) os2 j1 j2"
    using r Cons.prems(3) s by (intro Cons.IH) simp_all
  have st: "hosts_exact (host_of c) os1 j j1"
    using Cons.prems(3) by (intro jstep_exact [OF Cons.prems(1) s]) simp
  show ?case
    using balance_add [OF conjunct1 [OF st [unfolded hosts_exact_def]] conjunct1 [OF ih [unfolded hosts_exact_def]]]
      st ih by (simp add: hosts_exact_def eq ac_simps)
qed

text \<open>A line grows by the records that arrive, so a run with few of them is one.\<close>

lemma take_first_length: "take_first P xs = Some (y, ys) \<Longrightarrow> length ys \<le> length xs"
  by (induction xs arbitrary: y ys) (auto split: if_splits)

lemma queue_grows:
  assumes inv: "joiner_inv j" and step: "jstep c j = (os, j')"
  shows "length (tb_queue (jn_hosts j') k) \<le> length (tb_queue (jn_hosts j) k) + length (host_of c)"
proof (cases c)
  case (TargetArrives t)
  note hi = joiner_invD(2) [OF inv]
  have "length (tb_queue tb k) \<le> length (tb_queue (jn_hosts j) k)"
    if "table_take (jn_hosts j) (t_id t) = Some (h, tb)" for h tb
    using tb.take_Some [OF hi that] by (auto dest: take_first_length)
  with TargetArrives step show ?thesis
    by (auto simp: ntp_joiner_target_arrives_def ntp_joiner_add_target_def Let_def split: option.splits prod.splits)
next
  case (HostArrives h)
  obtain dr tb where p: "table_push (jn_max_per_key j) (jn_hosts j) h = (dr, tb)" by fastforce
  have "length (tb_queue tb k) \<le> Suc (length (tb_queue (jn_hosts j) k))"
    using tb.push_queue [OF joiner_invD(2) [OF inv] p, of k] by (simp add: push_queue_def)
  with HostArrives step p show ?thesis
    by (auto simp: ntp_joiner_host_arrives_def Let_def split: option.splits prod.splits)
next
  case (ReleaseHosts b)
  obtain tb gone where e: "table_expire (jn_hosts j) b = (tb, gone)" by fastforce
  have "length (tb_queue tb k) \<le> length (tb_queue (jn_hosts j) k)"
    using tb.expire_queue [OF joiner_invD(2) [OF inv] e, of k] by simp
  with ReleaseHosts step e show ?thesis by (auto simp: ntp_joiner_release_hosts_def Let_def)
qed (use step in \<open>auto simp: joiner_op_defs Let_def split: option.splits prod.splits\<close>)

lemma never_full_few:
  assumes "joiner_inv j" and "\<And>k. length (tb_queue (jn_hosts j) k) \<le> n"
    and "n + length (concat (map host_of cs)) \<le> jn_max_per_key j"
  shows "never_full cs j"
  using assms
proof (induction cs arbitrary: j n)
  case (Cons c cs)
  obtain os j' where s: "jstep c j = (os, j')" by fastforce
  have ok: "joiner_inv j'" "jn_max_per_key j' = jn_max_per_key j"
    using jstep_ok [OF Cons.prems(1) s] by (simp_all add: step_ok_def)
  have "length (tb_queue (jn_hosts j') k) \<le> n + length (host_of c)" for k
    using queue_grows [OF Cons.prems(1) s, of k] Cons.prems(2) [of k] by simp
  then have "never_full cs j'" 
    using ok Cons.prems(3) by (intro Cons.IH [where n = "n + length (host_of c)"]) (simp_all add: add.assoc)
  moreover have "host_fits c j"
  proof (cases c)
    case (HostArrives h)
    then show ?thesis using Cons.prems(2) [of "key_of (h_id h)"] Cons.prems(3) by simp
  qed simp_all
  ultimately show ?case using s by simp
qed simp

end
