(* ===== verification/Trace_File.thy ===== *)
theory Trace_File
  imports Ntprof_Records
begin

text \<open>
  Record files (\<^verbatim>\<open>src/src/trace_file.c\<close>, \<^verbatim>\<open>src/src/trace_file.h\<close>): a header and raw records, byte for
  byte as a little-endian machine with natural alignment lays the structures of
  \<^verbatim>\<open>src/bpf/ntprof.h\<close> out. A stream that is read is the bytes it gives before its end, and whether
  that end is an error; a write is given the number of bytes that the system takes of it.
\<close>

subsection \<open>Bytes\<close>

primrec le :: "nat \<Rightarrow> 'a::len word \<Rightarrow> u8 list" where
  "le 0 w = []"
| "le (Suc n) w = ucast w # le n (drop_bit 8 w)"

primrec unle :: "u8 list \<Rightarrow> 'a::len word" where
  "unle [] = 0"
| "unle (b # bs) = ucast b OR push_bit 8 (unle bs)"

definition fld :: "nat \<Rightarrow> nat \<Rightarrow> u8 list \<Rightarrow> u8 list" where
  "fld off n bs = take n (drop off bs)"

definition enc_rec_hdr :: "ntp_rec_hdr \<Rightarrow> u8 list" where
  "enc_rec_hdr r = le 1 (hdr_kind r) @ le 1 (hdr_transport r) @ le 2 (hdr_flags r) @ le 4 (hdr_cpu r)"

definition dec_rec_hdr :: "u8 list \<Rightarrow> ntp_rec_hdr" where
  "dec_rec_hdr bs = \<lparr>hdr_kind = unle (fld 0 1 bs), hdr_transport = unle (fld 1 1 bs),
     hdr_flags = unle (fld 2 2 bs), hdr_cpu = unle (fld 4 4 bs)\<rparr>"

definition enc_cmd_id :: "ntp_cmd_id \<Rightarrow> u8 list" where
  "enc_cmd_id i = le 8 (id_slba i) @ le 4 (id_nsid i) @ le 2 (id_cntlid i) @ le 2 (id_qid i) @
     le 2 (id_cid i) @ le 2 (id_nlb i) @ le 1 (id_opcode i) @ le 3 (id_pad i)"

definition dec_cmd_id :: "u8 list \<Rightarrow> ntp_cmd_id" where
  "dec_cmd_id bs = \<lparr>id_slba = unle (fld 0 8 bs), id_nsid = unle (fld 8 4 bs),
     id_cntlid = unle (fld 12 2 bs), id_qid = unle (fld 14 2 bs), id_cid = unle (fld 16 2 bs),
     id_nlb = unle (fld 18 2 bs), id_opcode = unle (fld 20 1 bs), id_pad = unle (fld 21 3 bs)\<rparr>"

definition enc_ts :: "('e::enum \<Rightarrow> u64) \<Rightarrow> u8 list" where
  "enc_ts ts = concat (map (\<lambda>e. le 8 (ts e)) enum_class.enum)"

definition dec_ts :: "u8 list \<Rightarrow> 'e::enum \<Rightarrow> u64" where
  "dec_ts bs e = unle (fld (8 * ord_of e) 8 bs)"

definition HOST_TS_OFF :: nat where "HOST_TS_OFF = 80"
definition HOST_REC_SIZE :: nat where "HOST_REC_SIZE = 224"
definition TGT_TS_OFF :: nat where "TGT_TS_OFF = 40"
definition TGT_REC_SIZE :: nat where "TGT_REC_SIZE = 184"

definition enc_host_rec :: "ntp_host_rec \<Rightarrow> u8 list" where
  "enc_host_rec h = enc_rec_hdr (h_hdr h) @ enc_cmd_id (h_id h) @ le 4 (h_bytes h) @
     le 4 (h_ctrl_instance h) @ le 2 (h_q_unsent h) @ le 2 (h_q_inflight h) @ le 4 (h_pad h) @
     h_disk h @ enc_ts (h_ts h) @ le 8 (h_c2h_busy_ns h) @ le 4 (h_c2h_skbs h) @ le 4 (h_pad2 h)"

definition dec_host_rec :: "u8 list \<Rightarrow> ntp_host_rec" where
  "dec_host_rec bs = \<lparr>h_hdr = dec_rec_hdr (fld 0 8 bs), h_id = dec_cmd_id (fld 8 24 bs),
     h_bytes = unle (fld 32 4 bs), h_ctrl_instance = unle (fld 36 4 bs),
     h_q_unsent = unle (fld 40 2 bs), h_q_inflight = unle (fld 42 2 bs), h_pad = unle (fld 44 4 bs),
     h_disk = fld 48 32 bs, h_ts = dec_ts (fld HOST_TS_OFF 128 bs),
     h_c2h_busy_ns = unle (fld 208 8 bs), h_c2h_skbs = unle (fld 216 4 bs),
     h_pad2 = unle (fld 220 4 bs)\<rparr>"

definition enc_tgt_rec :: "ntp_tgt_rec \<Rightarrow> u8 list" where
  "enc_tgt_rec t = enc_rec_hdr (t_hdr t) @ enc_cmd_id (t_id t) @ le 4 (t_bytes t) @
     le 2 (t_q_outstanding t) @ le 2 (t_q_resp_queue t) @ enc_ts (t_ts t) @ le 8 (t_h2c_busy_ns t) @
     le 4 (t_h2c_skbs t) @ le 4 (t_pad2 t)"

definition dec_tgt_rec :: "u8 list \<Rightarrow> ntp_tgt_rec" where
  "dec_tgt_rec bs = \<lparr>t_hdr = dec_rec_hdr (fld 0 8 bs), t_id = dec_cmd_id (fld 8 24 bs),
     t_bytes = unle (fld 32 4 bs), t_q_outstanding = unle (fld 36 2 bs),
     t_q_resp_queue = unle (fld 38 2 bs), t_ts = dec_ts (fld TGT_TS_OFF 128 bs),
     t_h2c_busy_ns = unle (fld 168 8 bs), t_h2c_skbs = unle (fld 176 4 bs),
     t_pad2 = unle (fld 180 4 bs)\<rparr>"

text \<open>The file header; its strings are the 64 bytes of the arrays.\<close>

record ntp_file_header =
  fh_magic :: "u8 list"
  fh_version :: u32
  fh_header_size :: u32
  fh_host_rec_size :: u32
  fh_tgt_rec_size :: u32
  fh_role :: u32
  fh_transport :: u32
  fh_sample_every :: u32
  fh_pad :: u32
  fh_start_mono_ns :: u64
  fh_start_real_ns :: u64
  fh_hostname :: "u8 list"
  fh_kernel :: "u8 list"

definition NTP_FILE_MAGIC :: "u8 list" where
  "NTP_FILE_MAGIC = [0x4e, 0x54, 0x50, 0x52, 0x4f, 0x46, 0x32, 0]"

definition NTP_FILE_VERSION :: u32 where "NTP_FILE_VERSION = 5"

definition FILE_HEADER_SIZE :: nat where "FILE_HEADER_SIZE = 184"

definition enc_file_header :: "ntp_file_header \<Rightarrow> u8 list" where
  "enc_file_header f = fh_magic f @ le 4 (fh_version f) @ le 4 (fh_header_size f) @
     le 4 (fh_host_rec_size f) @ le 4 (fh_tgt_rec_size f) @ le 4 (fh_role f) @
     le 4 (fh_transport f) @ le 4 (fh_sample_every f) @ le 4 (fh_pad f) @
     le 8 (fh_start_mono_ns f) @ le 8 (fh_start_real_ns f) @ fh_hostname f @ fh_kernel f"

definition dec_file_header :: "u8 list \<Rightarrow> ntp_file_header" where
  "dec_file_header bs = \<lparr>fh_magic = fld 0 8 bs, fh_version = unle (fld 8 4 bs),
     fh_header_size = unle (fld 12 4 bs), fh_host_rec_size = unle (fld 16 4 bs),
     fh_tgt_rec_size = unle (fld 20 4 bs), fh_role = unle (fld 24 4 bs),
     fh_transport = unle (fld 28 4 bs), fh_sample_every = unle (fld 32 4 bs),
     fh_pad = unle (fld 36 4 bs), fh_start_mono_ns = unle (fld 40 8 bs),
     fh_start_real_ns = unle (fld 48 8 bs), fh_hostname = fld 56 64 bs, fh_kernel = fld 120 64 bs\<rparr>"

subsection \<open>Writing\<close>

text \<open>
  The names of the machine and of its kernel, where the system gives them (\<^verbatim>\<open>gethostname\<close> and
  \<^verbatim>\<open>uname\<close> may fail), are cut to 63 bytes and padded with 0.
\<close>

definition str64 :: "u8 list \<Rightarrow> u8 list" where
  "str64 s = take 63 s @ replicate (64 - length (take 63 s)) 0"

definition ntp_header_init ::
  "u32 \<Rightarrow> u32 \<Rightarrow> u32 \<Rightarrow> u64 \<Rightarrow> u64 \<Rightarrow> u8 list option \<Rightarrow> u8 list option \<Rightarrow> ntp_file_header"
where
  "ntp_header_init role transport sample_every mono_ns real_ns hostname release =
    \<lparr>fh_magic = NTP_FILE_MAGIC, fh_version = NTP_FILE_VERSION,
     fh_header_size = of_nat FILE_HEADER_SIZE, fh_host_rec_size = of_nat HOST_REC_SIZE,
     fh_tgt_rec_size = of_nat TGT_REC_SIZE, fh_role = role, fh_transport = transport,
     fh_sample_every = sample_every, fh_pad = 0, fh_start_mono_ns = mono_ns, fh_start_real_ns = real_ns,
     fh_hostname = (case hostname of Some n \<Rightarrow> str64 n
       | None \<Rightarrow> str64 [0x75, 0x6e, 0x6b, 0x6e, 0x6f, 0x77, 0x6e]),
     fh_kernel = (case release of Some r \<Rightarrow> str64 r | None \<Rightarrow> replicate 64 0)\<rparr>"

record ntp_writer =
  w_f :: "u8 list option"
  w_records :: u64

text \<open>One \<^verbatim>\<open>fwrite\<close> of one item: what the file has afterwards, and whether all of it was taken.\<close>

definition fwrite1 :: "nat \<Rightarrow> u8 list \<Rightarrow> u8 list \<Rightarrow> u8 list \<times> bool" where
  "fwrite1 taken f bs = (f @ take taken bs, length bs \<le> taken)"

definition ntp_writer_open :: "bool \<Rightarrow> nat \<Rightarrow> ntp_file_header \<Rightarrow> int \<times> ntp_writer" where
  "ntp_writer_open created taken hdr =
    (let w = \<lparr>w_f = None, w_records = 0\<rparr>
     in if \<not> created then (-1, w)
        else
          let (f, ok) = fwrite1 taken [] (enc_file_header hdr)
          in if \<not> ok then (-1, w) else (0, w\<lparr>w_f := Some f\<rparr>))"

definition ntp_writer_add :: "nat \<Rightarrow> ntp_writer \<Rightarrow> u8 list \<Rightarrow> int \<times> ntp_writer" where
  "ntp_writer_add taken w bs =
    (case w_f w of
       None \<Rightarrow> (-1, w)
     | Some f \<Rightarrow>
         let (f, ok) = fwrite1 taken f bs; w = w\<lparr>w_f := Some f\<rparr>
         in if \<not> ok then (-1, w) else (0, w\<lparr>w_records := w_records w + 1\<rparr>))"

definition ntp_writer_close :: "bool \<Rightarrow> ntp_writer \<Rightarrow> int \<times> ntp_writer" where
  "ntp_writer_close closed w =
    (case w_f w of
       None \<Rightarrow> (0, w)
     | Some f \<Rightarrow> ((if closed then 0 else -1), w\<lparr>w_f := None\<rparr>))"

subsection \<open>Reading\<close>

record stream =
  s_bytes :: "u8 list"
  s_error :: bool

record 'a ntp_reader_ops =
  op_host :: "(ntp_host_rec \<Rightarrow> 'a \<Rightarrow> int \<times> 'a) option"
  op_target :: "(ntp_tgt_rec \<Rightarrow> 'a \<Rightarrow> int \<times> 'a) option"

text \<open>Why reading ended. \<open>Stopped r\<close>: a callback returned \<open>r\<close>, which is not 0.\<close>

datatype read_end =
    Cannot_open
  | Not_ntprof
  | Other_version u32
  | Corrupt u8
  | Truncated
  | Read_error
  | Stopped int
  | Finished

definition read_ret :: "read_end \<Rightarrow> int" where
  "read_ret e = (case e of Finished \<Rightarrow> 0 | Stopped r \<Rightarrow> (if r < 0 then -1 else 0) | _ \<Rightarrow> -1)"

definition host_size :: "u32 \<Rightarrow> nat" where
  "host_size version = (if version \<ge> 4 then HOST_REC_SIZE
     else HOST_TS_OFF + ord_of NTP_H_C2H_LAST_ARR * 8)"

definition tgt_size :: "u32 \<Rightarrow> nat" where
  "tgt_size version = (if version \<ge> 5 then TGT_REC_SIZE
     else if version \<ge> 3 then TGT_TS_OFF + ord_of NTP_T_DATA_LAST_ARR * 8
     else TGT_TS_OFF + ord_of NTP_T_SEND_DONE * 8)"

text \<open>
  A record whose first bytes were read, in the union that holds every kind of record: the rest
  of it is 0.
\<close>

definition pad_rec :: "u8 list \<Rightarrow> u8 list" where
  "pad_rec bs = bs @ replicate (HOST_REC_SIZE - length bs) 0"

text \<open>
  The loop over the records. The last component says that the end of the stream was reached, so
  that an error of the stream shows.
\<close>

function read_records ::
  "nat \<Rightarrow> nat \<Rightarrow> 'a ntp_reader_ops \<Rightarrow> u8 list \<Rightarrow> 'a \<Rightarrow> read_end \<times> 'a \<times> bool"
where
  "read_records hsz tsz ops bs arg =
    (if length bs < 8 then (Finished, arg, True)
     else
       let kind = hdr_kind (dec_rec_hdr (take 8 bs))
       in if kind \<noteq> NTP_REC_HOST \<and> kind \<noteq> NTP_REC_TARGET then (Corrupt kind, arg, False)
          else
            let size = (if kind = NTP_REC_HOST then hsz else tsz);
                rest = size - 8
            in if length bs - 8 < rest then (Truncated, arg, True)
               else
                 let rec = pad_rec (take (8 + rest) bs);
                     (ret, arg) =
                       (if kind = NTP_REC_HOST
                        then case op_host ops of Some f \<Rightarrow> f (dec_host_rec rec) arg | None \<Rightarrow> (0, arg)
                        else case op_target ops of Some f \<Rightarrow> f (dec_tgt_rec rec) arg | None \<Rightarrow> (0, arg))
                 in if ret \<noteq> 0 then (Stopped ret, arg, False)
                    else read_records hsz tsz ops (drop (8 + rest) bs) arg)"
  by pat_completeness auto
termination
  by (relation "measure (\<lambda>(_, _, _, bs, _). length bs)") auto

definition ntp_read_file ::
  "stream option \<Rightarrow> 'a ntp_reader_ops \<Rightarrow> 'a \<Rightarrow> read_end \<times> 'a"
where
  "ntp_read_file file ops arg =
    (case file of
       None \<Rightarrow> (Cannot_open, arg)
     | Some s \<Rightarrow>
         let hdr = dec_file_header (take FILE_HEADER_SIZE (s_bytes s))
         in if length (s_bytes s) < FILE_HEADER_SIZE \<or> fh_magic hdr \<noteq> NTP_FILE_MAGIC
            then (Not_ntprof, arg)
            else
              let hsz = host_size (fh_version hdr); tsz = tgt_size (fh_version hdr)
              in if fh_version hdr < 2 \<or> fh_version hdr > NTP_FILE_VERSION \<or>
                    unat (fh_header_size hdr) \<noteq> FILE_HEADER_SIZE \<or>
                    unat (fh_host_rec_size hdr) \<noteq> hsz \<or> unat (fh_tgt_rec_size hdr) \<noteq> tsz
                 then (Other_version (fh_version hdr), arg)
                 else
                   let (e, arg, at_end) =
                     read_records hsz tsz ops (drop FILE_HEADER_SIZE (s_bytes s)) arg
                   in (if at_end \<and> s_error s then Read_error else e, arg))"

subsection \<open>Encodings are inverted\<close>

lemma length_le [simp]: "length (le n w) = n"
  by (induction n arbitrary: w) simp_all

lemma unle_le: "unle (le n w :: u8 list) = (take_bit (8 * n) w :: 'a::len word)"
proof (induction n arbitrary: w)
  case (Suc n)
  show ?case
    by (rule bit_word_eqI) (auto simp: Suc bit_simps)
qed simp

lemma unle_le_full [simp]: "LENGTH('a) \<le> 8 * n \<Longrightarrow> unle (le n w) = (w :: 'a::len word)"
  by (simp add: unle_le take_bit_word_eq_self)

lemma fld_here [simp]: "length xs = n \<Longrightarrow> fld 0 n (xs @ ys) = xs"
  and fld_whole [simp]: "length xs = n \<Longrightarrow> fld 0 n xs = xs"
  and fld_skip: "length xs \<le> off \<Longrightarrow> fld off n (xs @ ys) = fld (off - length xs) n ys"
  by (simp_all add: fld_def)

lemma fld_concat:
  assumes "\<forall>x \<in> set xs. length (f x) = k" and "i < length xs"
  shows "fld (k * i) k (concat (map f xs)) = f (xs ! i)"
  using assms
proof (induction xs arbitrary: i)
  case (Cons x xs)
  then show ?case by (cases i) (simp_all add: fld_skip)
qed simp

lemma dec_enc_ts: "dec_ts (enc_ts ts) = ts"
  by (rule ext) (simp add: dec_ts_def enc_ts_def fld_concat ord_of_less enum_nth_ord_of)

lemma length_enc_ts: "length (enc_ts (ts :: 'e::enum \<Rightarrow> u64)) = 8 * length (enum_class.enum :: 'e list)"
  by (simp add: enc_ts_def length_concat comp_def sum_list_triv)

lemma length_enc [simp]:
  "length (enc_rec_hdr r) = 8" "length (enc_cmd_id i) = 24"
  "length (enc_ts (a :: ntp_host_ts \<Rightarrow> u64)) = 128" "length (enc_ts (b :: ntp_tgt_ts \<Rightarrow> u64)) = 128"
  by (simp_all add: enc_rec_hdr_def enc_cmd_id_def length_enc_ts enum_ntp_host_ts_def enum_ntp_tgt_ts_def)

lemma dec_enc_rec_hdr [simp]: "dec_rec_hdr (enc_rec_hdr r) = r"
  by (simp add: dec_rec_hdr_def enc_rec_hdr_def fld_skip del: One_nat_def)

lemma dec_enc_cmd_id [simp]: "dec_cmd_id (enc_cmd_id i) = i"
  by (simp add: dec_cmd_id_def enc_cmd_id_def fld_skip del: One_nat_def)

lemma dec_enc_host_rec: "length (h_disk h) = NTP_DISK_NAME_LEN \<Longrightarrow> dec_host_rec (enc_host_rec h) = h"
  by (simp add: dec_host_rec_def enc_host_rec_def fld_skip dec_enc_ts HOST_TS_OFF_def NTP_DISK_NAME_LEN_def)

lemma dec_enc_tgt_rec: "dec_tgt_rec (enc_tgt_rec t) = t"
  by (simp add: dec_tgt_rec_def enc_tgt_rec_def fld_skip dec_enc_ts TGT_TS_OFF_def)

definition file_header_wf :: "ntp_file_header \<Rightarrow> bool" where
  "file_header_wf f \<longleftrightarrow> length (fh_magic f) = 8 \<and> length (fh_hostname f) = 64 \<and> length (fh_kernel f) = 64"

lemma dec_enc_file_header: "file_header_wf f \<Longrightarrow> dec_file_header (enc_file_header f) = f"
  by (simp add: dec_file_header_def enc_file_header_def fld_skip file_header_wf_def)

text \<open>Bytes of the right length are the encoding of what they decode to.\<close>

lemma le_nth: "i < n \<Longrightarrow> le n w ! i = ucast (drop_bit (8 * i) w)"
  by (induction n arbitrary: w i) (auto simp: nth_Cons algebra_simps split: nat.split)

lemma bit_unle:
  "bit (unle bs :: 'a::len word) k \<longleftrightarrow> k < LENGTH('a) \<and> k div 8 < length bs \<and> bit (bs ! (k div 8)) (k mod 8)"
proof (induction bs arbitrary: k)
  case (Cons b bs)
  show ?case
  proof (cases "k < 8")
    case True
    then show ?thesis by (auto simp: bit_simps)
  next
    case False
    then have "k div 8 = Suc ((k - 8) div 8)" "(k - 8) mod 8 = k mod 8"
      by (simp_all add: le_div_geq le_mod_geq)
    moreover have "\<not> bit b k" using False bit_imp_le_length [of b k] by auto
    ultimately show ?thesis using False Cons [of "k - 8"] by (auto simp: bit_simps)
  qed
qed simp

lemma le_unle [simp]: "length bs = n \<Longrightarrow> 8 * n \<le> LENGTH('a) \<Longrightarrow> le n (unle bs :: 'a::len word) = bs"
proof (rule nth_equalityI)
  fix i assume bs: "length bs = n" "8 * n \<le> LENGTH('a)" and "i < length (le n (unle bs :: 'a word))"
  then have i: "i < n" by simp
  show "le n (unle bs :: 'a word) ! i = bs ! i"
  proof (rule bit_word_eqI)
    fix k assume "k < LENGTH(8)"
    then have k: "k < 8" by simp
    then have "(8 * i + k) div 8 = i" "(8 * i + k) mod 8 = k" "8 * i + k < LENGTH('a)" using i bs by auto
    then show "bit (le n (unle bs :: 'a word) ! i) k = bit (bs ! i) k"
      using i bs k by (simp add: le_nth bit_simps bit_unle)
  qed
qed simp

lemma length_fld: "off + n \<le> length bs \<Longrightarrow> length (fld off n bs) = n"
  by (simp add: fld_def)

lemma fld_append: "fld a n bs @ fld (a + n) m bs = fld a (n + m) bs"
  using take_add [of n m "drop a bs"] by (simp add: fld_def add.commute)

lemma fld_join: "b = a + n \<Longrightarrow> fld a n bs @ fld b m bs @ rest = fld a (n + m) bs @ rest"
  "b = a + n \<Longrightarrow> fld a n bs @ fld b m bs = fld a (n + m) bs"
  by (simp_all add: fld_append flip: append_assoc)

lemma enc_dec_rec_hdr [simp]: "length bs = 8 \<Longrightarrow> enc_rec_hdr (dec_rec_hdr bs) = bs"
  by (simp add: enc_rec_hdr_def dec_rec_hdr_def length_fld fld_join del: One_nat_def)

lemma enc_dec_cmd_id [simp]: "length bs = 24 \<Longrightarrow> enc_cmd_id (dec_cmd_id bs) = bs"
  by (simp add: enc_cmd_id_def dec_cmd_id_def length_fld fld_join del: One_nat_def)

lemma concat_fld: "concat (map (\<lambda>i. fld (k * i) k bs) [0 ..< n]) = take (k * n) bs"
proof (induction n)
  case (Suc n)
  then show ?case using take_add [of "k * n" k bs] by (simp add: fld_def add.commute)
qed simp

lemma enc_dec_ts:
  assumes "length bs = 8 * length (enum_class.enum :: 'e::enum list)"
  shows "enc_ts (dec_ts bs :: 'e \<Rightarrow> u64) = bs"
proof -
  let ?es = "enum_class.enum :: 'e list"
  have "map (\<lambda>e. le 8 (dec_ts bs e)) ?es = map (\<lambda>i. fld (8 * i) 8 bs) [0 ..< length ?es]"
  proof (rule nth_equalityI)
    fix i assume "i < length (map (\<lambda>e. le 8 (dec_ts bs e)) ?es)"
    then have i: "i < length ?es" by simp
    have "ord_of (?es ! i) = i"
    proof -
      have "distinct ?es" by (rule enum_distinct)
      then show ?thesis using i enum_nth_ord_of [of "?es ! i"] ord_of_less [of "?es ! i"]
        by (simp add: nth_eq_iff_index_eq)
    qed
    then show "map (\<lambda>e. le 8 (dec_ts bs e)) ?es ! i = map (\<lambda>i. fld (8 * i) 8 bs) [0 ..< length ?es] ! i"
      using i assms by (simp add: dec_ts_def length_fld)
  qed simp
  then show ?thesis using assms by (simp add: enc_ts_def concat_fld)
qed

lemma enc_dec_host_rec: "length bs = HOST_REC_SIZE \<Longrightarrow> enc_host_rec (dec_host_rec bs) = bs"
  by (simp add: enc_host_rec_def dec_host_rec_def HOST_REC_SIZE_def HOST_TS_OFF_def length_fld fld_join enc_dec_ts enum_ntp_host_ts_def)

lemma enc_dec_tgt_rec: "length bs = TGT_REC_SIZE \<Longrightarrow> enc_tgt_rec (dec_tgt_rec bs) = bs"
  by (simp add: enc_tgt_rec_def dec_tgt_rec_def TGT_REC_SIZE_def TGT_TS_OFF_def length_fld fld_join enc_dec_ts enum_ntp_tgt_ts_def)

subsection \<open>Reading what was written\<close>

lemma length_enc_host_rec: "length (h_disk h) = NTP_DISK_NAME_LEN \<Longrightarrow> length (enc_host_rec h) = HOST_REC_SIZE"
  by (simp add: enc_host_rec_def HOST_REC_SIZE_def NTP_DISK_NAME_LEN_def)

lemma length_enc_tgt_rec: "length (enc_tgt_rec t) = TGT_REC_SIZE"
  by (simp add: enc_tgt_rec_def TGT_REC_SIZE_def)

lemma length_enc_file_header: "file_header_wf f \<Longrightarrow> length (enc_file_header f) = FILE_HEADER_SIZE"
  by (simp add: enc_file_header_def file_header_wf_def FILE_HEADER_SIZE_def)

text \<open>A record of either kind, and the callback it goes to.\<close>

datatype ntp_rec = Host_rec ntp_host_rec | Tgt_rec ntp_tgt_rec

fun rec_ok :: "ntp_rec \<Rightarrow> bool" where
  "rec_ok (Host_rec h) \<longleftrightarrow> hdr_kind (h_hdr h) = NTP_REC_HOST \<and> length (h_disk h) = NTP_DISK_NAME_LEN"
| "rec_ok (Tgt_rec t) \<longleftrightarrow> hdr_kind (t_hdr t) = NTP_REC_TARGET"

text \<open>The record as a file of an older version has it: cut at the fields added later.\<close>

fun enc_rec :: "u32 \<Rightarrow> ntp_rec \<Rightarrow> u8 list" where
  "enc_rec v (Host_rec h) = take (host_size v) (enc_host_rec h)"
| "enc_rec v (Tgt_rec t) = take (tgt_size v) (enc_tgt_rec t)"

text \<open>What a reader gets of it: the later fields are 0.\<close>

fun cut_rec :: "u32 \<Rightarrow> ntp_rec \<Rightarrow> ntp_rec" where
  "cut_rec v (Host_rec h) = Host_rec (if v \<ge> 4 then h else
     h\<lparr>h_ts := (h_ts h)(NTP_H_C2H_LAST_ARR := 0, NTP_H_C2H_DONE := 0), h_c2h_busy_ns := 0,
       h_c2h_skbs := 0, h_pad2 := 0\<rparr>)"
| "cut_rec v (Tgt_rec t) = Tgt_rec (if v \<ge> 5 then t else
     t\<lparr>t_ts := (if v \<ge> 3 then t_ts t else (t_ts t)(NTP_T_SEND_DONE := 0))
                (NTP_T_DATA_LAST_ARR := 0, NTP_T_DATA_DONE := 0), t_h2c_busy_ns := 0,
       t_h2c_skbs := 0, t_pad2 := 0\<rparr>)"

text \<open>The specification of the reader: the callbacks, in order, until one does not return 0.\<close>

fun feed :: "'a ntp_reader_ops \<Rightarrow> ntp_rec list \<Rightarrow> 'a \<Rightarrow> read_end \<times> 'a" where
  "feed ops [] arg = (Finished, arg)"
| "feed ops (r # rs) arg =
     (let (ret, arg) =
        (case r of
           Host_rec h \<Rightarrow> (case op_host ops of Some f \<Rightarrow> f h arg | None \<Rightarrow> (0, arg))
         | Tgt_rec t \<Rightarrow> (case op_target ops of Some f \<Rightarrow> f t arg | None \<Rightarrow> (0, arg)))
      in if ret \<noteq> 0 then (Stopped ret, arg) else feed ops rs arg)"

lemma unle_zeros [simp]: "unle (replicate n 0) = 0"
  by (induction n) simp_all

lemma host_sizes: "host_size v = 224 \<or> host_size v = 192" "v \<ge> 4 \<Longrightarrow> host_size v = 224" "\<not> v \<ge> 4 \<Longrightarrow> host_size v = 192"
  by (simp_all add: host_size_def HOST_REC_SIZE_def HOST_TS_OFF_def ord_of_def enum_ntp_host_ts_def)

lemma tgt_sizes: "v \<ge> 5 \<Longrightarrow> tgt_size v = 184" "\<not> v \<ge> 5 \<Longrightarrow> v \<ge> 3 \<Longrightarrow> tgt_size v = 152" "\<not> v \<ge> 5 \<Longrightarrow> \<not> v \<ge> 3 \<Longrightarrow> tgt_size v = 144"
  by (simp_all add: tgt_size_def TGT_REC_SIZE_def TGT_TS_OFF_def ord_of_def enum_ntp_tgt_ts_def)

lemma fld_take: "off + n \<le> m \<Longrightarrow> m \<le> length bs \<Longrightarrow> fld off n (take m bs @ zs) = fld off n bs"
  by (simp add: fld_def take_drop min_def add.commute)

lemma fld_beyond:
  "m \<le> off \<Longrightarrow> off + n \<le> m + k \<Longrightarrow> m \<le> length bs \<Longrightarrow>
    fld off n (take m bs @ replicate k 0) = replicate n 0"
  by (simp add: fld_def min_def)

lemma fld_fld: "a + n \<le> m \<Longrightarrow> fld a n (fld b m bs) = fld (b + a) n bs"
  by (simp add: fld_def drop_take min_def add.commute)

lemmas fld_cut = fld_fld fld_take fld_beyond

lemma ord_of_ts:
  "ord_of (e :: ntp_host_ts) < 16" "ord_of (f :: ntp_tgt_ts) < 16"
  using ord_of_less [of e] ord_of_less [of f] by (simp_all add: enum_ntp_host_ts_def enum_ntp_tgt_ts_def)

lemma dec_ts_cut:
  assumes "m \<le> length bs" and "8 * ord_of e + 8 \<le> 128" and "off + 128 \<le> m + k" and "m = off + 8 * j"
  shows "dec_ts (fld off 128 (take m bs @ replicate k 0)) e = (if ord_of e < j then dec_ts (fld off 128 bs) e else 0)"
proof (cases "ord_of e < j")
  case True
  then have "off + 8 * ord_of e + 8 \<le> m" using assms(4) by simp
  with True assms show ?thesis by (simp add: dec_ts_def fld_fld fld_take)
next
  case False
  then have "m \<le> off + 8 * ord_of e" using assms(4) by simp
  with False assms show ?thesis by (simp add: dec_ts_def fld_fld fld_beyond)
qed

lemma host_ts_cut:
  "(\<lambda>e. if ord_of e < 14 then ts e else 0) = ts(NTP_H_C2H_LAST_ARR := 0, NTP_H_C2H_DONE := (0 :: u64))"
proof
  fix e show "(if ord_of e < 14 then ts e else 0) = (ts(NTP_H_C2H_LAST_ARR := 0, NTP_H_C2H_DONE := 0)) e"
    by (cases e) (simp_all add: ord_of_def enum_ntp_host_ts_def)
qed

lemma tgt_ts_cut:
  "(\<lambda>e. if ord_of e < 14 then ts e else 0) = ts(NTP_T_DATA_LAST_ARR := 0, NTP_T_DATA_DONE := (0 :: u64))"
  "(\<lambda>e. if ord_of e < 13 then ts e else 0) =
    ts(NTP_T_SEND_DONE := 0, NTP_T_DATA_LAST_ARR := 0, NTP_T_DATA_DONE := (0 :: u64))"
proof -
  show "(\<lambda>e. if ord_of e < 14 then ts e else 0) = ts(NTP_T_DATA_LAST_ARR := 0, NTP_T_DATA_DONE := (0 :: u64))"
  proof
    fix e show "(if ord_of e < 14 then ts e else 0) = (ts(NTP_T_DATA_LAST_ARR := 0, NTP_T_DATA_DONE := 0)) e"
      by (cases e) (simp_all add: ord_of_def enum_ntp_tgt_ts_def)
  qed
  show "(\<lambda>e. if ord_of e < 13 then ts e else 0) =
    ts(NTP_T_SEND_DONE := 0, NTP_T_DATA_LAST_ARR := 0, NTP_T_DATA_DONE := (0 :: u64))"
  proof
    fix e show "(if ord_of e < 13 then ts e else 0) =
        (ts(NTP_T_SEND_DONE := 0, NTP_T_DATA_LAST_ARR := 0, NTP_T_DATA_DONE := 0)) e"
      by (cases e) (simp_all add: ord_of_def enum_ntp_tgt_ts_def)
  qed
qed

lemma dec_host_cut:
  assumes disk: "length (h_disk h) = NTP_DISK_NAME_LEN"
  shows "Host_rec (dec_host_rec (pad_rec (enc_rec v (Host_rec h)))) = cut_rec v (Host_rec h)"
proof (cases "v \<ge> 4")
  case True
  with disk show ?thesis
    by (simp add: host_sizes pad_rec_def length_enc_host_rec HOST_REC_SIZE_def dec_enc_host_rec)
next
  case False
  let ?bs = "enc_host_rec h"
  have len: "length ?bs = 224" using length_enc_host_rec [OF disk] by (simp add: HOST_REC_SIZE_def)
  have h: "dec_host_rec ?bs = h" by (rule dec_enc_host_rec [OF disk])
  have ts: "dec_ts (fld 80 128 (take 192 ?bs @ replicate 32 0)) = (h_ts h)(NTP_H_C2H_LAST_ARR := 0, NTP_H_C2H_DONE := 0)"
    unfolding host_ts_cut [symmetric]
  proof
    fix e :: ntp_host_ts
    have "h_ts h = dec_ts (fld 80 128 ?bs)" using arg_cong [OF h, of h_ts] by (simp add: dec_host_rec_def HOST_TS_OFF_def)
    then show "dec_ts (fld 80 128 (take 192 ?bs @ replicate 32 0)) e = (if ord_of e < 14 then h_ts h e else 0)"
      using ord_of_ts(1) [of e] by (simp add: dec_ts_cut [where j = 14] len)
  qed
  have "dec_host_rec (take 192 ?bs @ replicate 32 0) =
      (dec_host_rec ?bs)\<lparr>h_ts := (h_ts h)(NTP_H_C2H_LAST_ARR := 0, NTP_H_C2H_DONE := 0), h_c2h_busy_ns := 0,
        h_c2h_skbs := 0, h_pad2 := 0\<rparr>"
    by (simp add: dec_host_rec_def HOST_TS_OFF_def fld_take fld_beyond len ts)
  with False disk show ?thesis
    by (simp add: host_sizes pad_rec_def len HOST_REC_SIZE_def h)
qed

lemma dec_tgt_short:
  assumes "j = 13 \<or> j = 14"
  shows "dec_tgt_rec (take (40 + 8 * j) (enc_tgt_rec t) @ replicate (184 - 8 * j) 0) =
    t\<lparr>t_ts := (\<lambda>e. if ord_of e < j then t_ts t e else 0), t_h2c_busy_ns := 0, t_h2c_skbs := 0, t_pad2 := 0\<rparr>"
proof -
  let ?bs = "enc_tgt_rec t"
  have len: "length ?bs = 184" using length_enc_tgt_rec by (simp add: TGT_REC_SIZE_def)
  have t: "dec_tgt_rec ?bs = t" by (rule dec_enc_tgt_rec)
  have ts: "dec_ts (fld 40 128 (take (40 + 8 * j) ?bs @ replicate (184 - 8 * j) 0)) =
      (\<lambda>e. if ord_of e < j then t_ts t e else 0)"
  proof
    fix e :: ntp_tgt_ts
    have "t_ts t = dec_ts (fld 40 128 ?bs)" using arg_cong [OF t, of t_ts] by (simp add: dec_tgt_rec_def TGT_TS_OFF_def)
    then show "dec_ts (fld 40 128 (take (40 + 8 * j) ?bs @ replicate (184 - 8 * j) 0)) e =
        (if ord_of e < j then t_ts t e else 0)"
      using assms ord_of_ts(2) [of e] by (subst dec_ts_cut [where j = j]) (auto simp: len)
  qed
  have "dec_tgt_rec (take (40 + 8 * j) ?bs @ replicate (184 - 8 * j) 0) =
      (dec_tgt_rec ?bs)\<lparr>t_ts := (\<lambda>e. if ord_of e < j then t_ts t e else 0), t_h2c_busy_ns := 0,
        t_h2c_skbs := 0, t_pad2 := 0\<rparr>"
    using assms ts by (auto simp: dec_tgt_rec_def TGT_TS_OFF_def fld_take fld_beyond len)
  then show ?thesis by (simp add: t)
qed

lemma dec_tgt_cut: "Tgt_rec (dec_tgt_rec (pad_rec (enc_rec v (Tgt_rec t)))) = cut_rec v (Tgt_rec t)"
proof -
  let ?bs = "enc_tgt_rec t"
  have len: "length ?bs = 184" using length_enc_tgt_rec by (simp add: TGT_REC_SIZE_def)
  consider "v \<ge> 5" | "\<not> v \<ge> 5" "v \<ge> 3" | "\<not> v \<ge> 5" "\<not> v \<ge> 3" by blast
  then show ?thesis
  proof cases
    case 1
    have "dec_tgt_rec (take 184 ?bs @ replicate 40 0) = dec_tgt_rec ?bs"
      by (simp only: dec_tgt_rec_def TGT_TS_OFF_def) (simp add: fld_take len del: take_all take_all_iff)
    then show ?thesis
      using 1 by (simp add: tgt_sizes pad_rec_def len HOST_REC_SIZE_def dec_enc_tgt_rec)
  next
    case 2
    with dec_tgt_short [of 14 t] show ?thesis
      by (simp add: tgt_sizes pad_rec_def len HOST_REC_SIZE_def tgt_ts_cut)
  next
    case 3
    with dec_tgt_short [of 13 t] show ?thesis
      by (simp add: tgt_sizes pad_rec_def len HOST_REC_SIZE_def tgt_ts_cut)
  qed
qed

lemma size_bounds: "8 \<le> host_size v" "host_size v \<le> 224" "8 \<le> tgt_size v" "tgt_size v \<le> 184"
  using host_sizes(1) [of v] by (auto, (cases "v \<ge> 5"; cases "v \<ge> 3"; simp add: tgt_sizes)+)

lemma length_enc_rec:
  "rec_ok r \<Longrightarrow> length (enc_rec v r) = (case r of Host_rec _ \<Rightarrow> host_size v | Tgt_rec _ \<Rightarrow> tgt_size v)"
  using size_bounds [of v]
  by (cases r) (auto simp: length_enc_host_rec length_enc_tgt_rec HOST_REC_SIZE_def TGT_REC_SIZE_def)

lemma enc_rec_prefix:
  "rec_ok r \<Longrightarrow> take 8 (enc_rec v r) = enc_rec_hdr (case r of Host_rec h \<Rightarrow> h_hdr h | Tgt_rec t \<Rightarrow> t_hdr t)"
  using size_bounds [of v] by (cases r) (auto simp: enc_host_rec_def enc_tgt_rec_def min_def)

lemma NTP_REC_kinds [simp]: "NTP_REC_HOST \<noteq> NTP_REC_TARGET" "NTP_REC_TARGET \<noteq> NTP_REC_HOST"
  by (simp_all add: ntp_defs)

declare read_records.simps [simp del]

text \<open>One record of the file, and whatever follows it.\<close>

lemma read_records_cons:
  assumes ok: "rec_ok r"
  shows "read_records (host_size v) (tgt_size v) ops (enc_rec v r @ tail) arg =
    (let (ret, arg) =
       (case cut_rec v r of
          Host_rec h \<Rightarrow> (case op_host ops of Some f \<Rightarrow> f h arg | None \<Rightarrow> (0, arg))
        | Tgt_rec t \<Rightarrow> (case op_target ops of Some f \<Rightarrow> f t arg | None \<Rightarrow> (0, arg)))
     in if ret \<noteq> 0 then (Stopped ret, arg, False)
        else read_records (host_size v) (tgt_size v) ops tail arg)"
proof -
  let ?sz = "case r of Host_rec _ \<Rightarrow> host_size v | Tgt_rec _ \<Rightarrow> tgt_size v"
  have len: "length (enc_rec v r) = ?sz" and ge: "8 \<le> ?sz"
    using length_enc_rec [OF ok] size_bounds [of v] by (cases r; simp)+
  have hdr: "dec_rec_hdr (take 8 (enc_rec v r @ tail)) =
      (case r of Host_rec h \<Rightarrow> h_hdr h | Tgt_rec t \<Rightarrow> t_hdr t)"
    using len ge enc_rec_prefix [OF ok, of v] by (cases r) auto
  have split: "take (8 + (?sz - 8)) (enc_rec v r @ tail) = enc_rec v r"
    "drop (8 + (?sz - 8)) (enc_rec v r @ tail) = tail"
    "\<not> ?sz + length tail - 8 < ?sz - 8"
    using len ge by auto
  show ?thesis
  proof (cases r)
    case (Host_rec h)
    then obtain h' where h': "cut_rec v r = Host_rec h'" by simp
    then have "dec_host_rec (pad_rec (enc_rec v r)) = h'"
      using Host_rec ok dec_host_cut [of h v] by simp
    with h' Host_rec ok len ge hdr split show ?thesis
      by (subst read_records.simps) (simp add: Let_def del: cut_rec.simps enc_rec.simps
          cong: option.case_cong prod.case_cong if_cong)
  next
    case (Tgt_rec t)
    then obtain t' where t': "cut_rec v r = Tgt_rec t'" by simp
    then have "dec_tgt_rec (pad_rec (enc_rec v r)) = t'"
      using Tgt_rec dec_tgt_cut [of v t] by simp
    with t' Tgt_rec ok len ge hdr split show ?thesis
      by (subst read_records.simps) (simp add: Let_def del: cut_rec.simps enc_rec.simps
          cong: option.case_cong prod.case_cong if_cong)
  qed
qed

lemma read_records_enc:
  assumes "list_all rec_ok rs" 
  shows "read_records (host_size v) (tgt_size v) ops (concat (map (enc_rec v) rs) @ tail) arg =
    (case feed ops (map (cut_rec v) rs) arg of
       (Finished, arg) \<Rightarrow> read_records (host_size v) (tgt_size v) ops tail arg
     | (e, arg) \<Rightarrow> (e, arg, False))"
  using assms
proof (induction rs arbitrary: arg)
  case (Cons r rs)
  then show ?case
    by (simp add: read_records_cons Let_def case_prod_unfold)
qed simp

subsection \<open>Files\<close>

definition header_for :: "u32 \<Rightarrow> ntp_file_header \<Rightarrow> bool" where
  "header_for v f \<longleftrightarrow> file_header_wf f \<and> fh_magic f = NTP_FILE_MAGIC \<and> fh_version f = v \<and>
     fh_header_size f = of_nat FILE_HEADER_SIZE \<and> fh_host_rec_size f = of_nat (host_size v) \<and>
     fh_tgt_rec_size f = of_nat (tgt_size v)"

lemma unat_small_u32: "n < 2 ^ 32 \<Longrightarrow> unat (of_nat n :: u32) = n"
  by (simp add: unat_of_nat)

lemma read_file_header:
  assumes f: "header_for v f" and v: "2 \<le> v" "v \<le> NTP_FILE_VERSION"
  shows "ntp_read_file (Some \<lparr>s_bytes = enc_file_header f @ body, s_error = err\<rparr>) ops arg =
    (case read_records (host_size v) (tgt_size v) ops body arg of
       (e, arg, at_end) \<Rightarrow> (if at_end \<and> err then Read_error else e, arg))"
proof -
  have wf: "file_header_wf f" using f by (simp add: header_for_def)
  have sizes: "unat (of_nat FILE_HEADER_SIZE :: u32) = FILE_HEADER_SIZE"
    "unat (of_nat (host_size v) :: u32) = host_size v" "unat (of_nat (tgt_size v) :: u32) = tgt_size v"
    using size_bounds [of v] by (simp_all add: unat_small_u32 FILE_HEADER_SIZE_def)
  have "\<not> v < 2" "\<not> NTP_FILE_VERSION < v" using v by auto
  then show ?thesis
    using f sizes unfolding ntp_read_file_def
    by (auto simp: header_for_def length_enc_file_header [OF wf] dec_enc_file_header [OF wf] Let_def
        case_prod_unfold dest: leD)
qed

lemma read_records_tail:
  assumes "list_all rec_ok rs" and "length tail < 8"
  shows "read_records (host_size v) (tgt_size v) ops (concat (map (enc_rec v) rs) @ tail) arg =
    (case feed ops (map (cut_rec v) rs) arg of (e, arg) \<Rightarrow> (e, arg, e = Finished))"
  using assms
  by (simp add: read_records_enc read_records.simps [of _ _ _ tail] split: prod.split read_end.split)

text \<open>
  A file with up to seven bytes after its last record (a file cut inside the header of a record) is
  read like the whole one: the loop ends when the header cannot be read, with no error.
\<close>

lemma read_file_enc:
  assumes "header_for v f" and "2 \<le> v" and "v \<le> NTP_FILE_VERSION" and "list_all rec_ok rs"
    and "length tail < 8"
  shows "ntp_read_file (Some \<lparr>s_bytes = enc_file_header f @ concat (map (enc_rec v) rs) @ tail,
      s_error = False\<rparr>) ops arg = feed ops (map (cut_rec v) rs) arg"
  by (simp add: read_file_header [OF assms(1-3)] read_records_tail [OF assms(4,5)] case_prod_unfold)

lemma header_init_for: "header_for NTP_FILE_VERSION (ntp_header_init r tr n m0 r0 hn rel)"
  by (auto simp: header_for_def ntp_header_init_def file_header_wf_def NTP_FILE_MAGIC_def str64_def
      NTP_FILE_VERSION_def host_size_def tgt_size_def split: option.split)

text \<open>Records added one after the other, each taken whole by the system.\<close>

fun add_all :: "ntp_writer \<Rightarrow> ntp_rec list \<Rightarrow> int \<times> ntp_writer" where
  "add_all w [] = (0, w)"
| "add_all w (r # rs) =
     (let bs = enc_rec NTP_FILE_VERSION r; (ret, w) = ntp_writer_add (length bs) w bs
      in if ret \<noteq> 0 then (ret, w) else add_all w rs)"

lemma add_all_eq:
  "w_f w = Some f \<Longrightarrow> add_all w rs =
    (0, w\<lparr>w_f := Some (f @ concat (map (enc_rec NTP_FILE_VERSION) rs)),
         w_records := w_records w + of_nat (length rs)\<rparr>)"
  by (induction rs arbitrary: w f) (simp_all add: ntp_writer_add_def fwrite1_def Let_def algebra_simps)

lemma cut_rec_current: "map (cut_rec NTP_FILE_VERSION) rs = rs"
proof (rule map_idI)
  fix r show "cut_rec NTP_FILE_VERSION r = r"
    by (cases r) (simp_all add: NTP_FILE_VERSION_def)
qed

text \<open>
  \<^bold>\<open>C15.\<close> What is written is what is read: a file opened with a fresh header, to which records
  are added, gives these records back in order, each to its callback, field for field, until a
  callback stops the reading; and the writer counts them.
\<close>

theorem file_roundtrip:
  assumes "list_all rec_ok rs"
  shows "(case ntp_writer_open True FILE_HEADER_SIZE (ntp_header_init r tr n m0 r0 hn rel) of
     (opened, w) \<Rightarrow> case add_all w rs of
     (added, w') \<Rightarrow> opened = 0 \<and> added = 0 \<and> w_records w' = of_nat (length rs) \<and>
       (case w_f w' of None \<Rightarrow> False
        | Some bytes \<Rightarrow> ntp_read_file (Some \<lparr>s_bytes = bytes, s_error = False\<rparr>) ops arg = feed ops rs arg))"
proof -
  let ?h = "ntp_header_init r tr n m0 r0 hn rel"
  have wf: "length (enc_file_header ?h) = FILE_HEADER_SIZE"
    using header_init_for length_enc_file_header by (auto simp: header_for_def)
  have open_w: "ntp_writer_open True FILE_HEADER_SIZE ?h = (0, \<lparr>w_f = Some (enc_file_header ?h), w_records = 0\<rparr>)"
    by (simp add: ntp_writer_open_def fwrite1_def wf)
  have "(2 :: u32) \<le> NTP_FILE_VERSION" by (simp add: NTP_FILE_VERSION_def)
  then have "ntp_read_file (Some \<lparr>s_bytes = enc_file_header ?h @ concat (map (enc_rec NTP_FILE_VERSION) rs),
      s_error = False\<rparr>) ops arg = feed ops rs arg"
    using read_file_enc [OF header_init_for _ _ assms, where tail = "[]" and ops = ops and arg = arg]
    by (simp add: cut_rec_current)
  then show ?thesis by (simp add: open_w add_all_eq)
qed

definition collect :: "ntp_rec list ntp_reader_ops" where
  "collect = \<lparr>op_host = Some (\<lambda>h rs. (0, rs @ [Host_rec h])), op_target = Some (\<lambda>t rs. (0, rs @ [Tgt_rec t]))\<rparr>"

definition ex_host :: ntp_host_rec where
  "ex_host = zero_host_rec\<lparr>h_hdr := zero_rec_hdr\<lparr>hdr_kind := NTP_REC_HOST, hdr_flags := NTP_F_WRITE\<rparr>,
     h_id := zero_cmd_id\<lparr>id_cid := 7, id_slba := 0x1234567890\<rparr>,
     h_ts := (\<lambda>e. of_nat (ord_of e) + 1)\<rparr>"

definition ex_tgt :: ntp_tgt_rec where
  "ex_tgt = zero_tgt_rec\<lparr>t_hdr := zero_rec_hdr\<lparr>hdr_kind := NTP_REC_TARGET\<rparr>, t_h2c_skbs := 3,
     t_ts := (\<lambda>e. of_nat (ord_of e) + 1)\<rparr>"

lemma ex_recs_ok: "list_all rec_ok [Host_rec ex_host, Tgt_rec ex_tgt]"
  by (simp add: ex_host_def ex_tgt_def zero_host_rec_def)

theorem file_roundtrip_witness:
  "(case ntp_writer_open True FILE_HEADER_SIZE (ntp_header_init 1 1 8 100 200 None (Some [54])) of
     (opened, w) \<Rightarrow> case add_all w [Host_rec ex_host, Tgt_rec ex_tgt] of
     (added, w') \<Rightarrow> opened = 0 \<and> added = 0 \<and> w_records w' = 2 \<and>
       (case w_f w' of None \<Rightarrow> False
        | Some bytes \<Rightarrow> ntp_read_file (Some \<lparr>s_bytes = bytes, s_error = False\<rparr>) collect [] =
            (Finished, [Host_rec ex_host, Tgt_rec ex_tgt])))"
proof -
  have fd: "feed collect [Host_rec ex_host, Tgt_rec ex_tgt] [] = (Finished, [Host_rec ex_host, Tgt_rec ex_tgt])"
    by (simp add: collect_def)
  show ?thesis
    using file_roundtrip [OF ex_recs_ok, where r = 1 and tr = 1 and n = 8 and ?m0.0 = 100 and ?r0.0 = 200
        and hn = None and rel = "Some [54]" and ops = collect and arg = "[]", unfolded fd]
    by (simp del: add_all.simps)
qed

text \<open>
  \<^bold>\<open>C36.\<close> Files of every version from 2 to 5 are read: each record comes back with the fields its
  version has, and 0 in those added later.
\<close>

theorem file_old_versions:
  assumes "header_for v f" and "2 \<le> v" and "v \<le> NTP_FILE_VERSION" and "list_all rec_ok rs"
  shows "ntp_read_file (Some \<lparr>s_bytes = enc_file_header f @ concat (map (enc_rec v) rs), s_error = False\<rparr>) ops arg =
    feed ops (map (cut_rec v) rs) arg"
  using read_file_enc [OF assms, of "[]"] by simp

definition ex_header2 :: ntp_file_header where
  "ex_header2 = (ntp_header_init 1 1 8 100 200 None None)
     \<lparr>fh_version := 2, fh_host_rec_size := 192, fh_tgt_rec_size := 144\<rparr>"

lemma ex_header2_ok: "header_for 2 ex_header2"
  by (simp add: header_for_def ex_header2_def ntp_header_init_def file_header_wf_def NTP_FILE_MAGIC_def
      str64_def host_sizes tgt_sizes FILE_HEADER_SIZE_def)

theorem file_old_versions_witness:
  "ntp_read_file (Some \<lparr>s_bytes = enc_file_header ex_header2 @
     concat (map (enc_rec 2) [Host_rec ex_host, Tgt_rec ex_tgt]), s_error = False\<rparr>) collect [] =
   (Finished, [cut_rec 2 (Host_rec ex_host), cut_rec 2 (Tgt_rec ex_tgt)])"
  using file_old_versions [of 2 ex_header2 "[Host_rec ex_host, Tgt_rec ex_tgt]" collect "[]"]
    ex_recs_ok ex_header2_ok
  by (simp add: NTP_FILE_VERSION_def collect_def)

text \<open>
  A file cut inside a record, after the eight bytes of the record's header, gives the
  records before it and then fails; nothing of the cut record reaches a callback. A callback
  that stops earlier hides the damage.
\<close>

theorem file_truncated:
  assumes "header_for v f" and "2 \<le> v" and "v \<le> NTP_FILE_VERSION" and "list_all rec_ok rs"
    and "rec_ok r" and "8 \<le> k" and "k < length (enc_rec v r)"
  shows "ntp_read_file (Some \<lparr>s_bytes = enc_file_header f @ concat (map (enc_rec v) rs) @ take k (enc_rec v r),
      s_error = False\<rparr>) ops arg =
    (case feed ops (map (cut_rec v) rs) arg of (Finished, arg) \<Rightarrow> (Truncated, arg) | (e, arg) \<Rightarrow> (e, arg))"
proof -
  have hdr: "dec_rec_hdr (take 8 (take k (enc_rec v r))) = (case r of Host_rec h \<Rightarrow> h_hdr h | Tgt_rec t \<Rightarrow> t_hdr t)"
    using enc_rec_prefix [OF assms(5), of v] assms(6) by (cases r) (auto simp: min_def)
  have "read_records (host_size v) (tgt_size v) ops (take k (enc_rec v r)) a = (Truncated, a, True)" for a
  proof -
    have "k - 8 < length (enc_rec v r) - 8" using assms(6,7) by simp
    then show ?thesis
      using assms(5-7) hdr length_enc_rec [OF assms(5), of v]
      by (subst read_records.simps) (cases r; simp add: Let_def del: enc_rec.simps)
  qed
  then show ?thesis
    by (simp add: read_file_header [OF assms(1-3)] read_records_enc [OF assms(4)]
        split: prod.split read_end.split)
qed

theorem file_truncated_witness:
  "ntp_read_file (Some \<lparr>s_bytes = enc_file_header ex_header2 @
     concat (map (enc_rec 2) [Host_rec ex_host]) @ take 100 (enc_rec 2 (Tgt_rec ex_tgt)), s_error = False\<rparr>) collect [] =
   (Truncated, [cut_rec 2 (Host_rec ex_host)])"
proof -
  have "length (enc_rec 2 (Tgt_rec ex_tgt)) = 144"
    using ex_recs_ok length_enc_rec [of "Tgt_rec ex_tgt" 2] by (simp add: tgt_sizes)
  then show ?thesis
    using file_truncated [of 2 ex_header2 "[Host_rec ex_host]" "Tgt_rec ex_tgt" 100 collect "[]"]
      ex_recs_ok ex_header2_ok
    by (simp add: NTP_FILE_VERSION_def collect_def)
qed

end
