(* ===== verification/C_Strings.thy ===== *)
theory C_Strings
  imports Ntprof_Prelude
begin

text \<open>
  The functions of the C library on characters and strings that the sources use, in the C
  locale, and the parsers of \<^verbatim>\<open>src/src/util.c\<close>. A C string is the list of its characters before the
  terminating 0.
\<close>

subsection \<open>Characters\<close>

definition is_digit :: "char \<Rightarrow> bool" where
  "is_digit c \<longleftrightarrow> (48 :: nat) \<le> of_char c \<and> (of_char c :: nat) \<le> 57"

definition is_space :: "char \<Rightarrow> bool" where
  "is_space c \<longleftrightarrow> (of_char c :: nat) = 32 \<or> (9 :: nat) \<le> of_char c \<and> (of_char c :: nat) \<le> 13"

definition to_lower :: "char \<Rightarrow> char" where
  "to_lower c = (if (65 :: nat) \<le> of_char c \<and> (of_char c :: nat) \<le> 90
     then char_of (of_char c + 32 :: nat) else c)"

definition strcaseeq :: "string \<Rightarrow> string \<Rightarrow> bool" where
  "strcaseeq a b \<longleftrightarrow> map to_lower a = map to_lower b"

text \<open>What \<^verbatim>\<open>snprintf\<close> of a string keeps in a buffer of \<open>n\<close> bytes.\<close>

definition snprintf_s :: "nat \<Rightarrow> string \<Rightarrow> string" where
  "snprintf_s n s = take (n - 1) s"

subsection \<open>Numbers\<close>

definition digit_val :: "char \<Rightarrow> int" where
  "digit_val c = of_char c - 48"

definition digits_val :: "string \<Rightarrow> int" where
  "digits_val ds = foldl (\<lambda>a c. a * 10 + digit_val c) 0 ds"

text \<open>
  \<^verbatim>\<open>strtoull\<close> and \<^verbatim>\<open>strtoul\<close> in base 10, on 64 bits: the value, what follows the number, and whether
  the number was out of range. A minus sign negates the value in its type.
\<close>

definition strtoull :: "string \<Rightarrow> u64 \<times> string \<times> bool" where
  "strtoull s =
    (let s1 = dropWhile is_space s;
         neg = (s1 \<noteq> [] \<and> hd s1 = CHR ''-'');
         s2 = (if s1 \<noteq> [] \<and> (hd s1 = CHR ''-'' \<or> hd s1 = CHR ''+'') then tl s1 else s1);
         ds = takeWhile is_digit s2;
         n = digits_val ds
     in if ds = [] then (0, s, False)
        else if n \<ge> 2 ^ 64 then (- 1, dropWhile is_digit s2, True)
        else ((if neg then - of_int n else of_int n), dropWhile is_digit s2, False))"

subsection \<open>Parsers of the tool\<close>

definition size_tail :: "u64 \<Rightarrow> string \<Rightarrow> u64 option" where
  "size_tail v rest =
    (let rest = (if rest \<noteq> [] \<and> to_lower (hd rest) = CHR ''b'' then tl rest else rest)
     in if rest \<noteq> [] then None else Some v)"

definition parse_size :: "string \<Rightarrow> u64 option" where
  "parse_size s =
    (if s = [] \<or> \<not> is_digit (hd s) then None
     else
       let (v, rest, erange) = strtoull s
       in if erange then None
          else case rest of
            [] \<Rightarrow> size_tail v []
          | c # cs \<Rightarrow>
              if to_lower c = CHR ''k'' then size_tail (push_bit 10 v) cs
              else if to_lower c = CHR ''m'' then size_tail (push_bit 20 v) cs
              else if to_lower c = CHR ''g'' then size_tail (push_bit 30 v) cs
              else None)"

definition parse_bool :: "string \<Rightarrow> bool option" where
  "parse_bool s =
    (if strcaseeq s ''true'' \<or> strcaseeq s ''yes'' \<or> s = ''1'' then Some True
     else if strcaseeq s ''false'' \<or> strcaseeq s ''no'' \<or> s = ''0'' then Some False
     else None)"

definition rstrip :: "string \<Rightarrow> string" where
  "rstrip s = rev (dropWhile is_space (rev s))"

definition strip :: "string \<Rightarrow> string" where
  "strip s =
    (let s = rstrip (dropWhile is_space s)
     in if length s \<ge> 2 \<and> (hd s = CHR 0x22 \<or> hd s = CHR 0x27) \<and> last s = hd s
        then butlast (tl s) else s)"

subsection \<open>Printing and parsing a number\<close>

fun dec :: "nat \<Rightarrow> string" where
  "dec n = (if n < 10 then [char_of (48 + n)] else dec (n div 10) @ [char_of (48 + n mod 10)])"

declare dec.simps [simp del]

lemma of_char_digit: "d < 10 \<Longrightarrow> (of_char (char_of (48 + d :: nat)) :: nat) = 48 + d"
  by (simp add: of_char_of)

lemma of_char_digit_int: "d < 10 \<Longrightarrow> (of_char (char_of (48 + d :: nat)) :: int) = 48 + int d"
  using of_char_digit [of d] by (metis of_char_eq_iff of_nat_add of_nat_numeral of_nat_of_char)

lemma digit_char [simp]: "d < 10 \<Longrightarrow> is_digit (char_of (48 + d :: nat))"
  and digit_val_char [simp]: "d < 10 \<Longrightarrow> digit_val (char_of (48 + d :: nat)) = int d"
  by (simp_all add: is_digit_def digit_val_def of_char_digit of_char_digit_int)

lemma dec_digits: "list_all is_digit (dec n)" "dec n \<noteq> []"
  by (induction n rule: dec.induct) (subst dec.simps; simp)+

lemma digits_val_snoc: "digits_val (ds @ [c]) = digits_val ds * 10 + digit_val c"
  by (simp add: digits_val_def)

lemma digits_val_dec [simp]: "digits_val (dec n) = int n"
proof (induction n rule: dec.induct)
  case (1 n)
  show ?case
  proof (cases "n < 10")
    case True
    then show ?thesis by (simp add: dec.simps [of n] digits_val_def)
  next
    case False
    have "int (n div 10 * 10 + n mod 10) = int n" by (simp only: div_mult_mod_eq)
    then have "int (n div 10) * 10 + int (n mod 10) = int n" by (simp only: of_nat_add of_nat_mult of_nat_numeral)
    with False show ?thesis by (simp add: dec.simps [of n] digits_val_snoc 1)
  qed
qed

lemma is_digit_not_space: "is_digit c \<Longrightarrow> \<not> is_space c"
  by (auto simp: is_digit_def is_space_def)

lemma is_digit_not_sign: "is_digit c \<Longrightarrow> c \<noteq> CHR ''-'' \<and> c \<noteq> CHR ''+''"
  by (auto simp: is_digit_def)

lemma strtoull_digits:
  assumes "list_all is_digit ds" and "ds \<noteq> []" and "rest = [] \<or> \<not> is_digit (hd rest)"
  shows "strtoull (ds @ rest) =
    (if digits_val ds \<ge> 2 ^ 64 then (- 1, rest, True) else (of_int (digits_val ds), rest, False))"
proof -
  obtain c cs where ds: "ds = c # cs" and c: "is_digit c" using assms(1,2) by (cases ds) auto
  have sp: "dropWhile is_space (ds @ rest) = ds @ rest" and sg: "c \<noteq> CHR ''-''" "c \<noteq> CHR ''+''"
    using is_digit_not_space [OF c] is_digit_not_sign [OF c] by (auto simp: ds)
  have "takeWhile is_digit (ds @ rest) = ds" "dropWhile is_digit (ds @ rest) = rest"
    using assms(1,3) by (cases rest; simp add: list_all_iff takeWhile_append2 dropWhile_append2)+
  then show ?thesis
    using sg by (simp add: strtoull_def sp Let_def) (simp add: ds)
qed

text \<open>The multiplier that a suffix stands for, in bits.\<close>

fun suffix_bits :: "string \<Rightarrow> nat option" where
  "suffix_bits [] = Some 0"
| "suffix_bits (c # cs) =
     (if cs = [] \<or> (tl cs = [] \<and> to_lower (hd cs) = CHR ''b'') then
        if to_lower c = CHR ''k'' then Some 10
        else if to_lower c = CHR ''m'' then Some 20
        else if to_lower c = CHR ''g'' then Some 30
        else None
      else None)"

lemma suffix_not_digit: "suffix_bits sfx = Some k \<Longrightarrow> sfx = [] \<or> \<not> is_digit (hd sfx)"
  by (cases sfx) (auto simp: is_digit_def to_lower_def split: if_splits)

lemma parse_size_suffix:
  assumes sfx: "suffix_bits sfx = Some k" and n: "n < 2 ^ 64"
  shows "parse_size (dec n @ sfx) = Some (of_nat (n * 2 ^ k))"
proof -
  have st: "strtoull (dec n @ sfx) = (of_nat n, sfx, False)"
    using n by (subst strtoull_digits [OF dec_digits suffix_not_digit [OF sfx]]) simp
  have hd: "dec n @ sfx \<noteq> [] \<and> is_digit (hd (dec n @ sfx))"
    using dec_digits [of n] by (cases "dec n") auto
  show ?thesis
  proof (cases sfx)
    case Nil
    with sfx st hd show ?thesis by (simp add: parse_size_def size_tail_def)
  next
    case (Cons c cs)
    then have cs: "cs = [] \<or> (tl cs = [] \<and> to_lower (hd cs) = CHR ''b'')" using sfx by (auto split: if_splits)
    then have tail: "size_tail v cs = Some v" for v by (auto simp: size_tail_def)
    have pr: "parse_size (dec n @ sfx) = (if to_lower c = CHR ''k'' then Some (push_bit 10 (of_nat n))
        else if to_lower c = CHR ''m'' then Some (push_bit 20 (of_nat n))
        else if to_lower c = CHR ''g'' then Some (push_bit 30 (of_nat n)) else None)"
      using hd st by (simp add: parse_size_def Cons tail)
    show ?thesis
      using sfx unfolding pr by (auto simp: Cons push_bit_eq_mult split: if_splits)
  qed
qed

lemma strip_core:
  assumes "list_all is_space w1" and "list_all is_space w2" and "s \<noteq> []"
    and "\<not> is_space (hd s)" and "\<not> is_space (last s)"
  shows "rstrip (dropWhile is_space (w1 @ s @ w2)) = s"
proof -
  have "dropWhile is_space (w1 @ s @ w2) = s @ w2"
    using assms by (cases s) (simp_all add: list_all_iff dropWhile_append2)
  moreover have "dropWhile is_space (rev w2 @ rev s) = rev s"
  proof -
    obtain ys y where "s = ys @ [y]" using assms(3) by (cases s rule: rev_cases) auto
    with assms show ?thesis by (subst dropWhile_append2) (auto simp: list_all_iff)
  qed
  ultimately show ?thesis by (simp add: rstrip_def)
qed

lemma suffixes: "suffix_bits ''kB'' = Some 10" "suffix_bits ''K'' = Some 10"
  by code_simp+

subsection \<open>Properties of the parsers\<close>

text \<open>
  A byte count written in decimal, with or without one of the suffixes (k, m or g in either
  case, and an optional b after them), is read as that number times the power of 1024, whenever
  the product fits 64 bits.
\<close>

theorem parse_size_exact:
  assumes "suffix_bits sfx = Some k" and "n * 2 ^ k < 2 ^ 64"
  shows "map_option unat (parse_size (dec n @ sfx)) = Some (n * 2 ^ k)"
proof -
  have "n \<le> n * 2 ^ k" by simp
  then have "n < 2 ^ 64" using assms(2) by linarith
  then have "parse_size (dec n @ sfx) = Some (of_nat (n * 2 ^ k))" by (rule parse_size_suffix [OF assms(1)])
  then show ?thesis using assms(2) by (simp only: option.map unat_of_nat) simp
qed

theorem parse_size_exact_witness:
  "map_option unat (parse_size ''128kB'') = Some 131072"
proof -
  have "dec 128 = ''128''" by code_simp
  then show ?thesis
    using parse_size_exact [of "''kB''" 10 128] suffixes by simp
qed

text \<open>
  A product that does not fit is not refused: the bits beyond 64 are lost and the rest is
  taken as the size.
\<close>

theorem parse_size_overflow:
  assumes "suffix_bits sfx = Some k" and "n < 2 ^ 64"
  shows "map_option unat (parse_size (dec n @ sfx)) = Some (n * 2 ^ k mod 2 ^ 64)"
  unfolding parse_size_suffix [OF assms] option.map unat_of_nat by simp

theorem parse_size_overflow_witness:
  "map_option unat (parse_size (dec 18014398509481985 @ ''K'')) = Some 1024"
  using parse_size_overflow [of "''K''" 10 18014398509481985] suffixes by simp

text \<open>
  \<open>strip\<close> gives the text back from any white space around it and one pair of quotes
  around it, inside which white space stays.
\<close>

theorem strip_quoted:
  assumes "list_all is_space w1" and "list_all is_space w2" and "q = CHR 0x22 \<or> q = CHR 0x27"
  shows "strip (w1 @ (q # s @ [q]) @ w2) = s"
proof -
  have "\<not> is_space q" using assms(3) by (auto simp: is_space_def)
  then have "rstrip (dropWhile is_space (w1 @ (q # s @ [q]) @ w2)) = q # s @ [q]"
    using strip_core [OF assms(1,2), of "q # s @ [q]"] by simp
  then show ?thesis using assms(3) by (auto simp: strip_def)
qed

theorem strip_quoted_witness:
  "strip ([CHR 0x20, CHR 0x09] @ (CHR 0x22 # '' a b'' @ [CHR 0x22]) @ [CHR 0x0A]) = '' a b''"
  by (rule strip_quoted) (simp_all add: is_space_def)

end
