(* ===== verification/Stats.thy ===== *)
theory Stats
  imports Complex_Main Stage_Props C_Strings
begin

text \<open>
  Aggregation of breakdowns (\<^verbatim>\<open>src/src/stats.c\<close>, \<^verbatim>\<open>src/src/stats.h\<close>, and the vector of
  \<^verbatim>\<open>src/src/util.c\<close>). Floating-point values are rational numbers; every operation on doubles is the
  exact one followed by a rounding function \<open>rnd\<close>, a parameter, and every operation on long
  doubles is followed by \<open>rndl\<close>.
\<close>

subsection \<open>Vectors of samples\<close>

record i64vec =
  vec_v :: "i64 list"
  vec_cap :: nat

definition i64vec_empty :: i64vec where
  "i64vec_empty = \<lparr>vec_v = [], vec_cap = 0\<rparr>"

definition i64vec_push :: "i64vec \<Rightarrow> i64 \<Rightarrow> i64vec" where
  "i64vec_push vec x =
    (let vec = (if length (vec_v vec) = vec_cap vec
                then vec\<lparr>vec_cap := if vec_cap vec \<noteq> 0 then vec_cap vec * 2 else 1024\<rparr> else vec)
     in vec\<lparr>vec_v := vec_v vec @ [x]\<rparr>)"

subsection \<open>Summaries\<close>

definition NTP_NQ :: nat where "NTP_NQ = 8"

text \<open>The quantiles, as the literals of the source, before they are rounded to doubles.\<close>

definition ntp_quantiles :: "rat list" where
  "ntp_quantiles = [10 / 100, 50 / 100, 70 / 100, 80 / 100, 90 / 100, 95 / 100, 99 / 100, 999 / 1000]"

record ntp_summary =
  sm_n :: nat
  sm_mean :: rat
  sm_min :: i64
  sm_max :: i64
  sm_q :: "i64 list"

text \<open>A conversion of a double to an integer type truncates.\<close>

definition trunc :: "rat \<Rightarrow> int" where
  "trunc x = (if x < 0 then \<lceil>x\<rceil> else \<lfloor>x\<rfloor>)"

definition quantile :: "(rat \<Rightarrow> rat) \<Rightarrow> i64 list \<Rightarrow> rat \<Rightarrow> i64" where
  "quantile rnd v q =
    (let n = length v;
         pos = rnd (rnd q * rnd (of_nat (n - 1)));
         lo = nat (trunc pos);
         frac = rnd (pos - rnd (of_nat lo))
     in if lo + 1 \<ge> n then v ! (n - 1)
        else v ! lo + word_of_int (trunc (rnd (rnd (rnd (of_int (sint (v ! (lo + 1) - v ! lo))) * frac)
          + 1 / 2))))"

definition ntp_summarize ::
  "(rat \<Rightarrow> rat) \<Rightarrow> (rat \<Rightarrow> rat) \<Rightarrow> i64vec \<Rightarrow> ntp_summary \<times> i64vec"
where
  "ntp_summarize rnd rndl vec =
    (let n = length (vec_v vec)
     in if n = 0
        then (\<lparr>sm_n = 0, sm_mean = 0, sm_min = 0, sm_max = 0, sm_q = replicate NTP_NQ 0\<rparr>, vec)
        else
          let v = sort_key sint (vec_v vec);
              sum = foldl (\<lambda>s x. rndl (s + of_int (sint x))) 0 v
          in (\<lparr>sm_n = n, sm_mean = rnd (rndl (sum / of_nat n)), sm_min = v ! 0, sm_max = v ! (n - 1),
               sm_q = map (quantile rnd v) ntp_quantiles\<rparr>, vec\<lparr>vec_v := v\<rparr>))"

subsection \<open>Names\<close>

text \<open>A fixed-size character array as a string.\<close>

definition cstr :: "u8 list \<Rightarrow> string" where
  "cstr bs = map (\<lambda>b. char_of (unat b)) (takeWhile (\<lambda>b. b \<noteq> 0) bs)"

definition ntp_session_name :: "string \<Rightarrow> nat \<Rightarrow> string" where
  "ntp_session_name disk len =
    (if take 4 disk = ''nvme''
     then
       let ctrl = takeWhile is_digit (drop 4 disk);
           c = dropWhile is_digit (drop 4 disk)
       in if c \<noteq> [] \<and> hd c = CHR ''c'' \<and> tl c \<noteq> [] \<and> is_digit (hd (tl c))
          then
            let n = dropWhile is_digit (tl c)
            in if n \<noteq> [] \<and> hd n = CHR ''n'' then snprintf_s len (''nvme'' @ ctrl @ n)
               else snprintf_s len disk
          else snprintf_s len disk
     else snprintf_s len disk)"

subsection \<open>Groups\<close>

datatype ntp_queue_metric =
  NTP_Q_HOST_UNSENT | NTP_Q_HOST_INFLIGHT | NTP_Q_TGT_OUTSTANDING | NTP_Q_TGT_RESP_QUEUE

record ntp_group_key =
  k_is_write :: int
  k_bytes :: u32
  k_session :: string

record ntp_group =
  g_key :: ntp_group_key
  g_records :: u64
  g_joined :: u64
  g_bad_host :: u64
  g_bad_target :: u64
  g_post_estimated :: u64
  g_transport :: u8
  g_spdk_host :: bool
  g_spdk_target :: bool
  g_comp :: "ntp_comp \<Rightarrow> i64vec"
  g_stage :: "ntp_stage \<Rightarrow> i64vec"
  g_queue :: "ntp_queue_metric \<Rightarrow> i64vec"

record ntp_stats =
  st_groups :: "ntp_group list"
  st_cap :: nat
  st_by_type :: bool
  st_by_size :: bool
  st_by_session :: bool
  st_sample_every :: u32
  st_first_ns :: u64
  st_last_ns :: u64

definition ntp_stats_init :: "bool \<Rightarrow> bool \<Rightarrow> bool \<Rightarrow> ntp_stats" where
  "ntp_stats_init by_type by_size by_session =
    \<lparr>st_groups = [], st_cap = 0, st_by_type = by_type, st_by_size = by_size,
     st_by_session = by_session, st_sample_every = 1, st_first_ns = 0, st_last_ns = 0\<rparr>"

definition ntp_stats_reset :: "ntp_stats \<Rightarrow> ntp_stats" where
  "ntp_stats_reset s =
    (ntp_stats_init (st_by_type s) (st_by_size s) (st_by_session s))
      \<lparr>st_sample_every := st_sample_every s\<rparr>"

definition ntp_group_rate :: "(rat \<Rightarrow> rat) \<Rightarrow> ntp_stats \<Rightarrow> ntp_group \<Rightarrow> rat" where
  "ntp_group_rate rnd s g =
    (if st_first_ns s = 0 \<or> st_last_ns s < st_first_ns s + 10000000 then 0
     else rnd (rnd (rnd (rnd (of_nat (unat (g_records g))) * of_nat (unat (st_sample_every s))) * 1000000000) /
               rnd (of_nat (unat (st_last_ns s - st_first_ns s)))))"

definition key_for :: "ntp_stats \<Rightarrow> ntp_host_rec \<Rightarrow> ntp_group_key" where
  "key_for s h =
    \<lparr>k_is_write = (if st_by_type s then if host_flag h NTP_F_WRITE then 1 else 0 else -1),
     k_bytes = (if st_by_size s then h_bytes h else 0),
     k_session = (if st_by_session s then ntp_session_name (cstr (h_disk h)) NTP_DISK_NAME_LEN else [])\<rparr>"

definition zero_group :: "ntp_group_key \<Rightarrow> ntp_group" where
  "zero_group k = \<lparr>g_key = k, g_records = 0, g_joined = 0, g_bad_host = 0, g_bad_target = 0,
     g_post_estimated = 0, g_transport = 0, g_spdk_host = False, g_spdk_target = False,
     g_comp = (\<lambda>_. i64vec_empty), g_stage = (\<lambda>_. i64vec_empty), g_queue = (\<lambda>_. i64vec_empty)\<rparr>"

text \<open>The index of the group, which is added at the end when there is none.\<close>

fun find_group :: "ntp_group_key \<Rightarrow> ntp_group list \<Rightarrow> nat" where
  "find_group k [] = 0"
| "find_group k (g # gs) = (if g_key g = k then 0 else Suc (find_group k gs))"

definition group_for :: "ntp_stats \<Rightarrow> ntp_host_rec \<Rightarrow> nat \<times> ntp_stats" where
  "group_for s h =
    (let k = key_for s h;
         i = find_group k (st_groups s)
     in if i < length (st_groups s) then (i, s)
        else
          let s = (if length (st_groups s) = st_cap s
                   then s\<lparr>st_cap := if st_cap s \<noteq> 0 then st_cap s * 2 else 8\<rparr> else s)
          in (length (st_groups s), s\<lparr>st_groups := st_groups s @ [zero_group k]\<rparr>))"

text \<open>
  What \<^verbatim>\<open>ntp_stats_add\<close> does to the record's group: the head of every record, the counters of a
  record with a breakdown, its components and stages, and the queue samples.
\<close>

definition group_head :: "ntp_group \<Rightarrow> ntp_host_rec \<Rightarrow> ntp_tgt_rec option \<Rightarrow> ntp_group" where
  "group_head g h t =
    g\<lparr>g_records := g_records g + 1, g_transport := hdr_transport (h_hdr h),
      g_spdk_host := (host_flag h NTP_F_SPDK \<or> g_spdk_host g),
      g_spdk_target := ((case t of Some t \<Rightarrow> tgt_flag t NTP_F_SPDK | None \<Rightarrow> False) \<or> g_spdk_target g)\<rparr>"

definition group_counts :: "ntp_group \<Rightarrow> ntp_model_err \<Rightarrow> ntp_breakdown_t \<Rightarrow> ntp_group" where
  "group_counts g err b =
    g\<lparr>g_bad_target := (if err = NTP_MODEL_INCOMPLETE_TARGET then g_bad_target g + 1 else g_bad_target g),
      g_joined := (if bd_joined b then g_joined g + 1 else g_joined g),
      g_post_estimated := (if bd_post_estimated b then g_post_estimated g + 1 else g_post_estimated g)\<rparr>"

definition group_samples :: "ntp_group \<Rightarrow> ntp_breakdown_t \<Rightarrow> ntp_group" where
  "group_samples g b =
    g\<lparr>g_comp := (\<lambda>c. if ntp_comp_valid b c then i64vec_push (g_comp g c) (bd_comp b c) else g_comp g c),
      g_stage := (\<lambda>x. if ntp_stage_valid b x then i64vec_push (g_stage g x) (bd_stage b x)
                      else g_stage g x)\<rparr>"

definition push_queue_samples ::
  "ntp_group \<Rightarrow> ntp_queue_metric \<Rightarrow> u16 \<Rightarrow> ntp_queue_metric \<Rightarrow> u16 \<Rightarrow> ntp_group"
where
  "push_queue_samples g m x m' x' =
    g\<lparr>g_queue := (g_queue g)(m := i64vec_push (g_queue g m) (ucast x),
                            m' := i64vec_push (g_queue g m') (ucast x'))\<rparr>"

definition group_queues ::
  "ntp_group \<Rightarrow> ntp_host_rec \<Rightarrow> ntp_tgt_rec option \<Rightarrow> ntp_breakdown_t \<Rightarrow> ntp_group"
where
  "group_queues g h t b =
    (let g = (if host_flag h NTP_F_QUEUES
              then push_queue_samples g NTP_Q_HOST_UNSENT (h_q_unsent h) NTP_Q_HOST_INFLIGHT (h_q_inflight h)
              else g)
     in case t of
          None \<Rightarrow> g
        | Some t \<Rightarrow>
            if bd_joined b \<and> tgt_flag t NTP_F_QUEUES
            then push_queue_samples g NTP_Q_TGT_OUTSTANDING (t_q_outstanding t)
                   NTP_Q_TGT_RESP_QUEUE (t_q_resp_queue t)
            else g)"

definition group_add :: "ntp_group \<Rightarrow> ntp_host_rec \<Rightarrow> ntp_tgt_rec option \<Rightarrow> ntp_group" where
  "group_add g h t =
    (let (err, b) = ntp_breakdown h t;
         g = group_head g h t
     in if err = NTP_MODEL_INCOMPLETE_HOST then g\<lparr>g_bad_host := g_bad_host g + 1\<rparr>
        else group_queues (group_samples (group_counts g err b) b) h t b)"

definition ntp_stats_add :: "ntp_stats \<Rightarrow> ntp_host_rec \<Rightarrow> ntp_tgt_rec option \<Rightarrow> ntp_stats" where
  "ntp_stats_add s h t =
    (let (i, s) = group_for s h;
         s = s\<lparr>st_groups := (st_groups s)[i := group_add (st_groups s ! i) h t]\<rparr>;
         s = (if h_ts h NTP_H_QUEUE_RQ \<noteq> 0 \<and>
                 (st_first_ns s = 0 \<or> h_ts h NTP_H_QUEUE_RQ < st_first_ns s)
              then s\<lparr>st_first_ns := h_ts h NTP_H_QUEUE_RQ\<rparr> else s)
     in if h_ts h NTP_H_BLK_DONE > st_last_ns s then s\<lparr>st_last_ns := h_ts h NTP_H_BLK_DONE\<rparr> else s)"

subsection \<open>Vectors\<close>

definition vec_ok :: "i64vec \<Rightarrow> bool" where
  "vec_ok vec \<longleftrightarrow> length (vec_v vec) \<le> vec_cap vec"

lemma vec_push [simp]: "vec_v (i64vec_push vec x) = vec_v vec @ [x]"
  by (simp add: i64vec_push_def Let_def)

lemma vec_push_ok: "vec_ok vec \<Longrightarrow> vec_ok (i64vec_push vec x)"
  by (auto simp: vec_ok_def i64vec_push_def Let_def)

lemma vec_empty [simp]: "vec_v i64vec_empty = []" "vec_ok i64vec_empty"
  by (simp_all add: i64vec_empty_def vec_ok_def)

subsection \<open>Groups are the classes of the key\<close>

abbreviation rec_key :: "ntp_stats \<Rightarrow> ntp_host_rec \<times> ntp_tgt_rec option \<Rightarrow> ntp_group_key" where
  "rec_key s r \<equiv> key_for s (fst r)"

definition add_recs :: "ntp_stats \<Rightarrow> (ntp_host_rec \<times> ntp_tgt_rec option) list \<Rightarrow> ntp_stats" where
  "add_recs s rs = foldl (\<lambda>s (h, t). ntp_stats_add s h t) s rs"

definition add_to_group :: "ntp_group \<Rightarrow> (ntp_host_rec \<times> ntp_tgt_rec option) list \<Rightarrow> ntp_group" where
  "add_to_group g rs = foldl (\<lambda>g (h, t). group_add g h t) g rs"

text \<open>The values of a list without repetition, in the order of their first occurrence.\<close>

definition first_occ :: "'a list \<Rightarrow> 'a list" where
  "first_occ xs = foldl (\<lambda>ys x. if x \<in> set ys then ys else ys @ [x]) [] xs"

lemma first_occ_snoc: "first_occ (xs @ [x]) = (if x \<in> set (first_occ xs) then first_occ xs else first_occ xs @ [x])"
  by (simp add: first_occ_def)

lemma first_occ_set [simp]: "set (first_occ xs) = set xs"
  by (induction xs rule: rev_induct) (auto simp: first_occ_snoc, simp add: first_occ_def)

lemma first_occ_distinct: "distinct (first_occ xs)"
  by (induction xs rule: rev_induct) (auto simp: first_occ_snoc, simp add: first_occ_def)

lemma key_for_frame:
  "st_by_type s = st_by_type s' \<Longrightarrow> st_by_size s = st_by_size s' \<Longrightarrow> st_by_session s = st_by_session s' \<Longrightarrow>
    key_for s h = key_for s' h"
  by (simp add: key_for_def)

lemma find_group_keys: "find_group k gs = length (takeWhile (\<lambda>k'. k' \<noteq> k) (map g_key gs))"
  by (induction gs) auto

lemma group_queues_frame [simp]:
  "g_key (group_queues g h t b) = g_key g" "g_records (group_queues g h t b) = g_records g"
  "g_joined (group_queues g h t b) = g_joined g" "g_bad_host (group_queues g h t b) = g_bad_host g"
  "g_bad_target (group_queues g h t b) = g_bad_target g"
  "g_comp (group_queues g h t b) = g_comp g" "g_stage (group_queues g h t b) = g_stage g"
  by (simp_all add: group_queues_def push_queue_samples_def Let_def split: option.split)

lemma group_counts_frame [simp]:
  "g_key (group_counts g err b) = g_key g" "g_records (group_counts g err b) = g_records g"
  "g_bad_host (group_counts g err b) = g_bad_host g"
  "g_joined (group_counts g err b) = (if bd_joined b then g_joined g + 1 else g_joined g)"
  "g_comp (group_counts g err b) = g_comp g" "g_stage (group_counts g err b) = g_stage g"
  by (simp_all add: group_counts_def)

lemma group_samples_frame [simp]:
  "g_key (group_samples g b) = g_key g" "g_records (group_samples g b) = g_records g"
  "g_bad_host (group_samples g b) = g_bad_host g" "g_joined (group_samples g b) = g_joined g"
  "vec_v (g_comp (group_samples g b) c) = vec_v (g_comp g c) @ (if ntp_comp_valid b c then [bd_comp b c] else [])"
  "vec_v (g_stage (group_samples g b) x) = vec_v (g_stage g x) @ (if ntp_stage_valid b x then [bd_stage b x] else [])"
  by (simp_all add: group_samples_def)

lemma group_head_frame [simp]:
  "g_key (group_head g h t) = g_key g" "g_records (group_head g h t) = g_records g + 1"
  "g_bad_host (group_head g h t) = g_bad_host g" "g_joined (group_head g h t) = g_joined g"
  "g_comp (group_head g h t) = g_comp g" "g_stage (group_head g h t) = g_stage g"
  by (simp_all add: group_head_def)

lemma group_add_key [simp]: "g_key (group_add g h t) = g_key g"
  by (simp add: group_add_def Let_def split: prod.split)

lemma stats_add_at:
  "st_groups (ntp_stats_add s h t) =
    (case group_for s h of (i, s') \<Rightarrow> (st_groups s')[i := group_add (st_groups s' ! i) h t])"
  by (simp add: ntp_stats_add_def Let_def split: prod.split)

lemma add_to_group_key [simp]: "g_key (add_to_group g rs) = g_key g"
  by (induction rs rule: rev_induct) (auto simp: add_to_group_def)

lemma add_to_group_snoc [simp]: "add_to_group g (rs @ [(h, t)]) = group_add (add_to_group g rs) h t"
  by (simp add: add_to_group_def)

lemma stats_add_frame [simp]:
  "st_by_type (ntp_stats_add s h t) = st_by_type s" "st_by_size (ntp_stats_add s h t) = st_by_size s"
  "st_by_session (ntp_stats_add s h t) = st_by_session s"
  by (simp_all add: ntp_stats_add_def group_for_def Let_def)

lemma add_recs_frame [simp]:
  "st_by_type (add_recs s rs) = st_by_type s" "st_by_size (add_recs s rs) = st_by_size s"
  "st_by_session (add_recs s rs) = st_by_session s"
  by (induction rs rule: rev_induct) (auto simp: add_recs_def)

lemma takeWhile_index:
  assumes "distinct ks"
  shows "k \<in> set ks \<Longrightarrow> length (takeWhile (\<lambda>k'. k' \<noteq> k) ks) < length ks \<and> ks ! length (takeWhile (\<lambda>k'. k' \<noteq> k) ks) = k"
    and "k \<notin> set ks \<Longrightarrow> length (takeWhile (\<lambda>k'. k' \<noteq> k) ks) = length ks"
proof -
  show "length (takeWhile (\<lambda>k'. k' \<noteq> k) ks) < length ks \<and> ks ! length (takeWhile (\<lambda>k'. k' \<noteq> k) ks) = k" if "k \<in> set ks"
    using that by (induction ks) auto
  show "length (takeWhile (\<lambda>k'. k' \<noteq> k) ks) = length ks" if "k \<notin> set ks"
    using that by (induction ks) auto
qed

lemma list_update_map:
  "distinct ks \<Longrightarrow> i < length ks \<Longrightarrow> (map f ks)[i := y] = map (\<lambda>k. if k = ks ! i then y else f k) ks"
  by (rule nth_equalityI) (auto simp: nth_list_update nth_eq_iff_index_eq)

text \<open>The groups after adding one record, when they are the groups of a list of distinct keys.\<close>

lemma stats_add_groups:
  assumes ks: "distinct ks" and gs: "st_groups s = map f ks" and key: "\<And>k. g_key (f k) = k"
  shows "st_groups (ntp_stats_add s h t) =
    (if key_for s h \<in> set ks
     then map (\<lambda>k. if k = key_for s h then group_add (f k) h t else f k) ks
     else map f ks @ [group_add (zero_group (key_for s h)) h t])"
proof -
  let ?k = "key_for s h"
  let ?i = "length (takeWhile (\<lambda>k'. k' \<noteq> ?k) ks)"
  have keys: "map g_key (st_groups s) = ks" by (simp add: gs key comp_def)
  have fi: "find_group ?k (st_groups s) = ?i" by (simp add: find_group_keys keys)
  have len: "length (st_groups s) = length ks" by (simp add: gs)
  show ?thesis
  proof (cases "?k \<in> set ks")
    case True
    have i: "?i < length ks" "ks ! ?i = ?k" using takeWhile_index(1) [OF ks True] by auto
    have "group_for s h = (?i, s)" using i by (simp add: group_for_def Let_def fi len)
    then have "st_groups (ntp_stats_add s h t) = (st_groups s)[?i := group_add (st_groups s ! ?i) h t]"
      by (simp add: stats_add_at)
    also have "\<dots> = map (\<lambda>k. if k = ?k then group_add (f k) h t else f k) ks"
      using i list_update_map [OF ks i(1), of f] by (simp add: gs)
    finally show ?thesis using True by simp
  next
    case False
    then have i: "?i = length ks" by (rule takeWhile_index(2) [OF ks])
    have "fst (group_for s h) = length ks" "st_groups (snd (group_for s h)) = map f ks @ [zero_group ?k]"
      by (simp_all add: group_for_def Let_def fi i len) (simp_all add: gs)
    then show ?thesis using False by (simp add: stats_add_at case_prod_unfold nth_append list_update_append)
  qed
qed

lemma add_recs_groups:
  assumes s: "st_groups s = []"
  shows "st_groups (add_recs s rs) =
    map (\<lambda>k. add_to_group (zero_group k) (filter (\<lambda>r. rec_key s r = k) rs)) (first_occ (map (rec_key s) rs))"
proof (induction rs rule: rev_induct)
  case Nil
  then show ?case by (simp add: add_recs_def s first_occ_def)
next
  case (snoc r rs)
  obtain h t where r: "r = (h, t)" by fastforce
  let ?f = "\<lambda>rs k. add_to_group (zero_group k) (filter (\<lambda>r. rec_key s r = k) rs)"
  let ?ks = "first_occ (map (rec_key s) rs)"
  have key: "key_for (add_recs s rs) h = key_for s h" by (rule key_for_frame) simp_all
  have step: "st_groups (add_recs s (rs @ [r])) = st_groups (ntp_stats_add (add_recs s rs) h t)"
    by (simp add: add_recs_def r)
  have kf: "g_key (?f rs k) = k" for k by (simp add: zero_group_def)
  have snocf: "?f (rs @ [r]) k = (if k = key_for s h then group_add (?f rs k) h t else ?f rs k)" for k
    by (auto simp: add_to_group_def r)
  show ?case
  proof (cases "key_for s h \<in> set ?ks")
    case True
    then show ?thesis
      unfolding step stats_add_groups [OF first_occ_distinct snoc kf] key
      by (auto simp: first_occ_snoc r)
  next
    case False
    then have new: "filter (\<lambda>r. rec_key s r = key_for s h) rs = []"
      by (force simp: filter_empty_conv)
    have "?f (rs @ [r]) k = ?f rs k" if "k \<in> set ?ks" for k
    proof -
      have "k \<noteq> key_for s h" using that False by metis
      then show ?thesis unfolding snocf by simp
    qed
    then have m: "map (?f (rs @ [r])) ?ks = map (?f rs) ?ks" by (rule map_cong [OF refl])
    have "?f (rs @ [r]) (key_for s h) = group_add (zero_group (key_for s h)) h t"
      unfolding snocf new by (simp add: add_to_group_def)
    with False m show ?thesis
      unfolding step stats_add_groups [OF first_occ_distinct snoc kf] key
      by (simp add: first_occ_snoc r)
  qed
qed

subsection \<open>What a group holds\<close>

text \<open>The sample that a record gives of a component or a stage, if any.\<close>

definition comp_sample :: "ntp_comp \<Rightarrow> ntp_host_rec \<times> ntp_tgt_rec option \<Rightarrow> i64 list" where
  "comp_sample c r =
    (case ntp_breakdown (fst r) (snd r) of (err, b) \<Rightarrow> if ntp_comp_valid b c then [bd_comp b c] else [])"

definition stage_sample :: "ntp_stage \<Rightarrow> ntp_host_rec \<times> ntp_tgt_rec option \<Rightarrow> i64 list" where
  "stage_sample x r =
    (case ntp_breakdown (fst r) (snd r) of (err, b) \<Rightarrow> if ntp_stage_valid b x then [bd_stage b x] else [])"

lemma incomplete_host_no_sample:
  assumes "ntp_breakdown h t = (NTP_MODEL_INCOMPLETE_HOST, b)"
  shows "\<not> ntp_comp_valid b c" "\<not> ntp_stage_valid b x"
  using assms host_ok_if [of h t]
  by (auto simp: ntp_breakdown_eq zero_breakdown_def ntp_comp_valid_def ntp_stage_valid_def)

lemma group_add_samples:
  "vec_v (g_comp (group_add g h t) c) = vec_v (g_comp g c) @ comp_sample c (h, t)"
  "vec_v (g_stage (group_add g h t) x) = vec_v (g_stage g x) @ stage_sample x (h, t)"
  "g_records (group_add g h t) = g_records g + 1"
  using incomplete_host_no_sample [of h t]
  by (auto simp: group_add_def comp_sample_def stage_sample_def Let_def split: prod.split)

lemma add_to_group_samples:
  "vec_v (g_comp (add_to_group g rs) c) = vec_v (g_comp g c) @ concat (map (comp_sample c) rs)"
  "vec_v (g_stage (add_to_group g rs) x) = vec_v (g_stage g x) @ concat (map (stage_sample x) rs)"
  "g_records (add_to_group g rs) = g_records g + of_nat (length rs)"
proof (induction rs rule: rev_induct)
  case (snoc r rs)
  obtain h t where r: "r = (h, t)" by fastforce
  { case 1 show ?case using snoc by (simp add: r group_add_samples) }
  { case 2 show ?case using snoc by (simp add: r group_add_samples) }
  { case 3 show ?case using snoc by (simp add: r group_add_samples) }
qed (simp_all add: add_to_group_def)

text \<open>The counters of a group against its samples.\<close>

definition group_accounts :: "ntp_group \<Rightarrow> bool" where
  "group_accounts g \<longleftrightarrow>
     g_records g = g_bad_host g + of_nat (length (vec_v (g_comp g NTP_C_E2E))) \<and>
     g_joined g = of_nat (length (vec_v (g_comp g NTP_C_NET)))"

lemma net_valid_iff_joined:
  assumes "ntp_breakdown h t = (err, b)"
  shows "ntp_comp_valid b NTP_C_NET \<longleftrightarrow> bd_joined b"
proof (cases "bd_joined b")
  case True
  then have j: "bd_joined (snd (ntp_breakdown h t))" using assms by simp
  obtain t' b' where "target_half h t' = (True, b')" and "snd (ntp_breakdown h t) = stages (b'\<lparr>bd_joined := True\<rparr>)"
    by (rule joined_cases [OF j])
  then show ?thesis using True assms target_half_sets(3) [of h t' b'] by simp
next
  case False
  show ?thesis
  proof (cases "host_ok h")
    case True
    then have "b = stages (host_half h)" using host_only_cases [OF True, of t] False assms by simp
    then show ?thesis using False host_half_host_only [of h] by (simp add: host_only_def tgt_comps_def)
  next
    case no: False
    then have "err = NTP_MODEL_INCOMPLETE_HOST" using host_ok_if [of h t] assms by auto
    then show ?thesis using False incomplete_host_no_sample(1) assms by simp
  qed
qed

lemma group_add_accounts:
  assumes "group_accounts g"
  shows "group_accounts (group_add g h t)"
proof -
  obtain err b where b: "ntp_breakdown h t = (err, b)" by fastforce
  have e2e: "ntp_comp_valid b NTP_C_E2E \<longleftrightarrow> err \<noteq> NTP_MODEL_INCOMPLETE_HOST"
    using path_sum_eq_e2e(1) [of h t] host_ok_if [of h t] incomplete_host_no_sample [of h t] b by auto
  have net: "ntp_comp_valid b NTP_C_NET \<longleftrightarrow> bd_joined b" by (rule net_valid_iff_joined [OF b])
  show ?thesis
  proof (cases "err = NTP_MODEL_INCOMPLETE_HOST")
    case True
    with assms e2e net show ?thesis by (simp add: group_accounts_def group_add_def b)
  next
    case False
    with assms e2e net show ?thesis
      by (simp add: group_accounts_def group_add_def b)
  qed
qed

lemma sum_length_filter_eq:
  "(\<Sum>k \<in> set (map f xs). length (filter (\<lambda>x. f x = k) xs)) = length xs"
proof (induction xs)
  case (Cons a xs)
  let ?S = "set (map f xs)"
  have "(\<Sum>k \<in> insert (f a) ?S. length (filter (\<lambda>x. f x = k) (a # xs))) =
      (\<Sum>k \<in> insert (f a) ?S. (if f a = k then 1 else 0) + length (filter (\<lambda>x. f x = k) xs))"
    by (rule sum.cong) auto
  also have "\<dots> = 1 + (\<Sum>k \<in> insert (f a) ?S. length (filter (\<lambda>x. f x = k) xs))"
    by (simp add: sum.distrib sum.delta)
  also have "(\<Sum>k \<in> insert (f a) ?S. length (filter (\<lambda>x. f x = k) xs)) =
      (\<Sum>k \<in> ?S. length (filter (\<lambda>x. f x = k) xs))"
    by (rule sum.mono_neutral_right) (auto simp: filter_empty_conv)
  finally show ?case using Cons.IH by simp
qed simp

lemma of_nat_sum_list: "(\<Sum>x\<leftarrow>xs. of_nat (f x)) = of_nat (\<Sum>x\<leftarrow>xs. f x)"
  by (induction xs) simp_all

lemma add_to_group_accounts: "group_accounts g \<Longrightarrow> group_accounts (add_to_group g rs)"
  by (induction rs rule: rev_induct) (auto simp: group_add_accounts, simp add: add_to_group_def)

lemma zero_group_accounts: "group_accounts (zero_group k)"
  by (simp add: group_accounts_def zero_group_def)

subsection \<open>Rounding and quantiles\<close>

text \<open>
  What the proofs use of a rounding of doubles: it is monotone, and exact on the halves of
  integers up to \<open>2\<^sup>5\<^sup>3\<close>.
\<close>

definition double_rounding :: "(rat \<Rightarrow> rat) \<Rightarrow> bool" where
  "double_rounding rnd \<longleftrightarrow>
     (\<forall>x y. x \<le> y \<longrightarrow> rnd x \<le> rnd y) \<and>
     (\<forall>k :: int. \<bar>k\<bar> \<le> 2 ^ 53 \<longrightarrow> rnd (of_int k / 2) = of_int k / 2)"

lemma rnd_mono: "double_rounding rnd \<Longrightarrow> x \<le> y \<Longrightarrow> rnd x \<le> rnd y"
  by (simp add: double_rounding_def)

lemma rnd_half: "double_rounding rnd \<Longrightarrow> \<bar>k\<bar> \<le> 2 ^ 53 \<Longrightarrow> rnd (of_int k / 2) = of_int k / 2"
  by (simp add: double_rounding_def)

lemma rnd_int: "double_rounding rnd \<Longrightarrow> \<bar>k\<bar> \<le> 2 ^ 52 \<Longrightarrow> rnd (of_int k) = of_int k"
  using rnd_half [of rnd "2 * k"] by simp

lemma rnd_0 [simp]: "double_rounding rnd \<Longrightarrow> rnd 0 = 0"
  and rnd_1 [simp]: "double_rounding rnd \<Longrightarrow> rnd 1 = 1"
  using rnd_int [of rnd 0] rnd_int [of rnd 1] by simp_all

lemma trunc_mono: "0 \<le> x \<Longrightarrow> x \<le> y \<Longrightarrow> trunc x \<le> trunc y"
  by (simp add: trunc_def floor_mono)

lemma trunc_nonneg: "0 \<le> x \<Longrightarrow> 0 \<le> trunc x"
  by (simp add: trunc_def)

text \<open>The step from one sample towards the next, as the code rounds it.\<close>

definition rank_step :: "(rat \<Rightarrow> rat) \<Rightarrow> int \<Rightarrow> rat \<Rightarrow> int" where
  "rank_step rnd x f = trunc (rnd (rnd (rnd (of_int x) * f) + 1 / 2))"

lemma rank_step_mono:
  assumes r: "double_rounding rnd" and x: "0 \<le> x" "x \<le> 2 ^ 51" and f: "0 \<le> f" "f \<le> f'"
  shows "rank_step rnd x f \<le> rank_step rnd x f'"
proof -
  have rx: "rnd (of_int x) = of_int x" by (rule rnd_int [OF r]) (use x in simp)
  have "0 \<le> rnd (of_int x * f)" using rnd_mono [OF r, of 0 "of_int x * f"] r x f by simp
  then have "0 \<le> rnd (rnd (of_int x * f) + 1 / 2)"
    using rnd_mono [OF r, of 0 "rnd (of_int x * f) + 1 / 2"] r by simp
  moreover have "rnd (rnd (of_int x * f) + 1 / 2) \<le> rnd (rnd (of_int x * f') + 1 / 2)"
    using x f by (intro rnd_mono [OF r] add_right_mono mult_left_mono) auto
  ultimately show ?thesis by (simp add: rank_step_def rx trunc_mono)
qed

lemma rank_step_ends:
  assumes r: "double_rounding rnd" and x: "0 \<le> x" "x \<le> 2 ^ 51"
  shows "rank_step rnd x 0 = 0" and "rank_step rnd x 1 = x"
proof -
  have rx: "rnd (of_int x) = of_int x" by (rule rnd_int [OF r]) (use x in simp)
  have half: "rnd (1 / 2) = 1 / 2" using rnd_half [OF r, of 1] by simp
  have "\<lfloor>1 / (2 :: rat)\<rfloor> = 0" by linarith
  then show "rank_step rnd x 0 = 0" using r by (simp add: rank_step_def trunc_def half)
  have "rnd (of_int x + 1 / 2) = of_int x + 1 / 2"
    using rnd_half [OF r, of "2 * x + 1"] x by (simp add: field_simps)
  moreover have "\<lfloor>of_int x + 1 / (2 :: rat)\<rfloor> = x" by linarith
  ultimately show "rank_step rnd x 1 = x" using x by (simp add: rank_step_def rx trunc_def)
qed

lemma rank_step_bounds:
  assumes "double_rounding rnd" and "0 \<le> x" "x \<le> 2 ^ 51" and "0 \<le> f" "f \<le> 1"
  shows "0 \<le> rank_step rnd x f" and "rank_step rnd x f \<le> x"
  using rank_step_mono [OF assms(1-3), of 0 f] rank_step_mono [OF assms(1-4), of 1]
    rank_step_ends [OF assms(1-3)] assms(4,5) by auto

lemma sint_word_of_int: "- (2 ^ 63) \<le> k \<Longrightarrow> k < 2 ^ 63 \<Longrightarrow> sint (word_of_int k :: i64) = k"
  by (simp add: signed_of_int signed_take_bit_int_eq_self)

lemma sint_add_small:
  fixes w :: i64
  assumes "- (2 ^ 63) \<le> sint w + k" and "sint w + k < 2 ^ 63"
  shows "sint (w + word_of_int k) = sint w + k"
proof -
  have "w + word_of_int k = word_of_int (sint w + k)" by simp
  then show ?thesis using assms by (simp only: sint_word_of_int)
qed

lemma sint_minus_small:
  fixes a b :: i64
  assumes "- (2 ^ 63) \<le> sint b - sint a" and "sint b - sint a < 2 ^ 63"
  shows "sint (b - a) = sint b - sint a"
proof -
  have "b - a = word_of_int (sint b - sint a)" by simp
  then show ?thesis using assms by (simp only: sint_word_of_int)
qed

text \<open>The samples that a summary is made of: sorted, and spread over at most \<open>2\<^sup>5\<^sup>1\<close> ns (26 days).\<close>

definition samples_ok :: "i64 list \<Rightarrow> bool" where
  "samples_ok v \<longleftrightarrow> v \<noteq> [] \<and> sorted (map sint v) \<and> length v \<le> 2 ^ 52 \<and>
     sint (v ! (length v - 1)) - sint (v ! 0) \<le> 2 ^ 51"

lemma sint_i64_range: "- (2 ^ 63) \<le> sint (w :: i64)" "sint (w :: i64) < 2 ^ 63"
  using sint_ge [of w] sint_lt [of w] by simp_all

lemma samples_mono: "samples_ok v \<Longrightarrow> i \<le> j \<Longrightarrow> j < length v \<Longrightarrow> sint (v ! i) \<le> sint (v ! j)"
  by (auto simp: samples_ok_def sorted_iff_nth_mono)

lemma samples_spread:
  assumes "samples_ok v" and "i \<le> j" and "j < length v"
  shows "0 \<le> sint (v ! j) - sint (v ! i)" "sint (v ! j) - sint (v ! i) \<le> 2 ^ 51"
    "sint (v ! j - v ! i) = sint (v ! j) - sint (v ! i)"
proof -
  show a: "0 \<le> sint (v ! j) - sint (v ! i)" using samples_mono [OF assms] by simp
  have "sint (v ! 0) \<le> sint (v ! i)" "sint (v ! j) \<le> sint (v ! (length v - 1))"
    using samples_mono [OF assms(1), of 0 i] samples_mono [OF assms(1), of j "length v - 1"] assms(2,3)
    by auto
  then show b: "sint (v ! j) - sint (v ! i) \<le> 2 ^ 51"
    using assms(1) unfolding samples_ok_def by linarith
  show "sint (v ! j - v ! i) = sint (v ! j) - sint (v ! i)"
    using a b by (intro sint_minus_small) auto
qed

text \<open>The rank of a quantile and the fraction beyond it, as the code rounds them.\<close>

definition rank_pos :: "(rat \<Rightarrow> rat) \<Rightarrow> nat \<Rightarrow> rat \<Rightarrow> rat" where
  "rank_pos rnd n q = rnd (rnd q * rnd (of_nat (n - 1)))"

definition rank_lo :: "(rat \<Rightarrow> rat) \<Rightarrow> nat \<Rightarrow> rat \<Rightarrow> nat" where
  "rank_lo rnd n q = nat (trunc (rank_pos rnd n q))"

definition rank_frac :: "(rat \<Rightarrow> rat) \<Rightarrow> nat \<Rightarrow> rat \<Rightarrow> rat" where
  "rank_frac rnd n q = rnd (rank_pos rnd n q - rnd (of_nat (rank_lo rnd n q)))"

lemma quantile_eq:
  "quantile rnd v q =
    (if rank_lo rnd (length v) q + 1 \<ge> length v then v ! (length v - 1)
     else v ! rank_lo rnd (length v) q +
       word_of_int (rank_step rnd
         (sint (v ! (rank_lo rnd (length v) q + 1) - v ! rank_lo rnd (length v) q)) (rank_frac rnd (length v) q)))"
  unfolding quantile_def rank_pos_def rank_lo_def rank_frac_def rank_step_def Let_def by (rule refl)

lemma rank_pos_nonneg: "double_rounding rnd \<Longrightarrow> 0 \<le> q \<Longrightarrow> 0 \<le> rank_pos rnd n q"
  using rnd_mono [of rnd 0 q] rnd_mono [of rnd 0 "of_nat (n - 1)"] rnd_mono [of rnd 0 "rnd q * rnd (of_nat (n - 1))"]
  by (simp add: rank_pos_def)

lemma rank_pos_mono:
  assumes r: "double_rounding rnd" and "0 \<le> q" "q \<le> q'"
  shows "rank_pos rnd n q \<le> rank_pos rnd n q'"
proof -
  have "0 \<le> rnd (of_nat (n - 1))" using rnd_mono [OF r, of 0 "of_nat (n - 1)"] r by simp
  then show ?thesis
    unfolding rank_pos_def using assms by (intro rnd_mono [OF r] mult_right_mono) auto
qed

lemma rank_lo_mono:
  assumes "double_rounding rnd" and "0 \<le> q" "q \<le> q'"
  shows "rank_lo rnd n q \<le> rank_lo rnd n q'"
  using trunc_mono [OF rank_pos_nonneg [OF assms(1,2)] rank_pos_mono [OF assms]]
  by (simp add: rank_lo_def nat_mono)

lemma rank_frac_bounds:
  assumes r: "double_rounding rnd" and q: "0 \<le> q" and lo: "rank_lo rnd n q < n" "n \<le> 2 ^ 52"
  shows "0 \<le> rank_frac rnd n q" "rank_frac rnd n q \<le> 1"
proof -
  let ?lo = "rank_lo rnd n q" and ?pos = "rank_pos rnd n q"
  have p: "0 \<le> ?pos" by (rule rank_pos_nonneg [OF r q])
  have rlo: "rnd (of_nat ?lo) = of_nat ?lo"
    using rnd_int [OF r, of "int ?lo"] lo by simp
  have "of_nat ?lo = (of_int \<lfloor>?pos\<rfloor> :: rat)" using p by (simp add: rank_lo_def trunc_def)
  then have "0 \<le> ?pos - of_nat ?lo" "?pos - of_nat ?lo \<le> 1" by linarith+
  then show "0 \<le> rank_frac rnd n q" "rank_frac rnd n q \<le> 1"
    using rnd_mono [OF r, of 0] rnd_mono [OF r, of _ 1] r by (auto simp: rank_frac_def rlo)
qed

lemma quantile_between:
  assumes r: "double_rounding rnd" and v: "samples_ok v" and q: "0 \<le> q"
    and lo: "rank_lo rnd (length v) q + 1 < length v"
  shows "sint (quantile rnd v q) = sint (v ! rank_lo rnd (length v) q) + rank_step rnd
      (sint (v ! (rank_lo rnd (length v) q + 1)) - sint (v ! rank_lo rnd (length v) q)) (rank_frac rnd (length v) q)"
    and "sint (v ! rank_lo rnd (length v) q) \<le> sint (quantile rnd v q)"
    and "sint (quantile rnd v q) \<le> sint (v ! (rank_lo rnd (length v) q + 1))"
proof -
  let ?lo = "rank_lo rnd (length v) q" and ?f = "rank_frac rnd (length v) q"
  have len: "length v \<le> 2 ^ 52" using v by (simp add: samples_ok_def)
  have f: "0 \<le> ?f" "?f \<le> 1" using rank_frac_bounds [OF r q _ len] lo by auto
  note d = samples_spread [OF v le_add1 [of ?lo 1] lo]
  note b = rank_step_bounds [OF r d(1,2) f]
  have "quantile rnd v q = v ! ?lo + word_of_int (rank_step rnd (sint (v ! (?lo + 1)) - sint (v ! ?lo)) ?f)"
    using lo by (simp only: quantile_eq d(3) not_le [symmetric] if_False)
  moreover have "sint (v ! ?lo + word_of_int (rank_step rnd (sint (v ! (?lo + 1)) - sint (v ! ?lo)) ?f)) =
      sint (v ! ?lo) + rank_step rnd (sint (v ! (?lo + 1)) - sint (v ! ?lo)) ?f"
    using sint_i64_range(1) [of "v ! ?lo"] sint_i64_range(2) [of "v ! (?lo + 1)"] b
    by (intro sint_add_small) linarith+
  ultimately show eq: "sint (quantile rnd v q) =
      sint (v ! ?lo) + rank_step rnd (sint (v ! (?lo + 1)) - sint (v ! ?lo)) ?f" by simp
  show "sint (v ! ?lo) \<le> sint (quantile rnd v q)" "sint (quantile rnd v q) \<le> sint (v ! (?lo + 1))"
    using b by (simp_all add: eq)
qed

lemma quantile_range:
  assumes r: "double_rounding rnd" and v: "samples_ok v" and q: "0 \<le> q"
  shows "sint (v ! 0) \<le> sint (quantile rnd v q)" "sint (quantile rnd v q) \<le> sint (v ! (length v - 1))"
proof -
  have ne: "0 < length v" using v by (simp add: samples_ok_def)
  let ?lo = "rank_lo rnd (length v) q"
  show "sint (v ! 0) \<le> sint (quantile rnd v q)"
  proof (cases "?lo + 1 < length v")
    case True
    then show ?thesis
      using quantile_between(2) [OF r v q True] samples_mono [OF v, of 0 ?lo] by simp
  next
    case False
    then show ?thesis using samples_mono [OF v, of 0 "length v - 1"] ne by (simp add: quantile_eq)
  qed
  show "sint (quantile rnd v q) \<le> sint (v ! (length v - 1))"
  proof (cases "?lo + 1 < length v")
    case True
    then have "sint (v ! (?lo + 1)) \<le> sint (v ! (length v - 1))" by (intro samples_mono [OF v]) auto
    then show ?thesis using quantile_between(3) [OF r v q True] by linarith
  next
    case False
    then show ?thesis by (simp add: quantile_eq)
  qed
qed

lemma quantile_mono:
  assumes r: "double_rounding rnd" and v: "samples_ok v" and q: "0 \<le> q" "q \<le> q'"
  shows "sint (quantile rnd v q) \<le> sint (quantile rnd v q')"
proof -
  let ?lo = "rank_lo rnd (length v) q" and ?lo' = "rank_lo rnd (length v) q'"
  have q': "0 \<le> q'" using q by simp
  have le: "?lo \<le> ?lo'" by (rule rank_lo_mono [OF r q])
  show ?thesis
  proof (cases "?lo' + 1 < length v")
    case False
    then show ?thesis using quantile_range(2) [OF r v q(1)] by (simp add: quantile_eq [of rnd v q'])
  next
    case hi: True
    then have lo: "?lo + 1 < length v" using le by simp
    show ?thesis
    proof (cases "?lo = ?lo'")
      case False
      then have "sint (v ! (?lo + 1)) \<le> sint (v ! ?lo')"
        using le hi by (intro samples_mono [OF v]) auto
      then show ?thesis
        using quantile_between(3) [OF r v q(1) lo] quantile_between(2) [OF r v q' hi] by linarith
    next
      case True
      have len: "length v \<le> 2 ^ 52" using v by (simp add: samples_ok_def)
      have "0 \<le> rank_frac rnd (length v) q" using rank_frac_bounds(1) [OF r q(1) _ len] lo by simp
      moreover have "rank_frac rnd (length v) q \<le> rank_frac rnd (length v) q'"
        unfolding rank_frac_def True by (intro rnd_mono [OF r] diff_right_mono rank_pos_mono [OF r q])
      ultimately show ?thesis
        unfolding quantile_between(1) [OF r v q(1) lo] quantile_between(1) [OF r v q' hi] True
        using samples_spread(1,2) [OF v le_add1 [of ?lo' 1] hi]
        by (intro add_left_mono rank_step_mono [OF r])
    qed
  qed
qed

lemma map_quantile_sorted:
  assumes "double_rounding rnd" and "samples_ok v" and "sorted qs" and "list_all (\<lambda>q. 0 \<le> q) qs"
  shows "sorted (map (\<lambda>q. sint (quantile rnd v q)) qs)"
  using assms(3,4)
proof (induction qs)
  case (Cons q qs)
  then show ?case using quantile_mono [OF assms(1,2)] by auto
qed simp

subsection \<open>Properties of the statistics\<close>

text \<open>
  \<^bold>\<open>C17.\<close> Grouping is exact: after any records are added to fresh statistics, there is one group
  per key that occurs, in the order of first occurrence; a group counts the records of its key,
  and its samples of a component or of a stage are those of these records, in order.
\<close>

theorem stats_groups_exact:
  "(let s = ntp_stats_init by_type by_size by_session;
        recs = (\<lambda>k. filter (\<lambda>r. key_for s (fst r) = k) rs)
    in map (\<lambda>g. (g_key g, g_records g, vec_v (g_comp g c), vec_v (g_stage g x)))
         (st_groups (add_recs s rs)) =
       map (\<lambda>k. (k, of_nat (length (recs k)), concat (map (comp_sample c) (recs k)),
                 concat (map (stage_sample x) (recs k))))
         (first_occ (map (\<lambda>r. key_for s (fst r)) rs)))"
proof -
  let ?s = "ntp_stats_init by_type by_size by_session"
  have "st_groups ?s = []" by (simp add: ntp_stats_init_def)
  from add_recs_groups [OF this, of rs] show ?thesis
    by (simp add: add_to_group_samples zero_group_def Let_def comp_def)
qed

text \<open>
  In every group the counters agree with the samples: the records are those without a
  usable host side plus one end-to-end sample each, and the joined records are those with a
  network sample. The groups together count every record that was added.
\<close>

theorem stats_account:
  "(let s = add_recs (ntp_stats_init by_type by_size by_session) rs
    in list_all (\<lambda>g. g_records g = g_bad_host g + of_nat (length (vec_v (g_comp g NTP_C_E2E))) \<and>
           g_joined g = of_nat (length (vec_v (g_comp g NTP_C_NET)))) (st_groups s) \<and>
       sum_list (map g_records (st_groups s)) = of_nat (length rs))"
proof -
  let ?s = "ntp_stats_init by_type by_size by_session"
  have s: "st_groups ?s = []" by (simp add: ntp_stats_init_def)
  let ?recs = "\<lambda>k. filter (\<lambda>r. rec_key ?s r = k) rs" and ?ks = "first_occ (map (rec_key ?s) rs)"
  have gs: "st_groups (add_recs ?s rs) = map (\<lambda>k. add_to_group (zero_group k) (?recs k)) ?ks"
    by (rule add_recs_groups [OF s])
  have "list_all group_accounts (st_groups (add_recs ?s rs))"
    unfolding gs by (auto simp: list_all_iff intro: add_to_group_accounts zero_group_accounts)
  moreover have "sum_list (map g_records (st_groups (add_recs ?s rs))) = of_nat (length rs)"
  proof -
    have "sum_list (map (\<lambda>k. length (?recs k)) ?ks) = (\<Sum>k \<in> set (map (rec_key ?s) rs). length (?recs k))"
      by (simp add: sum_list_distinct_conv_sum_set first_occ_distinct)
    also have "\<dots> = length rs"
      by (rule sum_length_filter_eq)
    finally have "of_nat (sum_list (map (\<lambda>k. length (?recs k)) ?ks)) = (of_nat (length rs) :: u64)" by simp
    then show ?thesis
      by (simp add: gs add_to_group_samples zero_group_def comp_def of_nat_sum_list)
  qed
  ultimately show ?thesis by (simp add: Let_def group_accounts_def [abs_def])
qed

text \<open>
  The quantiles of a summary are in order and lie between the smallest and the largest
  sample, for samples spread over at most \<open>2\<^sup>5\<^sup>1\<close> ns, whatever the rounding of doubles as long as
  it is monotone and exact on small integers and halves. The samples themselves are only sorted.
\<close>

theorem summary_ordered:
  assumes "double_rounding rnd" and "samples_ok (sort_key sint (vec_v vec))"
  shows "(case ntp_summarize rnd rndl vec of (sm, vec') \<Rightarrow>
    sorted (sint (sm_min sm) # map sint (sm_q sm) @ [sint (sm_max sm)]) \<and>
    sm_n sm = length (vec_v vec) \<and> length (sm_q sm) = NTP_NQ \<and>
    mset (vec_v vec') = mset (vec_v vec) \<and> sorted (map sint (vec_v vec')))"
proof -
  let ?v = "sort_key sint (vec_v vec)"
  have ne: "vec_v vec \<noteq> []" using assms(2) by (auto simp: samples_ok_def)
  have len: "length ?v = length (vec_v vec)" by simp
  have "sorted ntp_quantiles" "list_all (\<lambda>q. 0 \<le> q) ntp_quantiles"
    by (simp_all add: ntp_quantiles_def)
  then have "sorted (map (\<lambda>q. sint (quantile rnd ?v q)) ntp_quantiles)"
    by (rule map_quantile_sorted [OF assms])
  moreover have "list_all (\<lambda>q. 0 \<le> q) ntp_quantiles" by (simp add: ntp_quantiles_def)
  ultimately have "sorted (sint (?v ! 0) # map (\<lambda>q. sint (quantile rnd ?v q)) ntp_quantiles @
      [sint (?v ! (length ?v - 1))])"
    using quantile_range [OF assms] samples_mono [OF assms(2), of 0 "length ?v - 1"] ne
    by (auto simp: sorted_append list_all_iff)
  then show ?thesis
    using ne len by (simp add: ntp_summarize_def Let_def comp_def NTP_NQ_def ntp_quantiles_def)
qed

theorem summary_ordered_witness:
  "sorted (map sint (sm_q (fst (ntp_summarize id id \<lparr>vec_v = [30, 10, 20], vec_cap = 1024\<rparr>)))) \<and>
   sm_q (fst (ntp_summarize id id \<lparr>vec_v = [30, 10, 20], vec_cap = 1024\<rparr>)) = [12, 20, 24, 26, 28, 29, 30, 30]"
proof -
  have "double_rounding id" by (simp add: double_rounding_def)
  moreover have "samples_ok (sort_key sint (vec_v \<lparr>vec_v = [30, 10, 20], vec_cap = 1024\<rparr>))"
    by (simp add: samples_ok_def)
  ultimately have "sorted (map sint (sm_q (fst (ntp_summarize id id \<lparr>vec_v = [30, 10, 20], vec_cap = 1024\<rparr>))))"
    using summary_ordered [of id "\<lparr>vec_v = [30, 10, 20], vec_cap = 1024\<rparr>" id]
    by (auto simp: sorted_append split: prod.splits)
  moreover have "sm_q (fst (ntp_summarize id id \<lparr>vec_v = [30, 10, 20], vec_cap = 1024\<rparr>)) = [12, 20, 24, 26, 28, 29, 30, 30]"
    by code_simp
  ultimately show ?thesis by blast
qed

text \<open>
  The path of a multipath namespace is named by the namespace: \<open>nvme\<close>, a number, \<open>c\<close>, a
  number and a rest that starts with \<open>n\<close> loses the controller part, and a name of that result's
  form is left alone (each cut to the buffer).
\<close>

theorem session_name_path:
  assumes "list_all is_digit a" and "list_all is_digit b" and "b \<noteq> []"
  shows "ntp_session_name (''nvme'' @ a @ CHR ''c'' # b @ CHR ''n'' # r) len =
      snprintf_s len (''nvme'' @ a @ CHR ''n'' # r) \<and>
    ntp_session_name (''nvme'' @ a @ CHR ''n'' # r) len = snprintf_s len (''nvme'' @ a @ CHR ''n'' # r)"
proof -
  have c: "\<not> is_digit (CHR ''c'')" "\<not> is_digit (CHR ''n'')" by (simp_all add: is_digit_def)
  have run: "takeWhile is_digit (ds @ x # xs) = ds" "dropWhile is_digit (ds @ x # xs) = x # xs"
    if "list_all is_digit ds" "\<not> is_digit x" for ds x xs
    using that by (auto simp: takeWhile_append2 dropWhile_append2 list_all_iff)
  obtain d ds where b: "b = d # ds" "is_digit d" and ds: "list_all is_digit ds"
    using assms(2,3) by (cases b) auto
  show ?thesis
    using c b run [OF ds c(2)] by (simp add: ntp_session_name_def Let_def run [OF assms(1)])
qed

theorem session_name_path_witness: "ntp_session_name ''nvme1c2n3'' 32 = ''nvme1n3''"
  using session_name_path [of "''1''" "''2''" "''3''" 32] by (simp add: is_digit_def snprintf_s_def)

end
