(* ===== verification/Config.thy ===== *)
theory Config
  imports Ntprof_Records C_Strings
begin

text \<open>
  The task specification and its ini file (\<^verbatim>\<open>src/src/config.c\<close>, \<^verbatim>\<open>src/src/config.h\<close>). Each setter returns
  what the C function returns (0 or -1) and the configuration as it leaves it, also when it
  fails.
\<close>

subsection \<open>Definitions\<close>

datatype ntp_role = NTP_ROLE_HOST | NTP_ROLE_TARGET | NTP_ROLE_BOTH

datatype ntp_aggr = NTP_AGG_AVG | NTP_AGG_MIN | NTP_AGG_MAX | NTP_AGG_DIST

datatype ntp_io_type = NTP_IO_READ | NTP_IO_WRITE | NTP_IO_BOTH

record ntp_config =
  cf_session :: string
  cf_io_type :: ntp_io_type
  cf_sizes :: "u32 list"
  cf_n_sizes :: nat
  cf_min_size :: u64
  cf_max_size :: u64
  cf_online :: bool
  cf_data_dir :: string
  cf_interval_s :: u32
  cf_sample_every :: u32
  cf_buffer_mb :: u32
  cf_aggr :: ntp_aggr
  cf_rep_distribution :: bool
  cf_rep_throughput :: bool
  cf_rep_breakdown :: bool
  cf_rep_queue_length :: bool
  cf_rep_detail :: bool
  cf_rep_all_groups :: bool
  cf_group_by_size :: bool
  cf_group_by_type :: bool
  cf_group_by_session :: bool
  cf_role :: ntp_role
  cf_transport :: u8
  cf_duration_s :: u32
  cf_output :: string
  cf_json :: string
  cf_btf_dir :: string
  cf_exact_queues :: bool
  cf_force_kprobes :: bool
  cf_force_fentry :: bool
  cf_spdk_host :: string
  cf_spdk_target :: string

definition config_defaults :: ntp_config where
  "config_defaults = \<lparr>cf_session = snprintf_s 64 ''all'', cf_io_type = NTP_IO_BOTH,
     cf_sizes = replicate NTP_MAX_SIZE_FILTERS 0, cf_n_sizes = 0, cf_min_size = 0, cf_max_size = 0,
     cf_online = True, cf_data_dir = snprintf_s 256 ''./data'', cf_interval_s = 1,
     cf_sample_every = 1000, cf_buffer_mb = 16, cf_aggr = NTP_AGG_AVG, cf_rep_distribution = True,
     cf_rep_throughput = True, cf_rep_breakdown = True, cf_rep_queue_length = True,
     cf_rep_detail = False, cf_rep_all_groups = False, cf_group_by_size = True,
     cf_group_by_type = True, cf_group_by_session = True, cf_role = NTP_ROLE_HOST,
     cf_transport = NTP_TR_TCP, cf_duration_s = 0, cf_output = '''', cf_json = '''',
     cf_btf_dir = '''', cf_exact_queues = False, cf_force_kprobes = False, cf_force_fentry = False,
     cf_spdk_host = '''', cf_spdk_target = ''''\<rparr>"

definition config_set_io_type :: "ntp_config \<Rightarrow> string \<Rightarrow> int \<times> ntp_config" where
  "config_set_io_type c v =
    (if strcaseeq v ''read'' then (0, c\<lparr>cf_io_type := NTP_IO_READ\<rparr>)
     else if strcaseeq v ''write'' then (0, c\<lparr>cf_io_type := NTP_IO_WRITE\<rparr>)
     else if strcaseeq v ''both'' then (0, c\<lparr>cf_io_type := NTP_IO_BOTH\<rparr>)
     else (-1, c))"

text \<open>\<^verbatim>\<open>strtok_r\<close> with one delimiter: the maximal non-empty runs of other characters.\<close>

lemma dropWhile_run:
  assumes "dropWhile (\<lambda>c. c = d) s \<noteq> []"
  shows "length (dropWhile (\<lambda>c. c \<noteq> d) (dropWhile (\<lambda>c. c = d) s)) < length s"
  using assms
proof (induction s)
  case (Cons a s)
  then show ?case
    using length_dropWhile_le [of "\<lambda>c. c \<noteq> d" s] by (auto simp: less_Suc_eq_le less_imp_le)
qed simp

function tokens :: "char \<Rightarrow> string \<Rightarrow> string list" where
  "tokens d s =
    (let s = dropWhile (\<lambda>c. c = d) s
     in if s = [] then []
        else takeWhile (\<lambda>c. c \<noteq> d) s # tokens d (dropWhile (\<lambda>c. c \<noteq> d) s))"
  by pat_completeness auto
termination
proof (relation "measure (\<lambda>(_, s). length s)", goal_cases)
  case (2 d s x)
  have "length (dropWhile (\<lambda>c. c \<noteq> d) x) < length s"
    unfolding 2(1) by (rule dropWhile_run) (use 2 in simp)
  then show ?case by simp
qed simp

declare tokens.simps [simp del]

fun set_sizes_loop :: "string list \<Rightarrow> nat \<Rightarrow> u32 list \<Rightarrow> int \<times> nat \<times> u32 list" where
  "set_sizes_loop [] n sizes = (0, n, sizes)"
| "set_sizes_loop (tok # toks) n sizes =
     (if n = NTP_MAX_SIZE_FILTERS then (-1, n, sizes)
      else case parse_size (strip tok) of
        None \<Rightarrow> (-1, n, sizes)
      | Some sz \<Rightarrow>
          if sz = 0 \<or> sz > 0xffffffff then (-1, n, sizes)
          else set_sizes_loop toks (n + 1) (sizes[n := ucast sz]))"

definition config_set_sizes :: "ntp_config \<Rightarrow> string \<Rightarrow> int \<times> ntp_config" where
  "config_set_sizes c v =
    (let (ret, n, sizes) = set_sizes_loop (tokens (CHR '','') v) 0 (cf_sizes c);
         c = c\<lparr>cf_sizes := sizes\<rparr>
     in if ret = 0 then (0, c\<lparr>cf_n_sizes := n\<rparr>) else (ret, c))"

definition config_set_aggr :: "ntp_config \<Rightarrow> string \<Rightarrow> int \<times> ntp_config" where
  "config_set_aggr c v =
    (if strcaseeq v ''avg'' then (0, c\<lparr>cf_aggr := NTP_AGG_AVG\<rparr>)
     else if strcaseeq v ''min'' then (0, c\<lparr>cf_aggr := NTP_AGG_MIN\<rparr>)
     else if strcaseeq v ''max'' then (0, c\<lparr>cf_aggr := NTP_AGG_MAX\<rparr>)
     else if strcaseeq v ''dist'' then (0, c\<lparr>cf_aggr := NTP_AGG_DIST\<rparr>)
     else (-1, c))"

text \<open>The three setters through a pointer: the new value, or \<open>None\<close> where they return -1.\<close>

definition set_uint :: "string \<Rightarrow> u32 \<Rightarrow> u32 option" where
  "set_uint v lo =
    (let (x, rest, erange) = strtoull v
     in if erange \<or> rest \<noteq> [] \<or> x < ucast lo \<or> x > 0xffffffff then None else Some (ucast x))"

definition set_bool :: "string \<Rightarrow> bool option" where
  "set_bool v = parse_bool v"

definition set_size :: "string \<Rightarrow> u64 option" where
  "set_size v = parse_size v"

definition store :: "('a \<Rightarrow> ntp_config \<Rightarrow> ntp_config) \<Rightarrow> ntp_config \<Rightarrow> 'a option \<Rightarrow> int \<times> ntp_config" where
  "store upd c x = (case x of None \<Rightarrow> (-1, c) | Some y \<Rightarrow> (0, upd y c))"

definition apply_key :: "ntp_config \<Rightarrow> string \<Rightarrow> string \<Rightarrow> string \<Rightarrow> int \<times> ntp_config" where
  "apply_key c section key v =
    (let IS = (\<lambda>s k. strcaseeq section s \<and> strcaseeq key k)
     in if IS ''Workload'' ''SESSION_NAME'' then (0, c\<lparr>cf_session := snprintf_s 64 v\<rparr>)
        else if IS ''Workload'' ''IO_TYPE'' then config_set_io_type c v
        else if IS ''Workload'' ''IO_SIZE'' then config_set_sizes c v
        else if IS ''Workload'' ''MIN_IO_SIZE'' then store (\<lambda>x c. c\<lparr>cf_min_size := x\<rparr>) c (set_size v)
        else if IS ''Workload'' ''MAX_IO_SIZE'' then store (\<lambda>x c. c\<lparr>cf_max_size := x\<rparr>) c (set_size v)
        else if IS ''Execution'' ''NETWORK_BANDWIDTH_LIMIT'' \<or>
                IS ''Execution'' ''NVME_DRIVE_BANDWIDTH_LIMIT'' then (0, c)
        else if IS ''Profiling'' ''IS_ONLINE'' then store (\<lambda>x c. c\<lparr>cf_online := x\<rparr>) c (set_bool v)
        else if IS ''Profiling'' ''DATA_DIR'' then (0, c\<lparr>cf_data_dir := snprintf_s 256 v\<rparr>)
        else if IS ''Profiling'' ''TIME_INTERVAL''
        then store (\<lambda>x c. c\<lparr>cf_interval_s := x\<rparr>) c (set_uint v 1)
        else if IS ''Profiling'' ''FREQUENCY''
        then store (\<lambda>x c. c\<lparr>cf_sample_every := x\<rparr>) c (set_uint v 1)
        else if IS ''Profiling'' ''BUFFER_SIZE''
        then store (\<lambda>x c. c\<lparr>cf_buffer_mb := x\<rparr>) c (set_uint v 1)
        else if IS ''Profiling'' ''AGGREGATION'' then config_set_aggr c v
        else if IS ''Report'' ''ENABLE_LATENCY_DISTRIBUTION''
        then store (\<lambda>x c. c\<lparr>cf_rep_distribution := x\<rparr>) c (set_bool v)
        else if IS ''Report'' ''ENABLE_THROUGHPUT''
        then store (\<lambda>x c. c\<lparr>cf_rep_throughput := x\<rparr>) c (set_bool v)
        else if IS ''Report'' ''ENABLE_LATENCY_BREAKDOWN''
        then store (\<lambda>x c. c\<lparr>cf_rep_breakdown := x\<rparr>) c (set_bool v)
        else if IS ''Report'' ''ENABLE_QUEUE_LENGTH''
        then store (\<lambda>x c. c\<lparr>cf_rep_queue_length := x\<rparr>) c (set_bool v)
        else if IS ''Report'' ''ENABLE_COMPONENT_DETAIL''
        then store (\<lambda>x c. c\<lparr>cf_rep_detail := x\<rparr>) c (set_bool v)
        else if IS ''Report'' ''SHOW_ALL_GROUPS''
        then store (\<lambda>x c. c\<lparr>cf_rep_all_groups := x\<rparr>) c (set_bool v)
        else if IS ''Report'' ''ENABLE_GROUP_BY_SIZE''
        then store (\<lambda>x c. c\<lparr>cf_group_by_size := x\<rparr>) c (set_bool v)
        else if IS ''Report'' ''ENABLE_GROUP_BY_TYPE''
        then store (\<lambda>x c. c\<lparr>cf_group_by_type := x\<rparr>) c (set_bool v)
        else if IS ''Report'' ''ENABLE_GROUP_BY_SESSION''
        then store (\<lambda>x c. c\<lparr>cf_group_by_session := x\<rparr>) c (set_bool v)
        else if IS ''Report'' ''QUEUE_TRACKING''
        then if strcaseeq v ''exact'' then (0, c\<lparr>cf_exact_queues := True\<rparr>)
             else if strcaseeq v ''estimate'' then (0, c\<lparr>cf_exact_queues := False\<rparr>)
             else (-1, c)
        else if IS ''Profiling'' ''SPDK_HOST'' then (0, c\<lparr>cf_spdk_host := snprintf_s 512 v\<rparr>)
        else if IS ''Profiling'' ''SPDK_TARGET'' then (0, c\<lparr>cf_spdk_target := snprintf_s 512 v\<rparr>)
        else (0, c))"

text \<open>The quote is \<open>None\<close> outside quotes.\<close>

fun cut_comment :: "char option \<Rightarrow> string \<Rightarrow> string" where
  "cut_comment quote [] = []"
| "cut_comment (Some q) (c # cs) = c # cut_comment (if c = q then None else Some q) cs"
| "cut_comment None (c # cs) =
     (if c = CHR 0x22 \<or> c = CHR 0x27 then c # cut_comment (Some c) cs
      else if c = CHR '';'' \<or> c = CHR ''#'' then []
      else c # cut_comment None cs)"

text \<open>\<^verbatim>\<open>fgets\<close> with a buffer of \<open>n\<close> bytes: at most \<open>n - 1\<close> characters, up to a newline.\<close>

fun fgets :: "nat \<Rightarrow> string \<Rightarrow> string \<times> string" where
  "fgets n [] = ([], [])"
| "fgets n (c # cs) =
     (if n \<le> 1 then ([], c # cs)
      else if c = CHR 0x0A then ([c], cs)
      else let (l, rest) = fgets (n - 1) cs in (c # l, rest))"

datatype ini_err = Cannot_open | Malformed_section | Expected_key_value | Bad_value

text \<open>One line: the section and the configuration after it, or why the file is refused.\<close>

definition ini_line ::
  "string \<Rightarrow> string \<Rightarrow> ntp_config \<Rightarrow> ini_err option \<times> string \<times> ntp_config"
where
  "ini_line line section c =
    (let s = strip (cut_comment None line)
     in if s = [] then (None, section, c)
        else if hd s = CHR ''[''
        then if CHR '']'' \<notin> set s then (Some Malformed_section, section, c)
             else (None, snprintf_s 64 (strip (tl (takeWhile (\<lambda>ch. ch \<noteq> CHR '']'') s))), c)
        else if CHR ''='' \<notin> set s then (Some Expected_key_value, section, c)
        else
          let key = takeWhile (\<lambda>ch. ch \<noteq> CHR ''='') s;
              val = tl (dropWhile (\<lambda>ch. ch \<noteq> CHR ''='') s);
              (ret, c) = apply_key c section (strip key) (strip val)
          in if ret \<noteq> 0 then (Some Bad_value, section, c) else (None, section, c))"

lemma fgets_rest: "1 < n \<Longrightarrow> s \<noteq> [] \<Longrightarrow> length (snd (fgets n s)) < length s"
proof (induction n s rule: fgets.induct)
  case (2 n c cs)
  show ?case
  proof (cases "cs = [] \<or> c = CHR 0x0A \<or> n \<le> 2")
    case True
    moreover have "snd (fgets (n - 1) cs) = cs" if "n \<le> 2" using that by (cases cs) auto
    ultimately show ?thesis using 2(2) by (auto split: prod.split)
  next
    case False
    then have "length (snd (fgets (n - 1) cs)) < length cs" using 2 by auto
    with 2 False show ?thesis by (auto simp: case_prod_unfold Let_def)
  qed
qed simp

function ini_lines :: "string \<Rightarrow> string \<Rightarrow> ntp_config \<Rightarrow> ini_err option \<times> ntp_config" where
  "ini_lines text section c =
    (if text = [] then (None, c)
     else
       let (line, rest) = fgets 1024 text
       in case ini_line line section c of
            (None, section, c) \<Rightarrow> ini_lines rest section c
          | (Some e, _, c) \<Rightarrow> (Some e, c))"
  by pat_completeness auto
termination
proof (relation "measure (\<lambda>(text, _). length text)", goal_cases)
  case (2 t s c x line rest)
  then show ?case using fgets_rest [of 1024 t] by (metis in_measure case_prod_conv snd_conv one_less_numeral_iff semiring_norm(76))
qed simp

definition config_load_ini :: "ntp_config \<Rightarrow> string option \<Rightarrow> ini_err option \<times> ntp_config" where
  "config_load_ini c file =
    (case file of None \<Rightarrow> (Some Cannot_open, c) | Some text \<Rightarrow> ini_lines text [] c)"

subsection \<open>The invariant of a configuration\<close>

text \<open>
  What the rest of the program relies on: no division by a zero sampling rate or interval, the
  size filters inside their array and none of them 0, and strings that fit their buffers.
\<close>

definition config_ok :: "ntp_config \<Rightarrow> bool" where
  "config_ok c \<longleftrightarrow> cf_sample_every c \<noteq> 0 \<and> cf_interval_s c \<noteq> 0 \<and> cf_buffer_mb c \<noteq> 0 \<and>
     length (cf_sizes c) = NTP_MAX_SIZE_FILTERS \<and> cf_n_sizes c \<le> NTP_MAX_SIZE_FILTERS \<and>
     list_all (\<lambda>s. s \<noteq> 0) (take (cf_n_sizes c) (cf_sizes c)) \<and>
     length (cf_session c) < 64 \<and> length (cf_data_dir c) < 256 \<and>
     length (cf_spdk_host c) < 512 \<and> length (cf_spdk_target c) < 512"

lemma config_ok_defaults: "config_ok config_defaults"
  by (simp add: config_ok_def config_defaults_def snprintf_s_def)

lemma length_snprintf_s: "0 < n \<Longrightarrow> length (snprintf_s n s) < n"
  by (simp add: snprintf_s_def)

lemma unat_ucast_up: "unat (ucast (x :: u32) :: u64) = unat x"
  using unsigned_less [of x, where ?'a = nat]
  by (simp add: unsigned_ucast_eq take_bit_nat_eq_self_iff)

lemma unat_ucast_down: "y \<le> 0xffffffff \<Longrightarrow> unat (ucast (y :: u64) :: u32) = unat y"
  by (simp add: unsigned_ucast_eq take_bit_nat_eq_self_iff word_le_nat_alt)

lemma set_uint_Some: "set_uint v lo = Some x \<Longrightarrow> lo \<le> x"
proof -
  assume "set_uint v lo = Some x"
  then obtain y :: u64 where y: "ucast lo \<le> y" "y \<le> 0xffffffff" "x = ucast y"
    by (auto simp: set_uint_def Let_def not_less split: prod.splits if_splits)
  then show "lo \<le> x"
    using unat_ucast_down [OF y(2)] by (simp add: word_le_nat_alt unat_ucast_up)
qed

lemma set_uint_nonzero: "set_uint v 1 = Some x \<Longrightarrow> x \<noteq> 0"
  using set_uint_Some [of v 1 x] by auto

text \<open>What one token of the list of sizes is worth.\<close>

definition size_token :: "string \<Rightarrow> u32 option" where
  "size_token tok =
    (case parse_size (strip tok) of
       None \<Rightarrow> None | Some sz \<Rightarrow> if sz = 0 \<or> sz > 0xffffffff then None else Some (ucast sz))"

lemma size_token_nonzero: "size_token tok = Some x \<Longrightarrow> x \<noteq> 0"
proof -
  assume "size_token tok = Some x"
  then obtain y :: u64 where y: "y \<noteq> 0" "y \<le> 0xffffffff" "x = ucast y"
    by (auto simp: size_token_def split: option.splits if_splits)
  then show "x \<noteq> 0"
    using unat_ucast_down [OF y(2)] by (metis unsigned_0 unsigned_word_eqI)
qed

lemma set_sizes_loop_step:
  "set_sizes_loop (tok # toks) n sizes =
    (if n = NTP_MAX_SIZE_FILTERS then (-1, n, sizes)
     else case size_token tok of
       None \<Rightarrow> (-1, n, sizes) | Some x \<Rightarrow> set_sizes_loop toks (n + 1) (sizes[n := x]))"
  by (simp add: size_token_def split: option.split)

lemma set_sizes_loop_keeps:
  assumes "set_sizes_loop toks n sizes = (ret, n', sizes')" and "length sizes = NTP_MAX_SIZE_FILTERS"
    and "n \<le> NTP_MAX_SIZE_FILTERS"
  shows "length sizes' = NTP_MAX_SIZE_FILTERS \<and> n' \<le> NTP_MAX_SIZE_FILTERS \<and> n \<le> n' \<and>
    (\<forall>i < NTP_MAX_SIZE_FILTERS. sizes' ! i = sizes ! i \<or> sizes' ! i \<noteq> 0) \<and>
    (\<forall>i. n \<le> i \<and> i < n' \<longrightarrow> sizes' ! i \<noteq> 0)"
  using assms
proof (induction toks arbitrary: n sizes)
  case (Cons tok toks)
  show ?case
  proof (cases "n = NTP_MAX_SIZE_FILTERS \<or> size_token tok = None")
    case True
    then have "set_sizes_loop (tok # toks) n sizes = (-1, n, sizes)"
      by (auto simp: set_sizes_loop_step simp del: set_sizes_loop.simps)
    with Cons.prems show ?thesis by auto
  next
    case False
    then obtain x where x: "size_token tok = Some x" and n: "n < NTP_MAX_SIZE_FILTERS"
      using Cons.prems(3) by auto
    have step: "set_sizes_loop toks (n + 1) (sizes[n := x]) = (ret, n', sizes')"
      using Cons.prems(1) x n by (simp add: set_sizes_loop_step del: set_sizes_loop.simps)
    have nz: "x \<noteq> 0" by (rule size_token_nonzero [OF x])
    have ih: "length sizes' = NTP_MAX_SIZE_FILTERS" "n' \<le> NTP_MAX_SIZE_FILTERS" "n + 1 \<le> n'"
      "\<And>i. i < NTP_MAX_SIZE_FILTERS \<Longrightarrow> sizes' ! i = sizes[n := x] ! i \<or> sizes' ! i \<noteq> 0"
      "\<And>i. n + 1 \<le> i \<Longrightarrow> i < n' \<Longrightarrow> sizes' ! i \<noteq> 0"
      using Cons.IH [OF step] Cons.prems(2) n by auto
    have at_n: "sizes' ! n \<noteq> 0" using ih(4) [OF n] nz Cons.prems(2) n by auto
    have "sizes' ! i \<noteq> 0" if "n \<le> i" "i < n'" for i
      using that at_n ih(5) [of i] by (cases "i = n") auto
    moreover have "sizes' ! i = sizes ! i \<or> sizes' ! i \<noteq> 0" if "i < NTP_MAX_SIZE_FILTERS" for i
      using ih(4) [OF that] nz that Cons.prems(2) by (cases "i = n") auto
    ultimately show ?thesis using ih(1-3) by auto
  qed
qed auto

lemma config_set_sizes_ok:
  assumes "config_ok c" and "config_set_sizes c v = (ret, c')"
  shows "config_ok c'"
proof -
  obtain r n sizes where l: "set_sizes_loop (tokens (CHR '','') v) 0 (cf_sizes c) = (r, n, sizes)"
    by (metis prod_cases3)
  have k: "length sizes = NTP_MAX_SIZE_FILTERS" "n \<le> NTP_MAX_SIZE_FILTERS"
    "\<And>i. i < NTP_MAX_SIZE_FILTERS \<Longrightarrow> sizes ! i = cf_sizes c ! i \<or> sizes ! i \<noteq> 0"
    "\<And>i. i < n \<Longrightarrow> sizes ! i \<noteq> 0"
    using set_sizes_loop_keeps [OF l] assms(1) by (auto simp: config_ok_def)
  have old: "cf_sizes c ! i \<noteq> 0" if "i < cf_n_sizes c" for i
    using assms(1) that by (auto simp: config_ok_def list_all_length)
  have le: "cf_n_sizes c \<le> NTP_MAX_SIZE_FILTERS" using assms(1) by (simp add: config_ok_def)
  have kept: "sizes ! i \<noteq> 0" if "i < cf_n_sizes c" for i
    using old [OF that] k(3) [of i] le that by auto
  have "list_all (\<lambda>s. s \<noteq> 0) (take (cf_n_sizes c) sizes)"
    using kept by (simp add: list_all_length)
  moreover have "list_all (\<lambda>s. s \<noteq> 0) (take n sizes)"
    using k by (auto simp: list_all_length)
  ultimately show ?thesis
    using assms k l by (auto simp: config_ok_def config_set_sizes_def Let_def split: if_splits)
qed

lemma config_ok_update:
  assumes "config_ok c"
  shows "config_ok (c\<lparr>cf_session := snprintf_s 64 v\<rparr>)" "config_ok (c\<lparr>cf_data_dir := snprintf_s 256 v\<rparr>)"
    "config_ok (c\<lparr>cf_spdk_host := snprintf_s 512 v\<rparr>)" "config_ok (c\<lparr>cf_spdk_target := snprintf_s 512 v\<rparr>)"
    "config_ok (c\<lparr>cf_exact_queues := b\<rparr>)"
  using assms by (simp_all add: config_ok_def length_snprintf_s)

lemma store_ok:
  assumes "config_ok c" and "\<And>y. x = Some y \<Longrightarrow> config_ok (upd y c)"
  shows "config_ok (snd (store upd c x))"
  using assms by (auto simp: store_def split: option.split)

lemma apply_key_ok:
  assumes ok: "config_ok c"
  shows "config_ok (snd (apply_key c section key v))"
proof -
  have free: "config_ok (c\<lparr>cf_min_size := x\<rparr>)" "config_ok (c\<lparr>cf_max_size := x\<rparr>)" "config_ok (c\<lparr>cf_online := b\<rparr>)"
    "config_ok (c\<lparr>cf_rep_distribution := b\<rparr>)" "config_ok (c\<lparr>cf_rep_throughput := b\<rparr>)"
    "config_ok (c\<lparr>cf_rep_breakdown := b\<rparr>)" "config_ok (c\<lparr>cf_rep_queue_length := b\<rparr>)"
    "config_ok (c\<lparr>cf_rep_detail := b\<rparr>)" "config_ok (c\<lparr>cf_rep_all_groups := b\<rparr>)"
    "config_ok (c\<lparr>cf_group_by_size := b\<rparr>)" "config_ok (c\<lparr>cf_group_by_type := b\<rparr>)"
    "config_ok (c\<lparr>cf_group_by_session := b\<rparr>)" for x b
    using ok by (simp_all add: config_ok_def)
  have pos: "config_ok (snd (store (\<lambda>x c. c\<lparr>cf_interval_s := x\<rparr>) c (set_uint v 1)))"
    "config_ok (snd (store (\<lambda>x c. c\<lparr>cf_sample_every := x\<rparr>) c (set_uint v 1)))"
    "config_ok (snd (store (\<lambda>x c. c\<lparr>cf_buffer_mb := x\<rparr>) c (set_uint v 1)))"
    using ok set_uint_nonzero [of v] by (auto simp: store_def config_ok_def split: option.split)
  have enums: "config_ok (snd (config_set_io_type c v))" "config_ok (snd (config_set_aggr c v))"
    using ok by (simp_all add: config_set_io_type_def config_set_aggr_def config_ok_def)
  have sizes: "config_ok (snd (config_set_sizes c v))"
    using config_set_sizes_ok [OF ok, of v] by (metis prod.collapse)
  show ?thesis
    unfolding apply_key_def Let_def
    by (simp add: if_distrib [of snd] if_distrib [of config_ok] store_ok [OF ok] free pos enums sizes
        config_ok_update [OF ok] ok)
qed

text \<open>What every key keeps, a file keeps.\<close>

lemma ini_line_keeps:
  assumes "P c" and "\<And>s k v. P (snd (apply_key c s k v))"
  shows "P (snd (snd (ini_line line section c)))"
proof -
  have "P c'" if "apply_key c s k v = (r, c')" for s k v r c' using assms(2) [of s k v] that by simp
  with assms(1) show ?thesis by (auto simp: ini_line_def Let_def split: prod.split)
qed

declare ini_lines.simps [simp del]

lemma ini_lines_keeps:
  assumes "P c" and key: "\<And>c s k v. P c \<Longrightarrow> P (snd (apply_key c s k v))"
  shows "P (snd (ini_lines t s c))"
  using assms(1)
proof (induction t s c rule: ini_lines.induct)
  case (1 t s c)
  obtain line rest where f: "fgets 1024 t = (line, rest)" by fastforce
  obtain e s' c' where l: "ini_line line s c = (e, s', c')" by (metis prod_cases3)
  have ok': "P c'" using ini_line_keeps [of P, OF 1(2) key [OF 1(2)], of line s] l by simp
  show ?case
  proof (cases "t = [] \<or> e \<noteq> None")
    case True
    then show ?thesis using 1(2) ok' f l by (subst ini_lines.simps) auto
  next
    case False
    then have "P (snd (ini_lines rest s' c'))"
      using 1(1) [OF _ f [symmetric] _ l [symmetric]] ok' by auto
    with False f l show ?thesis by (subst ini_lines.simps) auto
  qed
qed

lemma ini_lines_ok: "config_ok c \<Longrightarrow> config_ok (snd (ini_lines t s c))"
  by (rule ini_lines_keeps [of config_ok, OF _ apply_key_ok])

subsection \<open>Comments and lines\<close>

definition plain :: "string \<Rightarrow> bool" where
  "plain s \<longleftrightarrow> list_all (\<lambda>c. c \<notin> {CHR 0x22, CHR 0x27, CHR '';'', CHR ''#''}) s"

lemma cut_comment_plain: "plain s \<Longrightarrow> cut_comment None (s @ t) = s @ cut_comment None t"
  by (induction s) (auto simp: plain_def)

lemma cut_comment_quoted: "q \<notin> set s \<Longrightarrow> cut_comment (Some q) (s @ q # t) = s @ q # cut_comment None t"
  by (induction s) auto

text \<open>A text of an ini file: not empty, no quotes, comments or newline, and no white space at its ends.\<close>

definition text_ok :: "string \<Rightarrow> bool" where
  "text_ok s \<longleftrightarrow> s \<noteq> [] \<and> plain s \<and> \<not> is_space (hd s) \<and> \<not> is_space (last s)"

lemma plain_Nil [simp]: "plain []"
  by (simp add: plain_def)

lemma plain_append [simp]: "plain (s @ t) \<longleftrightarrow> plain s \<and> plain t"
  by (simp add: plain_def)

lemma plain_Cons [simp]: "plain (c # s) \<longleftrightarrow> c \<notin> {CHR 0x22, CHR 0x27, CHR '';'', CHR ''#''} \<and> plain s"
  by (simp add: plain_def)

lemma plain_space: "list_all is_space w \<Longrightarrow> plain w"
  by (auto simp: plain_def list_all_iff is_space_def)

lemma plain_hd: "plain s \<Longrightarrow> s \<noteq> [] \<Longrightarrow> hd s \<notin> {CHR 0x22, CHR 0x27, CHR '';'', CHR ''#''}"
  by (cases s) simp_all

lemma set_cut_comment: "set (cut_comment q s) \<subseteq> set s"
  by (induction q s rule: cut_comment.induct) auto

lemma set_rstrip: "set (rstrip s) \<subseteq> set s"
  unfolding rstrip_def by (auto dest: set_dropWhileD)

lemma strip_unquoted:
  assumes "list_all is_space w1" and "list_all is_space w2" and "s \<noteq> []" "\<not> is_space (hd s)" "\<not> is_space (last s)"
    and "hd s \<noteq> CHR 0x22" "hd s \<noteq> CHR 0x27"
  shows "strip (w1 @ s @ w2) = s"
  using strip_core [OF assms(1-5)] assms(6,7) by (simp add: strip_def)

lemma strip_text:
  assumes "text_ok s" and "list_all is_space w1" and "list_all is_space w2"
  shows "strip (w1 @ s @ w2) = s"
  using strip_unquoted [OF assms(2,3), of s] assms(1) plain_hd [of s] by (auto simp: text_ok_def)

lemma strip_space:
  assumes "list_all is_space w"
  shows "strip w = []"
proof -
  have none: "dropWhile is_space w = []" using assms by (simp add: list_all_iff)
  show ?thesis unfolding strip_def rstrip_def none by simp
qed

text \<open>What follows a character that is neither white space nor a quote does not matter to it.\<close>

lemma strip_from:
  assumes "list_all is_space w" and "\<not> is_space ch" "ch \<noteq> CHR 0x22" "ch \<noteq> CHR 0x27"
  shows "strip (w @ ch # z) = ch # rstrip z"
proof -
  have "dropWhile is_space (w @ ch # z) = ch # z" using assms(1,2) by (simp add: list_all_iff dropWhile_append2)
  moreover have "rstrip (ch # z) = ch # rstrip z"
    using assms(2) by (auto simp: rstrip_def dropWhile_append dropWhile_eq_Nil_conv)
  ultimately show ?thesis using assms(3,4) by (simp add: strip_def)
qed

lemma rstrip_past: "\<not> is_space ch \<Longrightarrow> rstrip (y @ ch # z) = y @ ch # rstrip z"
  by (auto simp: rstrip_def dropWhile_append dropWhile_eq_Nil_conv)

lemma fgets_line: "CHR 0x0A \<notin> set l \<Longrightarrow> length l + 1 < n \<Longrightarrow> fgets n (l @ CHR 0x0A # t) = (l @ [CHR 0x0A], t)"
  by (induction l arbitrary: n) auto

lemma ini_lines_cons:
  assumes "CHR 0x0A \<notin> set l" and "length l < 1023"
  shows "ini_lines (l @ CHR 0x0A # t) s c =
    (case ini_line (l @ [CHR 0x0A]) s c of
       (None, s, c) \<Rightarrow> ini_lines t s c | (Some e, _, c) \<Rightarrow> (Some e, c))"
  using assms by (subst ini_lines.simps) (simp add: fgets_line)

lemma newline_space: "is_space (CHR 0x0A)"
  by (simp add: is_space_def)

lemma takeWhile_until: "x \<notin> set xs \<Longrightarrow> takeWhile (\<lambda>c. c \<noteq> x) (xs @ x # ys) = xs"
  and dropWhile_until: "x \<notin> set xs \<Longrightarrow> dropWhile (\<lambda>c. c \<noteq> x) (xs @ x # ys) = x # ys"
  by (induction xs) auto

text \<open>
  The lines of a file, with the white space they may have: a blank line or one with only a comment; a section header, after which
  anything may stand; a setting, with its value bare or in quotes, and maybe a comment; and the two kinds that are refused, a
  header without its bracket and a line without an equals sign.
\<close>

datatype ini_value = Bare string | Quoted char string

datatype ini_item =
    Blank string string
  | Section string string string string string
  | Setting string string string string ini_value string string
  | Open_section string string
  | Loose string char string

fun value_text :: "ini_value \<Rightarrow> string" where
  "value_text (Bare v) = v"
| "value_text (Quoted q v) = q # v @ [q]"

fun value_of :: "ini_value \<Rightarrow> string" where
  "value_of (Bare v) = v"
| "value_of (Quoted q v) = v"

fun value_ok :: "ini_value \<Rightarrow> bool" where
  "value_ok (Bare v) \<longleftrightarrow> v = [] \<or> text_ok v"
| "value_ok (Quoted q v) \<longleftrightarrow> q \<in> {CHR 0x22, CHR 0x27} \<and> q \<notin> set v"

fun item_text :: "ini_item \<Rightarrow> string" where
  "item_text (Blank w cm) = w @ cm"
| "item_text (Section w1 w2 sec w3 tail) = w1 @ CHR ''['' # w2 @ sec @ w3 @ CHR '']'' # tail"
| "item_text (Setting w1 k w2 w3 v w4 cm) = w1 @ k @ w2 @ CHR ''='' # w3 @ value_text v @ w4 @ cm"
| "item_text (Open_section w tail) = w @ CHR ''['' # tail"
| "item_text (Loose w ch tail) = w @ ch # tail"

definition comment_ok :: "string \<Rightarrow> bool" where
  "comment_ok cm \<longleftrightarrow> cm = [] \<or> hd cm = CHR '';'' \<or> hd cm = CHR ''#''"

fun parts_ok :: "ini_item \<Rightarrow> bool" where
  "parts_ok (Blank w cm) \<longleftrightarrow> list_all is_space w \<and> comment_ok cm"
| "parts_ok (Section w1 w2 sec w3 tail) \<longleftrightarrow>
    list_all is_space w1 \<and> list_all is_space w2 \<and> list_all is_space w3 \<and> text_ok sec \<and> CHR '']'' \<notin> set sec"
| "parts_ok (Setting w1 k w2 w3 v w4 cm) \<longleftrightarrow>
    list_all is_space w1 \<and> list_all is_space w2 \<and> list_all is_space w3 \<and> list_all is_space w4 \<and> comment_ok cm \<and>
    text_ok k \<and> CHR ''='' \<notin> set k \<and> hd k \<noteq> CHR ''['' \<and> value_ok v \<and> (value_text v = [] \<longrightarrow> w3 = [])"
| "parts_ok (Open_section w tail) \<longleftrightarrow> list_all is_space w \<and> CHR '']'' \<notin> set tail"
| "parts_ok (Loose w ch tail) \<longleftrightarrow> list_all is_space w \<and> \<not> is_space ch \<and>
    ch \<notin> {CHR ''['', CHR ''='', CHR '';'', CHR ''#'', CHR 0x22, CHR 0x27} \<and> CHR ''='' \<notin> set tail"

definition item_ok :: "ini_item \<Rightarrow> bool" where
  "item_ok i \<longleftrightarrow> parts_ok i \<and> CHR 0x0A \<notin> set (item_text i) \<and> length (item_text i) < 1023"

text \<open>The text of a file; the last line may lack its newline.\<close>

fun ini_text :: "bool \<Rightarrow> ini_item list \<Rightarrow> string" where
  "ini_text nl [] = []"
| "ini_text nl (i # is) = item_text i @ (if is = [] \<and> \<not> nl then [] else [CHR 0x0A]) @ ini_text nl is"

text \<open>What loading it has to do: a section lasts until the next header.\<close>

fun apply_items :: "ini_item list \<Rightarrow> string \<Rightarrow> ntp_config \<Rightarrow> ini_err option \<times> ntp_config" where
  "apply_items [] sec c = (None, c)"
| "apply_items (i # is) sec c =
    (case i of
       Blank _ _ \<Rightarrow> apply_items is sec c
     | Section _ _ name _ _ \<Rightarrow> apply_items is (take 63 name) c
     | Setting _ k _ _ v _ _ \<Rightarrow>
         (case apply_key c sec k (value_of v) of
            (ret, c) \<Rightarrow> if ret = 0 then apply_items is sec c else (Some Bad_value, c))
     | Open_section _ _ \<Rightarrow> (Some Malformed_section, c)
     | Loose _ _ _ \<Rightarrow> (Some Expected_key_value, c))"

text \<open>Reading one line. \<open>e\<close> is its newline, or nothing at the end of a file.\<close>

lemma cut_comment_end:
  assumes "comment_ok cm" and "list_all is_space e"
  shows "list_all is_space (cut_comment None (cm @ e))"
proof (cases "cm = []")
  case True
  then show ?thesis using cut_comment_plain [OF plain_space [OF assms(2)], of "[]"] assms(2) by simp
next
  case False
  then show ?thesis using assms(1) by (cases cm) (auto simp: comment_ok_def)
qed

lemma cut_comment_value:
  "value_ok v \<Longrightarrow> cut_comment None (value_text v @ t) = value_text v @ cut_comment None t"
  by (cases v) (auto simp: cut_comment_plain cut_comment_quoted text_ok_def)

lemma ini_line_blank:
  assumes "parts_ok (Blank w cm)" and "list_all is_space e"
  shows "ini_line (item_text (Blank w cm) @ e) sec c = (None, sec, c)"
proof -
  have cut: "cut_comment None (item_text (Blank w cm) @ e) = w @ cut_comment None (cm @ e)"
    using assms plain_space by (simp add: cut_comment_plain)
  have "list_all is_space (w @ cut_comment None (cm @ e))" using assms cut_comment_end by simp
  then have "strip (cut_comment None (item_text (Blank w cm) @ e)) = []" unfolding cut by (rule strip_space)
  then show ?thesis by (simp add: ini_line_def)
qed

lemma ini_line_section:
  assumes "parts_ok (Section w1 w2 name w3 tail)"
  shows "ini_line (item_text (Section w1 w2 name w3 tail) @ e) sec c = (None, take 63 name, c)"
proof -
  let ?pre = "w2 @ name @ w3"
  have ok: "list_all is_space w1" "list_all is_space w2" "list_all is_space w3" "text_ok name" "CHR '']'' \<notin> set name"
    using assms by simp_all
  have "plain (w1 @ CHR ''['' # ?pre @ [CHR '']''])" using ok plain_space by (simp add: text_ok_def)
  from cut_comment_plain [OF this, of "tail @ e"]
  have "cut_comment None (item_text (Section w1 w2 name w3 tail) @ e) = w1 @ CHR ''['' # ?pre @ CHR '']'' # cut_comment None (tail @ e)"
    by simp
  then have strip: "strip (cut_comment None (item_text (Section w1 w2 name w3 tail) @ e)) =
      CHR ''['' # ?pre @ CHR '']'' # rstrip (cut_comment None (tail @ e))"
    using strip_from [OF ok(1), of "CHR ''[''" "?pre @ CHR '']'' # cut_comment None (tail @ e)"]
      rstrip_past [of "CHR '']''" ?pre "cut_comment None (tail @ e)"] by (simp add: is_space_def)
  have "CHR '']'' \<notin> set (CHR ''['' # ?pre)" using ok(2,3,5) by (auto simp: list_all_iff is_space_def)
  from takeWhile_until [OF this, of "rstrip (cut_comment None (tail @ e))"]
  show ?thesis using strip_text [OF ok(4,2,3)] unfolding ini_line_def Let_def strip by (simp add: snprintf_s_def)
qed

lemma ini_line_setting:
  assumes "parts_ok (Setting w1 k w2 w3 v w4 cm)" and "list_all is_space e"
  shows "ini_line (item_text (Setting w1 k w2 w3 v w4 cm) @ e) sec c =
    (case apply_key c sec k (value_of v) of (ret, c) \<Rightarrow> (if ret = 0 then None else Some Bad_value, sec, c))"
proof -
  let ?core = "k @ w2 @ CHR ''='' # w3 @ value_text v"
  have ok: "list_all is_space w1" "list_all is_space w2" "list_all is_space w3" "list_all is_space w4" "comment_ok cm"
    "text_ok k" "CHR ''='' \<notin> set k" "hd k \<noteq> CHR ''[''" "value_ok v" "value_text v = [] \<Longrightarrow> w3 = []"
    using assms(1) by simp_all
  have k: "k \<noteq> []" "plain k" "\<not> is_space (hd k)" using ok(6) by (simp_all add: text_ok_def)
  have "plain (w1 @ k @ w2 @ CHR ''='' # w3)" using ok(1-3) k(2) plain_space by simp
  from cut_comment_plain [OF this, of "value_text v @ w4 @ cm @ e"]
  have cut: "cut_comment None (item_text (Setting w1 k w2 w3 v w4 cm) @ e) = w1 @ ?core @ w4 @ cut_comment None (cm @ e)"
    using cut_comment_value [OF ok(9)] cut_comment_plain [OF plain_space [OF ok(4)]] by simp
  have w4: "list_all is_space (w4 @ cut_comment None (cm @ e))" using ok(4,5) cut_comment_end assms(2) by simp
  have "\<not> is_space (last ?core)"
    using ok(9,10) by (cases v) (auto simp: text_ok_def is_space_def)
  then have strip: "strip (cut_comment None (item_text (Setting w1 k w2 w3 v w4 cm) @ e)) = ?core"
    using strip_unquoted [OF ok(1) w4, of ?core] k plain_hd [OF k(2,1)] unfolding cut by simp
  have "CHR ''='' \<notin> set (k @ w2)" using ok(2,7) by (auto simp: list_all_iff is_space_def)
  note split = takeWhile_until [OF this, of "w3 @ value_text v"] dropWhile_until [OF this, of "w3 @ value_text v"]
  have "strip (k @ w2) = k" using strip_text [OF ok(6), of "[]" w2] ok(2) by simp
  moreover have "strip (w3 @ value_text v) = value_of v"
    using ok(3,9,10) strip_text [of _ w3 "[]"] strip_quoted [of w3 "[]"] by (cases v) (auto simp: strip_def rstrip_def)
  ultimately show ?thesis
    using k(1) ok(8) split unfolding ini_line_def Let_def strip by (simp split: prod.split)
qed

lemma ini_line_open:
  assumes "parts_ok (Open_section w tail)" and "list_all is_space e"
  shows "ini_line (item_text (Open_section w tail) @ e) sec c = (Some Malformed_section, sec, c)"
proof -
  have w: "list_all is_space w" "CHR '']'' \<notin> set (tail @ e)" using assms by (auto simp: list_all_iff is_space_def)
  have "cut_comment None (item_text (Open_section w tail) @ e) = w @ CHR ''['' # cut_comment None (tail @ e)"
    using cut_comment_plain [of "w @ ''[''" "tail @ e"] plain_space [OF w(1)] by simp
  then have "strip (cut_comment None (item_text (Open_section w tail) @ e)) = CHR ''['' # rstrip (cut_comment None (tail @ e))"
    using strip_from [OF w(1), of "CHR ''[''"] by (simp add: is_space_def)
  moreover have "CHR '']'' \<notin> set (rstrip (cut_comment None (tail @ e)))" using w(2) set_cut_comment set_rstrip by blast
  ultimately show ?thesis by (simp add: ini_line_def)
qed

lemma ini_line_loose:
  assumes "parts_ok (Loose w ch tail)" and "list_all is_space e"
  shows "ini_line (item_text (Loose w ch tail) @ e) sec c = (Some Expected_key_value, sec, c)"
proof -
  have w: "list_all is_space w" "CHR ''='' \<notin> set (tail @ e)" "plain (w @ [ch])" "\<not> is_space ch" "ch \<noteq> CHR ''[''" "ch \<noteq> CHR ''=''"
    "ch \<noteq> CHR 0x22" "ch \<noteq> CHR 0x27"
    using assms plain_space by (auto simp: list_all_iff is_space_def)
  have "cut_comment None (item_text (Loose w ch tail) @ e) = w @ ch # cut_comment None (tail @ e)"
    using cut_comment_plain [OF w(3), of "tail @ e"] by simp
  then have "strip (cut_comment None (item_text (Loose w ch tail) @ e)) = ch # rstrip (cut_comment None (tail @ e))"
    using strip_from [OF w(1,4,7,8)] by simp
  moreover have "CHR ''='' \<notin> set (rstrip (cut_comment None (tail @ e)))" using w(2) set_cut_comment set_rstrip by blast
  ultimately show ?thesis using w(5,6) by (simp add: ini_line_def)
qed

lemma ini_lines_last:
  assumes "CHR 0x0A \<notin> set l" and "length l < 1024"
  shows "ini_lines l s c = (if l = [] then (None, c) else case ini_line l s c of (e, _, c) \<Rightarrow> (e, c))"
proof -
  have "fgets n l = (l, [])" if "length l < n" for n using that assms(1)
    by (induction l arbitrary: n) auto
  then have f: "fgets 1024 l = (l, [])" using assms(2) by simp
  have "ini_lines [] s' c' = (None, c')" for s' c' by (subst ini_lines.simps) simp
  then show ?thesis by (subst ini_lines.simps) (simp add: f split: prod.split option.split)
qed

lemma ini_lines_items: "list_all item_ok is \<Longrightarrow> ini_lines (ini_text nl is) sec c = apply_items is sec c"
proof (induction "is" arbitrary: sec c)
  case Nil
  then show ?case by (subst ini_lines.simps) simp
next
  case (Cons i "is")
  have i: "parts_ok i" "CHR 0x0A \<notin> set (item_text i)" "length (item_text i) < 1023" using Cons.prems by (simp_all add: item_ok_def)
  note lines = ini_line_blank ini_line_section ini_line_setting ini_line_open ini_line_loose
  show ?case
  proof (cases "is = [] \<and> \<not> nl")
    case True
    have "item_text i = [] \<Longrightarrow> \<exists>w cm. i = Blank w cm" by (cases i) auto
    then show ?thesis
      using True i lines [where e = "[]"] ini_lines_last [of "item_text i"]
      by (cases i) (simp_all split: prod.split)
  next
    case False
    then have "ini_text nl (i # is) = item_text i @ CHR 0x0A # ini_text nl is" by auto
    then have "ini_lines (ini_text nl (i # is)) sec c =
        (case ini_line (item_text i @ [CHR 0x0A]) sec c of (None, s, c) \<Rightarrow> ini_lines (ini_text nl is) s c | (Some e, _, c) \<Rightarrow> (Some e, c))"
      by (simp only: ini_lines_cons [OF i(2,3)])
    then show ?thesis
      using Cons i(1) lines [where e = "[CHR 0x0A]"] newline_space
      by (cases i) (simp_all split: prod.split)
  qed
qed

lemma set_sizes_loop_all:
  assumes "length sizes = NTP_MAX_SIZE_FILTERS" and "n + length toks \<le> NTP_MAX_SIZE_FILTERS"
    and "map size_token toks = map Some xs"
  shows "set_sizes_loop toks n sizes = (0, n + length xs, take n sizes @ xs @ drop (n + length xs) sizes)"
  using assms
proof (induction toks arbitrary: n sizes xs)
  case (Cons tok toks)
  then obtain y ys where xs: "xs = y # ys" "size_token tok = Some y" "map size_token toks = map Some ys"
    by (cases xs) auto
  have "set_sizes_loop (tok # toks) n sizes = set_sizes_loop toks (n + 1) (sizes[n := y])"
    using Cons.prems xs by (simp add: set_sizes_loop_step del: set_sizes_loop.simps)
  also have "\<dots> = (0, n + 1 + length ys, take (n + 1) (sizes[n := y]) @ ys @ drop (n + 1 + length ys) (sizes[n := y]))"
    using Cons.prems xs by (intro Cons.IH) auto
  finally show ?case
    using Cons.prems by (simp add: xs take_Suc_conv_app_nth)
qed simp

lemma set_sizes_loop_fails:
  assumes "n \<le> NTP_MAX_SIZE_FILTERS"
    and "NTP_MAX_SIZE_FILTERS < n + length toks \<or> None \<in> set (map size_token toks)"
  shows "fst (set_sizes_loop toks n sizes) = -1"
  using assms
proof (induction toks arbitrary: n sizes)
  case (Cons tok toks)
  then show ?case
    by (cases "n = NTP_MAX_SIZE_FILTERS"; cases "size_token tok")
      (auto simp: set_sizes_loop_step simp del: set_sizes_loop.simps)
qed simp

subsection \<open>Properties of the configuration\<close>

text \<open>
  Whatever an ini file holds, and whether or not loading it fails, the configuration
  stays usable: sampling rate, interval and buffer size are not 0, the size filters are inside
  their array and not 0, and the strings fit their buffers.
\<close>

theorem config_load_keeps_ok:
  assumes "config_ok c"
  shows "config_ok (snd (config_load_ini c file))"
  using ini_lines_ok [OF assms] assms by (simp add: config_load_ini_def split: option.split)

theorem config_load_keeps_ok_witness:
  "config_ok (snd (config_load_ini config_defaults (Some ''[Profiling] x'')))"
  by (rule config_load_keeps_ok) (rule config_ok_defaults)

text \<open>
  \<^bold>\<open>C37.\<close> A task specification is applied setting by setting, in order, up to the first line that is refused. A section header
  holds until the next one; white space, quotes around a value, comments and blank lines make no difference; a line may
  have up to 1022 characters, and the last may lack its newline.
\<close>

theorem config_load_entries:
  assumes "list_all item_ok is"
  shows "config_load_ini c (Some (ini_text nl is)) = apply_items is [] c"
  by (simp add: config_load_ini_def ini_lines_items [OF assms])

definition sample_items :: "ini_item list" where
  "sample_items =
    [Blank [] ''# ntprof task file'', Section [] [] ''Workload'' [] '' ; what to record'', Blank [] '';SESSION_NAME=nvme4n1 ; one namespace'',
     Setting [] ''IO_TYPE'' [] [] (Quoted (CHR 0x22) ''read'') ''  '' ''; read, write or both'', Blank [] [],
     Section [] [] ''Profiling'' [] [], Setting [] ''TIME_INTERVAL'' [] [] (Bare ''2'') [] [],
     Setting '' '' ''FREQUENCY'' '' '' '' '' (Bare ''8'') '' '' ''# one in 8'']"

theorem config_load_entries_witness:
  "config_load_ini config_defaults (Some (ini_text False sample_items)) =
    (None, config_defaults\<lparr>cf_io_type := NTP_IO_READ, cf_interval_s := 2, cf_sample_every := 8\<rparr>)"
proof -
  have "list_all item_ok sample_items" by code_simp
  moreover have "set_uint ''2'' 1 = Some 2" "set_uint ''8'' 1 = Some 8" by code_simp+
  then have "apply_items sample_items [] config_defaults =
      (None, config_defaults\<lparr>cf_io_type := NTP_IO_READ, cf_interval_s := 2, cf_sample_every := 8\<rparr>)"
    by (simp add: sample_items_def apply_key_def config_set_io_type_def store_def strcaseeq_def to_lower_def)
  ultimately show ?thesis using config_load_entries [of sample_items config_defaults False] by simp
qed

text \<open>
  The list of sizes is taken when it has at most 16 items and each is a size from 1 to
  \<open>2\<^sup>3\<^sup>2 - 1\<close> bytes; then the filters are these sizes in order. Otherwise it is refused and the
  number of filters stays.
\<close>

theorem config_sizes_spec:
  assumes "config_ok c"
  shows "(case config_set_sizes c v of (ret, c') \<Rightarrow>
    let xs = map size_token (tokens (CHR '','') v) in
    if length xs \<le> NTP_MAX_SIZE_FILTERS \<and> None \<notin> set xs
    then ret = 0 \<and> cf_n_sizes c' = length xs \<and> map Some (take (cf_n_sizes c') (cf_sizes c')) = xs
    else ret = -1 \<and> cf_n_sizes c' = cf_n_sizes c)"
proof -
  let ?toks = "tokens (CHR '','') v"
  have len: "length (cf_sizes c) = NTP_MAX_SIZE_FILTERS" using assms by (simp add: config_ok_def)
  show ?thesis
  proof (cases "length ?toks \<le> NTP_MAX_SIZE_FILTERS \<and> None \<notin> set (map size_token ?toks)")
    case True
    then have xs: "map size_token ?toks = map Some (map (the \<circ> size_token) ?toks)"
      by (auto simp: image_iff)
    have "set_sizes_loop ?toks 0 (cf_sizes c) =
        (0, length ?toks, map (the \<circ> size_token) ?toks @ drop (length ?toks) (cf_sizes c))"
      using set_sizes_loop_all [OF len, of 0 ?toks, OF _ xs] True by simp
    with True xs show ?thesis by (simp add: config_set_sizes_def Let_def)
  next
    case False
    then have "fst (set_sizes_loop ?toks 0 (cf_sizes c)) = -1"
      by (intro set_sizes_loop_fails) auto
    with False show ?thesis by (auto simp: config_set_sizes_def Let_def split: prod.split)
  qed
qed

theorem config_sizes_spec_witness:
  "(case config_set_sizes config_defaults ''4K, 128k'' of (ret, c) \<Rightarrow>
    ret = 0 \<and> cf_n_sizes c = 2 \<and> take 2 (cf_sizes c) = [4096, 131072])"
proof -
  have "map size_token (tokens (CHR '','') ''4K, 128k'') = [Some 4096, Some 131072]" by code_simp
  then show ?thesis
    using config_sizes_spec [OF config_ok_defaults, of "''4K, 128k''"]
    by (auto simp: Let_def NTP_MAX_SIZE_FILTERS_def numeral_2_eq_2)
qed

text \<open>
  A comment is cut at the first semicolon or hash outside quotes, and a quoted text keeps
  both.
\<close>

theorem cut_comment_outside_quotes:
  assumes "plain a" and "plain b" and "q = CHR 0x22 \<or> q = CHR 0x27" and "q \<notin> set s"
    and "m = CHR '';'' \<or> m = CHR ''#''"
  shows "cut_comment None (a @ q # s @ q # b @ m # rest) = a @ q # s @ q # b"
  using assms cut_comment_plain [OF assms(1), of "q # s @ q # b @ m # rest"]
    cut_comment_plain [OF assms(2), of "m # rest"] cut_comment_quoted [OF assms(4), of "b @ m # rest"]
  by auto

theorem cut_comment_outside_quotes_witness:
  "cut_comment None (''k = '' @ CHR 0x22 # ''a;b'' @ CHR 0x22 # '' '' @ CHR ''#'' # '' note'') =
    ''k = '' @ CHR 0x22 # ''a;b'' @ CHR 0x22 # '' ''"
  by (rule cut_comment_outside_quotes) (simp_all add: plain_def)

text \<open>A minus sign is not refused: a number just below \<open>2\<^sup>6\<^sup>4\<close>, negated, is a small one.\<close>

lemma set_uint_negative: "set_uint ''-18446744073709551615'' 1 = Some 1"
  by code_simp

end
