(* ===== verification/Offline.thy ===== *)
theory Offline
  imports Joiner Trace_File Stats Config
begin

text \<open>
  The analysis of record files (\<^verbatim>\<open>src/src/offline.c\<close>): the commands \<^verbatim>\<open>report\<close> and
  \<^verbatim>\<open>compare\<close> read every file of a run, join the host records with the target records, and group
  them. Here the reader of record files, the joiner and the statistics come together. A
  file system is a function from paths to what opening and reading the path gives.
\<close>

subsection \<open>Reading a run\<close>

definition ROLE_HOST :: u32 where "ROLE_HOST = 1"

text \<open>The header of the first host file is kept (\<^verbatim>\<open>host_hdr\<close> with \<^verbatim>\<open>have_host_hdr\<close>).\<close>

record run =
  r_joiner :: ntp_joiner
  r_hosts :: "ntp_host_rec list"
  r_cap :: nat
  r_targets :: u64
  r_host_hdr :: "ntp_file_header option"

definition on_host :: "ntp_host_rec \<Rightarrow> run \<Rightarrow> int \<times> run" where
  "on_host h r =
    (let r = (if length (r_hosts r) = r_cap r
              then r\<lparr>r_cap := if r_cap r \<noteq> 0 then r_cap r * 2 else 4096\<rparr> else r)
     in (0, r\<lparr>r_hosts := r_hosts r @ [h]\<rparr>))"

definition on_target :: "ntp_tgt_rec \<Rightarrow> run \<Rightarrow> int \<times> run" where
  "on_target t r = (0, r\<lparr>r_joiner := ntp_joiner_add_target (r_joiner r) t, r_targets := r_targets r + 1\<rparr>)"

definition run_ops :: "run ntp_reader_ops" where
  "run_ops = \<lparr>op_host = Some on_host, op_target = Some on_target\<rparr>"

text \<open>The header that reading a file leaves in the caller's variable.\<close>

definition file_header :: "stream option \<Rightarrow> ntp_file_header" where
  "file_header f = dec_file_header (take FILE_HEADER_SIZE (case f of None \<Rightarrow> [] | Some s \<Rightarrow> s_bytes s))"

fun load_files :: "(string \<Rightarrow> stream option) \<Rightarrow> string list \<Rightarrow> run \<Rightarrow> int \<times> run" where
  "load_files fs [] r = (0, r)"
| "load_files fs (p # ps) r =
    (let (e, r) = ntp_read_file (fs p) run_ops r
     in if read_ret e \<noteq> 0 then (-1, r)
        else
          let hdr = file_header (fs p)
          in load_files fs ps
               (if has_flag (fh_role hdr) ROLE_HOST \<and> r_host_hdr r = None
                then r\<lparr>r_host_hdr := Some hdr\<rparr> else r))"

fun match_hosts :: "ntp_host_rec list \<Rightarrow> ntp_joiner \<Rightarrow> ntp_stats \<Rightarrow> ntp_joiner \<times> ntp_stats" where
  "match_hosts [] j s = (j, s)"
| "match_hosts (h # hs) j s = (let (t, j) = ntp_joiner_match j h in match_hosts hs j (ntp_stats_add s h t))"

definition run_init :: run where
  "run_init = \<lparr>r_joiner = ntp_joiner_new 0, r_hosts = [], r_cap = 0, r_targets = 0, r_host_hdr = None\<rparr>"

definition load_run ::
  "(string \<Rightarrow> stream option) \<Rightarrow> string list \<Rightarrow> ntp_stats \<Rightarrow> int \<times> run \<times> ntp_stats" where
  "load_run fs files stats =
    (let (ret, r) = load_files fs files run_init
     in if ret \<noteq> 0 then (-1, r, stats)
        else
          let (j, stats) = match_hosts (r_hosts r) (r_joiner r) stats
          in (0, r\<lparr>r_joiner := j\<rparr>, stats))"

subsection \<open>Commands\<close>

text \<open>
  A command's exit status and, when it gets that far, what it hands to the report: the groups and
  the run. \<open>json_ok\<close> says whether writing the JSON file succeeds.
\<close>

definition EXIT_SUCCESS :: int where "EXIT_SUCCESS = 0"
definition EXIT_FAILURE :: int where "EXIT_FAILURE = 1"

definition stats_for :: "ntp_config \<Rightarrow> ntp_stats" where
  "stats_for c = ntp_stats_init (cf_group_by_type c) (cf_group_by_size c) (cf_group_by_session c)"

definition cmd_report ::
  "(ntp_stats \<Rightarrow> bool) \<Rightarrow> (string \<Rightarrow> stream option) \<Rightarrow> ntp_config \<Rightarrow> string list \<Rightarrow> int \<times> (ntp_stats \<times> run) option" where
  "cmd_report json_ok fs c files =
    (if files = [] then (EXIT_FAILURE, None)
     else
       let (ret, r, stats) = load_run fs files (stats_for c)
       in if ret \<noteq> 0 then (EXIT_FAILURE, None)
          else
            case r_host_hdr r of
              None \<Rightarrow> (EXIT_FAILURE, None)
            | Some hdr \<Rightarrow>
                let stats = stats\<lparr>st_sample_every := fh_sample_every hdr\<rparr>
                in (if cf_json c \<noteq> [] \<and> \<not> json_ok stats then EXIT_FAILURE else EXIT_SUCCESS,
                    Some (stats, r)))"

definition split_run :: "string \<Rightarrow> string list" where
  "split_run list = take 2 (tokens (CHR '','') list)"

definition with_period :: "run \<Rightarrow> ntp_stats \<Rightarrow> ntp_stats" where
  "with_period r s = (case r_host_hdr r of None \<Rightarrow> s | Some hdr \<Rightarrow> s\<lparr>st_sample_every := fh_sample_every hdr\<rparr>)"

definition cmd_compare ::
  "(string \<Rightarrow> stream option) \<Rightarrow> ntp_config \<Rightarrow> string \<Rightarrow> string \<Rightarrow> int \<times> (ntp_stats \<times> ntp_stats) option" where
  "cmd_compare fs c base loaded =
    (let bf = split_run base; lf = split_run loaded
     in if bf = [] \<or> lf = [] then (EXIT_FAILURE, None)
        else
          let (ret, rb, sb) = load_run fs bf (stats_for c)
          in if ret \<noteq> 0 then (EXIT_FAILURE, None)
             else
               let (ret, rl, sl) = load_run fs lf (stats_for c)
               in if ret \<noteq> 0 then (EXIT_FAILURE, None)
                  else (EXIT_SUCCESS, Some (with_period rb sb, with_period rl sl)))"

text \<open>
  The times of a record as \<^verbatim>\<open>dump\<close> prints them: the earliest, and every time relative to it,
  empty where the event was not seen.
\<close>

definition dump_ts :: "u64 list \<Rightarrow> u64 \<times> i64 option list" where
  "dump_ts ts =
    (let base = foldl (\<lambda>base t. if t \<noteq> 0 \<and> (base = 0 \<or> t < base) then t else base) 0 ts
     in (base, map (\<lambda>t. if t \<noteq> 0 then Some (t - base) else None) ts))"

subsection \<open>What a run is made of\<close>

text \<open>
  A recording: a file of some version, written by an \<^verbatim>\<open>ntprof\<close> of that version. What a reader
  gets of it are the records \<open>rs\<close>.
\<close>

definition recorded :: "stream option \<Rightarrow> ntp_file_header \<times> ntp_rec list \<Rightarrow> bool" where
  "recorded s = (\<lambda>(f, rs). \<exists>v raw. header_for v f \<and> 2 \<le> v \<and> v \<le> NTP_FILE_VERSION \<and>
     list_all rec_ok raw \<and> rs = map (cut_rec v) raw \<and>
     s = Some \<lparr>s_bytes = enc_file_header f @ concat (map (enc_rec v) raw), s_error = False\<rparr>)"

fun host_of :: "ntp_rec \<Rightarrow> ntp_host_rec list" where
  "host_of (Host_rec h) = [h]" | "host_of (Tgt_rec t) = []"

fun tgt_of :: "ntp_rec \<Rightarrow> ntp_tgt_rec list" where
  "tgt_of (Host_rec h) = []" | "tgt_of (Tgt_rec t) = [t]"

definition hosts_of :: "ntp_rec list \<Rightarrow> ntp_host_rec list" where "hosts_of rs = concat (map host_of rs)"
definition targets_of :: "ntp_rec list \<Rightarrow> ntp_tgt_rec list" where "targets_of rs = concat (map tgt_of rs)"

text \<open>
  Joining as it is meant, on lists: a host record takes the first target record of its command
  that no earlier one took.
\<close>

fun join_fifo :: "ntp_host_rec list \<Rightarrow> ntp_tgt_rec list \<Rightarrow> (ntp_host_rec \<times> ntp_tgt_rec option) list" where
  "join_fifo [] ts = []"
| "join_fifo (h # hs) ts =
    (case List.extract (\<lambda>t. cmd_eq (t_id t) (h_id h)) ts of
       None \<Rightarrow> (h, None) # join_fifo hs ts
     | Some (a, t, b) \<Rightarrow> (h, Some t) # join_fifo hs (a @ b))"

subsection \<open>Joining\<close>

text \<open>The joiner holds the target records \<open>ts\<close>, per command in their order.\<close>

definition holds :: "ntp_joiner \<Rightarrow> ntp_tgt_rec list \<Rightarrow> bool" where
  "holds j ts \<longleftrightarrow> joiner_inv j \<and> jn_max_per_key j = 0 \<and>
     (\<forall>i. target_line j i = filter (\<lambda>t. cmd_eq (t_id t) i) ts)"

lemma holds_new: "holds (ntp_joiner_new 0) []"
  by (simp add: holds_def joiner_inv_new, simp add: tb.line_def ntp_joiner_new_def table_init_spec)

lemma holds_add: "holds j ts \<Longrightarrow> holds (ntp_joiner_add_target j t) (ts @ [t])"
  using add_targets_line [of j "[t]" "[]" "ntp_joiner_add_target j t"]
  by (auto simp: holds_def ntp_joiner_add_target_def Let_def split: prod.splits)

lemma holds_match:
  assumes "holds j ts"
  shows "case List.extract (\<lambda>t. cmd_eq (t_id t) (h_id h)) ts of
      None \<Rightarrow> \<exists>j'. ntp_joiner_match j h = (None, j') \<and> holds j' ts
    | Some (a, t, b) \<Rightarrow> \<exists>j'. ntp_joiner_match j h = (Some t, j') \<and> holds j' (a @ b)"
proof -
  note inv = assms [unfolded holds_def, THEN conjunct1] and ti = joiner_invD(1) [OF inv]
  obtain os j' where s: "jstep (Match h) j = (os, j')" by fastforce
  then have j': "joiner_inv j'" using jstep_ok [OF inv s] by (simp add: step_ok_def)
  have line: "target_line j i = filter (\<lambda>t. cmd_eq (t_id t) i) ts" for i using assms by (simp add: holds_def)
  show ?thesis
  proof (cases "table_take (jn_targets j) (h_id h)")
    case None
    then have "\<forall>t \<in> set ts. \<not> cmd_eq (t_id t) (h_id h)"
      using line [of "h_id h"] by (auto simp: tb.take_line(1) [OF ti] filter_empty_conv)
    moreover have "\<exists>j'. ntp_joiner_match j h = (None, j') \<and> holds j' ts"
      using None s j' assms by (auto simp: ntp_joiner_match_def Let_def holds_def)
    ultimately show ?thesis by (auto simp: extract_None_iff split: option.split dest!: extract_SomeE)
  next
    case (Some x)
    then obtain t tb where tk: "table_take (jn_targets j) (h_id h) = Some (t, tb)" by (cases x) auto
    have ln: "filter (\<lambda>t. cmd_eq (t_id t) (h_id h)) ts = t # tb.line t_id tb (h_id h)"
      using tb.take_line(2) [OF ti tk] line by simp
    show ?thesis
    proof (cases "List.extract (\<lambda>t. cmd_eq (t_id t) (h_id h)) ts")
      case None
      then show ?thesis using ln by (auto simp: extract_None_iff filter_empty_conv) 
    next
      case (Some y)
      obtain a t' b where y: "y = (a, t', b)" by (cases y) auto
      have ts: "ts = a @ t' # b" "\<And>x. x \<in> set a \<Longrightarrow> \<not> cmd_eq (t_id x) (h_id h)" "cmd_eq (t_id t') (h_id h)"
        using Some [unfolded y] by (auto simp: extract_Some_iff)
      then have none: "filter (\<lambda>t. cmd_eq (t_id t) (h_id h)) a = []" by (simp add: filter_empty_conv)
      then have t: "t' = t" using ln ts(1,3) by simp
      have j1: "ntp_joiner_match j h = (Some t, j')" "jn_targets j' = tb" "jn_max_per_key j' = jn_max_per_key j"
        using s tk by (auto simp: ntp_joiner_match_def Let_def)
      have "target_line j' i = filter (\<lambda>t. cmd_eq (t_id t) i) (a @ b)" for i
      proof (cases "cmd_eq i (h_id h)")
        case True
        then have same: "cmd_eq (t_id x) i \<longleftrightarrow> cmd_eq (t_id x) (h_id h)" for x
          by (metis cmd_eq_sym cmd_eq_trans)
        have "target_line j' i = target_line j' (h_id h)" using True by (rule tb.line_cong)
        then show ?thesis unfolding filter_append same using ln j1(2) ts(1,3) t none by simp
      next
        case False
        then have "target_line j' i = target_line j i" using tb.take_line(3) [OF ti tk] j1(2) by simp
        moreover have "\<not> cmd_eq (t_id t) i" using False ts(3) t by (metis cmd_eq_sym cmd_eq_trans)
        ultimately show ?thesis using line [of i] ts(1) t by simp
      qed
      then have "holds j' (a @ b)" using j' j1(3) assms by (simp add: holds_def)
      then show ?thesis using Some y j1(1) t by auto
    qed
  qed
qed

lemma match_hosts_join:
  "holds j ts \<Longrightarrow> \<exists>j'. match_hosts hs j s = (j', add_recs s (join_fifo hs ts)) \<and> joiner_inv j'"
proof (induction hs arbitrary: j s ts)
  case (Cons h hs)
  show ?case
  proof (cases "List.extract (\<lambda>t. cmd_eq (t_id t) (h_id h)) ts")
    case None
    then obtain j' where "ntp_joiner_match j h = (None, j')" "holds j' ts"
      using holds_match [OF Cons.prems, of h] by auto
    then show ?thesis using Cons.IH [of j' ts "ntp_stats_add s h None"] None by (simp add: add_recs_def)
  next
    case (Some y)
    obtain a t b where y: "y = (a, t, b)" by (cases y) auto
    then obtain j' where "ntp_joiner_match j h = (Some t, j')" "holds j' (a @ b)"
      using holds_match [OF Cons.prems, of h] Some by auto
    then show ?thesis using Cons.IH [of j' "a @ b" "ntp_stats_add s h (Some t)"] Some y by (simp add: add_recs_def)
  qed
qed (auto simp: add_recs_def holds_def)

text \<open>What joining on lists gives: every host record once, in order, and per command the zip.\<close>

lemma join_fifo_hosts: "map fst (join_fifo hs ts) = hs"
  by (induction hs ts rule: join_fifo.induct) (auto split: option.split)

lemma join_fifo_pairs: "(h, Some t) \<in> set (join_fifo hs ts) \<Longrightarrow> cmd_eq (t_id t) (h_id h) \<and> t \<in> set ts"
proof (induction hs ts rule: join_fifo.induct)
  case (2 h' hs ts)
  then show ?case by (auto simp: extract_Some_iff split: option.splits)
qed simp

subsection \<open>Reading\<close>

text \<open>Reading a recording calls the callbacks on its records, in order.\<close>

lemma recorded_reads:
  assumes "recorded s (f, rs)"
  shows "ntp_read_file s ops arg = feed ops rs arg" and "file_header s = f"
proof -
  obtain v raw where r: "header_for v f" "2 \<le> v" "v \<le> NTP_FILE_VERSION" "list_all rec_ok raw"
    "rs = map (cut_rec v) raw" and
    s: "s = Some \<lparr>s_bytes = enc_file_header f @ concat (map (enc_rec v) raw), s_error = False\<rparr>"
    using assms by (auto simp: recorded_def)
  show "ntp_read_file s ops arg = feed ops rs arg" using read_file_enc [OF r(1-4), of "[]"] by (simp add: s r(5))
  have "length (enc_file_header f) = FILE_HEADER_SIZE" "file_header_wf f"
    using r(1) length_enc_file_header by (auto simp: header_for_def)
  then show "file_header s = f" by (simp add: s file_header_def dec_enc_file_header)
qed

text \<open>
  The contract of a client of the reader: its callbacks never stop the reading, so a recording is folded into the
  client's state, whole.
\<close>

locale reader_sink =
  fixes ops :: "'a ntp_reader_ops" and put :: "ntp_rec \<Rightarrow> 'a \<Rightarrow> 'a"
  assumes host: "op_host ops = Some (\<lambda>h a. (0, put (Host_rec h) a))"
    and target: "op_target ops = Some (\<lambda>t a. (0, put (Tgt_rec t) a))"
begin

lemma feed_fold: "feed ops rs a = (Finished, fold put rs a)"
proof (induction rs arbitrary: a)
  case (Cons x rs)
  then show ?case by (cases x) (simp_all add: host target)
qed simp

lemma reads_fold: "recorded s (f, rs) \<Longrightarrow> ntp_read_file s ops a = (Finished, fold put rs a)"
  by (simp add: recorded_reads(1) feed_fold)

end

text \<open>The client of \<^verbatim>\<open>report\<close> and \<^verbatim>\<open>compare\<close> collects the records.\<close>

fun run_put :: "ntp_rec \<Rightarrow> run \<Rightarrow> run" where
  "run_put (Host_rec h) r = snd (on_host h r)"
| "run_put (Tgt_rec t) r = snd (on_target t r)"

interpretation run_sink: reader_sink run_ops run_put
  by unfold_locales (auto simp: run_ops_def on_host_def on_target_def Let_def fun_eq_iff)

lemma run_put_fold:
  "holds (r_joiner r) ts \<Longrightarrow> holds (r_joiner (fold run_put rs r)) (ts @ targets_of rs) \<and>
     r_hosts (fold run_put rs r) = r_hosts r @ hosts_of rs \<and>
     r_targets (fold run_put rs r) = r_targets r + of_nat (length (targets_of rs)) \<and>
     r_host_hdr (fold run_put rs r) = r_host_hdr r \<and>
     (length (r_hosts r) \<le> r_cap r \<longrightarrow> length (r_hosts (fold run_put rs r)) \<le> r_cap (fold run_put rs r))"
proof (induction rs arbitrary: r ts)
  case (Cons x rs)
  show ?case
  proof (cases x)
    case (Host_rec h)
    let ?r = "run_put x r"
    have "holds (r_joiner ?r) ts" using Cons.prems by (simp add: Host_rec on_host_def Let_def)
    then show ?thesis using Cons.IH [of ?r ts] Host_rec
      by (auto simp: on_host_def Let_def hosts_of_def targets_of_def split: if_splits)
  next
    case (Tgt_rec t)
    let ?r = "run_put x r"
    have "holds (r_joiner ?r) (ts @ [t])" using holds_add [OF Cons.prems] by (simp add: Tgt_rec on_target_def)
    then show ?thesis using Cons.IH [of ?r "ts @ [t]"] Tgt_rec
      by (auto simp: on_target_def hosts_of_def targets_of_def algebra_simps)
  qed
qed (simp add: hosts_of_def targets_of_def)

text \<open>What this version writes is a recording of exactly those records.\<close>

lemma cut_rec_now: "cut_rec NTP_FILE_VERSION x = x"
  by (cases x) (simp_all add: NTP_FILE_VERSION_def)

lemma recorded_now:
  assumes "list_all rec_ok rs"
  shows "recorded (Some \<lparr>s_bytes = enc_file_header (ntp_header_init ro tr n m0 r0 hn rel) @
      concat (map (enc_rec NTP_FILE_VERSION) rs), s_error = False\<rparr>) (ntp_header_init ro tr n m0 r0 hn rel, rs)"
proof -
  have "(2 :: u32) \<le> NTP_FILE_VERSION" by (simp add: NTP_FILE_VERSION_def)
  moreover have "rs = map (cut_rec NTP_FILE_VERSION) rs" by (simp add: cut_rec_now map_idI)
  ultimately show ?thesis
    unfolding recorded_def prod.case using assms header_init_for
    by (intro exI [of _ NTP_FILE_VERSION] exI [of _ rs]) simp
qed

text \<open>The header that counts is the first one of a host's recording.\<close>

definition host_header :: "(ntp_file_header \<times> ntp_rec list) list \<Rightarrow> ntp_file_header option" where
  "host_header rss = map_option fst (find (\<lambda>(f, rs). has_flag (fh_role f) ROLE_HOST) rss)"

lemma load_files_recorded:
  "list_all2 (\<lambda>p. recorded (fs p)) ps rss \<Longrightarrow> holds (r_joiner r) ts \<Longrightarrow> length (r_hosts r) \<le> r_cap r \<Longrightarrow>
   \<exists>r'. load_files fs ps r = (0, r') \<and> holds (r_joiner r') (ts @ targets_of (concat (map snd rss))) \<and>
     r_hosts r' = r_hosts r @ hosts_of (concat (map snd rss)) \<and>
     r_targets r' = r_targets r + of_nat (length (targets_of (concat (map snd rss)))) \<and>
     r_host_hdr r' = (case r_host_hdr r of None \<Rightarrow> host_header rss | Some f \<Rightarrow> Some f) \<and>
     length (r_hosts r') \<le> r_cap r'"
proof (induction ps rss arbitrary: r ts rule: list_all2_induct)
  case (Cons p ps x rss)
  obtain f rs where x: "x = (f, rs)" by fastforce
  note rd = run_sink.reads_fold [OF Cons.hyps(1) [unfolded x]] recorded_reads(2) [OF Cons.hyps(1) [unfolded x]]
  obtain r' where r': "fold run_put rs r = r'" "holds (r_joiner r') (ts @ targets_of rs)"
    "r_hosts r' = r_hosts r @ hosts_of rs" "r_targets r' = r_targets r + of_nat (length (targets_of rs))"
    "r_host_hdr r' = r_host_hdr r" "length (r_hosts r') \<le> r_cap r'"
    using run_put_fold [OF Cons.prems(1), of rs] Cons.prems(2) by auto
  let ?r = "if has_flag (fh_role f) ROLE_HOST \<and> r_host_hdr r' = None then r'\<lparr>r_host_hdr := Some f\<rparr> else r'"
  have step: "load_files fs (p # ps) r = load_files fs ps ?r" by (simp add: rd r' read_ret_def)
  have "holds (r_joiner ?r) (ts @ targets_of rs)" "length (r_hosts ?r) \<le> r_cap ?r" using r' by simp_all
  from Cons.IH [OF this] show ?case unfolding step
    using r'(3-5) by (auto simp: x hosts_of_def targets_of_def host_header_def split: option.splits if_splits)
qed (simp add: host_header_def hosts_of_def targets_of_def split: option.split)

lemma load_run_recorded:
  assumes "list_all2 (\<lambda>p. recorded (fs p)) ps rss"
  defines "recs \<equiv> concat (map snd rss)"
  shows "\<exists>r. load_run fs ps s = (0, r, add_recs s (join_fifo (hosts_of recs) (targets_of recs))) \<and>
    r_hosts r = hosts_of recs \<and> r_targets r = of_nat (length (targets_of recs)) \<and> r_host_hdr r = host_header rss"
proof -
  have "holds (r_joiner run_init) []" by (simp add: run_init_def holds_new)
  then obtain r where r: "load_files fs ps run_init = (0, r)" "holds (r_joiner r) (targets_of recs)"
    "r_hosts r = hosts_of recs" "r_targets r = of_nat (length (targets_of recs))" "r_host_hdr r = host_header rss"
    using load_files_recorded [OF assms(1), of run_init "[]"] by (auto simp: run_init_def recs_def)
  obtain j where "match_hosts (r_hosts r) (r_joiner r) s = (j, add_recs s (join_fifo (hosts_of recs) (targets_of recs)))"
    using match_hosts_join [OF r(2), of "r_hosts r" s] r(3) by auto
  then show ?thesis using r by (simp add: load_run_def)
qed

lemma load_files_fails: "\<exists>p \<in> set ps. fs p = None \<Longrightarrow> fst (load_files fs ps r) = -1"
proof (induction ps arbitrary: r)
  case (Cons p ps)
  show ?case
  proof (cases "fs p")
    case None
    then show ?thesis by (simp add: ntp_read_file_def read_ret_def)
  next
    case Some
    then show ?thesis using Cons by (auto simp: Let_def split: prod.split)
  qed
qed simp

lemma load_run_fails: "\<exists>p \<in> set ps. fs p = None \<Longrightarrow> fst (load_run fs ps s) = -1"
  using load_files_fails [of ps fs run_init] by (auto simp: load_run_def split: prod.splits)

subsection \<open>Properties\<close>

text \<open>\<^bold>\<open>C7.\<close> A report is made of the records of all its files: each host record is counted once, in the order of
  the files, together with the first target record of its command, in any of the files, that no
  earlier host record took; the sampling period is that of the first host recording.\<close>

theorem report_joins_files:
  assumes "list_all2 (\<lambda>p. recorded (fs p)) files rss" and "host_header rss = Some hdr"
  shows "(let recs = concat (map snd rss);
        stats = (add_recs (stats_for c) (join_fifo (hosts_of recs) (targets_of recs)))
                  \<lparr>st_sample_every := fh_sample_every hdr\<rparr>
    in \<exists>r. cmd_report json_ok fs c files =
          (if cf_json c \<noteq> [] \<and> \<not> json_ok stats then EXIT_FAILURE else EXIT_SUCCESS, Some (stats, r)) \<and>
        r_hosts r = hosts_of recs \<and> r_targets r = of_nat (length (targets_of recs)))"
proof -
  have "files \<noteq> []" using assms by (auto simp: host_header_def)
  then show ?thesis
    using load_run_recorded [OF assms(1), of "stats_for c"] assms(2) by (auto simp: cmd_report_def Let_def)
qed

text \<open>The order in which host and target files are given does not matter: two lists of files with the same
  host records and the same target records, each in the same order, give the same groups, samples and
  statistics, however the two kinds interleave.\<close>

theorem report_file_order:
  assumes "list_all2 (\<lambda>p. recorded (fs p)) ps rss" and "list_all2 (\<lambda>p. recorded (fs p)) qs rss'"
    and "hosts_of (concat (map snd rss)) = hosts_of (concat (map snd rss'))"
    and "targets_of (concat (map snd rss)) = targets_of (concat (map snd rss'))"
  shows "snd (snd (load_run fs ps s)) = snd (snd (load_run fs qs s))"
  using load_run_recorded [OF assms(1), of s] load_run_recorded [OF assms(2), of s] assms(3,4) by auto

text \<open>Nothing is reported of a run with a file that cannot be opened: \<^verbatim>\<open>report\<close> and
  \<^verbatim>\<open>compare\<close> fail, wherever the file stands.\<close>

theorem unreadable_file_fails:
  assumes "\<exists>p \<in> set files. fs p = None"
  shows "cmd_report json_ok fs c files = (EXIT_FAILURE, None) \<and>
    (split_run base = files \<longrightarrow> cmd_compare fs c base loaded = (EXIT_FAILURE, None)) \<and>
    (split_run loaded = files \<longrightarrow> cmd_compare fs c base loaded = (EXIT_FAILURE, None))"
proof -
  obtain r s where "load_run fs files (stats_for c) = (-1, r, s)"
    using load_run_fails [OF assms, of "stats_for c"] by (metis prod.collapse)
  then show ?thesis using assms by (auto simp: cmd_report_def cmd_compare_def Let_def split: prod.splits)
qed

text \<open>The times that \<^verbatim>\<open>dump\<close> prints lose nothing: the first column is the earliest time of
  the record (0 when it has none), and adding it to the others gives the times back.\<close>

theorem dump_ts_roundtrip:
  "(let (base, offs) = dump_ts ts
    in map (\<lambda>d. case d of None \<Rightarrow> 0 | Some d \<Rightarrow> base + d) offs = ts \<and>
       base = (if filter (\<lambda>t. t \<noteq> 0) ts = [] then 0 else Min (set (filter (\<lambda>t. t \<noteq> 0) ts))))"
proof -
  let ?f = "\<lambda>base t :: u64. if t \<noteq> 0 \<and> (base = 0 \<or> t < base) then t else base"
  have "foldl ?f 0 ts = (if filter (\<lambda>t. t \<noteq> 0) ts = [] then 0 else Min (set (filter (\<lambda>t. t \<noteq> 0) ts)))"
  proof (induction ts rule: rev_induct)
    case (snoc t ts)
    let ?S = "{x \<in> set ts. x \<noteq> 0}"
    have ins: "set (filter (\<lambda>t. t \<noteq> 0) (ts @ [t])) = (if t \<noteq> 0 then insert t ?S else ?S)" by auto
    show ?case
    proof (cases "?S = {}")
      case True
      then show ?thesis using snoc by (auto simp: filter_empty_conv ins)
    next
      case False
      define m where "m = Min ?S"
      have m: "Min (insert t ?S) = min t m" "m \<noteq> 0" using Min_insert [of ?S t] Min_in [of ?S] False by (auto simp: m_def)
      have "filter (\<lambda>t. t \<noteq> 0) ts \<noteq> []" using False by (auto simp: filter_empty_conv)
      moreover from this have "foldl ?f 0 ts = m" using snoc by (simp add: m_def)
      ultimately show ?thesis unfolding ins using m by (auto simp: min_def m_def [symmetric])
    qed
  qed simp
  then show ?thesis by (simp add: dump_ts_def Let_def comp_def map_idI)
qed

subsection \<open>A run of two files\<close>

definition ex_host_hdr :: ntp_file_header where "ex_host_hdr = ntp_header_init 1 1 8 100 200 None None"
definition ex_tgt_hdr :: ntp_file_header where "ex_tgt_hdr = ntp_header_init 2 1 8 100 200 None None"

definition ex_fs :: "string \<Rightarrow> stream option" where
  "ex_fs p = (if p = ''h'' then Some \<lparr>s_bytes = enc_file_header ex_host_hdr @
        concat (map (enc_rec NTP_FILE_VERSION) [Host_rec ex_host]), s_error = False\<rparr>
     else if p = ''t'' then Some \<lparr>s_bytes = enc_file_header ex_tgt_hdr @
        concat (map (enc_rec NTP_FILE_VERSION) [Tgt_rec ex_tgt]), s_error = False\<rparr>
     else None)"

lemma ex_fs_recorded:
  "recorded (ex_fs ''h'') (ex_host_hdr, [Host_rec ex_host])" "recorded (ex_fs ''t'') (ex_tgt_hdr, [Tgt_rec ex_tgt])"
  using recorded_now [of "[Host_rec ex_host]"] recorded_now [of "[Tgt_rec ex_tgt]"] ex_recs_ok
  by (simp_all add: ex_fs_def ex_host_hdr_def ex_tgt_hdr_def)

lemma ex_run_recorded:
  "list_all2 (\<lambda>p. recorded (ex_fs p)) [''t'', ''h''] [(ex_tgt_hdr, [Tgt_rec ex_tgt]), (ex_host_hdr, [Host_rec ex_host])]"
  "list_all2 (\<lambda>p. recorded (ex_fs p)) [''h'', ''t''] [(ex_host_hdr, [Host_rec ex_host]), (ex_tgt_hdr, [Tgt_rec ex_tgt])]"
  using ex_fs_recorded by simp_all

lemma ex_host_header:
  "host_header [(ex_tgt_hdr, [Tgt_rec ex_tgt]), (ex_host_hdr, [Host_rec ex_host])] = Some ex_host_hdr"
  by (simp add: host_header_def ex_tgt_hdr_def ex_host_hdr_def ntp_header_init_def ROLE_HOST_def has_flag_def)

theorem report_joins_files_witness:
  "\<exists>stats r. cmd_report (\<lambda>_. True) ex_fs config_defaults [''t'', ''h''] = (EXIT_SUCCESS, Some (stats, r)) \<and>
     r_hosts r = [ex_host] \<and> st_sample_every stats = 8"
  using report_joins_files [OF ex_run_recorded(1) ex_host_header, of config_defaults "\<lambda>_. True"]
  by (auto simp: Let_def hosts_of_def ex_host_hdr_def ntp_header_init_def)

theorem report_file_order_witness:
  "snd (snd (load_run ex_fs [''t'', ''h''] (stats_for config_defaults))) =
   snd (snd (load_run ex_fs [''h'', ''t''] (stats_for config_defaults)))"
  by (rule report_file_order [OF ex_run_recorded]) (simp_all add: hosts_of_def targets_of_def)

theorem unreadable_file_fails_witness:
  "cmd_report (\<lambda>_. True) ex_fs config_defaults [''h'', ''missing''] = (EXIT_FAILURE, None)"
proof -
  have "\<exists>p \<in> set [''h'', ''missing'']. ex_fs p = None" by (simp add: ex_fs_def)
  from unreadable_file_fails [OF this, of "\<lambda>_. True" config_defaults] show ?thesis by blast
qed

end
