(* ===== verification/Report.thy ===== *)
theory Report
  imports Stats Config Trace_File
begin

text \<open>
  What the reports show (\<^verbatim>\<open>src/src/report.c\<close>, and the label of a group in \<^verbatim>\<open>src/src/stats.c\<close>): the order
  of the groups, which of them are folded into one line, the rows of the stage summary, the
  component table, the lines of an interval, the comparison of two runs, and the escaping of strings in
  JSON. A function that prints gives the fields it prints: the padding of columns is left out, and a
  number keeps its exact value with the digits \<^verbatim>\<open>printf\<close> shows of it. \<open>rnd\<close> and \<open>rndl\<close> round to double
  and long double, as in the statistics.
\<close>

subsection \<open>Options\<close>

record ntp_report_opts =
  ro_aggr :: ntp_aggr
  ro_distribution :: bool
  ro_breakdown :: bool
  ro_detail :: bool
  ro_queue_length :: bool
  ro_all_groups :: bool

definition ntp_report_opts_from_config :: "ntp_config \<Rightarrow> ntp_report_opts" where
  "ntp_report_opts_from_config c =
    \<lparr>ro_aggr = cf_aggr c, ro_distribution = cf_rep_distribution c, ro_breakdown = cf_rep_breakdown c,
     ro_detail = cf_rep_detail c, ro_queue_length = cf_rep_queue_length c, ro_all_groups = cf_rep_all_groups c\<rparr>"

subsection \<open>Fields\<close>

text \<open>\<^verbatim>\<open>%s\<close> and the text of a format, \<^verbatim>\<open>%.<n>f\<close>, \<^verbatim>\<open>%llu\<close> or \<^verbatim>\<open>%zu\<close>, and \<^verbatim>\<open>%lld\<close>.\<close>

datatype field = Txt string | Fix nat rat | Cnt nat | Lng int

abbreviation newline :: field where "newline \<equiv> Txt [CHR 0x0A]"

definition us :: "(rat \<Rightarrow> rat) \<Rightarrow> rat \<Rightarrow> rat" where
  "us rnd ns = rnd (ns / 1000)"

definition human :: "(rat \<Rightarrow> rat) \<Rightarrow> rat \<Rightarrow> field list" where
  "human rnd v =
    (if v < 1000 then [Fix 0 v]
     else if v < 1000000 then [Fix 1 (rnd (v / 1000)), Txt ''k'']
     else [Fix 2 (rnd (v / 1000000)), Txt ''M''])"

definition ntp_quantile_names :: "string list" where
  "ntp_quantile_names = [''p10'', ''p50'', ''p70'', ''p80'', ''p90'', ''p95'', ''p99'', ''p99.9'']"

primrec ntp_queue_names :: "ntp_queue_metric \<Rightarrow> string" where
  "ntp_queue_names NTP_Q_HOST_UNSENT = ''host_unsent''"
| "ntp_queue_names NTP_Q_HOST_INFLIGHT = ''host_inflight''"
| "ntp_queue_names NTP_Q_TGT_OUTSTANDING = ''target_outstanding''"
| "ntp_queue_names NTP_Q_TGT_RESP_QUEUE = ''target_resp_queue''"

definition Q_P50 :: nat where "Q_P50 = 1"
definition Q_P99 :: nat where "Q_P99 = 6"
definition Q_P999 :: nat where "Q_P999 = 7"

record ntp_tput =
  tp_seconds :: rat
  tp_read_ios :: u64
  tp_read_bytes :: u64
  tp_write_ios :: u64
  tp_write_bytes :: u64
  tp_estimated :: bool

definition ntp_report_tput :: "(rat \<Rightarrow> rat) \<Rightarrow> ntp_tput \<Rightarrow> field list" where
  "ntp_report_tput rnd t =
    (let s = (if tp_seconds t > 0 then tp_seconds t else 1);
         per = (\<lambda>n :: u64. \<lambda>unit. Fix 1 (rnd (rnd (rnd (of_nat (unat n)) / s) / unit)));
         any = (tp_read_ios t \<noteq> 0 \<or> tp_write_ios t = 0)
     in [Txt ''throughput ('', Txt (if tp_estimated t then ''estimated from the sampled commands'' else ''all commands''), Txt ''):''] @
        (if any then [Txt '' read '', per (tp_read_ios t) 1000, Txt '' kIOPS, '', per (tp_read_bytes t) 1000000, Txt '' MB/s''] else []) @
        (if tp_write_ios t \<noteq> 0
         then [Txt (if any then '' |'' else []), Txt '' write '', per (tp_write_ios t) 1000, Txt '' kIOPS, '',
               per (tp_write_bytes t) 1000000, Txt '' MB/s'']
         else []) @ [newline])"

subsection \<open>The label of a group\<close>

text \<open>
  \<^verbatim>\<open>n += snprintf(out + n, len - n, ...)\<close>: the buffer gets what fits, and \<open>n\<close> counts what
  would have been written.
\<close>

definition append_s :: "nat \<Rightarrow> string \<Rightarrow> string \<times> nat \<Rightarrow> string \<times> nat" where
  "append_s len s = (\<lambda>(out, n). (take n out @ snprintf_s (len - n) s, n + length s))"

definition bytes_label :: "u32 \<Rightarrow> string" where
  "bytes_label b =
    (if b AND (push_bit 20 1 - 1) = 0 then dec (unat (drop_bit 20 b)) @ ''MiB''
     else if b AND 1023 = 0 then dec (unat (drop_bit 10 b)) @ ''KiB''
     else dec (unat b) @ ''B'')"

definition ntp_group_label :: "ntp_group_key \<Rightarrow> nat \<Rightarrow> string" where
  "ntp_group_label k len =
    (let a = ([], 0);
         a = (if k_is_write k \<ge> 0 then append_s len (if k_is_write k \<noteq> 0 then ''write'' else ''read'') a else a);
         a = (if k_bytes k \<noteq> 0 \<and> snd a < len
              then append_s len ((if snd a \<noteq> 0 then '' '' else []) @ bytes_label (k_bytes k)) a else a);
         a = (if k_session k \<noteq> [] \<and> snd a < len
              then append_s len ((if snd a \<noteq> 0 then '' '' else []) @ k_session k) a else a)
     in if snd a = 0 then snprintf_s len ''all'' else fst a)"

subsection \<open>The order of the groups\<close>

definition total_records :: "ntp_stats \<Rightarrow> u64" where
  "total_records s = foldl (\<lambda>n g. n + g_records g) 0 (st_groups s)"

text \<open>
  Insertion sort on the array of indexes: the groups before \<open>j\<close> with fewer records than group \<open>i\<close>
  move up by one, and \<open>i\<close> takes the free place.
\<close>

fun sink :: "(nat \<Rightarrow> u64) \<Rightarrow> nat \<Rightarrow> nat list \<Rightarrow> nat \<Rightarrow> nat list" where
  "sink recs i idx 0 = idx[0 := i]"
| "sink recs i idx (Suc j) =
    (if recs (idx ! j) < recs i then sink recs i (idx[Suc j := idx ! j]) j else idx[Suc j := i])"

definition recs_of :: "ntp_stats \<Rightarrow> nat \<Rightarrow> u64" where
  "recs_of s i = g_records (st_groups s ! i)"

definition order_groups :: "ntp_stats \<Rightarrow> nat list" where
  "order_groups s =
    (let n = length (st_groups s)
     in foldl (\<lambda>idx i. sink (recs_of s) i idx i) (replicate n 0) [0 ..< n])"

definition MINOR_GROUP_PCT :: u64 where "MINOR_GROUP_PCT = 1"

definition folded :: "ntp_stats \<Rightarrow> nat list \<Rightarrow> nat \<Rightarrow> u64 \<Rightarrow> ntp_report_opts \<Rightarrow> bool" where
  "folded s idx i tot o' \<longleftrightarrow>
    i \<noteq> 0 \<and> \<not> ro_all_groups o' \<and> recs_of s (idx ! i) * 100 < tot * MINOR_GROUP_PCT"

text \<open>The groups that the text report prints, in its order, and what its last line counts.\<close>

definition shown_groups :: "ntp_stats \<Rightarrow> ntp_report_opts \<Rightarrow> nat list" where
  "shown_groups s o' =
    (let tot = total_records s; idx = order_groups s
     in map (\<lambda>i. idx ! i) (filter (\<lambda>i. \<not> folded s idx i tot o') [0 ..< length (st_groups s)]))"

definition minor_counts :: "ntp_stats \<Rightarrow> ntp_report_opts \<Rightarrow> nat \<times> u64" where
  "minor_counts s o' =
    (let tot = total_records s; idx = order_groups s
     in foldl (\<lambda>(n, records) i. if folded s idx i tot o' then (n + 1, records + recs_of s (idx ! i)) else (n, records))
          (0, 0) [0 ..< length (st_groups s)])"

subsection \<open>The stages of a group\<close>

definition group_joined :: "ntp_group \<Rightarrow> bool" where
  "group_joined g \<longleftrightarrow>
    length (vec_v (g_stage g NTP_S3_S5)) \<noteq> 0 \<and>
    2 * length (vec_v (g_stage g NTP_S3_S5)) \<ge> length (vec_v (g_comp g NTP_C_E2E))"

record srow =
  sr_key :: string
  sr_desc :: string
  sr_v :: i64vec

definition srow_of :: "string \<Rightarrow> string \<Rightarrow> i64vec \<Rightarrow> srow" where
  "srow_of key desc vec = \<lparr>sr_key = key, sr_desc = snprintf_s 48 desc, sr_v = vec\<rparr>"

definition MAX_SROWS :: nat where "MAX_SROWS = 6"

definition stage_rows :: "ntp_group \<Rightarrow> bool \<Rightarrow> srow list" where
  "stage_rows g joined =
    (let rdma = (g_transport g = NTP_TR_RDMA);
         host_tr = (if g_spdk_host g then ''SPDK'' else if rdma then ''nvme-rdma'' else ''nvme-tcp'');
         tgt_tr = (if g_spdk_target g then ''SPDK'' else if rdma then ''nvmet-rdma'' else ''nvmet-tcp'')
     in (if g_spdk_host g then []
         else [srow_of (ntp_stage_keys NTP_S1) ''host block layer'' (g_stage g NTP_S1)]) @
        [srow_of (ntp_stage_keys NTP_S2) (''host driver ('' @ host_tr @ '')'') (g_stage g NTP_S2)] @
        (if joined
         then [srow_of (ntp_stage_keys NTP_S3_S5)
                 (if rdma then ''network (RDMA, NICs, wire)'' else ''network (TCP/IP, NICs, wire)'') (g_stage g NTP_S3_S5),
               srow_of (ntp_stage_keys NTP_S6) (''target driver ('' @ tgt_tr @ '')'') (g_stage g NTP_S6),
               srow_of (ntp_stage_keys NTP_S7_S9)
                 (if g_spdk_target g then ''storage (SPDK bdev, drive)'' else ''storage (target block layer, drive)'')
                 (g_stage g NTP_S7_S9)]
         else [srow_of ''host_receive'' ''host receive path'' (g_comp g NTP_C_HOST_RX)] @
              (if vec_v (g_comp g NTP_C_HOST_WAIT) \<noteq> []
               then [srow_of ''host_data_wait'' ''rest of the data arriving'' (g_comp g NTP_C_HOST_WAIT)] else []) @
              [srow_of ''network_and_target'' ''network and target (not recorded)'' (g_comp g NTP_C_REMOTE)]))"

definition share :: "(rat \<Rightarrow> rat) \<Rightarrow> rat \<Rightarrow> rat \<Rightarrow> rat" where
  "share rnd part whole = (if whole > 0 then rnd (rnd (100 * part) / whole) else 0)"

abbreviation mean_of :: "(rat \<Rightarrow> rat) \<Rightarrow> (rat \<Rightarrow> rat) \<Rightarrow> i64vec \<Rightarrow> rat" where
  "mean_of rnd rndl vec \<equiv> sm_mean (fst (ntp_summarize rnd rndl vec))"

text \<open>The largest of the rows, the first of equals. Summarising a row sorts its samples in place.\<close>

definition top_row :: "(rat \<Rightarrow> rat) \<Rightarrow> (rat \<Rightarrow> rat) \<Rightarrow> srow list \<Rightarrow> srow option" where
  "top_row rnd rndl rows =
    foldl (\<lambda>top r. case top of None \<Rightarrow> Some r
      | Some t \<Rightarrow> if mean_of rnd rndl (sr_v r) > mean_of rnd rndl (sr_v t) then Some r else top)
      None (filter (\<lambda>r. vec_v (sr_v r) \<noteq> []) rows)"

definition BAR_WIDTH :: int where "BAR_WIDTH = 24"

definition bar :: "(rat \<Rightarrow> rat) \<Rightarrow> rat \<Rightarrow> nat" where
  "bar rnd pct =
    (let w = trunc (rnd (rnd (rnd (pct * of_int BAR_WIDTH) / 100) + 1 / 2)) in nat (if w > BAR_WIDTH then BAR_WIDTH else w))"

definition print_stages ::
  "(rat \<Rightarrow> rat) \<Rightarrow> (rat \<Rightarrow> rat) \<Rightarrow> ntp_group \<Rightarrow> rat \<Rightarrow> ntp_summary \<Rightarrow> ntp_report_opts \<Rightarrow> field list" where
  "print_stages rnd rndl g rate e2e o' =
    (let rows = stage_rows g (group_joined g);
         inflight = (ro_queue_length o' \<and> rate > 0);
         pct = (\<lambda>r. share rnd (mean_of rnd rndl (sr_v r)) (sm_mean e2e));
         line = (\<lambda>r. [Txt (sr_desc r), Fix 2 (us rnd (mean_of rnd rndl (sr_v r))), Fix 0 (pct r), Txt ''%''] @
           (if inflight then [Fix 2 (rnd (rnd (rate * mean_of rnd rndl (sr_v r)) / 1000000000))] else []) @
           [Txt (replicate (bar rnd (pct r)) (CHR ''#'')), newline])
     in [Txt ''stage'', Txt ''mean us'', Txt ''share''] @ (if inflight then [Txt ''avg QD''] else []) @ [newline] @
        concat (map line (filter (\<lambda>r. vec_v (sr_v r) \<noteq> []) rows)) @
        (case top_row rnd rndl rows of
           Some t \<Rightarrow> if length rows > 1 then [Txt ''largest: '', Txt (sr_desc t), Fix 0 (pct t), Txt '' % of the latency'', newline] else []
         | None \<Rightarrow> []))"

definition print_latency :: "(rat \<Rightarrow> rat) \<Rightarrow> ntp_summary \<Rightarrow> ntp_report_opts \<Rightarrow> field list" where
  "print_latency rnd e o' =
    (let ns = (\<lambda>x :: i64. Fix 2 (us rnd (rnd (of_int (sint x)))))
     in [Txt ''latency (us): mean '', Fix 2 (us rnd (sm_mean e))] @
        (if ro_aggr o' = NTP_AGG_MIN then [Txt '', min '', ns (sm_min e)] else []) @
        (if ro_distribution o'
         then if ro_aggr o' = NTP_AGG_DIST
              then concat (map (\<lambda>i. [Txt '', '', Txt (ntp_quantile_names ! i), ns (sm_q e ! i)]) [0 ..< NTP_NQ])
              else [Txt '', p50 '', ns (sm_q e ! Q_P50), Txt '', p99 '', ns (sm_q e ! Q_P99), Txt '', p99.9 '', ns (sm_q e ! Q_P999)]
         else []) @
        (if ro_aggr o' = NTP_AGG_MAX \<or> ro_aggr o' = NTP_AGG_DIST then [Txt '', max '', ns (sm_max e)] else []) @ [newline])"

definition print_queues :: "(rat \<Rightarrow> rat) \<Rightarrow> (rat \<Rightarrow> rat) \<Rightarrow> ntp_group \<Rightarrow> field list" where
  "print_queues rnd rndl g =
    (let (out, any) = foldl (\<lambda>(out, any) q.
           let m = fst (ntp_summarize rnd rndl (g_queue g q))
           in if sm_n m = 0 then (out, any)
              else (out @ [Txt (if any then '','' else ''queue length at arrival (mean/p99):''), Txt (ntp_queue_names q),
                           Fix 2 (sm_mean m), Txt ''/'', Lng (sint (sm_q m ! Q_P99))], True))
           ([], False) [NTP_Q_HOST_UNSENT, NTP_Q_HOST_INFLIGHT, NTP_Q_TGT_OUTSTANDING, NTP_Q_TGT_RESP_QUEUE]
     in if any then out @ [newline] else out)"

subsection \<open>The component table\<close>

definition columns :: "ntp_report_opts \<Rightarrow> nat list" where
  "columns o' =
    (if \<not> ro_distribution o' then []
     else if ro_aggr o' = NTP_AGG_DIST then [0 ..< NTP_NQ] else [Q_P50, Q_P99])"

definition display :: "(ntp_comp \<times> nat) list" where
  "display = [(NTP_C_BLK_SUB, 0), (NTP_C_TR_SUB, 0), (NTP_C_NET, 0), (NTP_C_NET_DATA, 2), (NTP_C_TGT_RX, 0),
     (NTP_C_TGT_SUB, 0), (NTP_C_TGT_WAIT, 0), (NTP_C_TGT_DATA, 0), (NTP_C_TGT_BE, 0), (NTP_C_TGT_BE_SUB, 2),
     (NTP_C_TGT_DEV, 2), (NTP_C_TGT_BE_CMPL, 2), (NTP_C_TGT_CMPL, 0), (NTP_C_REMOTE, 0), (NTP_C_HOST_RX, 0),
     (NTP_C_HOST_WAIT, 0), (NTP_C_HOST_DATA, 0), (NTP_C_TR_CMPL, 0), (NTP_C_BLK_CMPL, 0), (NTP_C_CMPL_IPI, 2),
     (NTP_C_E2E, 0)]"

definition print_header :: "ntp_report_opts \<Rightarrow> field list" where
  "print_header o' =
    map Txt ([''component'', ''n'', ''mean'', ''L''] @ (if ro_aggr o' = NTP_AGG_MIN then [''min''] else []) @
      map (\<lambda>i. ntp_quantile_names ! i) (columns o') @ (if ro_aggr o' = NTP_AGG_MAX then [''max''] else []) @
      [''   (us)'' @ [CHR 0x0A]])"

definition print_row :: "(rat \<Rightarrow> rat) \<Rightarrow> string \<Rightarrow> ntp_summary \<Rightarrow> rat \<Rightarrow> ntp_report_opts \<Rightarrow> field list" where
  "print_row rnd label m rate o' =
    (let ns = (\<lambda>x :: i64. Fix 2 (us rnd (rnd (of_int (sint x)))))
     in [Txt label, Cnt (sm_n m), Fix 2 (us rnd (sm_mean m)),
         if rate > 0 then Fix 2 (rnd (rnd (rate * sm_mean m) / 1000000000)) else Txt ''-''] @
        (if ro_aggr o' = NTP_AGG_MIN then [ns (sm_min m)] else []) @
        map (\<lambda>i. ns (sm_q m ! i)) (columns o') @
        (if ro_aggr o' = NTP_AGG_MAX then [ns (sm_max m)] else []) @ [newline])"

definition print_components ::
  "(rat \<Rightarrow> rat) \<Rightarrow> (rat \<Rightarrow> rat) \<Rightarrow> ntp_group \<Rightarrow> rat \<Rightarrow> ntp_report_opts \<Rightarrow> field list" where
  "print_components rnd rndl g rate o' =
    Txt ''  components, in path order (L: commands in each, by Little's law)'' # newline # print_header o' @
    concat (map (\<lambda>(c, indent). let m = fst (ntp_summarize rnd rndl (g_comp g c))
      in if sm_n m = 0 then [] else print_row rnd (ci_desc (ntp_comps c)) m rate o') display)"

subsection \<open>The text report\<close>

definition print_group ::
  "(rat \<Rightarrow> rat) \<Rightarrow> (rat \<Rightarrow> rat) \<Rightarrow> ntp_stats \<Rightarrow> ntp_group \<Rightarrow> ntp_report_opts \<Rightarrow> field list" where
  "print_group rnd rndl s g o' =
    (let rate = ntp_group_rate rnd s g;
         usable = g_records g - g_bad_host g;
         e2e = fst (ntp_summarize rnd rndl (g_comp g NTP_C_E2E))
     in [newline, Txt ''== '', Txt (ntp_group_label (g_key g) 96), Txt '': '', Cnt (unat (g_records g)), Txt '' commands sampled''] @
        (if rate > 0 then [Txt '' (from about ''] @ human rnd rate @ [Txt '' commands/s)''] else []) @
        (if g_joined g = usable \<and> usable \<noteq> 0 then [Txt '', all with the target's side'']
         else if g_joined g \<noteq> 0
         then [Txt '', '', Fix 0 (share rnd (rnd (of_nat (unat (g_joined g)))) (rnd (of_nat (unat usable)))), Txt '' % with the target's side'']
         else [Txt '', host side only'']) @ [newline] @
        (if g_bad_host g \<noteq> 0 \<or> g_bad_target g \<noteq> 0
         then [Txt ''incomplete records left out: '', Cnt (unat (g_bad_host g)), Txt '' host, '', Cnt (unat (g_bad_target g)),
               Txt '' target (events missed; see ntprof probe)'', newline] else []) @
        (if g_post_estimated g \<noteq> 0
         then [Cnt (unat (g_post_estimated g)), Txt '' target records lack the response's posting'', newline] else []) @
        (if sm_n e2e = 0 then []
         else print_latency rnd e2e o' @
              (if ro_breakdown o' then print_stages rnd rndl g rate e2e o' else []) @
              (if ro_queue_length o' then print_queues rnd rndl g else []) @
              (if ro_detail o' then print_components rnd rndl g rate o' else [])))"

definition print_minor :: "ntp_stats \<Rightarrow> ntp_report_opts \<Rightarrow> field list" where
  "print_minor s o' =
    (let (n, records) = minor_counts s o';
         idx = order_groups s;
         listed = take 4 (filter (\<lambda>i. folded s idx i (total_records s) o') [0 ..< length (st_groups s)])
     in if n = 0 then []
        else [Txt ''+ '', Cnt n, Txt '' more group'', Txt (if n > 1 then ''s'' else []), Txt '' with '', Cnt (unat records),
              Txt '' record'', Txt (if records > 1 then ''s'' else []), Txt '' in all (under '', Cnt (unat MINOR_GROUP_PCT), Txt '' % each):''] @
             concat (map (\<lambda>k. [Txt (if k \<noteq> 0 then '','' else []), Txt (ntp_group_label (g_key (st_groups s ! (idx ! (listed ! k)))) 96)])
               [0 ..< length listed]) @
             [Txt (if n > length listed then '', ...'' else []), Txt ''; --all-groups shows them'', newline])"

definition ntp_report_text :: "(rat \<Rightarrow> rat) \<Rightarrow> (rat \<Rightarrow> rat) \<Rightarrow> ntp_stats \<Rightarrow> ntp_report_opts \<Rightarrow> field list" where
  "ntp_report_text rnd rndl s o' =
    (if st_groups s = [] then [Txt ''no NVMe-oF read or write was sampled'', newline]
     else concat (map (\<lambda>i. print_group rnd rndl s (st_groups s ! i) o') (shown_groups s o')) @ print_minor s o')"

subsection \<open>Online intervals\<close>

text \<open>Two header lines: the machine over each share column, then the stage.\<close>

definition ntp_report_interval_header :: "field list" where
  "ntp_report_interval_header =
    [Txt ''host'', Txt ''target'', newline, Txt ''time'', Txt ''group'', Txt ''n'', Txt ''cmds/s'', Txt ''mean us'', Txt ''p99 us'',
     Txt ''block'', Txt ''driver'', Txt ''network'', Txt ''driver'', Txt ''storage'', newline]"

text \<open>The columns of one group: its stages up to the network, which stands for the rest without target records.\<close>

definition interval_shares :: "(rat \<Rightarrow> rat) \<Rightarrow> (rat \<Rightarrow> rat) \<Rightarrow> ntp_group \<Rightarrow> rat \<Rightarrow> field list" where
  "interval_shares rnd rndl g e2e =
    (let col = (\<lambda>st. if vec_v (g_stage g st) \<noteq> [] then [Fix 0 (share rnd (mean_of rnd rndl (g_stage g st)) e2e), Txt ''%''] else [Txt ''-'']);
         comp = (\<lambda>c. mean_of rnd rndl (g_comp g c))
     in if group_joined g then concat (map col enum_class.enum)
        else col NTP_S1 @ col NTP_S2 @
          [Fix 0 (share rnd (rnd (rnd (comp NTP_C_HOST_RX + comp NTP_C_REMOTE) + comp NTP_C_HOST_WAIT)) e2e), Txt ''%*''])"

definition ntp_report_interval ::
  "(rat \<Rightarrow> rat) \<Rightarrow> (rat \<Rightarrow> rat) \<Rightarrow> ntp_stats \<Rightarrow> ntp_report_opts \<Rightarrow> rat \<Rightarrow> field list" where
  "ntp_report_interval rnd rndl s o' t_s =
    (if ro_detail o' then [newline, Txt ''--- '', Fix 1 t_s, Txt '' s ---'', newline] @ ntp_report_text rnd rndl s o'
     else if st_groups s = [] then [Fix 1 t_s, Txt ''s'', Txt ''(no sampled commands)'', newline]
     else concat (map (\<lambda>i.
       let g = st_groups s ! i;
           rate = ntp_group_rate rnd s g;
           e2e = fst (ntp_summarize rnd rndl (g_comp g NTP_C_E2E))
       in if sm_n e2e = 0 then []
          else [Fix 1 t_s, Txt ''s'', Txt (take 22 (ntp_group_label (g_key g) 96)), Cnt (unat (g_records g))] @
               (if rate > 0 then human rnd rate else [Txt ''-'']) @
               [Fix 2 (us rnd (sm_mean e2e)), Fix 2 (us rnd (rnd (of_int (sint (sm_q e2e ! Q_P99)))))] @
               interval_shares rnd rndl g (sm_mean e2e) @ [newline]) (shown_groups s o')))"

subsection \<open>JSON\<close>

definition hex_digit :: "nat \<Rightarrow> char" where
  "hex_digit d = (if d < 10 then char_of (48 + d) else char_of (87 + d))"

definition json_char :: "char \<Rightarrow> string" where
  "json_char c =
    (if c = CHR 0x22 \<or> c = CHR 0x5C then [CHR 0x5C, c]
     else if of_char c < (0x20 :: nat)
     then CHR 0x5C # ''u00'' @ [hex_digit (of_char c div 16), hex_digit (of_char c mod 16)]
     else [c])"

definition json_str :: "string \<Rightarrow> string" where
  "json_str s = CHR 0x22 # concat (map json_char s) @ [CHR 0x22]"

definition json_key :: "string \<Rightarrow> field list" where
  "json_key k = [Txt (CHR 0x22 # k @ CHR 0x22 # '': '')]"

definition json_summary :: "ntp_summary \<Rightarrow> field list" where
  "json_summary m =
    [Txt ''{''] @ json_key ''n'' @ [Cnt (sm_n m)] @ [Txt '', ''] @ json_key ''mean_ns'' @ [Fix 1 (sm_mean m)] @
    [Txt '', ''] @ json_key ''min_ns'' @ [Lng (sint (sm_min m))] @ [Txt '', ''] @ json_key ''max_ns'' @ [Lng (sint (sm_max m))] @
    concat (map (\<lambda>i. [Txt '', ''] @ json_key (ntp_quantile_names ! i @ ''_ns'') @ [Lng (sint (sm_q m ! i))]) [0 ..< NTP_NQ]) @
    [Txt ''}'']"

text \<open>An object of the entries of \<open>xs\<close> that have a sample, with a comma before every one but the first.\<close>

definition json_entries :: "('a \<Rightarrow> ntp_summary) \<Rightarrow> ('a \<Rightarrow> ntp_summary \<Rightarrow> field list) \<Rightarrow> 'a list \<Rightarrow> field list" where
  "json_entries summary entry xs =
    fst (foldl (\<lambda>(out, first) x.
      let m = summary x
      in if sm_n m = 0 then (out, first)
         else (out @ [Txt ((if first then [] else '','') @ CHR 0x0A # ''       '')] @ entry x m, False)) ([], True) xs)"

definition json_group :: "(rat \<Rightarrow> rat) \<Rightarrow> (rat \<Rightarrow> rat) \<Rightarrow> ntp_stats \<Rightarrow> ntp_group \<Rightarrow> field list" where
  "json_group rnd rndl s g =
    (let rate = ntp_group_rate rnd s g;
         sum_of = (\<lambda>vec. fst (ntp_summarize rnd rndl vec))
     in [Txt ''{''] @ json_key ''type'' @
        [Txt (json_str (if k_is_write (g_key g) < 0 then ''any'' else if k_is_write (g_key g) \<noteq> 0 then ''write'' else ''read''))] @
        [Txt '', ''] @ json_key ''bytes'' @ [Cnt (unat (k_bytes (g_key g)))] @
        [Txt '', ''] @ json_key ''session'' @ [Txt (json_str (k_session (g_key g)))] @
        [Txt '', ''] @ json_key ''records'' @ [Cnt (unat (g_records g))] @
        [Txt '', ''] @ json_key ''joined'' @ [Cnt (unat (g_joined g))] @
        [Txt '', ''] @ json_key ''incomplete_host'' @ [Cnt (unat (g_bad_host g))] @
        [Txt '', ''] @ json_key ''incomplete_target'' @ [Cnt (unat (g_bad_target g))] @
        [Txt '', ''] @ json_key ''post_estimated'' @ [Cnt (unat (g_post_estimated g))] @
        [Txt '', ''] @ json_key ''rate_per_s'' @ [Fix 1 rate] @
        [Txt ('','' @ CHR 0x0A # ''     '')] @ json_key ''components'' @ [Txt ''{''] @
        json_entries (\<lambda>c. sum_of (g_comp g c)) (\<lambda>c m.
          json_key (ci_name (ntp_comps c)) @ [Txt ''{''] @ json_key ''stage'' @ [Txt (CHR 0x22 # ci_stage (ntp_comps c) @ [CHR 0x22])] @
          [Txt '', ''] @ json_key ''description'' @ [Txt (json_str (ci_desc (ntp_comps c)))] @
          [Txt '', ''] @ json_key ''occupancy'' @ [Fix 3 (rnd (rnd (rate * sm_mean m) / 1000000000))] @
          [Txt '', ''] @ json_key ''summary'' @ json_summary m @ [Txt ''}'']) enum_class.enum @
        [Txt (''},'' @ CHR 0x0A # ''     '')] @ json_key ''stages'' @ [Txt ''{''] @
        json_entries (\<lambda>st. sum_of (g_stage g st)) (\<lambda>st m. json_key (ntp_stage_keys st) @ json_summary m) enum_class.enum @
        [Txt (''},'' @ CHR 0x0A # ''     '')] @ json_key ''queues'' @ [Txt ''{''] @
        json_entries (\<lambda>q. sum_of (g_queue g q)) (\<lambda>q m. json_key (ntp_queue_names q) @ json_summary m)
          [NTP_Q_HOST_UNSENT, NTP_Q_HOST_INFLIGHT, NTP_Q_TGT_OUTSTANDING, NTP_Q_TGT_RESP_QUEUE] @ [Txt ''}}''])"

text \<open>The file's contents. \<open>hostname\<close> and \<open>kernel\<close> are those of the header, which the file needs not have.\<close>

definition ntp_report_json ::
  "(rat \<Rightarrow> rat) \<Rightarrow> (rat \<Rightarrow> rat) \<Rightarrow> ntp_stats \<Rightarrow> ntp_file_header option \<Rightarrow> ntp_tput option \<Rightarrow> field list" where
  "ntp_report_json rnd rndl s meta tput =
    [Txt (''{'' @ CHR 0x0A # ''  '')] @ json_key ''tool'' @ [Txt (json_str ''ntprof''), Txt ('','' @ [CHR 0x0A])] @
    (case meta of None \<Rightarrow> []
     | Some meta \<Rightarrow>
         json_key ''host'' @ [Txt (json_str (cstr (fh_hostname meta)))] @ [Txt ('','' @ [CHR 0x0A])] @
         json_key ''kernel'' @ [Txt (json_str (cstr (fh_kernel meta)))] @ [Txt ('','' @ [CHR 0x0A])] @
         json_key ''sample_every'' @ [Cnt (unat (fh_sample_every meta))] @ [Txt ('','' @ [CHR 0x0A])] @
         json_key ''start_realtime_ns'' @ [Cnt (unat (fh_start_real_ns meta))] @ [Txt ('','' @ [CHR 0x0A])]) @
    (case tput of None \<Rightarrow> []
     | Some t \<Rightarrow>
         json_key ''throughput'' @ [Txt ''{''] @ json_key ''seconds'' @ [Fix 3 (tp_seconds t), Txt '', ''] @
         json_key ''read_ios'' @ [Cnt (unat (tp_read_ios t)), Txt '', ''] @
         json_key ''read_bytes'' @ [Cnt (unat (tp_read_bytes t)), Txt '', ''] @
         json_key ''write_ios'' @ [Cnt (unat (tp_write_ios t)), Txt '', ''] @
         json_key ''write_bytes'' @ [Cnt (unat (tp_write_bytes t)), Txt '', ''] @
         json_key ''estimated'' @ [Txt (if tp_estimated t then ''true'' else ''false''), Txt (''},'' @ [CHR 0x0A])]) @
    json_key ''groups'' @ [Txt ''[''] @
    concat (map (\<lambda>i. Txt ((if i \<noteq> 0 then '','' else []) @ CHR 0x0A # ''    '') # json_group rnd rndl s (st_groups s ! i))
      [0 ..< length (st_groups s)]) @
    [Txt (CHR 0x0A # ''  ]'' @ CHR 0x0A # ''}'' @ [CHR 0x0A])]"

subsection \<open>Comparing two runs\<close>

definition LAD_MIN_BASE_NS :: rat where "LAD_MIN_BASE_NS = 500"

text \<open>One row, and its ratio or 0.\<close>

definition lad_row ::
  "(rat \<Rightarrow> rat) \<Rightarrow> (rat \<Rightarrow> rat) \<Rightarrow> string \<Rightarrow> i64vec \<Rightarrow> i64vec \<Rightarrow> field list \<times> rat" where
  "lad_row rnd rndl desc bv lv =
    (let b = fst (ntp_summarize rnd rndl bv); l = fst (ntp_summarize rnd rndl lv);
         out = [Txt desc, Fix 2 (us rnd (sm_mean b)), Fix 2 (us rnd (sm_mean l))]
     in if sm_n b = 0 \<or> sm_n l = 0 then ([], 0)
        else if sm_mean b \<ge> LAD_MIN_BASE_NS
        then let lad = rnd (sm_mean l / sm_mean b) in (out @ [Fix 2 lad, newline], lad)
        else (out @ [Txt ''n/a'', newline], 0))"

text \<open>The rows of the loaded run against the same rows of the baseline, where that has them, and the largest ratio.\<close>

definition lad_rows ::
  "(rat \<Rightarrow> rat) \<Rightarrow> (rat \<Rightarrow> rat) \<Rightarrow> srow list \<Rightarrow> srow list \<Rightarrow> field list \<times> rat \<times> string option" where
  "lad_rows rnd rndl br lr =
    foldl (\<lambda>(out, best, best_row) r.
      case find (\<lambda>b. sr_key b = sr_key r) br of
        None \<Rightarrow> (out, best, best_row)
      | Some b \<Rightarrow>
          let (line, lad) = lad_row rnd rndl (sr_desc r) (sr_v b) (sr_v r)
          in if lad > best then (out @ line, lad, Some (sr_desc r)) else (out @ line, best, best_row))
      ([], 0, None) lr"

definition compare_group ::
  "(rat \<Rightarrow> rat) \<Rightarrow> (rat \<Rightarrow> rat) \<Rightarrow> ntp_group \<Rightarrow> ntp_group \<Rightarrow> ntp_report_opts \<Rightarrow> field list" where
  "compare_group rnd rndl bg lg o' =
    (let joined = (group_joined bg \<and> group_joined lg);
         br = stage_rows bg joined; lr = stage_rows lg joined;
         (out, best, best_row) = lad_rows rnd rndl br lr
     in [newline, Txt ''== '', Txt (ntp_group_label (g_key lg) 96), Txt '': baseline '', Cnt (unat (g_records bg)),
         Txt '' commands sampled, loaded '', Cnt (unat (g_records lg)), newline,
         Txt ''stage'', Txt ''base us'', Txt ''load us'', Txt ''LAD'', newline] @ out @
        fst (lad_row rnd rndl (ci_desc (ntp_comps NTP_C_E2E)) (g_comp bg NTP_C_E2E) (g_comp lg NTP_C_E2E)) @
        (case best_row of Some d \<Rightarrow> [Txt ''largest LAD: '', Txt d, Fix 2 best, newline] | None \<Rightarrow> []) @
        (if \<not> ro_detail o' then []
         else [Txt ''  components'', newline] @
           concat (map (\<lambda>(c, indent). fst (lad_row rnd rndl (ci_desc (ntp_comps c)) (g_comp bg c) (g_comp lg c)))
             (filter (\<lambda>(c, indent). c \<noteq> NTP_C_E2E) display))))"

definition report_find_group :: "ntp_stats \<Rightarrow> ntp_group_key \<Rightarrow> ntp_group option" where
  "report_find_group s k = find (\<lambda>g. g_key g = k) (st_groups s)"

text \<open>The pairs of groups that are compared, and how many more are in both runs.\<close>

definition compared ::
  "ntp_stats \<Rightarrow> ntp_stats \<Rightarrow> ntp_report_opts \<Rightarrow> (ntp_group \<times> ntp_group) list \<times> nat" where
  "compared base loaded o' =
    (let tot = total_records loaded; idx = order_groups loaded
     in foldl (\<lambda>(shown, skipped) i.
          let lg = st_groups loaded ! (idx ! i)
          in case report_find_group base (g_key lg) of
               None \<Rightarrow> (shown, skipped)
             | Some bg \<Rightarrow>
                 if folded loaded idx i tot o' then (shown, skipped + 1) else (shown @ [(bg, lg)], skipped))
          ([], 0) [0 ..< length (st_groups loaded)])"

definition ntp_report_compare ::
  "(rat \<Rightarrow> rat) \<Rightarrow> (rat \<Rightarrow> rat) \<Rightarrow> ntp_stats \<Rightarrow> ntp_stats \<Rightarrow> ntp_report_opts \<Rightarrow> field list" where
  "ntp_report_compare rnd rndl base loaded o' =
    (let (shown, skipped) = compared base loaded o'
     in concat (map (\<lambda>(bg, lg). compare_group rnd rndl bg lg o') shown) @
        (if shown = [] then [Txt ''no group (I/O type, size, device) is present in both runs'', newline]
         else if skipped \<noteq> 0
         then [Txt ''+ '', Cnt skipped, Txt '' more group'', Txt (if skipped > 1 then ''s'' else []), Txt '' in both runs, under '',
               Cnt (unat MINOR_GROUP_PCT), Txt '' % of the records each; --all-groups shows them'', newline]
         else []))"

subsection \<open>Insertion sort\<close>

text \<open>What one insertion does to the array: it splits the sorted part at the new group's place.\<close>

lemma sink_eq:
  "j < length idx \<Longrightarrow> sink recs i idx j =
    rev (dropWhile (\<lambda>k. recs k < recs i) (rev (take j idx))) @ i #
    rev (takeWhile (\<lambda>k. recs k < recs i) (rev (take j idx))) @ drop (Suc j) idx"
proof (induction j arbitrary: idx)
  case (Suc j)
  then have last: "take (Suc j) idx = take j idx @ [idx ! j]" by (simp add: take_Suc_conv_app_nth)
  show ?case
  proof (cases "recs (idx ! j) < recs i")
    case True
    have "drop (Suc j) (idx[Suc j := idx ! j]) = idx ! j # drop (Suc (Suc j)) idx"
      using Suc.prems by (simp add: Cons_nth_drop_Suc [symmetric, of "Suc j"])
    then show ?thesis using Suc True by (simp add: last)
  next
    case False
    have "idx[Suc j := i] = take j idx @ [idx ! j] @ i # drop (Suc (Suc j)) idx"
      using Suc.prems upd_conv_take_nth_drop [of "Suc j" idx i] last by simp
    then show ?thesis using False by (simp add: last)
  qed
next
  case 0
  then show ?case by (cases idx) auto
qed

text \<open>More records first, and the earlier group first among equals.\<close>

definition before :: "(nat \<Rightarrow> u64) \<Rightarrow> nat \<Rightarrow> nat \<Rightarrow> bool" where
  "before recs a b \<longleftrightarrow> recs b < recs a \<or> (recs a = recs b \<and> a < b)"

lemma insert_before:
  assumes "sorted_wrt (before recs) xs" and "\<And>k. k \<in> set xs \<Longrightarrow> k < i"
  shows "sorted_wrt (before recs) (rev (dropWhile (\<lambda>k. recs k < recs i) (rev xs)) @ i #
    rev (takeWhile (\<lambda>k. recs k < recs i) (rev xs)))"
proof -
  let ?P = "\<lambda>k. recs k < recs i"
  define A B where "A = rev (dropWhile ?P (rev xs))" and "B = rev (takeWhile ?P (rev xs))"
  have xs: "xs = A @ B" by (simp add: A_def B_def flip: rev_append)
  have B: "before recs i k" if "k \<in> set B" for k
    using that set_takeWhileD [of k ?P "rev xs"] by (auto simp: B_def before_def)
  have A: "before recs k i" if "k \<in> set A" for k
  proof -
    have "A \<noteq> []" using that by auto
    then have "\<not> ?P (last A)" using hd_dropWhile [of ?P "rev xs"] by (auto simp: A_def last_rev)
    moreover have "k = last A \<or> before recs k (last A)"
      using assms(1) that \<open>A \<noteq> []\<close>
      by (cases A rule: rev_cases) (auto simp: xs sorted_wrt_append)
    ultimately have "recs i \<le> recs k" by (auto simp: before_def)
    moreover have "k < i" using assms(2) that by (simp add: xs)
    ultimately show ?thesis by (auto simp: before_def)
  qed
  have "sorted_wrt (before recs) (A @ i # B)"
    using assms(1) A B by (auto simp: xs sorted_wrt_append before_def)
  then show ?thesis by (simp add: A_def B_def)
qed

lemma order_groups_upto:
  assumes "k \<le> n"
  shows "(let idx = foldl (\<lambda>idx i. sink recs i idx i) (replicate n 0) [0 ..< k]
    in length idx = n \<and> sorted_wrt (before recs) (take k idx) \<and> mset (take k idx) = mset [0 ..< k])"
  using assms
proof (induction k)
  case (Suc k)
  define idx where "idx = foldl (\<lambda>idx i. sink recs i idx i) (replicate n 0) [0 ..< k]"
  have ih: "length idx = n" "sorted_wrt (before recs) (take k idx)" "mset (take k idx) = mset [0 ..< k]"
    using Suc by (simp_all add: idx_def Let_def)
  let ?P = "\<lambda>x. recs x < recs k" and ?xs = "take k idx"
  define ys where "ys = rev (dropWhile ?P (rev ?xs)) @ k # rev (takeWhile ?P (rev ?xs))"
  have parts: "mset (dropWhile ?P zs) + mset (takeWhile ?P zs) = mset zs" for zs
    by (metis mset_append takeWhile_dropWhile_id union_commute)
  have ys: "mset ys = add_mset k (mset ?xs)" using parts [of "rev ?xs"] by (simp add: ys_def)
  then have "length ys = Suc k" using ih(3) by (metis length_upt diff_zero size_add_mset size_mset)
  moreover have "sink recs k idx k = ys @ drop (Suc k) idx" using ih(1) Suc.prems by (simp add: sink_eq ys_def)
  moreover have "\<And>x. x \<in> set ?xs \<Longrightarrow> x < k" using ih(3) by (metis atLeastLessThan_iff set_mset_mset set_upt)
  ultimately show ?case
    using ih ys insert_before [OF ih(2), of k] Suc.prems by (simp add: idx_def [symmetric] Let_def ys_def [symmetric])
qed simp

lemma order_groups_perm:
  "mset (order_groups s) = mset [0 ..< length (st_groups s)]" "sorted_wrt (before (recs_of s)) (order_groups s)"
  "length (order_groups s) = length (st_groups s)"
proof -
  have "length (order_groups s) = length (st_groups s) \<and>
      sorted_wrt (before (recs_of s)) (take (length (st_groups s)) (order_groups s)) \<and>
      mset (take (length (st_groups s)) (order_groups s)) = mset [0 ..< length (st_groups s)]"
    using order_groups_upto [of "length (st_groups s)" "length (st_groups s)" "recs_of s"]
    unfolding order_groups_def Let_def by blast
  then show "mset (order_groups s) = mset [0 ..< length (st_groups s)]"
    "sorted_wrt (before (recs_of s)) (order_groups s)" "length (order_groups s) = length (st_groups s)"
    by (auto simp del: mset_upt)
qed

subsection \<open>Which groups are folded\<close>

lemma sum_of_order:
  fixes f :: "ntp_group \<Rightarrow> 'b :: comm_monoid_add"
  shows "(\<Sum>i\<leftarrow>order_groups s. f (st_groups s ! i)) = (\<Sum>g\<leftarrow>st_groups s. f g)"
proof -
  have "mset (map (\<lambda>i. f (st_groups s ! i)) (order_groups s)) =
      mset (map (\<lambda>i. f (st_groups s ! i)) [0 ..< length (st_groups s)])"
    by (simp only: mset_map order_groups_perm(1))
  then have "(\<Sum>i\<leftarrow>order_groups s. f (st_groups s ! i)) = (\<Sum>i\<leftarrow>[0 ..< length (st_groups s)]. f (st_groups s ! i))"
    by (metis sum_mset_sum_list)
  also have "map (\<lambda>i. f (st_groups s ! i)) [0 ..< length (st_groups s)] = map f (st_groups s)"
    by (rule nth_equalityI) simp_all
  finally show ?thesis .
qed

lemma total_records_sum: "total_records s = (\<Sum>g\<leftarrow>st_groups s. g_records g)"
proof -
  have "foldl (\<lambda>n g. n + g_records g) a gs = a + (\<Sum>g\<leftarrow>gs. g_records g)" for a and gs :: "ntp_group list"
    by (induction gs arbitrary: a) (simp_all add: add.assoc)
  then show ?thesis by (simp add: total_records_def)
qed

lemma unat_sum_list:
  "(\<Sum>x\<leftarrow>xs. unat x) < 2 ^ 64 \<Longrightarrow> unat (\<Sum>x\<leftarrow>xs. x :: u64) = (\<Sum>x\<leftarrow>xs. unat x)"
  by (induction xs) (simp_all add: unat_word_ariths take_bit_eq_mod)

lemma filter_down:
  assumes "\<And>i j. i \<le> j \<Longrightarrow> j < n \<Longrightarrow> P j \<Longrightarrow> P i"
  shows "\<exists>k \<le> n. filter P [0 ..< n] = [0 ..< k] \<and> filter (\<lambda>i. \<not> P i) [0 ..< n] = [k ..< n]"
  using assms
proof (induction n)
  case (Suc n)
  show ?case
  proof (cases "P n")
    case True
    then have "\<And>i. i < Suc n \<Longrightarrow> P i" using Suc.prems [of _ n] by simp
    then have "filter P [0 ..< Suc n] = [0 ..< Suc n]" "filter (\<lambda>i. \<not> P i) [0 ..< Suc n] = []"
      by (auto simp: filter_empty_conv simp del: upt_Suc intro!: filter_True)
    then show ?thesis by (intro exI [of _ "Suc n"]) simp
  next
    case False
    obtain k where "k \<le> n" "filter P [0 ..< n] = [0 ..< k]" "filter (\<lambda>i. \<not> P i) [0 ..< n] = [k ..< n]"
      using Suc.IH Suc.prems by (metis less_SucI)
    then show ?thesis using False by (intro exI [of _ k]) simp
  qed
qed simp

lemma minor_fold:
  "foldl (\<lambda>(n, r) i. if F i then (n + 1, r + f i) else (n, r)) (a, b) xs =
    (a + length (filter F xs), b + (\<Sum>i\<leftarrow>filter F xs. f i :: u64))" for a :: nat
  by (induction xs arbitrary: a b) (auto simp: add.assoc)

text \<open>With fewer than \<open>2 ^ 64 / 100\<close> records nothing wraps, and a group is folded exactly when its share is under 1 \<open>%\<close>.\<close>

definition few_records :: "ntp_stats \<Rightarrow> bool" where
  "few_records s \<longleftrightarrow> (\<Sum>g\<leftarrow>st_groups s. unat (g_records g)) * 100 < 2 ^ 64"

lemma folded_exact:
  assumes "few_records s" and "i < length (st_groups s)"
  shows "folded s (order_groups s) i (total_records s) o' \<longleftrightarrow> i \<noteq> 0 \<and> \<not> ro_all_groups o' \<and>
    unat (recs_of s (order_groups s ! i)) * 100 < (\<Sum>g\<leftarrow>st_groups s. unat (g_records g))"
proof -
  let ?S = "\<Sum>g\<leftarrow>st_groups s. unat (g_records g)" and ?k = "order_groups s ! i"
  have S: "?S * 100 < 2 ^ 64" using assms(1) by (simp add: few_records_def)
  have tot: "unat (total_records s) = ?S"
    using unat_sum_list [of "map g_records (st_groups s)"] S by (simp add: total_records_sum comp_def)
  have "?k \<in> set (order_groups s)" using assms(2) by (simp add: order_groups_perm(3))
  then have "?k \<in> set [0 ..< length (st_groups s)]" using order_groups_perm(1) [of s] by (metis set_mset_mset)
  then have "st_groups s ! ?k \<in> set (st_groups s)" by simp
  then have "unat (recs_of s ?k) \<le> ?S" unfolding recs_of_def by (intro member_le_sum_list) auto
  then have "unat (recs_of s ?k) * 100 < 2 ^ 64" using S by linarith
  then have "unat (recs_of s ?k * 100) = unat (recs_of s ?k) * 100"
    by (simp add: unat_word_ariths take_bit_eq_mod)
  then show ?thesis using tot by (simp add: folded_def MINOR_GROUP_PCT_def word_less_nat_alt)
qed

lemma folded_later:
  assumes "few_records s" and "i \<le> j" and "j < length (st_groups s)"
    and "folded s (order_groups s) i (total_records s) o'"
  shows "folded s (order_groups s) j (total_records s) o'"
proof (cases "i = j")
  case False
  then have "before (recs_of s) (order_groups s ! i) (order_groups s ! j)"
    using order_groups_perm(2,3) [of s] assms(2,3) by (simp add: sorted_wrt_iff_nth_less)
  then have "unat (recs_of s (order_groups s ! j)) \<le> unat (recs_of s (order_groups s ! i))"
    by (auto simp: before_def word_less_nat_alt)
  then show ?thesis using assms folded_exact [OF assms(1), of _ o'] by auto
qed (use assms in simp)

text \<open>The groups are shown with the most records first, and in the order of their first record among equals:
  the array of indexes is a permutation of the groups in exactly that order.\<close>

theorem order_groups_sorts:
  "mset (order_groups s) = mset [0 ..< length (st_groups s)] \<and>
   sorted_wrt (\<lambda>a b. g_records (st_groups s ! b) < g_records (st_groups s ! a) \<or>
     (g_records (st_groups s ! a) = g_records (st_groups s ! b) \<and> a < b)) (order_groups s)"
  using order_groups_perm(1,2) [of s] unfolding before_def recs_of_def by blast

text \<open>\<^bold>\<open>C30.\<close> The text report shows the largest groups and counts the others: what it prints is the beginning of that
  order, with every group of at least one record in a hundred and never empty when there is a group;
  its last line counts the rest, and the records of both parts are all records.\<close>

theorem report_text_partition:
  assumes "few_records s"
  shows "\<exists>k \<le> length (st_groups s). shown_groups s o' = take k (order_groups s) \<and>
    (st_groups s \<noteq> [] \<longrightarrow> 0 < k) \<and>
    (\<forall>i < length (st_groups s). (\<Sum>g\<leftarrow>st_groups s. unat (g_records g)) \<le> unat (recs_of s i) * 100 \<longrightarrow>
       i \<in> set (shown_groups s o')) \<and>
    fst (minor_counts s o') = length (st_groups s) - k \<and>
    (\<Sum>i\<leftarrow>shown_groups s o'. recs_of s i) + snd (minor_counts s o') = total_records s"
proof -
  let ?n = "length (st_groups s)" and ?idx = "order_groups s"
  let ?F = "\<lambda>i. folded s ?idx i (total_records s) o'"
  obtain k where k: "k \<le> ?n" "filter (\<lambda>i. \<not> ?F i) [0 ..< ?n] = [0 ..< k]" "filter ?F [0 ..< ?n] = [k ..< ?n]"
    using filter_down [of ?n "\<lambda>i. \<not> ?F i"] folded_later [OF assms] by (metis (no_types, lifting) filter_cong)
  have shown: "shown_groups s o' = take k ?idx"
    unfolding shown_groups_def Let_def k(2)
    using k(1) by (intro nth_equalityI) (simp_all add: order_groups_perm(3))
  have minor: "minor_counts s o' = (?n - k, \<Sum>i\<leftarrow>drop k ?idx. recs_of s i)"
  proof -
    have "map (\<lambda>i. recs_of s (?idx ! i)) [k ..< ?n] = map (recs_of s) (drop k ?idx)"
      by (rule nth_equalityI) (simp_all add: order_groups_perm(3))
    then show ?thesis using k(3) by (simp add: minor_counts_def Let_def minor_fold)
  qed
  have "\<not> ?F 0" by (simp add: folded_def)
  then have "st_groups s \<noteq> [] \<Longrightarrow> 0 \<in> set [0 ..< k]" unfolding k(2) [symmetric] by simp
  then have first: "st_groups s \<noteq> [] \<longrightarrow> 0 < k" by auto
  have major: "i \<in> set (take k ?idx)"
    if i: "i < ?n" "(\<Sum>g\<leftarrow>st_groups s. unat (g_records g)) \<le> unat (recs_of s i) * 100" for i
  proof -
    have "i \<in> set ?idx" using i(1) order_groups_perm(1) [of s] by (metis atLeastLessThan_iff le0 set_mset_mset set_upt)
    then obtain p where p: "p < ?n" "?idx ! p = i" by (metis in_set_conv_nth order_groups_perm(3))
    then have "\<not> ?F p" using folded_exact [OF assms p(1), of o'] i(2) by simp
    then have "p \<in> set [0 ..< k]" unfolding k(2) [symmetric] using p(1) by simp
    then show ?thesis using p k(1) by (auto simp: in_set_conv_nth order_groups_perm(3))
  qed
  have "(\<Sum>i\<leftarrow>take k ?idx. recs_of s i) + (\<Sum>i\<leftarrow>drop k ?idx. recs_of s i) = (\<Sum>i\<leftarrow>?idx. recs_of s i)"
    unfolding sum_list_append [symmetric] map_append [symmetric] by simp
  also have "\<dots> = total_records s" using sum_of_order [of g_records s] by (simp add: recs_of_def total_records_sum)
  finally show ?thesis using k(1) first major by (intro exI [of _ k]) (simp add: shown minor)
qed

definition ex_group :: "u32 \<Rightarrow> u64 \<Rightarrow> ntp_group" where
  "ex_group b n = (zero_group \<lparr>k_is_write = 0, k_bytes = b, k_session = []\<rparr>)\<lparr>g_records := n\<rparr>"

definition ex_stats :: ntp_stats where
  "ex_stats = (ntp_stats_init True True False)\<lparr>st_groups := [ex_group 512 3, ex_group 4096 1000, ex_group 8192 400]\<rparr>"

lemma ex_stats_order: "order_groups ex_stats = [1, 2, 0]"
  "shown_groups ex_stats (ntp_report_opts_from_config config_defaults) = [1, 2]"
  by code_simp+

lemma ex_stats_few: "length (st_groups ex_stats) = 3" "few_records ex_stats"
  by (simp_all add: ex_stats_def few_records_def ex_group_def)

theorem report_text_partition_witness:
  "shown_groups ex_stats (ntp_report_opts_from_config config_defaults) = [1, 2] \<and>
   fst (minor_counts ex_stats (ntp_report_opts_from_config config_defaults)) = 1"
proof -
  obtain k where k: "k \<le> 3" "[1, 2] = take k [1, 2, 0 :: nat]"
    "fst (minor_counts ex_stats (ntp_report_opts_from_config config_defaults)) = 3 - k"
    using report_text_partition [OF ex_stats_few(2), of "ntp_report_opts_from_config config_defaults"]
    unfolding ex_stats_few(1) ex_stats_order by blast
  then have "length [1, 2 :: nat] = min 3 k" by (metis length_take length_Cons list.size(3) numeral_3_eq_3)
  then show ?thesis using ex_stats_order(2) k by simp
qed

subsection \<open>The rows add up\<close>

lemma sum_comp_samples:
  assumes "list_all (\<lambda>(h, t). fst (ntp_breakdown h t) \<noteq> NTP_MODEL_INCOMPLETE_HOST) rs"
  shows "sum_list (concat (map (comp_sample c) rs)) = (\<Sum>(h, t)\<leftarrow>rs. comp_or_0 (snd (ntp_breakdown h t)) c)"
    and "sum_list (concat (map (stage_sample x) rs)) =
      (\<Sum>(h, t)\<leftarrow>rs. if ntp_stage_valid (snd (ntp_breakdown h t)) x then bd_stage (snd (ntp_breakdown h t)) x else 0)"
  using assms by (induction rs) (auto simp: comp_sample_def stage_sample_def comp_or_0_def split: prod.splits)

lemma unjoined_valid:
  assumes "fst (ntp_breakdown h t) \<noteq> NTP_MODEL_INCOMPLETE_HOST" and "\<not> bd_joined (snd (ntp_breakdown h t))"
  shows "ntp_comp_valid (snd (ntp_breakdown h t)) NTP_C_HOST_RX" "ntp_comp_valid (snd (ntp_breakdown h t)) NTP_C_REMOTE"
    "ntp_comp_valid (snd (ntp_breakdown h t)) NTP_C_E2E"
proof -
  have b: "snd (ntp_breakdown h t) = stages (host_half h)" using assms by (simp add: host_ok_if host_only_cases)
  show "ntp_comp_valid (snd (ntp_breakdown h t)) NTP_C_HOST_RX" "ntp_comp_valid (snd (ntp_breakdown h t)) NTP_C_E2E"
    using host_half_valid [of h] by (simp_all add: b)
  show "ntp_comp_valid (snd (ntp_breakdown h t)) NTP_C_REMOTE"
    by (cases "ntp_io_class_of h"; simp add: b host_half_def host_defs)
qed

text \<open>Records of the kernel's host drivers that all have a target side (\<open>j\<close>), or all lack it, and the block layer's start.\<close>

definition uniform :: "bool \<Rightarrow> (ntp_host_rec \<times> ntp_tgt_rec option) list \<Rightarrow> bool" where
  "uniform j rs \<longleftrightarrow> list_all (\<lambda>(h, t). fst (ntp_breakdown h t) \<noteq> NTP_MODEL_INCOMPLETE_HOST \<and>
     ntp_comp_valid (snd (ntp_breakdown h t)) NTP_C_BLK_SUB \<and> bd_joined (snd (ntp_breakdown h t)) = j \<and>
     \<not> host_flag h NTP_F_SPDK) rs"

lemma add_to_group_spdk_host:
  "g_spdk_host (add_to_group g rs) \<longleftrightarrow> g_spdk_host g \<or> list_ex (\<lambda>(h, t). host_flag h NTP_F_SPDK) rs"
proof (induction rs rule: rev_induct)
  case (snoc r rs)
  obtain h t where r: "r = (h, t)" by fastforce
  have "g_spdk_host (group_add g h t) \<longleftrightarrow> g_spdk_host g \<or> host_flag h NTP_F_SPDK" for g
    by (auto simp: group_add_def group_head_def group_counts_def group_samples_def group_queues_def push_queue_samples_def
        Let_def split: prod.split option.split)
  then show ?case using snoc by (auto simp: r add_to_group_def)
qed (simp add: add_to_group_def)

text \<open>The samples of the rows of one record.\<close>

definition rows_sample :: "bool \<Rightarrow> ntp_host_rec \<times> ntp_tgt_rec option \<Rightarrow> i64 list" where
  "rows_sample j r = stage_sample NTP_S1 r @ stage_sample NTP_S2 r @
     (if j then stage_sample NTP_S3_S5 r @ stage_sample NTP_S6 r @ stage_sample NTP_S7_S9 r
      else comp_sample NTP_C_HOST_RX r @ comp_sample NTP_C_HOST_WAIT r @ comp_sample NTP_C_REMOTE r)"

lemma row_samples:
  assumes "uniform j [r]"
  shows "sum_list (rows_sample j r) = sum_list (comp_sample NTP_C_E2E r)"
    and "length (comp_sample NTP_C_E2E r) = 1"
    and "length (stage_sample NTP_S3_S5 r) = (if j then 1 else 0)"
proof -
  obtain h t where r: "r = (h, t)" by fastforce
  obtain err b where b: "ntp_breakdown h t = (err, b)" by fastforce
  note samples = r b stage_sample_def comp_sample_def
  have ok: "err \<noteq> NTP_MODEL_INCOMPLETE_HOST" "ntp_comp_valid b NTP_C_BLK_SUB" "bd_joined b = j"
    using assms by (simp_all add: r b uniform_def)
  have e2e: "ntp_comp_valid b NTP_C_E2E"
    using path_sum_eq_e2e(1) [of h t] host_ok_if [of h t] ok(1) by (simp add: b)
  then show "length (comp_sample NTP_C_E2E r) = 1" by (simp add: samples)
  have stages: "j \<Longrightarrow> (\<forall>x. ntp_stage_valid b x) \<and> (\<Sum>x\<leftarrow>enum_class.enum. bd_stage b x) = bd_comp b NTP_C_E2E"
    using joined_stage_sum [of h t] ok by (simp add: b)
  note host = host_only_rows_sum [of h t, unfolded b fst_conv snd_conv, OF ok(1) _ ok(2)]
    unjoined_valid [of h t, unfolded b fst_conv snd_conv, OF ok(1)]
  show "length (stage_sample NTP_S3_S5 r) = (if j then 1 else 0)"
    using stages host(1) ok(3) by (auto simp: samples)
  show "sum_list (rows_sample j r) = sum_list (comp_sample NTP_C_E2E r)"
  proof (cases j)
    case True
    then show ?thesis using stages e2e by (simp add: rows_sample_def samples enum_ntp_stage_def algebra_simps)
  next
    case False
    then show ?thesis using host ok(3) e2e
      by (cases "ntp_comp_valid b NTP_C_HOST_WAIT") (simp_all add: rows_sample_def samples comp_or_0_def algebra_simps)
  qed
qed

lemma sums_of_rows:
  assumes "uniform j rs"
  shows "(\<Sum>r\<leftarrow>rs. sum_list (rows_sample j r)) = sum_list (concat (map (comp_sample NTP_C_E2E) rs))"
    and "length (concat (map (comp_sample NTP_C_E2E) rs)) = length rs"
    and "length (concat (map (stage_sample NTP_S3_S5) rs)) = (if j then length rs else 0)"
proof -
  have "r \<in> set rs \<Longrightarrow> uniform j [r]" for r using assms by (auto simp: uniform_def list_all_iff)
  note one = row_samples [OF this]
  have "sum_list (concat xss) = sum_list (map sum_list xss)" for xss :: "i64 list list"
    by (induction xss) simp_all
  then show "(\<Sum>r\<leftarrow>rs. sum_list (rows_sample j r)) = sum_list (concat (map (comp_sample NTP_C_E2E) rs))"
    using one(1) by (simp add: comp_def cong: map_cong)
  have lengths: "sum_list (map f rs) = n * length rs" if "\<And>r. r \<in> set rs \<Longrightarrow> f r = n" for f and n :: nat
    using that by (induction rs) simp_all
  show "length (concat (map (comp_sample NTP_C_E2E) rs)) = length rs"
    "length (concat (map (stage_sample NTP_S3_S5) rs)) = (if j then length rs else 0)"
    using lengths [OF one(2)] lengths [OF one(3)] by (simp_all add: length_concat comp_def)
qed

lemma sum_rows_sample:
  "(\<Sum>r\<leftarrow>rs. sum_list (rows_sample j r)) =
    sum_list (concat (map (stage_sample NTP_S1) rs)) + sum_list (concat (map (stage_sample NTP_S2) rs)) +
    (if j then sum_list (concat (map (stage_sample NTP_S3_S5) rs)) + sum_list (concat (map (stage_sample NTP_S6) rs)) +
         sum_list (concat (map (stage_sample NTP_S7_S9) rs))
     else sum_list (concat (map (comp_sample NTP_C_HOST_RX) rs)) + sum_list (concat (map (comp_sample NTP_C_HOST_WAIT) rs)) +
         sum_list (concat (map (comp_sample NTP_C_REMOTE) rs)))"
  by (induction rs) (auto simp: rows_sample_def algebra_simps)

text \<open>\<^bold>\<open>C29.\<close> The rows of the stage summary add up to the end-to-end latency, over the records of a group of which either all
  or none have a target side, for the kernel's host drivers and commands whose block-layer start was seen: the
  report then shows the target's stages exactly when they were recorded, and the samples of its rows sum to the
  end-to-end samples.\<close>

theorem stage_rows_add_up:
  fixes g :: ntp_group
  assumes "g = add_to_group (zero_group k) rs" and "uniform j rs" and "rs \<noteq> []"
  shows "group_joined g = j \<and>
    (\<Sum>row\<leftarrow>stage_rows g (group_joined g). sum_list (vec_v (sr_v row))) = sum_list (vec_v (g_comp g NTP_C_E2E))"
proof -
  have samples: "vec_v (g_comp g c) = concat (map (comp_sample c) rs)"
    "vec_v (g_stage g x) = concat (map (stage_sample x) rs)" for c x
    by (simp_all add: assms(1) add_to_group_samples zero_group_def)
  note sums = sums_of_rows [OF assms(2)]
  have joined: "group_joined g = j"
    using sums(2,3) assms(3) by (simp add: group_joined_def samples del: length_concat)
  have "\<not> g_spdk_host g"
    using assms(2) by (auto simp: assms(1) add_to_group_spdk_host zero_group_def uniform_def list_all_iff list_ex_iff)
  then have "(\<Sum>row\<leftarrow>stage_rows g j. sum_list (vec_v (sr_v row))) = (\<Sum>r\<leftarrow>rs. sum_list (rows_sample j r))"
    unfolding sum_rows_sample
    by (cases "vec_v (g_comp g NTP_C_HOST_WAIT) = []")
      (simp_all add: stage_rows_def srow_of_def Let_def add.assoc flip: samples)
  then show ?thesis using joined sums(1) by (simp add: samples)
qed

lemma ex_samples:
  "comp_sample NTP_C_E2E (ex_read, Some ex_tgt_read) = [170]"
  "map (\<lambda>x. stage_sample x (ex_read, Some ex_tgt_read)) [NTP_S1, NTP_S2, NTP_S3_S5, NTP_S6, NTP_S7_S9] = [[20], [45], [50], [15], [40]]"
  by code_simp+

definition ex_group_read :: ntp_group where
  "ex_group_read = add_to_group (zero_group \<lparr>k_is_write = 0, k_bytes = 4096, k_session = []\<rparr>)
     [(ex_read, Some ex_tgt_read), (ex_read, Some ex_tgt_read)]"

theorem stage_rows_add_up_witness:
  "group_joined ex_group_read \<and>
   (\<Sum>row\<leftarrow>stage_rows ex_group_read True. sum_list (vec_v (sr_v row))) = 340"
proof -
  have "uniform True [(ex_read, Some ex_tgt_read)]" by code_simp
  then have "uniform True [(ex_read, Some ex_tgt_read), (ex_read, Some ex_tgt_read)]" by (simp add: uniform_def)
  moreover have "sum_list (vec_v (g_comp ex_group_read NTP_C_E2E)) = 340"
    by (simp add: ex_group_read_def add_to_group_samples ex_samples(1) zero_group_def)
  ultimately have "group_joined ex_group_read = True"
    "(\<Sum>row\<leftarrow>stage_rows ex_group_read (group_joined ex_group_read). sum_list (vec_v (sr_v row))) = 340"
    using stage_rows_add_up [OF ex_group_read_def, of True] by auto
  then show ?thesis by (simp only: simp_thms)
qed

text \<open>The mean without rounding.\<close>

definition exact_mean :: "int list \<Rightarrow> rat" where
  "exact_mean xs = (if xs = [] then 0 else of_int (sum_list xs) / of_nat (length xs))"

lemma mean_exact: "mean_of (\<lambda>x. x) (\<lambda>x. x) vec = exact_mean (map sint (vec_v vec))"
proof -
  have "foldl (\<lambda>s x. s + of_int (sint x)) a v = a + of_int (\<Sum>x\<leftarrow>v. sint x)" for a :: rat and v :: "i64 list"
    by (induction v arbitrary: a) simp_all
  moreover have "(\<Sum>x\<leftarrow>sort_key sint (vec_v vec). sint x) = (\<Sum>x\<leftarrow>vec_v vec. sint x)"
    by (metis mset_map mset_sort sum_mset_sum_list)
  ultimately show ?thesis by (simp add: ntp_summarize_def exact_mean_def Let_def)
qed

text \<open>The same read, 300 ns slower, that has no target record.\<close>

definition ex_slow_read :: ntp_host_rec where
  "ex_slow_read = ex_read\<lparr>
     h_ts := (\<lambda>_. 0)(NTP_H_START := 100, NTP_H_QUEUE_RQ := 110, NTP_H_CMD_SENT := 120,
       NTP_H_C2H_ARR := 500, NTP_H_C2H_PROC := 510, NTP_H_C2H_DONE := 550,
       NTP_H_RSP_PROC := 560, NTP_H_BLK_DONE := 570)\<rparr>"

lemma ex_slow_samples:
  "comp_sample NTP_C_E2E (ex_slow_read, None) = [470]"
  "map (\<lambda>x. stage_sample x (ex_slow_read, None)) [NTP_S1, NTP_S2, NTP_S3_S5, NTP_S6, NTP_S7_S9] = [[20], [45], [], [], []]"
  "host_flag ex_slow_read NTP_F_SPDK = False" "host_flag ex_read NTP_F_SPDK = False"
  by code_simp+

definition ex_mixed :: ntp_group where
  "ex_mixed = add_to_group (zero_group \<lparr>k_is_write = 0, k_bytes = 4096, k_session = []\<rparr>)
     [(ex_read, Some ex_tgt_read), (ex_slow_read, None)]"

text \<open>
  In a group in which only some records have a target side the rows need not add up: their means
  are over different sets of records. Of two reads of 170 and 470 ns, the second without a target
  record, the rows add up to 170 ns where the end-to-end mean is 320 ns.
\<close>

theorem mixed_group_rows:
  "group_joined ex_mixed \<and>
   (\<Sum>row\<leftarrow>stage_rows ex_mixed (group_joined ex_mixed). mean_of (\<lambda>x. x) (\<lambda>x. x) (sr_v row)) = 170 \<and>
   mean_of (\<lambda>x. x) (\<lambda>x. x) (g_comp ex_mixed NTP_C_E2E) = 320"
proof -
  note samples = ex_mixed_def add_to_group_samples add_to_group_spdk_host zero_group_def
    ex_samples [simplified] ex_slow_samples [simplified]
  have e2e: "vec_v (g_comp ex_mixed NTP_C_E2E) = [170, 470]" by (simp add: samples)
  have joined: "group_joined ex_mixed = True" by (simp add: group_joined_def samples)
  have rows: "map (\<lambda>row. vec_v (sr_v row)) (stage_rows ex_mixed True) = [[20, 20], [45, 45], [50], [15], [40]]"
    by (simp add: stage_rows_def srow_of_def Let_def samples)
  have "map (\<lambda>row. mean_of (\<lambda>x. x) (\<lambda>x. x) (sr_v row)) (stage_rows ex_mixed True) =
      map (\<lambda>v. exact_mean (map sint v)) (map (\<lambda>row. vec_v (sr_v row)) (stage_rows ex_mixed True))"
    by (simp add: mean_exact comp_def)
  then show ?thesis by (simp add: rows e2e joined mean_exact exact_mean_def)
qed

subsection \<open>JSON strings\<close>

text \<open>What a JSON reader makes of the inside of a string: \<open>None\<close> when it is not one.\<close>

definition hex_val :: "char \<Rightarrow> nat option" where
  "hex_val c = (let d = of_char c in if 48 \<le> d \<and> d < 58 then Some (d - 48) else if 97 \<le> d \<and> d < 103 then Some (d - 87) else None)"

fun json_read :: "string \<Rightarrow> string option" where
  "json_read [] = None"
| "json_read (c # cs) =
    (if c = CHR 0x22 then if cs = [] then Some [] else None
     else if c = CHR 0x5C
     then (case cs of
             d # ds \<Rightarrow>
               if d = CHR 0x22 \<or> d = CHR 0x5C then map_option (Cons d) (json_read ds)
               else if d = CHR ''u''
               then (case ds of
                       a # b # x # y # zs \<Rightarrow>
                         (case (hex_val a, hex_val b, hex_val x, hex_val y) of
                            (Some 0, Some 0, Some m, Some n) \<Rightarrow> map_option (Cons (char_of (16 * m + n))) (json_read zs)
                          | _ \<Rightarrow> None)
                     | _ \<Rightarrow> None)
               else None
           | [] \<Rightarrow> None)
     else if of_char c < (0x20 :: nat) then None
     else map_option (Cons c) (json_read cs))"

lemma hex_val_digit: "d < 16 \<Longrightarrow> hex_val (hex_digit d) = Some d"
  by (auto simp: hex_val_def hex_digit_def Let_def)

lemma json_read_char: "json_read (json_char c @ cs) = map_option (Cons c) (json_read cs)"
proof (cases "of_char c < (0x20 :: nat)")
  case True
  let ?n = "of_char c :: nat"
  have "c \<noteq> CHR 0x22" "c \<noteq> CHR 0x5C" using True by auto
  moreover have "hex_val (hex_digit (?n div 16)) = Some (?n div 16)" "hex_val (hex_digit (?n mod 16)) = Some (?n mod 16)"
    using True by (simp_all add: hex_val_digit)
  moreover have "hex_val (CHR ''0'') = Some 0" by code_simp
  moreover have "char_of (16 * (?n div 16) + ?n mod 16) = c" by simp
  ultimately show ?thesis using True by (simp add: json_char_def)
qed (auto simp: json_char_def)

text \<open>
  A name that is written to JSON reads back as itself: the output is a string of JSON, with its quotes,
  backslashes and control characters escaped, and no other name gives the same output.
\<close>

theorem json_str_roundtrip: "hd (json_str s) = CHR 0x22 \<and> json_read (tl (json_str s)) = Some s"
proof -
  have "json_read (concat (map json_char s) @ [CHR 0x22]) = Some s"
    by (induction s) (simp_all add: json_read_char del: json_read.simps(2), simp add: json_read.simps)
  then show ?thesis by (simp add: json_str_def)
qed

end
