(* ===== verification/Recording.thy ===== *)
theory Recording
  imports Offline Report
begin

text \<open>
  The recording session (\<^verbatim>\<open>src/src/record.c\<close>): every record that the BPF programs emit is counted, written to
  the file, joined, and added to the statistics of the interval and of the whole run; at every tick
  host records that waited too long are given up, the interval is reported and starts anew. The
  recording runs in a child process, and the parent waits for what the child tells it.

  The rest of the system is a parameter: what a poll of the ring buffer delivers, with the clock
  and the counters after it, what the operating system takes of a write, and what the parent's
  calls return. Standard output is a list of chunks of fields; messages to standard error are left out.
\<close>

subsection \<open>The session\<close>

definition TARGET_EXPIRY_NS :: u64 where "TARGET_EXPIRY_NS = 10000000000"
definition TARGETS_PER_KEY :: nat where "TARGETS_PER_KEY = 64"
definition HOST_WAIT_NS :: u64 where "HOST_WAIT_NS = 100000000"
definition IDLE_HINT_NS :: u64 where "IDLE_HINT_NS = 5000000000"

record session =
  s_c :: ntp_config
  s_w :: ntp_writer
  s_writing :: bool
  s_write_errors :: u64
  s_joiner :: "ntp_joiner option"
  s_interval :: ntp_stats
  s_total :: ntp_stats
  s_host_records :: u64
  s_target_records :: u64
  s_malformed :: u64

definition add_host :: "ntp_host_rec \<Rightarrow> ntp_tgt_rec option \<Rightarrow> session \<Rightarrow> session" where
  "add_host h t s = s\<lparr>s_interval := ntp_stats_add (s_interval s) h t, s_total := ntp_stats_add (s_total s) h t\<rparr>"

definition add_unmatched :: "ntp_host_rec \<Rightarrow> session \<Rightarrow> session" where
  "add_unmatched h s = add_host h None s"

text \<open>One record of the ring buffer: its bytes, and how many of them a write to the file would take.\<close>

type_synonym delivery = "nat \<times> u8 list"

definition write_record :: "delivery \<Rightarrow> session \<Rightarrow> session" where
  "write_record = (\<lambda>(taken, data) s.
    if s_writing s
    then let (e, w) = ntp_writer_add taken (s_w s) data
         in s\<lparr>s_w := w, s_write_errors := s_write_errors s + of_bool (e \<noteq> 0)\<rparr>
    else s)"

definition host_record :: "ntp_host_rec \<Rightarrow> session \<Rightarrow> session" where
  "host_record h s =
    (case s_joiner s of
       None \<Rightarrow> add_host h None s
     | Some j \<Rightarrow>
         let (t, j) = ntp_joiner_host_arrives j h; s = s\<lparr>s_joiner := Some j\<rparr>
         in case t of None \<Rightarrow> s | Some t \<Rightarrow> add_host h (Some t) s)"

definition target_record :: "ntp_tgt_rec \<Rightarrow> session \<Rightarrow> session" where
  "target_record t s =
    (case s_joiner s of
       None \<Rightarrow> s
     | Some j \<Rightarrow>
         let (h, j) = ntp_joiner_target_arrives j t; s = s\<lparr>s_joiner := Some j\<rparr>
         in case h of None \<Rightarrow> s | Some h \<Rightarrow> add_host h (Some t) s)"

definition on_record :: "delivery \<Rightarrow> session \<Rightarrow> session" where
  "on_record d s =
    (let data = snd d; kind = hdr_kind (dec_rec_hdr data)
     in if kind = NTP_REC_HOST \<and> length data = HOST_REC_SIZE
        then write_record d (host_record (dec_host_rec data) (s\<lparr>s_host_records := s_host_records s + 1\<rparr>))
        else if kind = NTP_REC_TARGET \<and> length data = TGT_REC_SIZE
        then write_record d (target_record (dec_tgt_rec data) (s\<lparr>s_target_records := s_target_records s + 1\<rparr>))
        else s\<lparr>s_malformed := s_malformed s + 1\<rparr>)"

definition release :: "u64 \<Rightarrow> session \<Rightarrow> session" where
  "release limit s =
    (case s_joiner s of
       None \<Rightarrow> s
     | Some j \<Rightarrow>
         let (gone, j) = ntp_joiner_release_hosts j limit
         in foldl (\<lambda>s h. add_unmatched h s) (s\<lparr>s_joiner := Some j\<rparr>) gone)"

definition expire :: "u64 \<Rightarrow> session \<Rightarrow> session" where
  "expire limit s =
    (case s_joiner s of None \<Rightarrow> s | Some j \<Rightarrow> s\<lparr>s_joiner := Some (snd (ntp_joiner_expire j limit))\<rparr>)"

subsection \<open>Counters and throughput\<close>

type_synonym counter_values = "ntp_counter \<Rightarrow> u64"

definition has_host :: "ntp_config \<Rightarrow> bool" where "has_host c \<longleftrightarrow> cf_role c \<noteq> NTP_ROLE_TARGET"
definition has_target :: "ntp_config \<Rightarrow> bool" where "has_target c \<longleftrightarrow> cf_role c \<noteq> NTP_ROLE_HOST"

text \<open>\<^verbatim>\<open>seconds\<close> is not set here.\<close>

definition read_tput :: "ntp_config \<Rightarrow> counter_values \<Rightarrow> ntp_tput" where
  "read_tput c cnt =
    \<lparr>tp_seconds = 0, tp_read_ios = cnt NTP_CNT_HOST_READ_IOS, tp_read_bytes = cnt NTP_CNT_HOST_READ_BYTES,
     tp_write_ios = cnt NTP_CNT_HOST_WRITE_IOS, tp_write_bytes = cnt NTP_CNT_HOST_WRITE_BYTES,
     tp_estimated = (cf_spdk_host c \<noteq> [])\<rparr>"

definition tput_delta :: "ntp_tput \<Rightarrow> ntp_tput \<Rightarrow> rat \<Rightarrow> ntp_tput" where
  "tput_delta now prev seconds =
    \<lparr>tp_seconds = seconds, tp_read_ios = tp_read_ios now - tp_read_ios prev,
     tp_read_bytes = tp_read_bytes now - tp_read_bytes prev,
     tp_write_ios = tp_write_ios now - tp_write_ios prev,
     tp_write_bytes = tp_write_bytes now - tp_write_bytes prev, tp_estimated = tp_estimated now\<rparr>"

definition commands_seen :: "ntp_config \<Rightarrow> counter_values \<Rightarrow> u64" where
  "commands_seen c cnt =
    (if has_host c then cnt NTP_CNT_HOST_READ_IOS + cnt NTP_CNT_HOST_WRITE_IOS else cnt NTP_CNT_TGT_CMDS)"

definition print_counters_verbose :: "counter_values \<Rightarrow> session \<Rightarrow> field list" where
  "print_counters_verbose cnt s =
    [Txt ''records: host '', Cnt (unat (s_host_records s)), Txt '', target '', Cnt (unat (s_target_records s))] @
    (if has_host (s_c s) then [Txt '' | host sampled '', Cnt (unat (cnt NTP_CNT_HOST_SAMPLED))] else []) @
    (if has_target (s_c s)
     then if cf_spdk_target (s_c s) \<noteq> []
          then [Txt '' | target commands ~'', Cnt (unat (cnt NTP_CNT_TGT_CMDS)), Txt '' (estimated), sampled '', Cnt (unat (cnt NTP_CNT_TGT_SAMPLED))]
          else [Txt '' | target commands '', Cnt (unat (cnt NTP_CNT_TGT_CMDS)), Txt '', sampled '', Cnt (unat (cnt NTP_CNT_TGT_SAMPLED))]
     else []) @
    [Txt '' | lost: ring buffer '', Cnt (unat (cnt NTP_CNT_RB_DROPS)), Txt '', map full '', Cnt (unat (cnt NTP_CNT_MAP_FULL)),
     Txt '', stale '', Cnt (unat (cnt NTP_CNT_STALE)), newline] @
    (case s_joiner s of
       None \<Rightarrow> []
     | Some j \<Rightarrow>
         [Txt ''join: '', Cnt (unat (matched (jn_st j))), Txt '' matched, '', Cnt (unat (host_unmatched (jn_st j))),
          Txt '' host records without target, '', Cnt (unat (ntp_joiner_pending j)), Txt '' target records waiting, '',
          Cnt (unat (targets_evicted (jn_st j) + targets_expired (jn_st j))), Txt '' dropped'', newline]) @
    (if s_malformed s \<noteq> 0 then [Txt ''malformed records: '', Cnt (unat (s_malformed s)), newline] else [])"

definition print_counters :: "(rat \<Rightarrow> rat) \<Rightarrow> bool \<Rightarrow> counter_values \<Rightarrow> session \<Rightarrow> field list" where
  "print_counters rnd ntp_verbose cnt s =
    (let drops = cnt NTP_CNT_RB_DROPS; stale = cnt NTP_CNT_STALE;
         sampled = cnt NTP_CNT_HOST_SAMPLED + cnt NTP_CNT_TGT_SAMPLED
     in if ntp_verbose then newline # print_counters_verbose cnt s
        else
          [newline, Txt ''records:''] @
          (if has_host (s_c s) then [Txt '' '', Cnt (unat (s_host_records s)), Txt '' host''] else []) @
          (if has_target (s_c s)
           then [Txt (if has_host (s_c s) then '','' else []), Txt '' '', Cnt (unat (s_target_records s)), Txt '' target''] else []) @
          (case s_joiner s of
             None \<Rightarrow> []
           | Some j \<Rightarrow>
               [Txt ''; '', Cnt (unat (matched (jn_st j))), Txt '' matched ('',
                Fix 0 (if s_host_records s \<noteq> 0
                       then rnd (rnd (100 * rnd (of_nat (unat (matched (jn_st j))))) / rnd (of_nat (unat (s_host_records s)))) else 0),
                Txt '' % of the host's)'']) @
          [newline] @
          (if drops \<noteq> 0 then [Txt ''warning: '', Cnt (unat drops), Txt '' records lost, the ring buffer was full: sample fewer commands (-s)'', newline] else []) @
          (if stale * 100 > sampled
           then [Txt ''note: '', Cnt (unat stale), 
                Txt '' records were replaced before their command completed (aborted commands, or many commands in flight)'', newline] else []) @
          (if s_malformed s \<noteq> 0 then [Txt ''warning: '', Cnt (unat (s_malformed s)), Txt '' malformed records ignored'', newline] else []))"

text \<open>\<open>ok\<close>: closing the file succeeds.\<close>

definition close_writer :: "bool \<Rightarrow> int \<Rightarrow> session \<Rightarrow> int \<times> session" where
  "close_writer ok ret s =
    (if \<not> s_writing s then (ret, s)
     else
       let s = s\<lparr>s_writing := False\<rparr>;
           (e, w) = ntp_writer_close ok (s_w s);
           s = s\<lparr>s_w := w\<rparr>
       in if e \<noteq> 0 \<or> s_write_errors s \<noteq> 0 then (EXIT_FAILURE, s) else (ret, s))"

subsection \<open>The recording loop\<close>

definition secs :: "(rat \<Rightarrow> rat) \<Rightarrow> u64 \<Rightarrow> rat" where
  "secs rnd ns = rnd (rnd (of_nat (unat ns)) / 1000000000)"

record loop_state =
  l_s :: session
  l_start :: u64
  l_prev_tick :: u64
  l_next_tick :: u64
  l_prev_tput :: ntp_tput
  l_idle_hint :: bool
  l_header :: bool
  l_ret :: int
  l_out :: "field list list"

text \<open>One poll of the ring buffer: its result, what it delivers, the clock and the counters after it.\<close>

record ring_poll =
  po_err :: int
  po_recs :: "delivery list"
  po_now :: u64
  po_cnt :: counter_values

definition print_interval ::
  "(rat \<Rightarrow> rat) \<Rightarrow> (rat \<Rightarrow> rat) \<Rightarrow> ntp_config \<Rightarrow> ntp_report_opts \<Rightarrow> loop_state \<Rightarrow> u64 \<Rightarrow> ntp_tput \<Rightarrow> field list" where
  "print_interval rnd rndl c ro l now delta =
    (if ro_detail ro
     then [newline, Txt ''--- interval '', Fix 1 (secs rnd (l_prev_tick l - l_start l)), Txt ''-'', Fix 1 (secs rnd (now - l_start l)),
           Txt '' s ---'', newline] @
          (if cf_rep_throughput c then ntp_report_tput rnd delta else []) @
          ntp_report_text rnd rndl (s_interval (l_s l)) ro
     else (if l_header l then []
           else [Txt ''every '', Cnt (unat (cf_interval_s c)), Txt '' s, per group: sampled commands, rate, latency, and each stage's share of the mean'',
                 Txt (if has_target c then [] else '' (*: network and target together; the target's side is not recorded)''), newline] @ ntp_report_interval_header) @
          ntp_report_interval rnd rndl (s_interval (l_s l)) ro (secs rnd (now - l_start l)))"

text \<open>What a tick does: give up waiting, report the interval, start the next one.\<close>

definition tick ::
  "(rat \<Rightarrow> rat) \<Rightarrow> (rat \<Rightarrow> rat) \<Rightarrow> ntp_config \<Rightarrow> ntp_report_opts \<Rightarrow> u64 \<Rightarrow> counter_values \<Rightarrow> loop_state \<Rightarrow> loop_state" where
  "tick rnd rndl c ro now cnt l =
    (let l = l\<lparr>l_s := expire (now - TARGET_EXPIRY_NS) (release (now - HOST_WAIT_NS) (l_s l))\<rparr>;
         l = (if cf_online c \<and> has_host c
              then
                let cur = read_tput c cnt;
                    delta = tput_delta cur (l_prev_tput l) (secs rnd (now - l_prev_tick l))
                in l\<lparr>l_out := l_out l @ [print_interval rnd rndl c ro l now delta],
                     l_header := (l_header l \<or> \<not> ro_detail ro), l_prev_tput := cur\<rparr>
              else l)
     in l\<lparr>l_s := (l_s l)\<lparr>s_interval := ntp_stats_reset (s_interval (l_s l))\<rparr>, l_prev_tick := now\<rparr>)"

definition interval_ns :: "ntp_config \<Rightarrow> u64" where
  "interval_ns c = ucast (cf_interval_s c) * 1000000000"

definition on_records :: "delivery list \<Rightarrow> session \<Rightarrow> session" where
  "on_records ds s = foldl (\<lambda>s d. on_record d s) s ds"

text \<open>The loop over the polls; it also ends with the list, when a signal has set \<^verbatim>\<open>stop\<close>.\<close>

fun record_loop ::
  "(rat \<Rightarrow> rat) \<Rightarrow> (rat \<Rightarrow> rat) \<Rightarrow> ntp_config \<Rightarrow> ntp_report_opts \<Rightarrow> ring_poll list \<Rightarrow> loop_state \<Rightarrow> loop_state" where
  "record_loop rnd rndl c ro [] l = l"
| "record_loop rnd rndl c ro (p # ps) l =
    (let l = l\<lparr>l_s := on_records (po_recs p) (l_s l)\<rparr>; now = po_now p
     in if po_err p < 0 then l\<lparr>l_ret := EXIT_FAILURE\<rparr>
        else if cf_duration_s c \<noteq> 0 \<and> now - l_start l \<ge> ucast (cf_duration_s c) * 1000000000 then l
        else
          let l = l\<lparr>l_idle_hint := (l_idle_hint l \<or> now - l_start l \<ge> IDLE_HINT_NS)\<rparr>
          in if now < l_next_tick l then record_loop rnd rndl c ro ps l
             else record_loop rnd rndl c ro ps (tick rnd rndl c ro now (po_cnt p) (l\<lparr>l_next_tick := l_next_tick l + interval_ns c\<rparr>)))"

text \<open>
  What the system does over one recording: the clocks and names that go to the file's header, whether the BPF programs load, whether the file can be
  created and takes its header, the clock and the counters at the start, the polls, the clock and the counters
  at the end, what the last polls deliver and the counters after them, and whether the JSON file
  can be written and the record file closed.
\<close>

record rec_env =
  re_mono :: u64
  re_real :: u64
  re_hostname :: "u8 list option"
  re_release :: "u8 list option"
  re_loaded :: bool
  re_created :: bool
  re_taken :: nat
  re_start :: u64
  re_cnt_start :: counter_values
  re_polls :: "ring_poll list"
  re_end :: u64
  re_cnt_end :: counter_values
  re_drain :: "delivery list"
  re_cnt :: counter_values
  re_json_ok :: bool
  re_closed :: bool

primrec role_code :: "ntp_role \<Rightarrow> u32" where
  "role_code NTP_ROLE_HOST = 1" | "role_code NTP_ROLE_TARGET = 2" | "role_code NTP_ROLE_BOTH = 3"

definition record_header :: "ntp_config \<Rightarrow> rec_env \<Rightarrow> ntp_file_header" where
  "record_header c e = ntp_header_init (role_code (cf_role c)) (ucast (cf_transport c)) (cf_sample_every c)
     (re_mono e) (re_real e) (re_hostname e) (re_release e)"

definition session_init :: "ntp_config \<Rightarrow> session" where
  "session_init c =
    (let st = (stats_for c)\<lparr>st_sample_every := cf_sample_every c\<rparr>
     in \<lparr>s_c = c, s_w = \<lparr>w_f = None, w_records = 0\<rparr>, s_writing = False, s_write_errors = 0,
         s_joiner = (if cf_role c = NTP_ROLE_BOTH then Some (ntp_joiner_new TARGETS_PER_KEY) else None),
         s_interval = st, s_total = st, s_host_records = 0, s_target_records = 0, s_malformed = 0\<rparr>)"

text \<open>The recording up to the end of the drain: everything that was received is in the session.\<close>

definition record_session :: "(rat \<Rightarrow> rat) \<Rightarrow> (rat \<Rightarrow> rat) \<Rightarrow> ntp_config \<Rightarrow> rec_env \<Rightarrow> session \<Rightarrow> loop_state" where
  "record_session rnd rndl c e s =
    (let l = record_loop rnd rndl c (ntp_report_opts_from_config c) (re_polls e)
           \<lparr>l_s = s, l_start = re_start e, l_prev_tick = re_start e, l_next_tick = re_start e + interval_ns c,
            l_prev_tput = read_tput c (re_cnt_start e), l_idle_hint = False, l_header = False, l_ret = EXIT_SUCCESS, l_out = []\<rparr>
     in l\<lparr>l_s := release (-1) (on_records (re_drain e) (l_s l))\<rparr>)"

text \<open>
  The exit status, the session before its file is closed, and the output. \<open>None\<close>: the programs did not load or
  the file could not be created.
\<close>

definition record_run ::
  "(rat \<Rightarrow> rat) \<Rightarrow> (rat \<Rightarrow> rat) \<Rightarrow> bool \<Rightarrow> ntp_config \<Rightarrow> rec_env \<Rightarrow> int \<times> (session \<times> field list list) option" where
  "record_run rnd rndl ntp_verbose c e =
    (let ro = ntp_report_opts_from_config c; s = session_init c;
         (opened, w) = ntp_writer_open (re_created e) (re_taken e) (record_header c e)
     in if \<not> re_loaded e then (EXIT_FAILURE, None)
        else if cf_output c \<noteq> [] \<and> opened \<noteq> 0 then (EXIT_FAILURE, None)
        else
          let s = (if cf_output c \<noteq> [] then s\<lparr>s_w := w, s_writing := True\<rparr> else s);
              l = record_session rnd rndl c e s;
              s = l_s l;
              delta = tput_delta (read_tput c (re_cnt_end e)) (read_tput c (re_cnt_start e)) (secs rnd (re_end e - re_start e));
              report = (if has_host c
                then [[newline, Txt ''=== '', Fix 1 (secs rnd (re_end e - re_start e)), Txt '' s, one command in '',
                       Cnt (unat (cf_sample_every c)), Txt '' sampled ==='', newline] @
                      (if cf_rep_throughput c then ntp_report_tput rnd delta else []) @ ntp_report_text rnd rndl (s_total s) ro]
                else []);
              ret = (if has_host c \<and> cf_json c \<noteq> [] \<and> \<not> re_json_ok e then EXIT_FAILURE else l_ret l);
              counters = print_counters rnd ntp_verbose (re_cnt e) s;
              hint = (if cf_role c = NTP_ROLE_TARGET \<and> cf_output c \<noteq> []
                then [[Txt ''report: ntprof report HOST.ntp '', Txt (cf_output c), Txt '' (the host's recording, same -s)'', newline]] else [])
          in (fst (close_writer (re_closed e) ret s), Some (s, l_out l @ report @ [counters] @ hint)))"

subsection \<open>What a session adds to the statistics\<close>

text \<open>The record in the bytes of a delivery, unless they are malformed, and the joiner's call it makes.\<close>

definition rec_in :: "delivery \<Rightarrow> ntp_rec list" where
  "rec_in = (\<lambda>(taken, data). let kind = hdr_kind (dec_rec_hdr data)
    in if kind = NTP_REC_HOST \<and> length data = HOST_REC_SIZE then [Host_rec (dec_host_rec data)]
       else if kind = NTP_REC_TARGET \<and> length data = TGT_REC_SIZE then [Tgt_rec (dec_tgt_rec data)] else [])"

abbreviation recs_in :: "delivery list \<Rightarrow> ntp_rec list" where
  "recs_in ds \<equiv> concat (map rec_in ds)"

fun arrival :: "ntp_rec \<Rightarrow> jcall" where
  "arrival (Host_rec h) = HostArrives h" | "arrival (Tgt_rec t) = TargetArrives t"

fun counted :: "jout \<Rightarrow> ntp_host_rec \<times> ntp_tgt_rec option" where
  "counted (Joined h t) = (h, Some t)" | "counted (Alone h) = (h, None)"

text \<open>
  What the calls add, and the joiner after them: without a joiner every host record counts on its own
  as it comes.
\<close>

definition joined_by :: "ntp_joiner option \<Rightarrow> jcall list \<Rightarrow> (ntp_host_rec \<times> ntp_tgt_rec option) list \<times> ntp_joiner option" where
  "joined_by jo cs =
    (case jo of
       None \<Rightarrow> (map (\<lambda>h. (h, None)) (concat (map Joiner.host_of cs)), None)
     | Some j \<Rightarrow> let (os, j) = jrun cs j in (map counted os, Some j))"

text \<open>A session that has added \<open>rs\<close> to both statistics, with \<open>cs\<close> the calls it made.\<close>

definition advances :: "jcall list \<Rightarrow> session \<Rightarrow> session \<Rightarrow> (ntp_host_rec \<times> ntp_tgt_rec option) list \<Rightarrow> bool" where
  "advances cs s s' rs \<longleftrightarrow> joined_by (s_joiner s) cs = (rs, s_joiner s') \<and>
     s_total s' = add_recs (s_total s) rs \<and> s_interval s' = add_recs (s_interval s) rs \<and> s_c s' = s_c s"

lemma add_recs_simps [simp]: "add_recs s [] = s" "add_recs s ((h, t) # rs) = add_recs (ntp_stats_add s h t) rs"
  "add_recs s (rs @ rs') = add_recs (add_recs s rs) rs'"
  by (simp_all add: add_recs_def)

lemma jrun_append: "jrun (cs @ cs') j = (let (os, j) = jrun cs j; (os', j) = jrun cs' j in (os @ os', j))"
  by (induction cs arbitrary: j) (auto simp: Let_def split: prod.split)

lemma advances_refl: "advances [] s s []"
  by (simp add: advances_def joined_by_def split: option.split)

lemma advances_trans:
  "advances cs s s' rs \<Longrightarrow> advances cs' s' s'' rs' \<Longrightarrow> advances (cs @ cs') s s'' (rs @ rs')"
  by (auto simp: advances_def joined_by_def jrun_append Let_def split: option.splits prod.splits)

lemma write_frame [simp]:
  "s_joiner (write_record d s) = s_joiner s" "s_total (write_record d s) = s_total s"
  "s_interval (write_record d s) = s_interval s" "s_c (write_record d s) = s_c s"
  "s_host_records (write_record d s) = s_host_records s" "s_target_records (write_record d s) = s_target_records s"
  "s_malformed (write_record d s) = s_malformed s" "s_writing (write_record d s) = s_writing s"
  by (auto simp: write_record_def Let_def split: prod.split)

lemma write_advances: "advances cs s0 (write_record d s) rs \<longleftrightarrow> advances cs s0 s rs"
  by (simp add: advances_def)

lemma host_record_advances: "\<exists>rs. advances [HostArrives h] s (host_record h s) rs"
  by (cases "s_joiner s") (auto simp: host_record_def advances_def joined_by_def add_host_def Let_def split: option.split prod.split)

lemma target_record_advances: "\<exists>rs. advances [TargetArrives t] s (target_record t s) rs"
  by (cases "s_joiner s") (auto simp: target_record_def advances_def joined_by_def add_host_def Let_def split: option.split prod.split)

lemma counts_advance:
  "advances cs (s\<lparr>s_host_records := n\<rparr>) s' rs \<longleftrightarrow> advances cs s s' rs"
  "advances cs (s\<lparr>s_target_records := n\<rparr>) s' rs \<longleftrightarrow> advances cs s s' rs"
  "advances cs s (s'\<lparr>s_malformed := n\<rparr>) rs \<longleftrightarrow> advances cs s s' rs"
  by (simp_all add: advances_def)

lemma on_record_advances: "\<exists>rs. advances (map arrival (rec_in d)) s (on_record d s) rs"
  using host_record_advances [of "dec_host_rec (snd d)" "s\<lparr>s_host_records := s_host_records s + 1\<rparr>"]
    target_record_advances [of "dec_tgt_rec (snd d)" "s\<lparr>s_target_records := s_target_records s + 1\<rparr>"] advances_refl [of s]
  by (auto simp: on_record_def rec_in_def Let_def write_advances counts_advance case_prod_unfold)

lemma on_records_advances: "\<exists>rs. advances (map arrival (recs_in ds)) s (on_records ds s) rs"
proof (induction ds arbitrary: s)
  case (Cons d ds)
  then show ?case using on_record_advances [of d s] advances_trans unfolding on_records_def
    by (fastforce simp: on_records_def)
qed (auto simp: on_records_def intro: advances_refl)

lemma release_advances: "\<exists>rs. advances [ReleaseHosts b] s (release b s) rs"
proof (cases "s_joiner s")
  case (Some j)
  obtain gone j' where r: "ntp_joiner_release_hosts j b = (gone, j')" by fastforce
  have "foldl (\<lambda>s h. add_unmatched h s) s' hs =
      s'\<lparr>s_interval := add_recs (s_interval s') (map (\<lambda>h. (h, None)) hs), s_total := add_recs (s_total s') (map (\<lambda>h. (h, None)) hs)\<rparr>"
    for s' hs by (induction hs arbitrary: s') (simp_all add: add_unmatched_def add_host_def)
  then show ?thesis using Some r by (simp add: release_def advances_def joined_by_def comp_def)
qed (simp add: release_def advances_def joined_by_def)

lemma expire_advances: "advances [Expire b] s (expire b s) []"
  by (auto simp: expire_def advances_def joined_by_def split: option.split)

text \<open>The deliveries of the polls up to the one that ends the loop.\<close>

fun polled :: "ntp_config \<Rightarrow> u64 \<Rightarrow> ring_poll list \<Rightarrow> delivery list" where
  "polled c start [] = []"
| "polled c start (p # ps) = po_recs p @
    (if po_err p < 0 \<or> (cf_duration_s c \<noteq> 0 \<and> po_now p - start \<ge> ucast (cf_duration_s c) * 1000000000) then []
     else polled c start ps)"

definition received :: "ntp_config \<Rightarrow> rec_env \<Rightarrow> delivery list" where
  "received c e = polled c (re_start e) (re_polls e) @ re_drain e"

subsection \<open>The loop\<close>

abbreviation hosts_given :: "jcall list \<Rightarrow> ntp_host_rec list" where
  "hosts_given cs \<equiv> concat (map Joiner.host_of cs)"

abbreviation targets_given :: "jcall list \<Rightarrow> ntp_tgt_rec list" where
  "targets_given cs \<equiv> concat (map target_of cs)"

lemma given_arrivals: "hosts_given (map arrival rs) = hosts_of rs" "targets_given (map arrival rs) = targets_of rs"
proof -
  have "Joiner.host_of (arrival r) = host_of r" "target_of (arrival r) = tgt_of r" for r by (cases r; simp)+
  then show "hosts_given (map arrival rs) = hosts_of rs" "targets_given (map arrival rs) = targets_of rs"
    by (simp_all add: hosts_of_def targets_of_def comp_def)
qed

lemmas given_simps [simp] = given_arrivals given_arrivals [unfolded map_map]

lemma of_append [simp]: "hosts_of (rs @ rs') = hosts_of rs @ hosts_of rs'" "targets_of (rs @ rs') = targets_of rs @ targets_of rs'"
  "hosts_of [] = []" "targets_of [] = []"
  by (simp_all add: hosts_of_def targets_of_def)

text \<open>What is received and written; only a record that arrives changes it.\<close>

definition same_books :: "session \<Rightarrow> session \<Rightarrow> bool" where
  "same_books s s' \<longleftrightarrow> s_w s' = s_w s \<and> s_writing s' = s_writing s \<and> s_write_errors s' = s_write_errors s \<and>
     s_host_records s' = s_host_records s \<and> s_target_records s' = s_target_records s \<and> s_malformed s' = s_malformed s"

lemma release_books: "same_books s (release b s)"
proof -
  have "same_books s' (foldl (\<lambda>s h. add_unmatched h s) s' hs)" for s' hs
    by (induction hs arbitrary: s') (auto simp: same_books_def add_unmatched_def add_host_def)
  then show ?thesis by (auto simp: release_def same_books_def Let_def split: option.split prod.split)
qed

lemma expire_books: "same_books s (expire b s)"
  by (simp add: expire_def same_books_def split: option.split)

lemma tick_advances:
  "\<exists>s rs. same_books (l_s l) s \<and> advances [ReleaseHosts (now - HOST_WAIT_NS), Expire (now - TARGET_EXPIRY_NS)] (l_s l) s rs \<and>
     l_s (tick rnd rndl c ro now cnt l) = s\<lparr>s_interval := ntp_stats_reset (s_interval s)\<rparr> \<and>
     l_start (tick rnd rndl c ro now cnt l) = l_start l \<and> l_prev_tick (tick rnd rndl c ro now cnt l) = now \<and>
     l_out (tick rnd rndl c ro now cnt l) = l_out l @
       (if cf_online c \<and> has_host c
        then [print_interval rnd rndl c ro (l\<lparr>l_s := s\<rparr>) now
                (tput_delta (read_tput c cnt) (l_prev_tput l) (secs rnd (now - l_prev_tick l)))]
        else [])"
proof -
  obtain rs where "advances [ReleaseHosts (now - HOST_WAIT_NS)] (l_s l) (release (now - HOST_WAIT_NS) (l_s l)) rs"
    using release_advances by blast
  from advances_trans [OF this expire_advances [of "now - TARGET_EXPIRY_NS"]] show ?thesis
    by (intro exI [of _ "expire (now - TARGET_EXPIRY_NS) (release (now - HOST_WAIT_NS) (l_s l))"] exI [of _ rs])
      (use release_books [of "l_s l"] expire_books in \<open>simp add: tick_def Let_def same_books_def\<close>)
qed

text \<open>The part of \<^const>\<open>advances\<close> that the start of an interval leaves alone.\<close>

definition adds_total :: "jcall list \<Rightarrow> session \<Rightarrow> session \<Rightarrow> (ntp_host_rec \<times> ntp_tgt_rec option) list \<Rightarrow> bool" where
  "adds_total cs s s' rs \<longleftrightarrow> joined_by (s_joiner s) cs = (rs, s_joiner s') \<and> s_total s' = add_recs (s_total s) rs"

lemma adds_total_trans:
  "adds_total cs s s' rs \<Longrightarrow> adds_total cs' s' s'' rs' \<Longrightarrow> adds_total (cs @ cs') s s'' (rs @ rs')"
  by (auto simp: adds_total_def joined_by_def jrun_append Let_def split: option.splits prod.splits)

lemma advances_total: "advances cs s s' rs \<Longrightarrow> adds_total cs s s' rs"
  by (simp add: advances_def adds_total_def)

text \<open>The three ways a poll can go: it is the last, it comes before the next tick, or it makes one.\<close>

lemma loop_step:
  obtains (last) "l_s (record_loop rnd rndl c ro (p # ps) l) = on_records (po_recs p) (l_s l)"
      "l_out (record_loop rnd rndl c ro (p # ps) l) = l_out l" "polled c (l_start l) (p # ps) = po_recs p"
  | (wait) l' where "record_loop rnd rndl c ro (p # ps) l = record_loop rnd rndl c ro ps l'"
      "l_s l' = on_records (po_recs p) (l_s l)" "l_start l' = l_start l" "l_prev_tick l' = l_prev_tick l" "l_out l' = l_out l"
      "polled c (l_start l) (p # ps) = po_recs p @ polled c (l_start l) ps"
  | (tick) l' l'' s rs delta where "record_loop rnd rndl c ro (p # ps) l = record_loop rnd rndl c ro ps l'"
      "advances [ReleaseHosts (po_now p - HOST_WAIT_NS), Expire (po_now p - TARGET_EXPIRY_NS)]
         (on_records (po_recs p) (l_s l)) s rs" "same_books (on_records (po_recs p) (l_s l)) s"
      "l_s l' = s\<lparr>s_interval := ntp_stats_reset (s_interval s)\<rparr>"
      "l_start l' = l_start l" "l_prev_tick l' = po_now p"
      "l_out l' = l_out l @ (if cf_online c \<and> has_host c then [print_interval rnd rndl c ro l'' (po_now p) delta] else [])"
      "l_s l'' = s" "l_start l'' = l_start l" "l_prev_tick l'' = l_prev_tick l"
      "polled c (l_start l) (p # ps) = po_recs p @ polled c (l_start l) ps"
proof -
  let ?stops = "po_err p < 0 \<or> (cf_duration_s c \<noteq> 0 \<and> po_now p - l_start l \<ge> ucast (cf_duration_s c) * 1000000000)"
  let ?l = "l\<lparr>l_s := on_records (po_recs p) (l_s l), l_idle_hint := (l_idle_hint l \<or> po_now p - l_start l \<ge> IDLE_HINT_NS)\<rparr>"
  let ?l1 = "?l\<lparr>l_next_tick := l_next_tick l + interval_ns c\<rparr>"
  show ?thesis
  proof (cases ?stops)
    case True
    then show ?thesis by (intro last) (auto simp: Let_def)
  next
    case go: False
    show ?thesis
    proof (cases "po_now p < l_next_tick l")
      case True
      then show ?thesis using go by (intro wait [of ?l]) (auto simp: Let_def)
    next
      case False
      have step: "record_loop rnd rndl c ro (p # ps) l = record_loop rnd rndl c ro ps (tick rnd rndl c ro (po_now p) (po_cnt p) ?l1)"
        using go False by (auto simp: Let_def)
      have polled: "polled c (l_start l) (p # ps) = po_recs p @ polled c (l_start l) ps" using go by auto
      from tick_advances [of ?l1 "po_now p" rnd rndl c ro "po_cnt p"] obtain s rs where
        "same_books (l_s ?l1) s \<and> advances [ReleaseHosts (po_now p - HOST_WAIT_NS), Expire (po_now p - TARGET_EXPIRY_NS)] (l_s ?l1) s rs \<and>
         l_s (tick rnd rndl c ro (po_now p) (po_cnt p) ?l1) = s\<lparr>s_interval := ntp_stats_reset (s_interval s)\<rparr> \<and>
         l_start (tick rnd rndl c ro (po_now p) (po_cnt p) ?l1) = l_start ?l1 \<and>
         l_prev_tick (tick rnd rndl c ro (po_now p) (po_cnt p) ?l1) = po_now p \<and>
         l_out (tick rnd rndl c ro (po_now p) (po_cnt p) ?l1) = l_out ?l1 @
           (if cf_online c \<and> has_host c
            then [print_interval rnd rndl c ro (?l1\<lparr>l_s := s\<rparr>) (po_now p)
                    (tput_delta (read_tput c (po_cnt p)) (l_prev_tput ?l1) (secs rnd (po_now p - l_prev_tick ?l1)))]
            else [])" by blast
      then show ?thesis using step polled
        by (intro tick [of "tick rnd rndl c ro (po_now p) (po_cnt p) ?l1" s rs "?l1\<lparr>l_s := s\<rparr>"]) simp_all
    qed
  qed
qed

subsection \<open>What is counted and written\<close>

lemma rec_in_ok: "list_all rec_ok (rec_in d)"
  by (auto simp: rec_in_def Let_def dec_host_rec_def dec_tgt_rec_def dec_rec_hdr_def fld_fld fld_def
      HOST_REC_SIZE_def NTP_DISK_NAME_LEN_def min_def split: prod.split)

lemma rec_in_bytes: "rec_in d \<noteq> [] \<Longrightarrow> concat (map (enc_rec NTP_FILE_VERSION) (rec_in d)) = snd d"
proof -
  have sizes: "host_size NTP_FILE_VERSION = HOST_REC_SIZE" "tgt_size NTP_FILE_VERSION = TGT_REC_SIZE"
    by (simp_all add: host_size_def tgt_size_def NTP_FILE_VERSION_def)
  assume "rec_in d \<noteq> []"
  then show ?thesis
    by (auto simp: rec_in_def Let_def sizes enc_dec_host_rec enc_dec_tgt_rec split: prod.splits if_splits)
qed

text \<open>
  The books of a session that has received \<open>ds\<close>: the counters, and when every write is taken whole the file,
  with the records that are not malformed in their order.
\<close>

definition books :: "delivery list \<Rightarrow> session \<Rightarrow> session \<Rightarrow> bool" where
  "books ds s s' \<longleftrightarrow>
     s_host_records s' = s_host_records s + of_nat (length (hosts_of (recs_in ds))) \<and>
     s_target_records s' = s_target_records s + of_nat (length (targets_of (recs_in ds))) \<and>
     s_malformed s' = s_malformed s + of_nat (length (filter (\<lambda>d. rec_in d = []) ds)) \<and>
     s_writing s' = s_writing s \<and>
     (\<forall>f. s_writing s \<and> w_f (s_w s) = Some f \<and> list_all (\<lambda>(taken, data). length data \<le> taken) ds \<longrightarrow>
        w_f (s_w s') = Some (f @ concat (map (enc_rec NTP_FILE_VERSION) (recs_in ds))) \<and>
        w_records (s_w s') = w_records (s_w s) + of_nat (length (recs_in ds)) \<and> s_write_errors s' = s_write_errors s)"

lemma books_trans: "books ds s s' \<Longrightarrow> books ds' s' s'' \<Longrightarrow> books (ds @ ds') s s''"
  by (auto simp: books_def algebra_simps)

lemma books_same: "same_books s' s'' \<Longrightarrow> books ds s s' \<Longrightarrow> books ds s s''"
  "same_books s s' \<Longrightarrow> books [] s s'"
  by (simp_all add: books_def same_books_def)

lemma host_target_books: "same_books s (host_record h s)" "same_books s (target_record t s)"
  by (auto simp: host_record_def target_record_def same_books_def add_host_def Let_def split: option.split prod.split)

lemma write_books:
  assumes "same_books s s'" and "rec_in d \<noteq> []"
  shows "s_writing (write_record d s') = s_writing s"
    and "s_writing s \<Longrightarrow> w_f (s_w s) = Some f \<Longrightarrow> length (snd d) \<le> fst d \<Longrightarrow>
      w_f (s_w (write_record d s')) = Some (f @ concat (map (enc_rec NTP_FILE_VERSION) (rec_in d))) \<and>
      w_records (s_w (write_record d s')) = w_records (s_w s) + 1 \<and> s_write_errors (write_record d s') = s_write_errors s"
  using assms rec_in_bytes [OF assms(2)]
  by (simp_all add: same_books_def write_record_def ntp_writer_add_def fwrite1_def case_prod_unfold Let_def)

lemma rec_in_one: "rec_in d = [] \<or> (\<exists>r. rec_in d = [r])"
  by (auto simp: rec_in_def Let_def split: prod.split)

lemma on_record_books: "books [d] s (on_record d s)"
proof (cases "rec_in d")
  case Nil
  then have "on_record d s = s\<lparr>s_malformed := s_malformed s + 1\<rparr>"
    by (auto simp: on_record_def rec_in_def Let_def split: prod.splits if_splits)
  then show ?thesis using Nil by (simp add: books_def)
next
  case (Cons r rs)
  then have one: "rec_in d = [r]" using rec_in_one [of d] by auto
  show ?thesis
  proof (cases r)
    case (Host_rec h)
    let ?s = "host_record h (s\<lparr>s_host_records := s_host_records s + 1\<rparr>)"
    have "on_record d s = write_record d ?s"
      using one Host_rec by (auto simp: on_record_def rec_in_def Let_def split: prod.splits if_splits)
    then show ?thesis
      using write_books [OF host_target_books(1) [of "s\<lparr>s_host_records := s_host_records s + 1\<rparr>" h], of d] one Host_rec
        host_target_books(1) [of "s\<lparr>s_host_records := s_host_records s + 1\<rparr>" h]
      by (auto simp: books_def hosts_of_def targets_of_def same_books_def case_prod_unfold)
  next
    case (Tgt_rec t)
    let ?s = "target_record t (s\<lparr>s_target_records := s_target_records s + 1\<rparr>)"
    have "on_record d s = write_record d ?s"
      using one Tgt_rec by (auto simp: on_record_def rec_in_def Let_def split: prod.splits if_splits)
    then show ?thesis
      using write_books [OF host_target_books(2) [of "s\<lparr>s_target_records := s_target_records s + 1\<rparr>" t], of d] one Tgt_rec
        host_target_books(2) [of "s\<lparr>s_target_records := s_target_records s + 1\<rparr>" t]
      by (auto simp: books_def hosts_of_def targets_of_def same_books_def case_prod_unfold)
  qed
qed

lemma on_records_books: "books ds s (on_records ds s)"
proof (induction ds arbitrary: s)
  case (Cons d ds)
  then show ?case using books_trans [OF on_record_books [of d s]] by (simp add: on_records_def)
qed (simp add: on_records_def books_def)

lemma loop_books: "books (polled c (l_start l) ps) (l_s l) (l_s (record_loop rnd rndl c ro ps l))"
proof (induction ps arbitrary: l)
  case (Cons p ps)
  note step = on_records_books [of "po_recs p" "l_s l"]
  show ?case
  proof (cases rule: loop_step [of rnd rndl c ro p ps l])
    case last
    then show ?thesis using step by (simp del: record_loop.simps polled.simps)
  next
    case (wait l')
    then show ?thesis using books_trans [OF step] Cons.IH [of l'] by (simp del: record_loop.simps polled.simps)
  next
    case (tick l' l'' s rs delta)
    have "same_books (on_records (po_recs p) (l_s l)) (l_s l')" using tick(3,4) by (simp add: same_books_def)
    then show ?thesis using tick(1,5,11) books_trans [OF books_same(1) [OF _ step]] Cons.IH [of l']
      by (simp del: record_loop.simps polled.simps)
  qed
qed (simp add: books_def)

subsection \<open>Intervals\<close>

text \<open>The chunk of output of the interval from \<open>prev\<close> to \<open>now\<close>, in which \<open>rs\<close> were added.\<close>

definition shows_interval ::
  "(rat \<Rightarrow> rat) \<Rightarrow> (rat \<Rightarrow> rat) \<Rightarrow> ntp_config \<Rightarrow> u64 \<Rightarrow> ntp_stats \<Rightarrow>
   u64 \<times> u64 \<times> (ntp_host_rec \<times> ntp_tgt_rec option) list \<Rightarrow> field list \<Rightarrow> bool" where
  "shows_interval rnd rndl c start st0 = (\<lambda>(prev, now, rs) chunk. \<exists>l delta.
     l_start l = start \<and> l_prev_tick l = prev \<and> s_interval (l_s l) = add_recs st0 rs \<and>
     chunk = print_interval rnd rndl c (ntp_report_opts_from_config c) l now delta)"

lemma add_recs_sample: "st_sample_every (add_recs s rs) = st_sample_every s"
  by (induction rs arbitrary: s) (auto simp: ntp_stats_add_def group_for_def Let_def split: prod.split)

lemma reset_add: "ntp_stats_reset (add_recs s rs) = ntp_stats_reset s"
  by (simp add: ntp_stats_reset_def add_recs_sample)

lemma loop_intervals:
  assumes "cf_online c" and "has_host c" and "ntp_stats_reset st0 = st0"
    and "s_interval (l_s l) = add_recs st0 pre"
  shows "\<exists>ticks parts rest chunks rs. l_out (record_loop rnd rndl c (ntp_report_opts_from_config c) ps l) = l_out l @ chunks \<and>
    length ticks = length parts \<and>
    list_all2 (shows_interval rnd rndl c (l_start l) st0) (zip (l_prev_tick l # ticks) (zip ticks parts)) chunks \<and>
    s_total (l_s (record_loop rnd rndl c (ntp_report_opts_from_config c) ps l)) = add_recs (s_total (l_s l)) rs \<and>
    pre @ rs = concat parts @ rest"
  using assms(4)
proof (induction ps arbitrary: l pre)
  case Nil
  then show ?case by (intro exI [of _ "[]"] exI [of _ pre]) simp
next
  case (Cons p ps)
  let ?loop = "record_loop rnd rndl c (ntp_report_opts_from_config c)"
  obtain rs where rs: "s_total (on_records (po_recs p) (l_s l)) = add_recs (s_total (l_s l)) rs"
    "s_interval (on_records (po_recs p) (l_s l)) = add_recs st0 (pre @ rs)"
    using on_records_advances [of "po_recs p" "l_s l"] Cons.prems by (auto simp: advances_def)
  show ?case
  proof (cases rule: loop_step [of rnd rndl c "ntp_report_opts_from_config c" p ps l])
    case last
    then show ?thesis using rs
      by (intro exI [of _ "[]"] exI [of _ "pre @ rs"] exI [of _ rs]) (simp del: record_loop.simps)
  next
    case (wait l')
    then obtain ticks parts rest chunks rs' where "l_out (?loop (p # ps) l) = l_out l @ chunks"
      "length ticks = length parts"
      "list_all2 (shows_interval rnd rndl c (l_start l) st0) (zip (l_prev_tick l # ticks) (zip ticks parts)) chunks"
      "s_total (l_s (?loop (p # ps) l)) = add_recs (s_total (on_records (po_recs p) (l_s l))) rs'"
      "(pre @ rs) @ rs' = concat parts @ rest"
      using Cons.IH [of l' "pre @ rs"] rs by (auto simp del: record_loop.simps)
    then show ?thesis using rs(1)
      by (intro exI [of _ ticks] exI [of _ parts] exI [of _ rest] exI [of _ chunks] exI [of _ "rs @ rs'"])
        (simp del: record_loop.simps)
  next
    case (tick l' l'' s rs1 delta)
    have s: "s_total s = add_recs (s_total (l_s l)) (rs @ rs1)" "s_interval s = add_recs st0 (pre @ rs @ rs1)"
      using tick(2) rs by (auto simp: advances_def)
    let ?chunk = "print_interval rnd rndl c (ntp_report_opts_from_config c) l'' (po_now p) delta"
    have here: "shows_interval rnd rndl c (l_start l) st0 (l_prev_tick l, po_now p, pre @ rs @ rs1) ?chunk"
      using tick(8-10) s(2) by (auto simp: shows_interval_def)
    have "s_interval (l_s l') = add_recs st0 []" using tick(4) s(2) assms(3) by (simp add: reset_add del: add_recs_simps(3))
    then obtain ticks parts rest chunks rs' where "l_out (?loop (p # ps) l) = l_out l @ ?chunk # chunks"
      "length ticks = length parts"
      "list_all2 (shows_interval rnd rndl c (l_start l) st0) (zip (po_now p # ticks) (zip ticks parts)) chunks"
      "s_total (l_s (?loop (p # ps) l)) = add_recs (s_total s) rs'" "rs' = concat parts @ rest"
      using Cons.IH [of l' "[]"] tick(1,4-7) assms(1,2) by (auto simp del: record_loop.simps)
    then show ?thesis using here s(1)
      by (intro exI [of _ "po_now p # ticks"] exI [of _ "(pre @ rs @ rs1) # parts"] exI [of _ rest]
          exI [of _ "?chunk # chunks"] exI [of _ "rs @ rs1 @ rs'"]) (simp del: record_loop.simps)
  qed
qed

subsection \<open>The whole recording\<close>

definition no_stats :: "ntp_config \<Rightarrow> ntp_stats" where
  "no_stats c = (stats_for c)\<lparr>st_sample_every := cf_sample_every c\<rparr>"

lemma no_stats_reset: "ntp_stats_reset (no_stats c) = no_stats c"
  by (simp add: no_stats_def stats_for_def ntp_stats_reset_def ntp_stats_init_def)

text \<open>The joiner's calls of a recording: arrivals, a release and an expiry at each tick, and the last release.\<close>

fun loop_calls :: "ntp_config \<Rightarrow> u64 \<Rightarrow> u64 \<Rightarrow> ring_poll list \<Rightarrow> jcall list" where
  "loop_calls c start nxt [] = []"
| "loop_calls c start nxt (p # ps) = map arrival (recs_in (po_recs p)) @
    (if po_err p < 0 \<or> (cf_duration_s c \<noteq> 0 \<and> po_now p - start \<ge> ucast (cf_duration_s c) * 1000000000) then []
     else if po_now p < nxt then loop_calls c start nxt ps
     else [ReleaseHosts (po_now p - HOST_WAIT_NS), Expire (po_now p - TARGET_EXPIRY_NS)] @
       loop_calls c start (nxt + interval_ns c) ps)"

definition session_calls :: "ntp_config \<Rightarrow> rec_env \<Rightarrow> jcall list" where
  "session_calls c e = loop_calls c (re_start e) (re_start e + interval_ns c) (re_polls e) @
     map arrival (recs_in (re_drain e)) @ [ReleaseHosts (-1)]"

lemma tick_next [simp]: "l_next_tick (tick rnd rndl c ro now cnt l) = l_next_tick l"
  by (simp add: tick_def Let_def)

lemma loop_makes_calls:
  "\<exists>rs. adds_total (loop_calls c (l_start l) (l_next_tick l) ps) (l_s l) (l_s (record_loop rnd rndl c ro ps l)) rs"
proof (induction ps arbitrary: l)
  case Nil
  then show ?case using advances_total [OF advances_refl] by fastforce
next
  case (Cons p ps)
  let ?stops = "po_err p < 0 \<or> (cf_duration_s c \<noteq> 0 \<and> po_now p - l_start l \<ge> ucast (cf_duration_s c) * 1000000000)"
  let ?l = "l\<lparr>l_s := on_records (po_recs p) (l_s l), l_idle_hint := (l_idle_hint l \<or> po_now p - l_start l \<ge> IDLE_HINT_NS)\<rparr>"
  let ?l1 = "?l\<lparr>l_next_tick := l_next_tick l + interval_ns c\<rparr>"
  let ?l2 = "tick rnd rndl c ro (po_now p) (po_cnt p) ?l1"
  obtain rs where rs: "adds_total (map arrival (recs_in (po_recs p))) (l_s l) (on_records (po_recs p) (l_s l)) rs"
    using on_records_advances advances_total by blast
  consider "?stops" | "\<not> ?stops" "po_now p < l_next_tick l" | "\<not> ?stops" "\<not> po_now p < l_next_tick l" by blast
  then show ?case
  proof cases
    case 1
    then have "l_s (record_loop rnd rndl c ro (p # ps) l) = on_records (po_recs p) (l_s l)" by (auto simp: Let_def)
    with 1 rs show ?thesis by auto
  next
    case 2
    then have "record_loop rnd rndl c ro (p # ps) l = record_loop rnd rndl c ro ps ?l" by (auto simp: Let_def)
    with 2 show ?thesis using Cons.IH [of ?l] adds_total_trans [OF rs] by (auto simp del: record_loop.simps)
  next
    case 3
    then have run: "record_loop rnd rndl c ro (p # ps) l = record_loop rnd rndl c ro ps ?l2" by (auto simp: Let_def)
    obtain s rs1 where t: "advances [ReleaseHosts (po_now p - HOST_WAIT_NS), Expire (po_now p - TARGET_EXPIRY_NS)] (l_s ?l1) s rs1"
      "l_s ?l2 = s\<lparr>s_interval := ntp_stats_reset (s_interval s)\<rparr>" "l_start ?l2 = l_start ?l1"
      using tick_advances [of ?l1 "po_now p" rnd rndl c ro "po_cnt p"] by blast
    have "adds_total [ReleaseHosts (po_now p - HOST_WAIT_NS), Expire (po_now p - TARGET_EXPIRY_NS)]
        (on_records (po_recs p) (l_s l)) (l_s ?l2) rs1"
      using t by (simp add: advances_def adds_total_def)
    from adds_total_trans [OF rs adds_total_trans [OF this]] show ?thesis
      using 3 Cons.IH [of ?l2] t(3) unfolding run by (auto simp del: record_loop.simps)
  qed
qed

lemma loop_calls_given:
  "hosts_given (loop_calls c start nxt ps) = hosts_of (recs_in (polled c start ps))"
  by (induction ps arbitrary: nxt) auto

lemma session_calls_given: "hosts_given (session_calls c e) = hosts_of (recs_in (received c e))"
  by (simp add: session_calls_def received_def loop_calls_given)

lemma session_makes_calls: "\<exists>rs. adds_total (session_calls c e) s (l_s (record_session rnd rndl c e s)) rs"
proof -
  let ?l = "\<lparr>l_s = s, l_start = re_start e, l_prev_tick = re_start e, l_next_tick = re_start e + interval_ns c,
    l_prev_tput = read_tput c (re_cnt_start e), l_idle_hint = False, l_header = False, l_ret = EXIT_SUCCESS, l_out = []\<rparr>"
  let ?r = "record_loop rnd rndl c (ntp_report_opts_from_config c) (re_polls e) ?l"
  obtain rs where a: "adds_total (loop_calls c (re_start e) (re_start e + interval_ns c) (re_polls e)) s (l_s ?r) rs"
    using loop_makes_calls [of c ?l "re_polls e" rnd rndl "ntp_report_opts_from_config c"] by auto
  obtain rs' rs'' where b: "adds_total (map arrival (recs_in (re_drain e))) (l_s ?r) (on_records (re_drain e) (l_s ?r)) rs'"
    "adds_total [ReleaseHosts (-1)] (on_records (re_drain e) (l_s ?r)) (release (-1) (on_records (re_drain e) (l_s ?r))) rs''"
    using on_records_advances release_advances advances_total by meson
  show ?thesis
    using adds_total_trans [OF a adds_total_trans [OF b]] by (auto simp: record_session_def Let_def session_calls_def)
qed

lemma session_books: "books (received c e) s (l_s (record_session rnd rndl c e s))"
proof -
  let ?l = "\<lparr>l_s = s, l_start = re_start e, l_prev_tick = re_start e, l_next_tick = re_start e + interval_ns c,
    l_prev_tput = read_tput c (re_cnt_start e), l_idle_hint = False, l_header = False, l_ret = EXIT_SUCCESS, l_out = []\<rparr>"
  let ?r = "record_loop rnd rndl c (ntp_report_opts_from_config c) (re_polls e) ?l"
  have r: "l_s (record_session rnd rndl c e s) = release (-1) (on_records (re_drain e) (l_s ?r))"
    by (simp add: record_session_def Let_def)
  show ?thesis
    using books_same(1) [OF release_books books_trans [OF loop_books [of c ?l "re_polls e"] on_records_books]]
    by (simp add: r received_def)
qed

lemma record_run_cases:
  assumes "record_run rnd rndl verb c e = (ret, Some (s, out))"
  shows "\<exists>s0 tail. s = l_s (record_session rnd rndl c e s0) \<and> out = l_out (record_session rnd rndl c e s0) @ tail \<and>
    same_books (session_init c) (s0\<lparr>s_w := s_w (session_init c), s_writing := False\<rparr>) \<and>
    s_total s0 = no_stats c \<and> s_interval s0 = no_stats c \<and> s_joiner s0 = s_joiner (session_init c) \<and>
    (has_host c \<longrightarrow> length tail = 2) \<and>
    (cf_output c \<noteq> [] \<longrightarrow> s_writing s0 \<and> s_w s0 = \<lparr>w_f = Some (enc_file_header (record_header c e)), w_records = 0\<rparr>)"
  using assms
  by (auto simp: record_run_def Let_def session_init_def no_stats_def same_books_def ntp_writer_open_def fwrite1_def has_host_def
      split: if_splits prod.splits)

lemma counted_outs:
  "mset (map fst (concat (map pair_of os))) + mset (concat (map alone_of os)) = mset (map fst (map counted os))"
  "length (concat (map pair_of os)) = length (filter (\<lambda>r. snd r \<noteq> None) (map counted os))"
  "length (concat (map alone_of os)) = length (filter (\<lambda>r. snd r = None) (map counted os))"
proof -
  show "mset (map fst (concat (map pair_of os))) + mset (concat (map alone_of os)) = mset (map fst (map counted os))"
  proof (induction os)
    case (Cons x os)
    then show ?case by (cases x) simp_all
  qed simp
  show "length (concat (map pair_of os)) = length (filter (\<lambda>r. snd r \<noteq> None) (map counted os))"
  proof (induction os)
    case (Cons x os)
    then show ?case by (cases x) simp_all
  qed simp
  show "length (concat (map alone_of os)) = length (filter (\<lambda>r. snd r = None) (map counted os))"
  proof (induction os)
    case (Cons x os)
    then show ?case by (cases x) simp_all
  qed simp
qed

text \<open>Nothing waits after the last release but a record stamped with the last possible time.\<close>

lemma release_all:
  assumes "joiner_inv j" and "jrun (cs @ [ReleaseHosts b]) j = (os, j')"
  shows "h \<in># hosts_held j' \<Longrightarrow> \<not> host_age h < b"
proof -
  obtain os1 j1 where r: "jrun cs j = (os1, j1)" by fastforce
  obtain tb gone where x: "table_expire (jn_hosts j1) b = (tb, gone)" by fastforce
  have inv: "joiner_inv j1" using jrun_ok [OF assms(1) r] by simp
  have "hosts_held j' = tb_mset tb" using assms(2) r x by (auto simp: jrun_append ntp_joiner_release_hosts_def Let_def)
  then show "h \<in># hosts_held j' \<Longrightarrow> \<not> host_age h < b"
    using tb.expire_age(2) [OF joiner_invD(2) [OF inv] x] by simp
qed

lemma session_both:
  assumes "adds_total (session_calls c e) s s' rs" and "s_joiner s = Some (ntp_joiner_new m)"
    and "never_full (session_calls c e) (ntp_joiner_new m)"
  shows "\<exists>j. s_joiner s' = Some j \<and> s_total s' = add_recs (s_total s) rs \<and>
    mset (hosts_of (recs_in (received c e))) = mset (map fst rs) + hosts_held j \<and>
    matched (jn_st j) = of_nat (length (filter (\<lambda>r. snd r \<noteq> None) rs)) \<and>
    host_unmatched (jn_st j) = of_nat (length (filter (\<lambda>r. snd r = None) rs)) \<and>
    (\<forall>h \<in># hosts_held j. host_age h = - 1)"
proof -
  obtain os j where r: "jrun (session_calls c e) (ntp_joiner_new m) = (os, j)" by fastforce
  have s': "rs = map counted os" "s_joiner s' = Some j" "s_total s' = add_recs (s_total s) rs"
    using assms(1,2) r by (auto simp: adds_total_def joined_by_def)
  have exact: "hosts_exact (hosts_given (session_calls c e)) os (ntp_joiner_new m) j"
    using joiner_inv_new r assms(3) by (rule jrun_exact)
  have "hosts_balance (hosts_given (session_calls c e)) os (ntp_joiner_new m) j"
    using jrun_ok [OF joiner_inv_new r] by simp
  then have m: "matched (jn_st j) = of_nat (length (concat (map pair_of os)))"
    by (simp add: hosts_balance_def ntp_joiner_new_def)
  have age: "\<forall>h \<in># hosts_held j. host_age h = - 1"
    using release_all [OF joiner_inv_new, of _ "-1" m os j] r word_n1_ge
    by (metis append.assoc order.not_eq_order_implies_strict session_calls_def)
  show ?thesis
    using s' m age exact counted_outs [of os]
    by (intro exI [of _ j]) (simp add: hosts_exact_def session_calls_given ntp_joiner_new_def table_init_spec ac_simps)
qed

text \<open>
  \<^bold>\<open>C8.\<close> With host and target on one machine, when no host record arrives while the line of its
  controller, queue and command id is full of waiting ones (64), every host record received is counted in the
  totals exactly once, alone or with a target record: those counted are the host records received, but for any
  that is stamped with the last possible time, which the last release leaves waiting. The joiner's counters say
  how many were counted with a target record and how many without one.
\<close>

theorem session_accounts:
  assumes "record_run rnd rndl verb c e = (ret, Some (s, out))" and "cf_role c = NTP_ROLE_BOTH"
    and "never_full (session_calls c e) (ntp_joiner_new TARGETS_PER_KEY)"
  shows "\<exists>j rs. s_joiner s = Some j \<and> s_total s = add_recs (no_stats c) rs \<and>
    mset (hosts_of (recs_in (received c e))) = mset (map fst rs) + hosts_held j \<and>
    (\<forall>h \<in># hosts_held j. host_age h = - 1) \<and>
    matched (jn_st j) = of_nat (length (filter (\<lambda>r. snd r \<noteq> None) rs)) \<and>
    host_unmatched (jn_st j) = of_nat (length (filter (\<lambda>r. snd r = None) rs)) \<and>
    s_host_records s = of_nat (length rs + size (hosts_held j))"
proof -
  obtain s0 where s0: "s = l_s (record_session rnd rndl c e s0)" "s_total s0 = no_stats c"
    "s_joiner s0 = Some (ntp_joiner_new TARGETS_PER_KEY)" "s_host_records s0 = 0"
    using record_run_cases [OF assms(1)] assms(2) by (auto simp: session_init_def same_books_def Let_def)
  obtain rs where cs: "adds_total (session_calls c e) s0 s rs"
    using session_makes_calls [of c e s0 rnd rndl] by (auto simp: s0(1))
  obtain j where j: "s_joiner s = Some j" "s_total s = add_recs (no_stats c) rs"
    "mset (hosts_of (recs_in (received c e))) = mset (map fst rs) + hosts_held j"
    "matched (jn_st j) = of_nat (length (filter (\<lambda>r. snd r \<noteq> None) rs))"
    "host_unmatched (jn_st j) = of_nat (length (filter (\<lambda>r. snd r = None) rs))"
    "\<forall>h \<in># hosts_held j. host_age h = - 1"
    using session_both [OF cs s0(3) assms(3)] s0(2) by auto
  moreover have "s_host_records s = of_nat (length rs + size (hosts_held j))"
    using session_books [of c e s0 rnd rndl] s0(1,4) arg_cong [OF j(3), of size] by (simp add: books_def)
  ultimately show ?thesis by blast
qed

text \<open>
  \<^bold>\<open>C18.\<close> The intervals that are reported while recording partition the run: each chunk of output
  shows the records that were counted between one tick and the next, the first interval begins with the
  recording, and the records of all intervals, in order, followed by those after the last tick are the
  records of the final report.
\<close>

theorem intervals_partition_total:
  assumes "record_run rnd rndl verb c e = (ret, Some (s, out))" and "cf_online c" and "cf_role c \<noteq> NTP_ROLE_TARGET"
  shows "\<exists>ticks parts rest chunks tail. out = chunks @ tail \<and> length tail = 2 \<and> length ticks = length parts \<and>
    list_all2 (shows_interval rnd rndl c (re_start e) (no_stats c)) (zip (re_start e # ticks) (zip ticks parts)) chunks \<and>
    s_total s = add_recs (no_stats c) (concat parts @ rest)"
proof -
  have host: "has_host c" using assms(3) by (simp add: has_host_def)
  obtain s0 tail where s0: "s = l_s (record_session rnd rndl c e s0)" "out = l_out (record_session rnd rndl c e s0) @ tail"
    "s_total s0 = no_stats c" "s_interval s0 = no_stats c" "length tail = 2"
    using record_run_cases [OF assms(1)] host by auto
  let ?l = "\<lparr>l_s = s0, l_start = re_start e, l_prev_tick = re_start e, l_next_tick = re_start e + interval_ns c,
    l_prev_tput = read_tput c (re_cnt_start e), l_idle_hint = False, l_header = False, l_ret = EXIT_SUCCESS, l_out = []\<rparr>"
  let ?r = "record_loop rnd rndl c (ntp_report_opts_from_config c) (re_polls e) ?l"
  obtain ticks parts rest chunks rs where r: "l_out ?r = chunks" "length ticks = length parts"
    "list_all2 (shows_interval rnd rndl c (re_start e) (no_stats c)) (zip (re_start e # ticks) (zip ticks parts)) chunks"
    "s_total (l_s ?r) = add_recs (no_stats c) rs" "rs = concat parts @ rest"
    using loop_intervals [OF assms(2) host no_stats_reset [of c], where l = ?l and pre = "[]" and rnd = rnd and rndl = rndl and ps = "re_polls e"] s0(3,4) by (auto simp del: add_recs_simps(3))
  obtain rs' rs'' where "s_total (on_records (re_drain e) (l_s ?r)) = add_recs (s_total (l_s ?r)) rs'"
    "s_total (release (-1) (on_records (re_drain e) (l_s ?r))) = add_recs (s_total (on_records (re_drain e) (l_s ?r))) rs''"
    using on_records_advances release_advances unfolding advances_def by meson
  then have "s_total s = add_recs (no_stats c) (concat parts @ rest @ rs' @ rs'')" "out = chunks @ tail"
    using r s0(1,2) by (simp_all add: record_session_def Let_def)
  then show ?thesis using r(2,3) s0(5)
    by (intro exI [of _ ticks] exI [of _ parts] exI [of _ "rest @ rs' @ rs''"] exI [of _ chunks] exI [of _ tail]) simp
qed

subsection \<open>The file\<close>

lemma record_file:
  assumes "record_run rnd rndl verb c e = (ret, Some (s, out))" and "cf_output c \<noteq> []"
    and "list_all (\<lambda>(taken, data). length data \<le> taken) (received c e)"
  shows "w_f (s_w s) = Some (enc_file_header (record_header c e) @ concat (map (enc_rec NTP_FILE_VERSION) (recs_in (received c e)))) \<and>
    s_write_errors s = 0 \<and> w_records (s_w s) = of_nat (length (recs_in (received c e)))"
proof -
  obtain s0 where s0: "s = l_s (record_session rnd rndl c e s0)" "s_writing s0" "s_write_errors s0 = 0"
    "s_w s0 = \<lparr>w_f = Some (enc_file_header (record_header c e)), w_records = 0\<rparr>"
    using record_run_cases [OF assms(1)] assms(2) by (auto simp: session_init_def same_books_def Let_def)
  then show ?thesis using session_books [of c e s0 rnd rndl] assms(3) by (auto simp: books_def)
qed

lemma recs_in_ok: "list_all rec_ok (recs_in ds)"
  using rec_in_ok by (auto simp: list_all_iff)

lemma record_recorded:
  assumes "w_f w = Some (enc_file_header (record_header c e) @ concat (map (enc_rec NTP_FILE_VERSION) rs))" and "list_all rec_ok rs"
  shows "recorded (Some \<lparr>s_bytes = the (w_f w), s_error = False\<rparr>) (record_header c e, rs)"
proof -
  have "(2 :: u32) \<le> NTP_FILE_VERSION" by (simp add: NTP_FILE_VERSION_def)
  moreover have "header_for NTP_FILE_VERSION (record_header c e)" by (simp add: record_header_def header_init_for)
  ultimately show ?thesis using assms unfolding recorded_def prod.case
    by (intro exI [of _ NTP_FILE_VERSION] exI [of _ rs]) (simp add: cut_rec_current)
qed

lemma add_recs_set_sample: "add_recs (s\<lparr>st_sample_every := n\<rparr>) rs = (add_recs s rs)\<lparr>st_sample_every := n\<rparr>"
proof (induction rs arbitrary: s)
  case (Cons r rs)
  obtain h t where r: "r = (h, t)" by fastforce
  obtain i s' where g: "group_for s h = (i, s')" by fastforce
  then have "group_for (s\<lparr>st_sample_every := n\<rparr>) h = (i, s'\<lparr>st_sample_every := n\<rparr>)"
    by (auto simp: group_for_def key_for_def Let_def split: if_splits)
  then have "ntp_stats_add (s\<lparr>st_sample_every := n\<rparr>) h t = (ntp_stats_add s h t)\<lparr>st_sample_every := n\<rparr>"
    using g by (simp add: ntp_stats_add_def Let_def)
  then show ?case using Cons by (simp add: r)
qed simp

lemma join_fifo_no_targets: "join_fifo hs [] = map (\<lambda>h. (h, None)) hs"
  by (induction hs) (simp_all add: extract_Nil_code)

text \<open>
  \<^bold>\<open>C5.\<close> The report of a recording's file. For a recording of a host, or of host and target, whose writes were
  all taken whole, \<^verbatim>\<open>ntprof report\<close> of the file under the same configuration gives the statistics of the records
  received, each host record joined in arrival order with the target record of its command. When only a host was
  recorded, and no target record came, these are exactly the totals that \<^verbatim>\<open>ntprof record\<close> printed, group for group
  and sample for sample. When both sides were, and no line of waiting records was full and no record is stamped
  with the last possible time, the totals printed count the same host records (with which target record the
  online join may differ, since it gives up waiting).
\<close>

theorem online_offline_agree:
  assumes "record_run rnd rndl verb c e = (ret, Some (s, out))" and "cf_role c \<noteq> NTP_ROLE_TARGET" and "cf_output c \<noteq> []"
    and "list_all (\<lambda>(taken, data). length data \<le> taken) (received c e)"
    and "fs (cf_output c) = map_option (\<lambda>bytes. \<lparr>s_bytes = bytes, s_error = False\<rparr>) (w_f (s_w s))"
  shows "\<exists>st rs r. cmd_report json_ok fs c [cf_output c] =
      (if cf_json c \<noteq> [] \<and> \<not> json_ok st then EXIT_FAILURE else EXIT_SUCCESS, Some (st, r)) \<and>
    st = add_recs (no_stats c) (join_fifo (hosts_of (recs_in (received c e))) (targets_of (recs_in (received c e)))) \<and>
    s_total s = add_recs (no_stats c) rs \<and>
    (cf_role c = NTP_ROLE_HOST \<and> targets_of (recs_in (received c e)) = [] \<longrightarrow> st = s_total s) \<and>
    (cf_role c = NTP_ROLE_BOTH \<and> never_full (session_calls c e) (ntp_joiner_new TARGETS_PER_KEY) \<and>
       (\<forall>h \<in> set (hosts_of (recs_in (received c e))). host_age h \<noteq> - 1) \<longrightarrow>
       mset (map fst rs) = mset (map fst (join_fifo (hosts_of (recs_in (received c e))) (targets_of (recs_in (received c e))))))"
proof -
  let ?recs = "recs_in (received c e)"
  let ?st = "add_recs (no_stats c) (join_fifo (hosts_of ?recs) (targets_of ?recs))"
  obtain s0 where s0: "s = l_s (record_session rnd rndl c e s0)" "s_total s0 = no_stats c"
    "s_joiner s0 = s_joiner (session_init c)"
    using record_run_cases [OF assms(1)] by auto
  obtain rs where rs: "adds_total (session_calls c e) s0 s rs"
    using session_makes_calls [of c e s0 rnd rndl] by (auto simp: s0(1))
  have total: "s_total s = add_recs (no_stats c) rs" using rs s0(2) by (simp add: adds_total_def)
  have host: "?st = s_total s" if "cf_role c = NTP_ROLE_HOST" "targets_of ?recs = []"
    using rs s0(3) that total
    by (auto simp: adds_total_def joined_by_def session_init_def Let_def session_calls_given join_fifo_no_targets)
  have both: "mset (map fst rs) = mset (map fst (join_fifo (hosts_of ?recs) (targets_of ?recs)))"
    if "cf_role c = NTP_ROLE_BOTH" "never_full (session_calls c e) (ntp_joiner_new TARGETS_PER_KEY)"
      "\<forall>h \<in> set (hosts_of ?recs). host_age h \<noteq> - 1"
  proof -
    have "s_joiner s0 = Some (ntp_joiner_new TARGETS_PER_KEY)" using s0(3) that(1) by (simp add: session_init_def Let_def)
    from session_both [OF rs this that(2)] obtain j where
      j: "mset (hosts_of ?recs) = mset (map fst rs) + hosts_held j" "\<forall>h \<in># hosts_held j. host_age h = - 1"
      by blast
    have "x \<notin># hosts_held j" for x
      using j that(3) by (metis Un_iff set_mset_mset set_mset_union)
    then have "hosts_held j = {#}" by (simp add: multiset_eq_iff not_in_iff)
    then show ?thesis using j(1) by (simp add: join_fifo_hosts)
  qed
  note bytes = record_file [OF assms(1,3,4), THEN conjunct1]
  have "recorded (fs (cf_output c)) (record_header c e, ?recs)"
    using record_recorded [OF bytes recs_in_ok] by (simp add: assms(5) bytes)
  then have "list_all2 (\<lambda>p. recorded (fs p)) [cf_output c] [(record_header c e, ?recs)]" by simp
  from load_run_recorded [OF this, of "stats_for c"] obtain r where
    r: "load_run fs [cf_output c] (stats_for c) = (0, r, add_recs (stats_for c) (join_fifo (hosts_of ?recs) (targets_of ?recs)))"
    and hdr: "r_host_hdr r = host_header [(record_header c e, ?recs)]"
    by auto
  have "host_header [(record_header c e, ?recs)] = Some (record_header c e)"
    using assms(2) by (cases "cf_role c") (simp_all add: host_header_def record_header_def ntp_header_init_def has_flag_def ROLE_HOST_def)
  then have "cmd_report json_ok fs c [cf_output c] =
      (if cf_json c \<noteq> [] \<and> \<not> json_ok ?st then EXIT_FAILURE else EXIT_SUCCESS, Some (?st, r))"
    using r hdr by (simp add: cmd_report_def no_stats_def add_recs_set_sample record_header_def ntp_header_init_def)
  then show ?thesis using total host both by blast
qed

subsection \<open>An example\<close>

text \<open>A recording that gets one host record while it polls and one more when it drains.\<close>

definition ex_delivery :: delivery where
  "ex_delivery = (HOST_REC_SIZE, enc_rec NTP_FILE_VERSION (Host_rec ex_host))"

definition ex_env :: rec_env where
  "ex_env = \<lparr>re_mono = 5, re_real = 6, re_hostname = None, re_release = None, re_loaded = True, re_created = True,
     re_taken = FILE_HEADER_SIZE, re_start = 1000, re_cnt_start = (\<lambda>_. 0),
     re_polls = [\<lparr>po_err = 1, po_recs = [ex_delivery], po_now = 2000000000, po_cnt = (\<lambda>_. 7)\<rparr>],
     re_end = 3000000000, re_cnt_end = (\<lambda>_. 9), re_drain = [ex_delivery], re_cnt = (\<lambda>_. 9),
     re_json_ok = True, re_closed = True\<rparr>"

definition ex_conf :: "ntp_role \<Rightarrow> ntp_config" where
  "ex_conf r = config_defaults\<lparr>cf_role := r, cf_output := ''a.ntp''\<rparr>"

lemma ex_conf_simps: "cf_role (ex_conf r) = r" "cf_output (ex_conf r) = ''a.ntp''" "cf_online (ex_conf r)"
  by (simp_all add: ex_conf_def config_defaults_def)

lemma record_run_runs:
  assumes "re_loaded e" and "re_created e" and "re_taken e = FILE_HEADER_SIZE"
  shows "\<exists>ret s out. record_run rnd rndl verb c e = (ret, Some (s, out))"
proof -
  have "length (enc_file_header (record_header c e)) = FILE_HEADER_SIZE"
    using length_enc_file_header header_init_for by (auto simp: header_for_def record_header_def)
  then show ?thesis using assms by (simp add: record_run_def ntp_writer_open_def fwrite1_def Let_def)
qed

lemma ex_delivery_in: "rec_in ex_delivery = [Host_rec ex_host]"
proof -
  have len: "length (h_disk ex_host) = NTP_DISK_NAME_LEN" using ex_recs_ok by simp
  have size: "host_size NTP_FILE_VERSION = HOST_REC_SIZE" by (simp add: host_size_def NTP_FILE_VERSION_def)
  have data: "snd ex_delivery = enc_host_rec ex_host"
    by (simp add: ex_delivery_def size length_enc_host_rec [OF len])
  have "dec_rec_hdr (enc_host_rec ex_host) = h_hdr ex_host"
    by (simp add: enc_host_rec_def dec_rec_hdr_def enc_rec_hdr_def fld_skip del: One_nat_def)
  moreover have "hdr_kind (h_hdr ex_host) = NTP_REC_HOST" by (simp add: ex_host_def)
  ultimately show ?thesis
    by (simp add: rec_in_def case_prod_unfold data length_enc_host_rec [OF len] dec_enc_host_rec [OF len])
qed

lemma ex_received: "received (ex_conf r) ex_env = [ex_delivery, ex_delivery]"
  "hosts_of (recs_in (received (ex_conf r) ex_env)) = [ex_host, ex_host]"
  "targets_of (recs_in (received (ex_conf r) ex_env)) = []"
proof -
  show 1: "received (ex_conf r) ex_env = [ex_delivery, ex_delivery]"
    by (simp add: received_def ex_env_def ex_conf_def config_defaults_def)
  show "hosts_of (recs_in (received (ex_conf r) ex_env)) = [ex_host, ex_host]"
    "targets_of (recs_in (received (ex_conf r) ex_env)) = []"
    by (simp_all add: 1 ex_delivery_in hosts_of_def targets_of_def)
qed

lemma ex_runs: "\<exists>ret s out. record_run rnd rndl verb (ex_conf r) ex_env = (ret, Some (s, out))"
  by (rule record_run_runs) (simp_all add: ex_env_def)

lemma ex_calls: "session_calls (ex_conf r) ex_env =
  [HostArrives ex_host, ReleaseHosts (2000000000 - HOST_WAIT_NS), Expire (2000000000 - TARGET_EXPIRY_NS),
   HostArrives ex_host, ReleaseHosts (-1)]"
  by (simp add: session_calls_def ex_env_def ex_conf_def config_defaults_def ex_delivery_in interval_ns_def)

lemma ex_never_full: "never_full (session_calls (ex_conf r) ex_env) (ntp_joiner_new TARGETS_PER_KEY)"
  unfolding ex_calls by (rule never_full_few [OF joiner_inv_new, where n = 0])
    (simp_all add: ntp_joiner_new_def table_init_spec TARGETS_PER_KEY_def)

theorem session_accounts_witness:
  "\<exists>ret s out rs. record_run (\<lambda>x. x) (\<lambda>x. x) False (ex_conf NTP_ROLE_BOTH) ex_env = (ret, Some (s, out)) \<and>
     s_total s = add_recs (no_stats (ex_conf NTP_ROLE_BOTH)) rs \<and> set_mset (mset (map fst rs)) \<subseteq> {ex_host}"
proof -
  obtain ret s out where r: "record_run (\<lambda>x. x) (\<lambda>x. x) False (ex_conf NTP_ROLE_BOTH) ex_env = (ret, Some (s, out))"
    using ex_runs by blast
  obtain rs j where rs: "s_total s = add_recs (no_stats (ex_conf NTP_ROLE_BOTH)) rs"
    "mset [ex_host, ex_host] = mset (map fst rs) + hosts_held j"
    using session_accounts [OF r ex_conf_simps(1) ex_never_full] unfolding ex_received(2) by blast
  then have "set_mset (mset (map fst rs)) \<subseteq> set_mset (mset [ex_host, ex_host])" by (metis mset_subset_eq_add_left set_mset_mono)
  then show ?thesis using r rs(1) by (metis insert_absorb2 list.set(1) list.simps(15) set_mset_mset)
qed

theorem intervals_partition_total_witness:
  "\<exists>ret s parts rest chunks tail. record_run (\<lambda>x. x) (\<lambda>x. x) False (ex_conf NTP_ROLE_HOST) ex_env = (ret, Some (s, chunks @ tail)) \<and>
     length chunks = length parts \<and> s_total s = add_recs (no_stats (ex_conf NTP_ROLE_HOST)) (concat parts @ rest)"
proof -
  obtain ret s out where r: "record_run (\<lambda>x. x) (\<lambda>x. x) False (ex_conf NTP_ROLE_HOST) ex_env = (ret, Some (s, out))"
    using ex_runs by blast
  obtain ticks parts rest chunks tail where "out = chunks @ tail" "length ticks = length parts"
    "list_all2 (shows_interval (\<lambda>x. x) (\<lambda>x. x) (ex_conf NTP_ROLE_HOST) (re_start ex_env) (no_stats (ex_conf NTP_ROLE_HOST)))
       (zip (re_start ex_env # ticks) (zip ticks parts)) chunks"
    "s_total s = add_recs (no_stats (ex_conf NTP_ROLE_HOST)) (concat parts @ rest)"
    using intervals_partition_total [OF r ex_conf_simps(3)] unfolding ex_conf_simps by blast
  moreover from this(2,3) have "length chunks = length parts" by (auto dest: list_all2_lengthD)
  ultimately show ?thesis using r by blast
qed

theorem online_offline_agree_witness:
  "\<exists>ret s out r. record_run (\<lambda>x. x) (\<lambda>x. x) False (ex_conf NTP_ROLE_HOST) ex_env = (ret, Some (s, out)) \<and>
     cmd_report (\<lambda>_. True) (\<lambda>_. map_option (\<lambda>bytes. \<lparr>s_bytes = bytes, s_error = False\<rparr>) (w_f (s_w s)))
       (ex_conf NTP_ROLE_HOST) [''a.ntp''] = (EXIT_SUCCESS, Some (s_total s, r))"
proof -
  obtain ret s out where r: "record_run (\<lambda>x. x) (\<lambda>x. x) False (ex_conf NTP_ROLE_HOST) ex_env = (ret, Some (s, out))"
    using ex_runs by blast
  let ?fs = "\<lambda>_ :: string. map_option (\<lambda>bytes. \<lparr>s_bytes = bytes, s_error = False\<rparr>) (w_f (s_w s))"
  have "list_all (\<lambda>(taken, data). length data \<le> taken) (received (ex_conf NTP_ROLE_HOST) ex_env)"
    by (simp add: ex_received ex_delivery_def host_size_def NTP_FILE_VERSION_def)
  then show ?thesis
    using online_offline_agree [OF r, of ?fs "\<lambda>_. True"] ex_received(3) r by (auto simp: ex_conf_simps)
qed

subsection \<open>The parent\<close>

definition DETACH_WAIT_MS :: nat where "DETACH_WAIT_MS = 3000"
definition ATTACH_DEADLINE_MS :: int where "ATTACH_DEADLINE_MS = 10000"
definition MSG_ATTACHED :: int where "MSG_ATTACHED = 65"
definition MSG_DONE :: int where "MSG_DONE = 68"
definition NB_TIMEOUT :: int where "NB_TIMEOUT = -1"
definition NB_LEFT :: int where "NB_LEFT = -2"

text \<open>One round of waiting for the child: Ctrl-C so far, the clock, what \<^verbatim>\<open>poll\<close> and \<^verbatim>\<open>read\<close> return, the byte read.\<close>

record wake =
  wk_interrupts :: nat
  wk_now :: u64
  wk_poll :: int
  wk_poll_eintr :: bool
  wk_read :: int
  wk_read_eintr :: bool
  wk_byte :: u8

definition wait_ms :: "u64 \<Rightarrow> u64 \<Rightarrow> int" where
  "wait_ms deadline now = (if deadline = 0 then -1 else sint (ucast ((deadline - now) div 1000000) + 1 :: 32 word))"

text \<open>The next byte and the rounds left; \<open>None\<close> while the rounds given do not end the wait.\<close>

fun wait_byte :: "u64 \<Rightarrow> wake list \<Rightarrow> (int \<times> wake list) option" where
  "wait_byte deadline [] = None"
| "wait_byte deadline (w # ws) =
    (if wk_interrupts w \<ge> 2 then Some (NB_LEFT, ws)
     else if deadline \<noteq> 0 \<and> wk_now w \<ge> deadline then Some (NB_TIMEOUT, ws)
     else if wk_poll w < 0 \<and> wk_poll_eintr w then wait_byte deadline ws
     else if wk_poll w = 0 then Some (NB_TIMEOUT, ws)
     else if wk_poll w < 0 then Some (0, ws)
     else if wk_read w < 0 \<and> wk_read_eintr w then wait_byte deadline ws
     else Some (if wk_read w = 1 then uint (wk_byte w) else 0, ws))"

definition next_byte :: "u64 \<Rightarrow> int \<Rightarrow> wake list \<Rightarrow> (int \<times> wake list) option" where
  "next_byte now timeout_ms ws =
    wait_byte (if timeout_ms < 0 then 0 else now + word_of_int timeout_ms * 1000000) ws"

text \<open>\<open>reap\<close> gives the child's status the n-th time it is asked, or a negative number while the child runs.\<close>

function detach_wait :: "(nat \<Rightarrow> int) \<Rightarrow> nat \<Rightarrow> int option" where
  "detach_wait reap waited =
    (if waited < DETACH_WAIT_MS
     then let ret = reap (waited div 50) in if ret \<ge> 0 then Some ret else detach_wait reap (waited + 50)
     else None)"
  by pat_completeness auto

termination detach_wait
  by (relation "measure (\<lambda>(_, waited). DETACH_WAIT_MS - waited)") auto

declare detach_wait.simps [simp del]

text \<open>What the parent's calls give: the two forks, the clock, the rounds of waiting, the child's exit status.\<close>

record parent_env =
  pe_fork1 :: bool
  pe_fork2 :: bool
  pe_now :: u64
  pe_wakes :: "wake list"
  pe_reap :: int
  pe_reap_nohang :: "nat \<Rightarrow> int"

text \<open>The rest of \<^verbatim>\<open>cmd_record\<close> after the child has attached, or not.\<close>

definition after_attach :: "parent_env \<Rightarrow> int \<times> wake list \<Rightarrow> int option" where
  "after_attach p = (\<lambda>(b, ws).
    case (if b = MSG_ATTACHED then next_byte (pe_now p) (-1) ws else Some (b, ws)) of
      None \<Rightarrow> None
    | Some (b, ws) \<Rightarrow>
        if b = NB_LEFT then Some 130
        else if b \<noteq> MSG_DONE then Some (pe_reap p)
        else
          case next_byte (pe_now p) (-1) ws of
            None \<Rightarrow> None
          | Some (status, ws) \<Rightarrow>
              let status = (if status < 0 then EXIT_FAILURE else status)
              in case detach_wait (pe_reap_nohang p) 0 of Some ret \<Rightarrow> Some ret | None \<Rightarrow> Some status)"

text \<open>
  The exit status (\<open>None\<close>: still waiting) and the configurations of the children started. \<open>here\<close> is
  the status of recording in this process, where no child could be started.
\<close>

definition cmd_record :: "(ntp_config \<Rightarrow> int) \<Rightarrow> parent_env \<Rightarrow> ntp_config \<Rightarrow> int option \<times> ntp_config list" where
  "cmd_record here p c =
    (if \<not> pe_fork1 p then (Some (here c), [])
     else
       case next_byte (pe_now p) ATTACH_DEADLINE_MS (pe_wakes p) of
         None \<Rightarrow> (None, [c])
       | Some (b, ws) \<Rightarrow>
           if b = NB_TIMEOUT \<and> \<not> cf_force_fentry c \<and> \<not> cf_force_kprobes c
           then
             let with_kprobes = c\<lparr>cf_force_kprobes := True\<rparr>
             in if \<not> pe_fork2 p then (Some EXIT_FAILURE, [c])
                else (Option.bind (next_byte (pe_now p) (-1) ws) (after_attach p), [c, with_kprobes])
           else if b = NB_TIMEOUT then (Option.bind (next_byte (pe_now p) (-1) ws) (after_attach p), [c])
           else (after_attach p (b, ws), [c]))"

text \<open>
  Waiting for the hooks to go ends: the parent asks for the child's status at most 60 times, 50 ms
  apart, and gives the first status it gets, or gives up when all 60 times the child was still running.
\<close>

theorem detach_wait_ends:
  "detach_wait reap 0 = (case filter (\<lambda>k. reap k \<ge> 0) [0 ..< 60] of [] \<Rightarrow> None | k # ks \<Rightarrow> Some (reap k))"
proof -
  have step: "detach_wait reap (50 * (60 - n)) =
      (case filter (\<lambda>k. reap k \<ge> 0) [60 - n ..< 60] of [] \<Rightarrow> None | k # ks \<Rightarrow> Some (reap k))" if "n \<le> 60" for n
    using that
  proof (induction n)
    case 0
    then show ?case by (simp add: detach_wait.simps [of reap 3000] DETACH_WAIT_MS_def)
  next
    case (Suc n)
    then have next_wait: "50 * (60 - Suc n) + 50 = 50 * (60 - n)" and less: "50 * (60 - Suc n) < DETACH_WAIT_MS"
      by (simp_all add: DETACH_WAIT_MS_def)
    have "[60 - Suc n ..< 60] = (60 - Suc n) # [60 - n ..< 60]"
      using Suc.prems upt_conv_Cons [of "60 - Suc n" 60] Suc_diff_Suc [of n 60] by simp
    then show ?case
      using Suc less next_wait by (subst detach_wait.simps) (simp add: Let_def)
  qed
  show ?thesis using step [of 60] by simp
qed

text \<open>A wait with a deadline lasts as long as the time left, and never longer than asked.\<close>

lemma wait_ms_bounds:
  assumes "now < deadline" and "deadline - now \<le> word_of_int ATTACH_DEADLINE_MS * 1000000"
  shows "0 < wait_ms deadline now \<and> wait_ms deadline now \<le> ATTACH_DEADLINE_MS + 1"
proof -
  have d: "unat (deadline - now) \<le> 10000 * 1000000"
    using assms(2) by (simp add: ATTACH_DEADLINE_MS_def word_le_nat_alt)
  let ?q = "(deadline - now) div 1000000"
  have q: "unat ?q \<le> 10000" using d by (simp add: unat_div div_le_mono)
  then have eq: "unat (ucast ?q + 1 :: 32 word) = unat ?q + 1"
    by (simp add: unat_word_ariths unsigned_ucast_eq take_bit_eq_mod)
  have small: "sint (w :: 32 word) = int (unat w)" if "unat w < 2 ^ 31" for w
  proof -
    have "int (unat w) < int (2 ^ 31)" using that by (simp only: of_nat_less_iff)
    then have "int (unat w) < 2 ^ 31" by simp
    moreover have "- (2 ^ 31) \<le> int (unat w)" by (rule order.trans [OF _ of_nat_0_le_iff]) simp
    ultimately have "signed_take_bit 31 (int (unat w)) = int (unat w)" by (intro signed_take_bit_int_eq_self)
    then show ?thesis by (simp add: sint_uint)
  qed
  have "wait_ms deadline now = sint (ucast ?q + 1 :: 32 word)" using assms(1) by (auto simp: wait_ms_def)
  also have "\<dots> = int (unat (ucast ?q + 1 :: 32 word))" by (rule small) (use eq q in simp)
  finally show ?thesis unfolding eq ATTACH_DEADLINE_MS_def using q by linarith
qed

text \<open>A round in which nothing came from the child, and the user has not given up.\<close>

definition quiet :: "wake \<Rightarrow> bool" where
  "quiet w \<longleftrightarrow> wk_interrupts w < 2 \<and> (wk_poll w = 0 \<or> (wk_poll w < 0 \<and> wk_poll_eintr w))"

lemma wait_byte_deadline:
  "deadline \<noteq> 0 \<Longrightarrow> list_all quiet ws \<Longrightarrow> w \<in> set ws \<Longrightarrow> wk_now w \<ge> deadline \<Longrightarrow>
    \<exists>rest. wait_byte deadline ws = Some (NB_TIMEOUT, rest)"
  by (induction ws) (auto simp: quiet_def)

text \<open>
  Attaching does not hang the tool: once the clock has passed the deadline, a child that has said
  nothing is replaced by one that uses kprobes, if the user forced neither kind of hook; there
  is never a third child, and the second differs in this setting only.
\<close>

theorem attach_falls_back:
  assumes "pe_fork1 p" and "\<not> cf_force_fentry c" and "\<not> cf_force_kprobes c" and "list_all quiet (pe_wakes p)"
    and "pe_now p + 10000000000 \<noteq> 0" and "w \<in> set (pe_wakes p)" and "wk_now w \<ge> pe_now p + 10000000000"
  shows "snd (cmd_record here p c) = c # (if pe_fork2 p then [c\<lparr>cf_force_kprobes := True\<rparr>] else [])"
proof -
  obtain rest where "wait_byte (pe_now p + 10000000000) (pe_wakes p) = Some (NB_TIMEOUT, rest)"
    using wait_byte_deadline [OF assms(5,4,6,7)] by blast
  then show ?thesis using assms(1-3)
    by (simp add: cmd_record_def next_byte_def ATTACH_DEADLINE_MS_def Let_def)
qed

definition ex_parent :: parent_env where
  "ex_parent = \<lparr>pe_fork1 = True, pe_fork2 = True, pe_now = 100,
     pe_wakes = [\<lparr>wk_interrupts = 1, wk_now = 5000, wk_poll = -1, wk_poll_eintr = True, wk_read = 0, wk_read_eintr = False, wk_byte = 0\<rparr>,
       \<lparr>wk_interrupts = 1, wk_now = 10000000100, wk_poll = -1, wk_poll_eintr = True, wk_read = 0, wk_read_eintr = False, wk_byte = 0\<rparr>],
     pe_reap = 0, pe_reap_nohang = (\<lambda>_. 0)\<rparr>"

theorem attach_falls_back_witness:
  "snd (cmd_record (\<lambda>_. 0) ex_parent config_defaults) = [config_defaults, config_defaults\<lparr>cf_force_kprobes := True\<rparr>]"
  using attach_falls_back [of ex_parent config_defaults "pe_wakes ex_parent ! 1" "\<lambda>_. 0"]
  by (simp add: ex_parent_def config_defaults_def quiet_def)

end
