(* ===== verification/Bpf_Common.thy ===== *)
theory Bpf_Common
  imports Ntprof_Records "HOL-Library.AList"
begin

text \<open>
  What every BPF object shares (\<^verbatim>\<open>src/bpf/common.bpf.h\<close>): the counters, the number of records in flight, per-CPU
  contexts, the direct-mapped tables of records, the arrival time of a packet, and the tests a
  command has to pass to be sampled.

  A program runs to its end without interleaving; the order of the programs, on whatever CPUs
  they run, is the order of a list of calls. What a program obtains from the kernel is a
  parameter: \<open>env\<close> holds what the BPF helpers return during one call (each program reads the
  clock at most once), and \<open>kmem\<close> holds the kernel's memory at that moment, one reader per field
  of \<^verbatim>\<open>src/bpf/kernel_types.h\<close> that the programs read. A \<^verbatim>\<open>BPF_CORE_READ\<close> never fails
  (it gives 0 for an unreadable address); \<^verbatim>\<open>bpf_probe_read_kernel\<close> may, so those readers
  give an \<open>option\<close>.
\<close>

subsection \<open>The kernel\<close>

text \<open>The fields of a command in wire format that are read.\<close>

record ntp_nvme_cmd =
  c_opcode :: u8
  c_command_id :: u16
  c_nsid :: u32
  c_dptr1 :: u64
  c_slba :: u64
  c_length :: u16

record kmem =
  \<comment> \<open>struct offsets of the running kernel\<close>
  sizeof_request :: u64
  off_rdma_sqe :: u64
  off_tcp_cmd_req :: u64
  off_tcp_queue_sq :: u64
  off_rdma_rsp_req :: u64
  off_rdma_send_cqe :: u64
  off_rdma_read_cqe :: u64
  \<comment> \<open>commands and PDUs in memory\<close>
  nvme_cmd_at :: "u64 \<Rightarrow> ntp_nvme_cmd option"
  u8_at :: "u64 \<Rightarrow> u8 option"
  data_pdu_at :: "u64 \<Rightarrow> (u8 \<times> u16) option"
  cqe_cid_at :: "u64 \<Rightarrow> u16 option"
  \<comment> \<open>networking\<close>
  skb_sk :: "u64 \<Rightarrow> u64"
  skb_tstamp :: "u64 \<Rightarrow> i64"
  sk_user_data :: "u64 \<Rightarrow> u64"
  sock_sk :: "u64 \<Rightarrow> u64"
  \<comment> \<open>block layer and nvme-core\<close>
  bd_rq :: "u64 \<Rightarrow> u64"
  hctx_driver_data :: "u64 \<Rightarrow> u64"
  hctx_queue_num :: "u64 \<Rightarrow> u32"
  rq_data_len :: "u64 \<Rightarrow> u32"
  rq_mq_hctx :: "u64 \<Rightarrow> u64"
  rq_start_time_ns :: "u64 \<Rightarrow> u64"
  rq_disk_name :: "u64 \<Rightarrow> u8 list"
  rq_bio_private :: "u64 \<Rightarrow> u64"
  nreq_ctrl :: "u64 \<Rightarrow> u64"
  ctrl_instance :: "u64 \<Rightarrow> u32"
  ctrl_cntlid :: "u64 \<Rightarrow> u16"
  \<comment> \<open>NVMe/TCP host\<close>
  treq_queue :: "u64 \<Rightarrow> u64"
  treq_state :: "u64 \<Rightarrow> u32"
  tq_sock :: "u64 \<Rightarrow> u64"
  tq_pdu :: "u64 \<Rightarrow> u64"
  tq_request :: "u64 \<Rightarrow> u64"
  \<comment> \<open>RDMA verbs and NVMe/RDMA host\<close>
  wc_wr_cqe :: "u64 \<Rightarrow> u64"
  wc_qp_context :: "u64 \<Rightarrow> u64"
  qe_data :: "u64 \<Rightarrow> u64"
  \<comment> \<open>target core\<close>
  nreq_cmd :: "u64 \<Rightarrow> u64"
  nreq_sq :: "u64 \<Rightarrow> u64"
  nreq_transfer_len :: "u64 \<Rightarrow> u64"
  sq_ctrl_cntlid :: "u64 \<Rightarrow> u16"
  sq_qid :: "u64 \<Rightarrow> u16"
  sq_sqhd_disabled :: "u64 \<Rightarrow> bool"
  \<comment> \<open>NVMe/TCP and NVMe/RDMA target\<close>
  ttq_sock :: "u64 \<Rightarrow> u64"
  ttq_cmd :: "u64 \<Rightarrow> u64"
  ttq_rcv_state :: "u64 \<Rightarrow> u32"
  ttq_snd_cmd :: "u64 \<Rightarrow> u64"
  tcmd_queue :: "u64 \<Rightarrow> u64"
  tcmd_rbytes_done :: "u64 \<Rightarrow> u32"
  tcmd_offset :: "u64 \<Rightarrow> u32"
  tcmd_state :: "u64 \<Rightarrow> u32"
  rsp_flags :: "u64 \<Rightarrow> u32"

text \<open>
  What one call of a program sees: its CPU, its thread, the clock, whether the ring buffer has
  room for the record it may emit, the kernel's memory, and which key a full LRU map gives up
  when the program adds one.
\<close>

record env =
  cpu :: u32
  tid :: u64
  now :: u64
  rb_ok :: bool
  km :: kmem
  lru_victim :: u64

subsection \<open>State every object has\<close>

text \<open>The filter an object has until user space sets another.\<close>

definition default_filter :: ntp_filter where
  "default_filter = \<lparr>f_sample_every = 1, f_io_type = 2, f_n_sizes = 0, f_ctrl_filter = 0,
     f_track_queues = False, f_min_bytes = 0, f_max_bytes = 0,
     f_sizes = replicate NTP_MAX_SIZE_FILTERS 0, f_ctrl_mask = replicate 4 0, f_nsid = 0,
     f_real_minus_mono = 0, f_npids = 0, f_pids = replicate NTP_MAX_PIDS 0\<rparr>"

record ntp_state =
  ntp_armed :: bool
  ntp_inflight :: i64
  counters :: "u32 \<times> ntp_counter \<Rightarrow> u64"

definition ntp_inflight_add :: "i64 \<Rightarrow> 'a ntp_state_scheme \<Rightarrow> 'a ntp_state_scheme" where
  "ntp_inflight_add v s = s\<lparr>ntp_inflight := ntp_inflight s + v\<rparr>"

text \<open>Is there nothing for a timestamp-only hook to do?\<close>

definition ntp_idle :: "ntp_filter \<Rightarrow> 'a ntp_state_scheme \<Rightarrow> bool" where
  "ntp_idle f s \<longleftrightarrow> ntp_inflight s = 0 \<and> \<not> f_track_queues f"

definition ntp_count :: "env \<Rightarrow> ntp_counter \<Rightarrow> u64 \<Rightarrow> 'a ntp_state_scheme \<Rightarrow> 'a ntp_state_scheme" where
  "ntp_count e c delta s =
    s\<lparr>counters := (counters s)((cpu e, c) := counters s (cpu e, c) + delta)\<rparr>"

text \<open>
  A per-CPU context is tagged with the thread that set it; \<open>ntp_ctx_get\<close> gives the context of
  the running thread, if it is this CPU's.
\<close>

definition ntp_ctx_get :: "env \<Rightarrow> ('c \<Rightarrow> u64) \<Rightarrow> (u32 \<Rightarrow> 'c) \<Rightarrow> 'c option" where
  "ntp_ctx_get e tag m = (if tag (m (cpu e)) = tid e then Some (m (cpu e)) else None)"

subsection \<open>Direct-mapped tables\<close>

definition NTP_REC_SLOTS :: u32 where "NTP_REC_SLOTS = push_bit 14 1"

text \<open>The slot of a kernel address in a table of \<open>nslots\<close> entries, a power of two.\<close>

definition ntp_slot :: "u64 \<Rightarrow> u32 \<Rightarrow> u32" where
  "ntp_slot addr nslots =
    ucast ((drop_bit 6 addr XOR drop_bit 26 addr) * 0x9e3779b1) AND (nslots - 1)"

subsection \<open>Hash maps\<close>

text \<open>
  A BPF hash map of at most \<open>max_entries\<close> keys, as the list of its entries. \<^verbatim>\<open>BPF_ANY\<close>
  replaces or inserts, \<^verbatim>\<open>BPF_NOEXIST\<close> inserts only; a full map refuses a new key.
\<close>

definition hm_update_any :: "nat \<Rightarrow> 'k \<Rightarrow> 'v \<Rightarrow> ('k \<times> 'v) list \<Rightarrow> ('k \<times> 'v) list" where
  "hm_update_any max_entries k v m =
    (if map_of m k \<noteq> None \<or> length m < max_entries then AList.update k v m else m)"

definition hm_update_noexist :: "nat \<Rightarrow> 'k \<Rightarrow> 'v \<Rightarrow> ('k \<times> 'v) list \<Rightarrow> ('k \<times> 'v) list" where
  "hm_update_noexist max_entries k v m =
    (if map_of m k = None \<and> length m < max_entries then AList.update k v m else m)"

text \<open>An LRU map is never full: it gives up the key the kernel picks.\<close>

definition lru_update :: "env \<Rightarrow> nat \<Rightarrow> u64 \<Rightarrow> 'v \<Rightarrow> (u64 \<times> 'v) list \<Rightarrow> (u64 \<times> 'v) list" where
  "lru_update e max_entries k v m =
    (if map_of m k \<noteq> None \<or> length m < max_entries then AList.update k v m
     else AList.update k v
       (AList.delete (if map_of m (lru_victim e) \<noteq> None then lru_victim e else fst (hd m)) m))"

text \<open>A write through the pointer a lookup returned.\<close>

definition hm_modify :: "'k \<Rightarrow> ('v \<Rightarrow> 'v) \<Rightarrow> ('k \<times> 'v) list \<Rightarrow> ('k \<times> 'v) list" where
  "hm_modify k f m = AList.map_entry k f m"

subsection \<open>Arrival of a packet\<close>

definition NTP_SKB_STAMP_MAX_AGE_NS :: u64 where "NTP_SKB_STAMP_MAX_AGE_NS = 1000000000"

definition ntp_plausible :: "u64 \<Rightarrow> u64 \<Rightarrow> bool" where
  "ntp_plausible ts tnow \<longleftrightarrow> ts \<noteq> 0 \<and> ts \<le> tnow \<and> tnow - ts < NTP_SKB_STAMP_MAX_AGE_NS"

definition ntp_skb_arrival :: "ntp_filter \<Rightarrow> env \<Rightarrow> u64 \<Rightarrow> u64 \<Rightarrow> u64" where
  "ntp_skb_arrival f e skb tnow =
    (let t = skb_tstamp (km e) skb
     in if sint t \<le> 0 then tnow
        else
          let mono = t - f_real_minus_mono f
          in if ntp_plausible mono tnow then mono
             else if ntp_plausible t tnow then t
             else tnow)"

subsection \<open>Which commands are sampled\<close>

definition ntp_sampled :: "ntp_filter \<Rightarrow> u16 \<Rightarrow> u64 \<Rightarrow> u16 \<Rightarrow> bool" where
  "ntp_sampled f cid slba nlb \<longleftrightarrow>
    f_sample_every f \<le> 1 \<or> ntp_sample_hash cid slba nlb mod ucast (f_sample_every f) = 0"

text \<open>The identifying fields of a wire-format command; no result when it cannot be read.\<close>

definition ntp_read_cmd :: "env \<Rightarrow> u64 \<Rightarrow> ntp_cmd_id \<Rightarrow> ntp_cmd_id option" where
  "ntp_read_cmd e cmd idv =
    (case nvme_cmd_at (km e) cmd of
       None \<Rightarrow> None
     | Some c \<Rightarrow> Some (idv\<lparr>id_opcode := c_opcode c, id_cid := c_command_id c, id_nsid := c_nsid c,
                         id_slba := c_slba c, id_nlb := c_length c\<rparr>))"

definition ntp_is_rw :: "u8 \<Rightarrow> bool" where
  "ntp_is_rw opcode \<longleftrightarrow> opcode = NTP_NVME_CMD_READ \<or> opcode = NTP_NVME_CMD_WRITE"

definition ntp_size_matches :: "ntp_filter \<Rightarrow> u32 \<Rightarrow> bool" where
  "ntp_size_matches f bytes \<longleftrightarrow>
    (if f_n_sizes f \<noteq> 0
     then list_ex (\<lambda>i. i < unat (f_n_sizes f) \<and> f_sizes f ! i = bytes) [0 ..< NTP_MAX_SIZE_FILTERS]
     else if f_min_bytes f \<noteq> 0 \<and> bytes < f_min_bytes f then False
     else if f_max_bytes f \<noteq> 0 \<and> bytes > f_max_bytes f then False
     else True)"

text \<open>The direction test that the programs write out: 2 means both directions.\<close>

definition io_type_matches :: "ntp_filter \<Rightarrow> u8 \<Rightarrow> bool" where
  "io_type_matches f opcode \<longleftrightarrow>
    f_io_type f = 2 \<or> f_io_type f = (if opcode = NTP_NVME_CMD_WRITE then 1 else 0)"

definition ntp_stamp_once :: "u64 \<Rightarrow> u64 \<Rightarrow> u64" where
  "ntp_stamp_once slot tnow = (if slot = 0 then tnow else slot)"

definition ntp_clamp_u16 :: "s32 \<Rightarrow> u16" where
  "ntp_clamp_u16 v = (if sint v < 0 then 0 else if sint v > 0xffff then 0xffff else ucast v)"

subsection \<open>A kernel whose memory reads as zero\<close>

text \<open>The starting point of the concrete runs.\<close>

definition zero_km :: kmem where
  "zero_km = \<lparr>
    sizeof_request = 0, off_rdma_sqe = 0, off_tcp_cmd_req = 0, off_tcp_queue_sq = 0,
    off_rdma_rsp_req = 0, off_rdma_send_cqe = 0, off_rdma_read_cqe = 0,
    nvme_cmd_at = \<lambda>_. None, u8_at = \<lambda>_. None, data_pdu_at = \<lambda>_. None,
    cqe_cid_at = \<lambda>_. None, skb_sk = \<lambda>_. 0, skb_tstamp = \<lambda>_. 0,
    sk_user_data = \<lambda>_. 0, sock_sk = \<lambda>_. 0, bd_rq = \<lambda>_. 0,
    hctx_driver_data = \<lambda>_. 0, hctx_queue_num = \<lambda>_. 0, rq_data_len = \<lambda>_. 0,
    rq_mq_hctx = \<lambda>_. 0, rq_start_time_ns = \<lambda>_. 0,
    rq_disk_name = \<lambda>_. replicate NTP_DISK_NAME_LEN 0, rq_bio_private = \<lambda>_. 0,
    nreq_ctrl = \<lambda>_. 0, ctrl_instance = \<lambda>_. 0, ctrl_cntlid = \<lambda>_. 0,
    treq_queue = \<lambda>_. 0, treq_state = \<lambda>_. 0, tq_sock = \<lambda>_. 0,
    tq_pdu = \<lambda>_. 0, tq_request = \<lambda>_. 0, wc_wr_cqe = \<lambda>_. 0,
    wc_qp_context = \<lambda>_. 0, qe_data = \<lambda>_. 0, nreq_cmd = \<lambda>_. 0,
    nreq_sq = \<lambda>_. 0, nreq_transfer_len = \<lambda>_. 0, sq_ctrl_cntlid = \<lambda>_. 0,
    sq_qid = \<lambda>_. 0, sq_sqhd_disabled = \<lambda>_. False, ttq_sock = \<lambda>_. 0,
    ttq_cmd = \<lambda>_. 0, ttq_rcv_state = \<lambda>_. 0, ttq_snd_cmd = \<lambda>_. 0,
    tcmd_queue = \<lambda>_. 0, tcmd_rbytes_done = \<lambda>_. 0, tcmd_offset = \<lambda>_. 0,
    tcmd_state = \<lambda>_. 0, rsp_flags = \<lambda>_. 0\<rparr>"

subsection \<open>Lemmas: slots and packets\<close>

lemma ntp_slot_less: "ntp_slot addr NTP_REC_SLOTS < NTP_REC_SLOTS"
proof -
  have "ntp_slot addr NTP_REC_SLOTS \<le> NTP_REC_SLOTS - 1"
    unfolding ntp_slot_def by (rule word_and_le1)
  also have "\<dots> < NTP_REC_SLOTS" by (simp add: NTP_REC_SLOTS_def)
  finally show ?thesis .
qed

lemma ntp_slot_0 [simp]: "ntp_slot 0 nslots = 0"
  by (simp add: ntp_slot_def)

lemma ntp_plausible_le: "ntp_plausible ts tnow \<Longrightarrow> ts \<le> tnow"
  by (simp add: ntp_plausible_def)

text \<open>The arrival of a packet is never after the moment it is asked for, and never 0.\<close>

lemma ntp_skb_arrival_le: "ntp_skb_arrival f e skb tnow \<le> tnow"
  by (simp add: ntp_skb_arrival_def Let_def ntp_plausible_le)

lemma ntp_skb_arrival_nonzero: "tnow \<noteq> 0 \<Longrightarrow> ntp_skb_arrival f e skb tnow \<noteq> 0"
  by (simp add: ntp_skb_arrival_def Let_def ntp_plausible_def)

lemma ntp_skb_arrival_recent:
  "tnow - ntp_skb_arrival f e skb tnow < NTP_SKB_STAMP_MAX_AGE_NS"
  by (simp add: ntp_skb_arrival_def Let_def ntp_plausible_def NTP_SKB_STAMP_MAX_AGE_NS_def)

lemma ntp_stamp_once_keeps: "v \<noteq> 0 \<Longrightarrow> ntp_stamp_once v tnow = v"
  by (simp add: ntp_stamp_once_def)

subsection \<open>Lemmas: occupied slots\<close>

text \<open>
  The slots of a table that have an owner. \<open>own\<close> reads the owner's address out of an entry;
  0 marks a free slot.
\<close>

definition occupied :: "('e \<Rightarrow> u64) \<Rightarrow> (u32 \<Rightarrow> 'e) \<Rightarrow> u32 set" where
  "occupied own tab = {slot. slot < NTP_REC_SLOTS \<and> own (tab slot) \<noteq> 0}"

text \<open>Every owner sits in the slot its address hashes to.\<close>

definition homed :: "('e \<Rightarrow> u64) \<Rightarrow> (u32 \<Rightarrow> 'e) \<Rightarrow> bool" where
  "homed own tab \<longleftrightarrow>
    (\<forall>slot. own (tab slot) \<noteq> 0 \<longrightarrow> ntp_slot (own (tab slot)) NTP_REC_SLOTS = slot)"

lemma occupied_take:
  assumes "slot < NTP_REC_SLOTS" and "own (tab slot) = 0" and "own x \<noteq> 0"
  shows "card (occupied own (tab(slot := x))) = Suc (card (occupied own tab))"
proof -
  have "occupied own (tab(slot := x)) = insert slot (occupied own tab)"
    using assms by (auto simp: occupied_def)
  moreover have "slot \<notin> occupied own tab" using assms by (simp add: occupied_def)
  ultimately show ?thesis by simp
qed

lemma occupied_free:
  assumes "slot < NTP_REC_SLOTS" and "own (tab slot) \<noteq> 0" and "own x = 0"
  shows "card (occupied own tab) = Suc (card (occupied own (tab(slot := x))))"
proof -
  have "occupied own tab = insert slot (occupied own (tab(slot := x)))"
    using assms by (auto simp: occupied_def)
  moreover have "slot \<notin> occupied own (tab(slot := x))" using assms by (simp add: occupied_def)
  ultimately show ?thesis by simp
qed

lemma occupied_same:
  "(own x = 0 \<longleftrightarrow> own (tab slot) = 0) \<Longrightarrow> occupied own (tab(slot := x)) = occupied own tab"
  by (auto simp: occupied_def)

lemma occupied_owners: "(\<And>slot. own (tab' slot) = own (tab slot)) \<Longrightarrow> occupied own tab' = occupied own tab"
  by (simp add: occupied_def)

lemma homed_upd:
  "homed own tab \<Longrightarrow> (own x \<noteq> 0 \<Longrightarrow> ntp_slot (own x) NTP_REC_SLOTS = slot) \<Longrightarrow> homed own (tab(slot := x))"
  by (simp add: homed_def)

lemma homed_free: "homed own tab \<Longrightarrow> own x = 0 \<Longrightarrow> homed own (tab(slot := x))"
  by (simp add: homed_def)

lemma card_occupied_le: "card (occupied own tab) \<le> 16384"
proof -
  have "card (occupied own tab) \<le> card {slot :: u32. slot < NTP_REC_SLOTS}"
    by (rule card_mono) (auto simp: occupied_def)
  also have "{slot :: u32. slot < NTP_REC_SLOTS} \<subseteq> of_nat ` {..< 16384}"
  proof
    fix slot :: u32 assume "slot \<in> {slot. slot < NTP_REC_SLOTS}"
    then have "unat slot < 16384" by (simp add: NTP_REC_SLOTS_def word_less_nat_alt)
    then show "slot \<in> of_nat ` {..< 16384}" by (intro image_eqI [of _ _ "unat slot"]) simp_all
  qed
  then have "card {slot :: u32. slot < NTP_REC_SLOTS} \<le> card (of_nat ` {..< 16384} :: u32 set)"
    by (rule card_mono [OF finite_imageI [OF finite_lessThan]])
  also have "\<dots> \<le> 16384" using card_image_le [of "{..< 16384 :: nat}" "of_nat :: nat \<Rightarrow> u32"] by simp
  finally show ?thesis .
qed

text \<open>So the count of records in flight, a 64-bit number, is 0 only when no slot is taken.\<close>

lemma unat_inflight: "unat (of_nat (card (occupied own tab)) :: i64) = card (occupied own tab)"
  using card_occupied_le [of own tab] by (simp add: unsigned_of_nat take_bit_nat_eq_self)

lemma inflight_zero: "of_nat (card (occupied own tab)) = (0 :: i64) \<longleftrightarrow> occupied own tab = {}"
proof
  assume "of_nat (card (occupied own tab)) = (0 :: i64)"
  then have "2 ^ 64 dvd card (occupied own tab)" by (simp add: word_of_nat_eq_0_iff)
  then have "card (occupied own tab) = 0"
    using card_occupied_le [of own tab] by (auto dest!: dvd_imp_le)
  then show "occupied own tab = {}" by simp
qed simp

subsection \<open>Lemmas: the counters, summed over the CPUs\<close>

definition counter_total :: "'a ntp_state_scheme \<Rightarrow> ntp_counter \<Rightarrow> u64" where
  "counter_total s c = (\<Sum>p \<in> UNIV. counters s (p, c))"

lemma counter_total_count:
  "counter_total (ntp_count e c v s) c' = counter_total s c' + (if c' = c then v else 0)"
proof (cases "c' = c")
  case True
  have "counter_total (ntp_count e c v s) c = (\<Sum>p \<in> UNIV. counters s (p, c) + (if p = cpu e then v else 0))"
    unfolding counter_total_def ntp_count_def by (rule sum.cong) auto
  also have "\<dots> = counter_total s c + v"
    by (simp add: sum.distrib counter_total_def)
  finally show ?thesis using True by simp
next
  case False
  then show ?thesis
    unfolding counter_total_def ntp_count_def by (auto intro!: sum.cong)
qed

end
