(* ===== verification/Bpf_Host.thy ===== *)
theory Bpf_Host
  imports Bpf_Common
begin

text \<open>
  The initiator side that every transport shares (\<^verbatim>\<open>src/bpf/host.bpf.h\<close>): the table of
  request records, the index from a queue and a command id to its request, the exact queue
  counts, the per-CPU contexts, and the hooks of the block layer and of nvme-core. A pointer to
  an entry of the table is its slot number, so two pointers to one entry are equal.
\<close>

subsection \<open>State\<close>

record host_entry_t =
  he_rq :: u64
  he_queue :: u64
  he_rec :: ntp_host_rec

record cid_slot =
  cs_queue :: u64
  cs_rq :: u64
  cs_cid :: u16

record qstat =
  qs_unsent :: s32
  qs_inflight :: s32

definition CNT_UNSENT :: u32 where "CNT_UNSENT = 1"
definition CNT_INFLIGHT :: u32 where "CNT_INFLIGHT = 2"

record counted =
  cn_queue :: u64
  cn_flags :: u32

record pending =
  p_tid :: u64
  p_rq :: u64
  p_queue :: u64
  p_ts :: u64
  p_q_unsent :: u16
  p_q_inflight :: u16

record host_rx =
  rx_tid :: u64
  rx_queue :: u64
  rx_skb :: u64
  rx_arrival :: u64
  rx_enter :: u64
  rx_data_rq :: u64
  rx_busy_from :: u64

text \<open>\<open>events\<close> is the list of the records handed to the ring buffer, the latest last.\<close>

record host_state = ntp_state +
  reqs :: "u32 \<Rightarrow> host_entry_t"
  cid_idx :: "u32 \<Rightarrow> cid_slot"
  qstats :: "(u64 \<times> qstat) list"
  counted :: "(u64 \<times> counted) list"
  pend :: "u32 \<Rightarrow> pending"
  rx_ctx :: "u32 \<Rightarrow> host_rx"
  events :: "ntp_host_rec list"

definition QSTATS_MAX :: nat where "QSTATS_MAX = 4096"
definition COUNTED_MAX :: nat where "COUNTED_MAX = 65536"

text \<open>
  What a transport object fixes: its number, whether it always hooks \<^verbatim>\<open>->queue_rq()\<close>, and
  the test that recognises its requests.
\<close>

record host_obj =
  ho_transport :: u8
  ho_hooks_queue_rq :: bool
  ho_queue_of :: "env \<Rightarrow> u64 \<Rightarrow> u64"

subsection \<open>Writing a record\<close>

definition set_ts :: "ntp_host_ts \<Rightarrow> u64 \<Rightarrow> ntp_host_rec \<Rightarrow> ntp_host_rec" where
  "set_ts t v r = r\<lparr>h_ts := (h_ts r)(t := v)\<rparr>"

definition stamp_ts :: "ntp_host_ts \<Rightarrow> u64 \<Rightarrow> ntp_host_rec \<Rightarrow> ntp_host_rec" where
  "stamp_ts t v r = set_ts t (ntp_stamp_once (h_ts r t) v) r"

definition or_flags :: "u16 \<Rightarrow> ntp_host_rec \<Rightarrow> ntp_host_rec" where
  "or_flags m r = r\<lparr>h_hdr := (h_hdr r)\<lparr>hdr_flags := hdr_flags (h_hdr r) OR m\<rparr>\<rparr>"

definition rec_upd ::
  "u32 \<Rightarrow> (ntp_host_rec \<Rightarrow> ntp_host_rec) \<Rightarrow> 'a host_state_scheme \<Rightarrow> 'a host_state_scheme" where
  "rec_upd slot g s =
    s\<lparr>reqs := (reqs s)(slot := (reqs s slot)\<lparr>he_rec := g (he_rec (reqs s slot))\<rparr>)\<rparr>"

subsection \<open>Lookups\<close>

text \<open>\<^verbatim>\<open>blk_mq_rq_from_pdu()\<close>: the driver PDU follows struct request.\<close>

definition rq_from_pdu :: "env \<Rightarrow> u64 \<Rightarrow> u64" where
  "rq_from_pdu e pdu = pdu - sizeof_request (km e)"

definition host_entry :: "'a host_state_scheme \<Rightarrow> u64 \<Rightarrow> u32 option" where
  "host_entry s rq =
    (let slot = ntp_slot rq NTP_REC_SLOTS
     in if he_rq (reqs s slot) = rq then Some slot else None)"

definition host_rec :: "'a host_state_scheme \<Rightarrow> u64 \<Rightarrow> u32 option" where
  "host_rec s rq = host_entry s rq"

definition cid_slot_of :: "u64 \<Rightarrow> u16 \<Rightarrow> u32" where
  "cid_slot_of queue cid = ntp_slot (queue XOR push_bit 6 (ucast cid)) NTP_REC_SLOTS"

definition host_rec_by_cid :: "'a host_state_scheme \<Rightarrow> u64 \<Rightarrow> u16 \<Rightarrow> u32 option" where
  "host_rec_by_cid s queue cid =
    (let cs = cid_idx s (cid_slot_of queue cid)
     in if cs_queue cs = queue \<and> cs_cid cs = cid then host_rec s (cs_rq cs) else None)"

subsection \<open>Exact queue counts\<close>

definition get_qstat :: "u64 \<Rightarrow> 'a host_state_scheme \<Rightarrow> qstat option \<times> 'a host_state_scheme" where
  "get_qstat queue s =
    (case map_of (qstats s) queue of
       Some qs \<Rightarrow> (Some qs, s)
     | None \<Rightarrow>
         let s = s\<lparr>qstats := hm_update_noexist QSTATS_MAX queue \<lparr>qs_unsent = 0, qs_inflight = 0\<rparr> (qstats s)\<rparr>
         in (map_of (qstats s) queue, s))"

definition qstat_drop :: "u32 \<Rightarrow> qstat \<Rightarrow> qstat" where
  "qstat_drop bits qs =
    (let qs = (if has_flag bits CNT_UNSENT then qs\<lparr>qs_unsent := qs_unsent qs - 1\<rparr> else qs)
     in if has_flag bits CNT_INFLIGHT then qs\<lparr>qs_inflight := qs_inflight qs - 1\<rparr> else qs)"

definition uncount :: "u64 \<Rightarrow> u32 \<Rightarrow> bool \<Rightarrow> 'a host_state_scheme \<Rightarrow> 'a host_state_scheme" where
  "uncount rq bits forget s =
    (case map_of (counted s) rq of
       None \<Rightarrow> s
     | Some c \<Rightarrow>
         let dropped = cn_flags c AND bits;
             s = s\<lparr>counted := hm_modify rq (\<lambda>c. c\<lparr>cn_flags := cn_flags c AND NOT bits\<rparr>) (counted s)\<rparr>;
             s = s\<lparr>qstats := hm_modify (cn_queue c) (qstat_drop dropped) (qstats s)\<rparr>
         in if forget then s\<lparr>counted := AList.delete rq (counted s)\<rparr> else s)"

subsection \<open>The receive context\<close>

definition host_rx_enter ::
  "env \<Rightarrow> u64 \<Rightarrow> u64 \<Rightarrow> u64 \<Rightarrow> u64 \<Rightarrow> 'a host_state_scheme \<Rightarrow> 'a host_state_scheme" where
  "host_rx_enter e queue skb arrival tnow s =
    s\<lparr>rx_ctx := (rx_ctx s)(cpu e :=
        \<lparr>rx_tid = tid e, rx_queue = queue, rx_skb = skb, rx_arrival = arrival, rx_enter = tnow,
         rx_data_rq = 0, rx_busy_from = 0\<rparr>)\<rparr>"

text \<open>
  The call that copied a sampled read's data is over: its time on the data counts as processing,
  and the context forgets the read. \<open>slot\<close> is the read's record, on the running CPU's context.
\<close>

definition rec_data_done :: "host_rx \<Rightarrow> u64 \<Rightarrow> ntp_host_rec \<Rightarrow> ntp_host_rec" where
  "rec_data_done c tnow r =
    (if rx_busy_from c \<noteq> 0 \<and> tnow \<ge> rx_busy_from c
     then set_ts NTP_H_C2H_DONE tnow
            (r\<lparr>h_c2h_busy_ns := h_c2h_busy_ns r + (tnow - rx_busy_from c),
               h_c2h_skbs := h_c2h_skbs r + 1\<rparr>)
     else r)"

definition host_data_done ::
  "env \<Rightarrow> u32 \<Rightarrow> u64 \<Rightarrow> 'a host_state_scheme \<Rightarrow> 'a host_state_scheme" where
  "host_data_done e slot tnow s =
    (let c = rx_ctx s (cpu e);
         s = rec_upd slot (rec_data_done c tnow) s
     in s\<lparr>rx_ctx := (rx_ctx s)(cpu e := c\<lparr>rx_data_rq := 0, rx_busy_from := 0\<rparr>)\<rparr>)"

definition host_rx_exit :: "env \<Rightarrow> 'a host_state_scheme \<Rightarrow> 'a host_state_scheme" where
  "host_rx_exit e s =
    (case ntp_ctx_get e rx_tid (rx_ctx s) of
       None \<Rightarrow> s
     | Some c \<Rightarrow> s\<lparr>rx_ctx := (rx_ctx s)(cpu e := c\<lparr>rx_tid := 0\<rparr>)\<rparr>)"

subsection \<open>Submission\<close>

definition host_queue_rq ::
  "ntp_filter \<Rightarrow> env \<Rightarrow> u64 \<Rightarrow> u64 \<Rightarrow> 'a host_state_scheme \<Rightarrow> 'a host_state_scheme" where
  "host_queue_rq f e hctx bd s =
    (if \<not> ntp_armed s then s
     else
       let p = \<lparr>p_tid = tid e, p_rq = bd_rq (km e) bd, p_queue = 0, p_ts = now e,
                p_q_unsent = 0, p_q_inflight = 0\<rparr>
       in if \<not> f_track_queues f then s\<lparr>pend := (pend s)(cpu e := p)\<rparr>
          else
            let p = p\<lparr>p_queue := hctx_driver_data (km e) hctx\<rparr>;
                c = \<lparr>cn_queue = p_queue p, cn_flags = CNT_UNSENT OR CNT_INFLIGHT\<rparr>;
                (qs, s) = get_qstat (p_queue p) s
            in case (qs, map_of (counted s) (p_rq p)) of
                 (Some qs, None) \<Rightarrow>
                   let p = p\<lparr>p_q_unsent := ntp_clamp_u16 (qs_unsent qs),
                             p_q_inflight := ntp_clamp_u16 (qs_inflight qs)\<rparr>
                   in s\<lparr>pend := (pend s)(cpu e := p),
                        counted := hm_update_any COUNTED_MAX (p_rq p) c (counted s),
                        qstats := hm_modify (p_queue p)
                          (\<lambda>qs. qs\<lparr>qs_unsent := qs_unsent qs + 1, qs_inflight := qs_inflight qs + 1\<rparr>)
                          (qstats s)\<rparr>
               | _ \<Rightarrow> s\<lparr>pend := (pend s)(cpu e := p)\<rparr>)"

text \<open>
  \<open>ntp_h_setup_cmd\<close> in four parts: where the request came from, the filter, the new record, and
  taking its slot.
\<close>

definition setup_queue ::
  "host_obj \<Rightarrow> ntp_filter \<Rightarrow> env \<Rightarrow> u64 \<Rightarrow> 'a host_state_scheme
    \<Rightarrow> (u64 \<times> u64 \<times> u16 \<times> u16) option \<times> 'a host_state_scheme" where
  "setup_queue ob f e rq s =
    (let p = (if ho_hooks_queue_rq ob \<or> f_track_queues f then ntp_ctx_get e p_tid (pend s) else None);
         elsewhere =
           (if \<not> ntp_armed s then (None, s)
            else let queue = ho_queue_of ob e rq
                 in if queue = 0 then (None, s) else (Some (queue, 0, 0, 0), s))
     in case p of
          None \<Rightarrow> elsewhere
        | Some p \<Rightarrow>
            if p_rq p = rq
            then (Some (p_queue p, p_ts p, p_q_unsent p, p_q_inflight p),
                  s\<lparr>pend := (pend s)(cpu e := p\<lparr>p_tid := 0\<rparr>)\<rparr>)
            else elsewhere)"

definition host_ctrl :: "env \<Rightarrow> u64 \<Rightarrow> u64" where
  "host_ctrl e rq = nreq_ctrl (km e) (rq + sizeof_request (km e))"

definition ctrl_selected :: "ntp_filter \<Rightarrow> u32 \<Rightarrow> bool" where
  "ctrl_selected f inst \<longleftrightarrow>
    f_ctrl_filter f = 0 \<or>
    (inst \<le> 255 \<and>
     has_flag (f_ctrl_mask f ! unat (drop_bit 6 inst AND 3)) (push_bit (unat (inst AND 63)) 1))"

definition host_selected :: "ntp_filter \<Rightarrow> ntp_cmd_id \<Rightarrow> u32 \<Rightarrow> u32 \<Rightarrow> bool" where
  "host_selected f idv bytes inst \<longleftrightarrow>
    io_type_matches f (id_opcode idv) \<and>
    ntp_sampled f (id_cid idv) (id_slba idv) (id_nlb idv) \<and>
    ntp_size_matches f bytes \<and>
    ctrl_selected f inst \<and>
    (f_nsid f = 0 \<or> id_nsid idv = f_nsid f)"

definition host_new_rec ::
  "host_obj \<Rightarrow> ntp_filter \<Rightarrow> env \<Rightarrow> u64 \<Rightarrow> ntp_cmd_id \<Rightarrow> u64 \<Rightarrow> u16 \<Rightarrow> u16 \<Rightarrow> ntp_host_rec" where
  "host_new_rec ob f e rq idv ts qu qi =
    (let ctrl = host_ctrl e rq;
         hctx = rq_mq_hctx (km e) rq;
         flags = (if id_opcode idv = NTP_NVME_CMD_WRITE then NTP_F_WRITE else 0) OR
                 (if f_track_queues f then NTP_F_QUEUES else 0)
     in zero_host_rec
          \<lparr>h_hdr := \<lparr>hdr_kind = NTP_REC_HOST, hdr_transport = ho_transport ob, hdr_flags = flags,
                     hdr_cpu = 0\<rparr>,
           h_id := idv\<lparr>id_cntlid := ctrl_cntlid (km e) ctrl,
                       id_qid := ucast (hctx_queue_num (km e) hctx + 1)\<rparr>,
           h_bytes := rq_data_len (km e) rq,
           h_ctrl_instance := ctrl_instance (km e) ctrl,
           h_q_unsent := qu, h_q_inflight := qi,
           h_disk := rq_disk_name (km e) rq,
           h_ts := (\<lambda>_. 0)(NTP_H_START := rq_start_time_ns (km e) rq, NTP_H_QUEUE_RQ := ts)\<rparr>)"

definition host_take_slot ::
  "env \<Rightarrow> u64 \<Rightarrow> u64 \<Rightarrow> ntp_host_rec \<Rightarrow> 'a host_state_scheme \<Rightarrow> 'a host_state_scheme" where
  "host_take_slot e rq queue r s =
    (let slot = ntp_slot rq NTP_REC_SLOTS;
         s = (if he_rq (reqs s slot) \<noteq> 0 then ntp_count e NTP_CNT_STALE 1 s
              else ntp_inflight_add 1 s);
         s = s\<lparr>reqs := (reqs s)(slot := \<lparr>he_rq = rq, he_queue = queue, he_rec = r\<rparr>)\<rparr>;
         cslot = cid_slot_of queue (id_cid (h_id r));
         s = s\<lparr>cid_idx := (cid_idx s)(cslot :=
                \<lparr>cs_queue = queue, cs_rq = rq, cs_cid = id_cid (h_id r)\<rparr>)\<rparr>
     in ntp_count e NTP_CNT_HOST_SAMPLED 1 s)"

definition ntp_h_setup_cmd ::
  "host_obj \<Rightarrow> ntp_filter \<Rightarrow> env \<Rightarrow> u64 \<Rightarrow> u64 \<Rightarrow> 'a host_state_scheme \<Rightarrow> 'a host_state_scheme" where
  "ntp_h_setup_cmd ob f e rq cmd s =
    (case setup_queue ob f e rq s of
       (None, s) \<Rightarrow> s
     | (Some (queue, ts, qu, qi), s) \<Rightarrow>
         (case ntp_read_cmd e cmd zero_cmd_id of
            None \<Rightarrow> s
          | Some idv \<Rightarrow>
              if \<not> ntp_is_rw (id_opcode idv) then s
              else
                let bytes = rq_data_len (km e) rq;
                    w = (id_opcode idv = NTP_NVME_CMD_WRITE);
                    s = ntp_count e (if w then NTP_CNT_HOST_WRITE_IOS else NTP_CNT_HOST_READ_IOS) 1 s;
                    s = ntp_count e (if w then NTP_CNT_HOST_WRITE_BYTES else NTP_CNT_HOST_READ_BYTES)
                          (ucast bytes) s
                in if \<not> host_selected f idv bytes (ctrl_instance (km e) (host_ctrl e rq)) then s
                   else
                     let queue = (if queue = 0 then hctx_driver_data (km e) (rq_mq_hctx (km e) rq)
                                  else queue);
                         ts = (if ts = 0 then now e else ts)
                     in host_take_slot e rq queue (host_new_rec ob f e rq idv ts qu qi) s))"

subsection \<open>Completion\<close>

text \<open>The response of a request with a record was seen in receive context \<open>c\<close>.\<close>

definition complete_slot :: "env \<Rightarrow> u64 \<Rightarrow> u32 \<Rightarrow> host_rx \<Rightarrow> 'a host_state_scheme \<Rightarrow> 'a host_state_scheme" where
  "complete_slot e rq slot c s =
     (let s = (if rx_arrival c \<noteq> 0
               then rec_upd slot (set_ts NTP_H_RSP_ARR (rx_arrival c)) s else s);
          s = rec_upd slot (set_ts NTP_H_RSP_PROC (now e)) s
      in if rx_data_rq c = rq then host_data_done e slot (now e) s else s)"

text \<open>\<open>host_complete\<close> also gives the slot of the record it stamped, if any.\<close>

definition host_complete ::
  "ntp_filter \<Rightarrow> env \<Rightarrow> u64 \<Rightarrow> 'a host_state_scheme \<Rightarrow> u32 option \<times> 'a host_state_scheme" where
  "host_complete f e rq s =
    (if ntp_idle f s then (None, s)
     else
       case ntp_ctx_get e rx_tid (rx_ctx s) of
         None \<Rightarrow> (None, s)
       | Some c \<Rightarrow>
           let s = (if f_track_queues f then uncount rq (CNT_UNSENT OR CNT_INFLIGHT) True s else s)
           in case host_rec s rq of
                None \<Rightarrow> (None, s)
              | Some slot \<Rightarrow>
                  (Some slot, complete_slot e rq slot c s))"

definition ntp_h_nvme_done :: "env \<Rightarrow> u64 \<Rightarrow> 'a host_state_scheme \<Rightarrow> 'a host_state_scheme" where
  "ntp_h_nvme_done e rq s =
    (if ntp_inflight s = 0 then s
     else
       case host_rec s rq of
         None \<Rightarrow> s
       | Some slot \<Rightarrow> rec_upd slot (stamp_ts NTP_H_NVME_DONE (now e)) s)"

definition blk_done_rec :: "host_obj \<Rightarrow> env \<Rightarrow> ntp_host_rec \<Rightarrow> ntp_host_rec" where
  "blk_done_rec ob e r =
    (let r = set_ts NTP_H_BLK_DONE (now e) r;
         r = (if ho_transport ob = NTP_TR_TCP \<and> host_flag r NTP_F_WRITE \<and> \<not> host_flag r NTP_F_R2T
              then or_flags NTP_F_INLINE_DATA r else r)
     in r\<lparr>h_hdr := (h_hdr r)\<lparr>hdr_cpu := cpu e\<rparr>\<rparr>)"

definition ntp_h_blk_done ::
  "host_obj \<Rightarrow> env \<Rightarrow> u64 \<Rightarrow> 'a host_state_scheme \<Rightarrow> 'a host_state_scheme" where
  "ntp_h_blk_done ob e rq s =
    (if ntp_inflight s = 0 then s
     else
       case host_entry s rq of
         None \<Rightarrow> s
       | Some slot \<Rightarrow>
           let s = rec_upd slot (blk_done_rec ob e) s;
               r = he_rec (reqs s slot);
               s = (if rb_ok e then ntp_count e NTP_CNT_HOST_EMITTED 1 (s\<lparr>events := events s @ [r]\<rparr>)
                    else ntp_count e NTP_CNT_RB_DROPS 1 s);
               cslot = cid_slot_of (he_queue (reqs s slot)) (id_cid (h_id r));
               s = (if cs_rq (cid_idx s cslot) = he_rq (reqs s slot)
                    then s\<lparr>cid_idx := (cid_idx s)(cslot := (cid_idx s cslot)\<lparr>cs_rq := 0\<rparr>)\<rparr> else s);
               s = s\<lparr>reqs := (reqs s)(slot := (reqs s slot)\<lparr>he_rq := 0\<rparr>)\<rparr>
           in ntp_inflight_add (-1) s)"

subsection \<open>What a timestamp hook may change of a record\<close>

text \<open>
  The events that are stamped once: as soon as one has a time it keeps it. The arrival that
  belongs to a first event is settled with that event.
\<close>

definition first_only :: "ntp_host_ts list" where
  "first_only = [NTP_H_CMD_SENT, NTP_H_R2T_PROC, NTP_H_DATA_START, NTP_H_C2H_PROC, NTP_H_NVME_DONE,
    NTP_H_SEND_DONE]"

text \<open>The flags that say what kind of command it is.\<close>

definition same_kind_flags :: "u16 \<Rightarrow> u16 \<Rightarrow> bool" where
  "same_kind_flags x y \<longleftrightarrow> (\<exists>m. y = x OR m \<and> \<not> has_flag m NTP_F_WRITE \<and> \<not> has_flag m NTP_F_QUEUES)"

definition rec_ext :: "ntp_host_rec \<Rightarrow> ntp_host_rec \<Rightarrow> bool" where
  "rec_ext r r' \<longleftrightarrow>
    hdr_kind (h_hdr r') = hdr_kind (h_hdr r) \<and> hdr_transport (h_hdr r') = hdr_transport (h_hdr r) \<and>
    same_kind_flags (hdr_flags (h_hdr r)) (hdr_flags (h_hdr r')) \<and>
    h_id r' = h_id r \<and> h_bytes r' = h_bytes r \<and> h_ctrl_instance r' = h_ctrl_instance r \<and>
    h_q_unsent r' = h_q_unsent r \<and> h_q_inflight r' = h_q_inflight r \<and> h_disk r' = h_disk r \<and>
    h_ts r' NTP_H_START = h_ts r NTP_H_START \<and> h_ts r' NTP_H_QUEUE_RQ = h_ts r NTP_H_QUEUE_RQ \<and>
    (\<forall>t \<in> set first_only. h_ts r t \<noteq> 0 \<longrightarrow> h_ts r' t = h_ts r t) \<and>
    (h_ts r NTP_H_C2H_PROC \<noteq> 0 \<longrightarrow> h_ts r' NTP_H_C2H_ARR = h_ts r NTP_H_C2H_ARR) \<and>
    (h_ts r NTP_H_R2T_PROC \<noteq> 0 \<longrightarrow> h_ts r' NTP_H_R2T_ARR = h_ts r NTP_H_R2T_ARR)"

lemma same_kind_flags_refl [simp]: "same_kind_flags x x"
  unfolding same_kind_flags_def by (rule exI [of _ 0]) simp

lemma same_kind_flags_or:
  "\<not> has_flag m NTP_F_WRITE \<Longrightarrow> \<not> has_flag m NTP_F_QUEUES \<Longrightarrow> same_kind_flags x (x OR m)"
  unfolding same_kind_flags_def by blast

lemma same_kind_flags_trans:
  "same_kind_flags x y \<Longrightarrow> same_kind_flags y z \<Longrightarrow> same_kind_flags x z"
proof -
  assume "same_kind_flags x y" and "same_kind_flags y z"
  then obtain m n where "z = x OR (m OR n)" "\<not> has_flag (m OR n) NTP_F_WRITE" "\<not> has_flag (m OR n) NTP_F_QUEUES"
    unfolding same_kind_flags_def has_flag_or by (auto simp: or.assoc)
  then show ?thesis unfolding same_kind_flags_def by blast
qed

lemma same_kind_flags_has:
  assumes "same_kind_flags x y"
  shows "has_flag y NTP_F_WRITE \<longleftrightarrow> has_flag x NTP_F_WRITE"
    and "has_flag y NTP_F_QUEUES \<longleftrightarrow> has_flag x NTP_F_QUEUES"
  using assms by (auto simp: same_kind_flags_def has_flag_or)

lemma rec_ext_refl [simp]: "rec_ext r r"
  by (simp add: rec_ext_def)

lemma rec_ext_trans: "rec_ext r1 r2 \<Longrightarrow> rec_ext r2 r3 \<Longrightarrow> rec_ext r1 r3"
proof -
  assume a: "rec_ext r1 r2" and b: "rec_ext r2 r3"
  have flags: "same_kind_flags (hdr_flags (h_hdr r1)) (hdr_flags (h_hdr r3))"
    using a b same_kind_flags_trans unfolding rec_ext_def by blast
  have first: "h_ts r3 t = h_ts r1 t" if "t \<in> set first_only" "h_ts r1 t \<noteq> 0" for t
    using a b that by (simp add: rec_ext_def)
  have arr: "h_ts r1 NTP_H_C2H_PROC \<noteq> 0 \<longrightarrow> h_ts r3 NTP_H_C2H_ARR = h_ts r1 NTP_H_C2H_ARR"
    "h_ts r1 NTP_H_R2T_PROC \<noteq> 0 \<longrightarrow> h_ts r3 NTP_H_R2T_ARR = h_ts r1 NTP_H_R2T_ARR"
    using a b by (simp_all add: rec_ext_def first_only_def)
  show ?thesis
    using a b flags arr unfolding rec_ext_def by (simp add: first)
qed

lemma rec_ext_set_ts:
  assumes "t \<notin> set first_only" and "t \<noteq> NTP_H_START" and "t \<noteq> NTP_H_QUEUE_RQ"
    and "t = NTP_H_C2H_ARR \<Longrightarrow> h_ts r NTP_H_C2H_PROC = 0"
    and "t = NTP_H_R2T_ARR \<Longrightarrow> h_ts r NTP_H_R2T_PROC = 0"
  shows "rec_ext r (set_ts t v r)"
  using assms unfolding rec_ext_def set_ts_def by (cases t) (simp_all add: first_only_def)

lemma rec_ext_first:
  "t \<in> set first_only \<Longrightarrow> h_ts r t = 0 \<Longrightarrow> rec_ext r (set_ts t v r)"
  by (auto simp: rec_ext_def set_ts_def first_only_def)

lemma rec_ext_stamp_ts: "t \<in> set first_only \<Longrightarrow> rec_ext r (stamp_ts t v r)"
  by (auto simp: rec_ext_def set_ts_def stamp_ts_def ntp_stamp_once_def first_only_def)

lemma rec_ext_or_flags:
  "\<not> has_flag m NTP_F_WRITE \<Longrightarrow> \<not> has_flag m NTP_F_QUEUES \<Longrightarrow> rec_ext r (or_flags m r)"
  by (simp add: rec_ext_def or_flags_def same_kind_flags_or)

lemma rec_ext_data_done: "rec_ext r (rec_data_done c tnow r)"
  by (auto simp: rec_ext_def rec_data_done_def set_ts_def first_only_def)

lemma other_flags [simp]:
  "\<not> has_flag NTP_F_INLINE_DATA NTP_F_WRITE" "\<not> has_flag NTP_F_INLINE_DATA NTP_F_QUEUES"
  "\<not> has_flag NTP_F_R2T NTP_F_WRITE" "\<not> has_flag NTP_F_R2T NTP_F_QUEUES"
  "\<not> has_flag NTP_F_MULTI_R2T NTP_F_WRITE" "\<not> has_flag NTP_F_MULTI_R2T NTP_F_QUEUES"
  "\<not> has_flag NTP_F_DATA_SUCCESS NTP_F_WRITE" "\<not> has_flag NTP_F_DATA_SUCCESS NTP_F_QUEUES"
  by (simp_all add: has_flag_def flag_defs)

subsection \<open>What a timestamp hook may change of the state\<close>

definition stamped :: "'a host_state_scheme \<Rightarrow> 'b host_state_scheme \<Rightarrow> bool" where
  "stamped s s' \<longleftrightarrow>
    ntp_inflight s' = ntp_inflight s \<and> counters s' = counters s \<and> events s' = events s \<and>
    cid_idx s' = cid_idx s \<and>
    (\<forall>slot. he_rq (reqs s' slot) = he_rq (reqs s slot) \<and>
            he_queue (reqs s' slot) = he_queue (reqs s slot) \<and>
            rec_ext (he_rec (reqs s slot)) (he_rec (reqs s' slot)))"

lemma stamped_refl [simp]: "stamped s s"
  by (simp add: stamped_def)

lemma stamped_trans: "stamped s1 s2 \<Longrightarrow> stamped s2 s3 \<Longrightarrow> stamped s1 s3"
  unfolding stamped_def by (simp, blast intro: rec_ext_trans)

lemma stamped_rec_upd:
  "rec_ext (he_rec (reqs s slot)) (g (he_rec (reqs s slot))) \<Longrightarrow> stamped s (rec_upd slot g s)"
  by (simp add: stamped_def rec_upd_def)

lemma stamped_queues [simp]:
  "stamped s (s\<lparr>counted := x\<rparr>)" "stamped s (s\<lparr>qstats := y\<rparr>)" "stamped s (s\<lparr>pend := p\<rparr>)"
  "stamped s (s\<lparr>rx_ctx := c\<rparr>)"
  by (simp_all add: stamped_def)

lemma stamped_uncount: "stamped s (uncount rq bits forget s)"
  by (simp add: uncount_def Let_def stamped_def split: option.split)

lemma stamped_host_queue_rq: "stamped s (host_queue_rq f e hctx bd s)"
  by (simp add: host_queue_rq_def get_qstat_def Let_def stamped_def split: option.split)

lemma stamped_host_rx_enter: "stamped s (host_rx_enter e queue skb arrival tnow s)"
  by (simp add: host_rx_enter_def)

lemma stamped_host_rx_exit: "stamped s (host_rx_exit e s)"
  by (simp add: host_rx_exit_def split: option.split)

lemma stamped_host_data_done: "stamped s (host_data_done e slot tnow s)"
  unfolding host_data_done_def Let_def
  by (rule stamped_trans [OF stamped_rec_upd stamped_queues(4)]) (rule rec_ext_data_done)

lemma stamped_if: "stamped s a \<Longrightarrow> stamped s b \<Longrightarrow> stamped s (if P then a else b)"
  by simp

lemma stamped_complete_slot: "stamped s (complete_slot e rq slot c s)"
proof -
  have rsp: "rec_ext r (set_ts NTP_H_RSP_ARR v r)" "rec_ext r (set_ts NTP_H_RSP_PROC v r)" for r v
    by (rule rec_ext_set_ts; simp add: first_only_def)+
  have a: "stamped s (if P then rec_upd slot (set_ts NTP_H_RSP_ARR v) s else s)" for P v
    by (simp add: stamped_rec_upd rsp)
  have b: "stamped s (rec_upd slot (set_ts NTP_H_RSP_PROC v) (if P then rec_upd slot (set_ts NTP_H_RSP_ARR w) s else s))" for P v w
    by (rule stamped_trans [OF a stamped_rec_upd]) (rule rsp)
  show ?thesis
    unfolding complete_slot_def Let_def
    by (rule stamped_if [OF stamped_trans [OF b stamped_host_data_done] b])
qed

lemma stamped_host_complete: "stamped s (snd (host_complete f e rq s))"
  unfolding host_complete_def
  by (auto simp: Let_def stamped_uncount split: option.split
      intro: stamped_trans [OF stamped_uncount stamped_complete_slot] stamped_complete_slot)

lemma stamped_nvme_done: "stamped s (ntp_h_nvme_done e rq s)"
  by (simp add: ntp_h_nvme_done_def stamped_rec_upd rec_ext_stamp_ts first_only_def split: option.split)

subsection \<open>Accounting of the records\<close>

text \<open>
  The number of records in flight is the number of slots taken, every record sits in the slot of
  its request, and every sampled request was emitted, dropped for want of room in the ring
  buffer, replaced, or is still in flight. The counters are sums over the CPUs, modulo 2^64.
\<close>

definition host_inv :: "'a host_state_scheme \<Rightarrow> bool" where
  "host_inv s \<longleftrightarrow>
    ntp_inflight s = of_nat (card (occupied he_rq (reqs s))) \<and>
    homed he_rq (reqs s) \<and>
    counter_total s NTP_CNT_HOST_SAMPLED =
      counter_total s NTP_CNT_HOST_EMITTED + counter_total s NTP_CNT_RB_DROPS +
      counter_total s NTP_CNT_STALE + ntp_inflight s"

lemma counter_total_frame [simp]:
  "counter_total (s\<lparr>reqs := a\<rparr>) = counter_total s"
  "counter_total (s\<lparr>cid_idx := b\<rparr>) = counter_total s"
  "counter_total (s\<lparr>events := ev\<rparr>) = counter_total s"
  "counter_total (s\<lparr>pend := p\<rparr>) = counter_total s"
  "counter_total (ntp_inflight_add v s) = counter_total s"
  by (simp_all add: counter_total_def fun_eq_iff ntp_inflight_add_def)

lemma ntp_count_frame [simp]:
  "ntp_inflight (ntp_count e c v s) = ntp_inflight s"
  "ntp_armed (ntp_count e c v s) = ntp_armed s"
  "reqs (ntp_count e c v s) = reqs s"
  "cid_idx (ntp_count e c v s) = cid_idx s"
  "events (ntp_count e c v s) = events s"
  "pend (ntp_count e c v s) = pend s" "rx_ctx (ntp_count e c v s) = rx_ctx s"
  "counted (ntp_count e c v s) = counted s" "qstats (ntp_count e c v s) = qstats s"
  by (simp_all add: ntp_count_def)

lemma ntp_inflight_add_frame [simp]:
  "ntp_inflight (ntp_inflight_add v s) = ntp_inflight s + v"
  "ntp_armed (ntp_inflight_add v s) = ntp_armed s"
  "counters (ntp_inflight_add v s) = counters s"
  "reqs (ntp_inflight_add v s) = reqs s"
  "cid_idx (ntp_inflight_add v s) = cid_idx s"
  "events (ntp_inflight_add v s) = events s"
  "pend (ntp_inflight_add v s) = pend s" "rx_ctx (ntp_inflight_add v s) = rx_ctx s"
  "counted (ntp_inflight_add v s) = counted s" "qstats (ntp_inflight_add v s) = qstats s"
  by (simp_all add: ntp_inflight_add_def)

lemma host_inv_stamped: "host_inv s \<Longrightarrow> stamped s s' \<Longrightarrow> host_inv s'"
  by (simp add: host_inv_def stamped_def counter_total_def fun_eq_iff homed_def
      occupied_owners [of he_rq "reqs s'" "reqs s"])

lemma host_inv_count:
  assumes "c \<notin> {NTP_CNT_HOST_SAMPLED, NTP_CNT_HOST_EMITTED, NTP_CNT_RB_DROPS, NTP_CNT_STALE}"
  shows "host_inv (ntp_count e c v s) \<longleftrightarrow> host_inv s"
  using assms by (auto simp: host_inv_def counter_total_count)

lemma stamped_setup_queue: "stamped s (snd (setup_queue ob f e rq s))"
  by (simp add: setup_queue_def Let_def split: option.split)

lemma host_inv_take_slot:
  assumes inv: "host_inv s" and rq: "rq \<noteq> 0"
  shows "host_inv (host_take_slot e rq queue r s)"
proof (cases "he_rq (reqs s (ntp_slot rq NTP_REC_SLOTS)) = 0")
  case True
  then show ?thesis using inv rq
    by (simp add: host_inv_def host_take_slot_def Let_def counter_total_count homed_upd
        occupied_take [OF ntp_slot_less])
next
  case False
  then show ?thesis using inv rq
    by (simp add: host_inv_def host_take_slot_def Let_def counter_total_count homed_upd
        occupied_same)
qed

lemma host_entry_Some:
  "host_entry s rq = Some slot \<longleftrightarrow> slot = ntp_slot rq NTP_REC_SLOTS \<and> he_rq (reqs s slot) = rq"
  by (auto simp: host_entry_def Let_def)

lemma setup_cmd_cases:
  obtains "ntp_h_setup_cmd ob f e rq cmd s = snd (setup_queue ob f e rq s)"
  | c1 v1 c2 v2 where
      "c1 \<in> {NTP_CNT_HOST_WRITE_IOS, NTP_CNT_HOST_READ_IOS}"
      "c2 \<in> {NTP_CNT_HOST_WRITE_BYTES, NTP_CNT_HOST_READ_BYTES}"
      "ntp_h_setup_cmd ob f e rq cmd s = ntp_count e c2 v2 (ntp_count e c1 v1 (snd (setup_queue ob f e rq s)))"
  | c1 v1 c2 v2 queue idv ts qu qi where
      "c1 \<in> {NTP_CNT_HOST_WRITE_IOS, NTP_CNT_HOST_READ_IOS}"
      "c2 \<in> {NTP_CNT_HOST_WRITE_BYTES, NTP_CNT_HOST_READ_BYTES}"
      "ntp_read_cmd e cmd zero_cmd_id = Some idv" "ntp_is_rw (id_opcode idv)"
      "host_selected f idv (rq_data_len (km e) rq) (ctrl_instance (km e) (host_ctrl e rq))"
      "ntp_h_setup_cmd ob f e rq cmd s =
        host_take_slot e rq queue (host_new_rec ob f e rq idv ts qu qi)
          (ntp_count e c2 v2 (ntp_count e c1 v1 (snd (setup_queue ob f e rq s))))"
proof -
  obtain q s' where sq: "setup_queue ob f e rq s = (q, s')" by fastforce
  show thesis
  proof (cases "q = None \<or> ntp_read_cmd e cmd zero_cmd_id = None")
    case True
    then show thesis using that(1) sq by (auto simp: ntp_h_setup_cmd_def split: option.splits)
  next
    case False
    then obtain queue ts qu qi idv
      where q: "q = Some (queue, ts, qu, qi)" and idv: "ntp_read_cmd e cmd zero_cmd_id = Some idv"
      by auto
    show thesis
    proof (cases "ntp_is_rw (id_opcode idv)")
      case False
      then show thesis using that(1) sq q idv by (simp add: ntp_h_setup_cmd_def)
    next
      case rw: True
      let ?w = "id_opcode idv = NTP_NVME_CMD_WRITE"
      let ?c1 = "if ?w then NTP_CNT_HOST_WRITE_IOS else NTP_CNT_HOST_READ_IOS"
      let ?c2 = "if ?w then NTP_CNT_HOST_WRITE_BYTES else NTP_CNT_HOST_READ_BYTES"
      have c: "?c1 \<in> {NTP_CNT_HOST_WRITE_IOS, NTP_CNT_HOST_READ_IOS}"
        "?c2 \<in> {NTP_CNT_HOST_WRITE_BYTES, NTP_CNT_HOST_READ_BYTES}" by simp_all
      show thesis
      proof (cases "host_selected f idv (rq_data_len (km e) rq) (ctrl_instance (km e) (host_ctrl e rq))")
        case False
        then have "ntp_h_setup_cmd ob f e rq cmd s =
            ntp_count e ?c2 (ucast (rq_data_len (km e) rq)) (ntp_count e ?c1 1 s')"
          using sq q idv rw by (simp add: ntp_h_setup_cmd_def Let_def)
        with sq show thesis using that(2) [OF c] by simp
      next
        case True
        then show thesis
          using that(3) [OF c idv rw True] sq q idv rw by (simp add: ntp_h_setup_cmd_def Let_def)
      qed
    qed
  qed
qed

lemma host_inv_setup_cmd:
  assumes "host_inv s" and "rq \<noteq> 0"
  shows "host_inv (ntp_h_setup_cmd ob f e rq cmd s)"
proof -
  have start: "host_inv (snd (setup_queue ob f e rq s))"
    using assms(1) stamped_setup_queue by (rule host_inv_stamped)
  show ?thesis
    by (rule setup_cmd_cases [of ob f e rq cmd s])
      (auto simp: start host_inv_count intro!: host_inv_take_slot assms(2))
qed

lemma host_inv_blk_done:
  assumes inv: "host_inv s" and rq: "rq \<noteq> 0"
  shows "host_inv (ntp_h_blk_done ob e rq s)"
proof (cases "host_entry s rq")
  case None
  then show ?thesis using inv by (simp add: ntp_h_blk_done_def)
next
  case (Some slot)
  then have slot: "slot = ntp_slot rq NTP_REC_SLOTS" "he_rq (reqs s slot) = rq"
    by (auto simp: host_entry_Some)
  have free: "of_nat (card (occupied he_rq ((reqs s)(ntp_slot rq NTP_REC_SLOTS := x)))) =
      of_nat (card (occupied he_rq (reqs s))) - (1 :: i64)" if "he_rq x = 0" for x
    using occupied_free [of slot he_rq "reqs s" x] slot rq that by (simp add: ntp_slot_less)
  show ?thesis using inv Some rq slot
    by (simp add: host_inv_def ntp_h_blk_done_def Let_def rec_upd_def counter_total_count homed_free free)
qed

end
