(* ===== verification/Bpf_Host_Run.thy ===== *)
theory Bpf_Host_Run
  imports Bpf_Host
begin

text \<open>
  What holds over any sequence of hooks of a host object, whatever its transport. A transport
  enters by three laws: its sampling and its final hook are the shared ones, and every other
  hook only stamps records. The lemmas of the locale follow from these laws alone; the transport
  theories interpret it on their own step functions.
\<close>

subsection \<open>Calls\<close>

datatype host_call = Setup_cmd env u64 u64 | Blk_done env u64 | Other_hook env

primrec call_ok :: "host_call \<Rightarrow> bool" where
  "call_ok (Setup_cmd e rq cmd) \<longleftrightarrow> rq \<noteq> 0"
| "call_ok (Blk_done e rq) \<longleftrightarrow> rq \<noteq> 0"
| "call_ok (Other_hook e) \<longleftrightarrow> True"

primrec call_env :: "host_call \<Rightarrow> env" where
  "call_env (Setup_cmd e rq cmd) = e"
| "call_env (Blk_done e rq) = e"
| "call_env (Other_hook e) = e"

text \<open>A freshly loaded object: its maps are zero and it is not armed.\<close>

definition zero_host_entry :: host_entry_t where
  "zero_host_entry = \<lparr>he_rq = 0, he_queue = 0, he_rec = zero_host_rec\<rparr>"

definition host_fresh :: "'a host_state_scheme \<Rightarrow> bool" where
  "host_fresh s \<longleftrightarrow>
    \<not> ntp_armed s \<and> ntp_inflight s = 0 \<and> counters s = (\<lambda>_. 0) \<and> reqs s = (\<lambda>_. zero_host_entry) \<and>
    cid_idx s = (\<lambda>_. \<lparr>cs_queue = 0, cs_rq = 0, cs_cid = 0\<rparr>) \<and> qstats s = [] \<and> counted s = [] \<and>
    pend s = (\<lambda>_. \<lparr>p_tid = 0, p_rq = 0, p_queue = 0, p_ts = 0, p_q_unsent = 0, p_q_inflight = 0\<rparr>) \<and>
    rx_ctx s = (\<lambda>_. \<lparr>rx_tid = 0, rx_queue = 0, rx_skb = 0, rx_arrival = 0, rx_enter = 0,
                     rx_data_rq = 0, rx_busy_from = 0\<rparr>) \<and>
    events s = []"

lemma host_inv_fresh: "host_fresh s \<Longrightarrow> host_inv s"
  by (simp add: host_fresh_def host_inv_def zero_host_entry_def occupied_def homed_def counter_total_def)

subsection \<open>Which records exist\<close>

text \<open>A record is of a command that passed the filter, and its header says what it is.\<close>

definition host_rec_ok :: "host_obj \<Rightarrow> ntp_filter \<Rightarrow> ntp_host_rec \<Rightarrow> bool" where
  "host_rec_ok ob f r \<longleftrightarrow>
    hdr_kind (h_hdr r) = NTP_REC_HOST \<and> hdr_transport (h_hdr r) = ho_transport ob \<and>
    ntp_is_rw (id_opcode (h_id r)) \<and> host_selected f (h_id r) (h_bytes r) (h_ctrl_instance r) \<and>
    (host_flag r NTP_F_WRITE \<longleftrightarrow> id_opcode (h_id r) = NTP_NVME_CMD_WRITE) \<and>
    (host_flag r NTP_F_QUEUES \<longleftrightarrow> f_track_queues f)"

definition recs_ok :: "host_obj \<Rightarrow> ntp_filter \<Rightarrow> 'a host_state_scheme \<Rightarrow> bool" where
  "recs_ok ob f s \<longleftrightarrow>
    (\<forall>slot. he_rq (reqs s slot) \<noteq> 0 \<longrightarrow> host_rec_ok ob f (he_rec (reqs s slot))) \<and>
    (\<forall>r \<in> set (events s). host_rec_ok ob f r \<and>
       (ho_transport ob = NTP_TR_TCP \<and> host_flag r NTP_F_WRITE \<longrightarrow>
        host_flag r NTP_F_R2T \<or> host_flag r NTP_F_INLINE_DATA))"

lemma host_rec_ok_ext: "host_rec_ok ob f r \<Longrightarrow> rec_ext r r' \<Longrightarrow> host_rec_ok ob f r'"
  using same_kind_flags_has [of "hdr_flags (h_hdr r)" "hdr_flags (h_hdr r')"]
  by (simp add: host_rec_ok_def rec_ext_def)

lemma recs_ok_stamped: "recs_ok ob f s \<Longrightarrow> stamped s s' \<Longrightarrow> recs_ok ob f s'"
  unfolding recs_ok_def stamped_def by (auto intro: host_rec_ok_ext)

lemma write_not_queues [simp]:
  "has_flag NTP_F_WRITE NTP_F_WRITE" "has_flag NTP_F_QUEUES NTP_F_QUEUES"
  "\<not> has_flag NTP_F_WRITE NTP_F_QUEUES" "\<not> has_flag NTP_F_QUEUES NTP_F_WRITE"
  "has_flag NTP_F_INLINE_DATA NTP_F_INLINE_DATA"
  by (simp_all add: has_flag_def flag_defs)

lemma host_new_rec_ok:
  assumes "host_selected f idv (rq_data_len (km e) rq) (ctrl_instance (km e) (host_ctrl e rq))"
    and "ntp_is_rw (id_opcode idv)"
  shows "host_rec_ok ob f (host_new_rec ob f e rq idv ts qu qi)"
  using assms
  by (simp add: host_rec_ok_def host_new_rec_def Let_def has_flag_or zero_host_rec_def host_selected_def)

lemma blk_done_rec_ok:
  assumes "host_rec_ok ob f r"
  shows "host_rec_ok ob f (blk_done_rec ob e r)"
    and "ho_transport ob = NTP_TR_TCP \<and> host_flag (blk_done_rec ob e r) NTP_F_WRITE \<Longrightarrow>
         host_flag (blk_done_rec ob e r) NTP_F_R2T \<or> host_flag (blk_done_rec ob e r) NTP_F_INLINE_DATA"
  using assms
  by (auto simp: host_rec_ok_def blk_done_rec_def Let_def set_ts_def or_flags_def has_flag_or)

lemma recs_ok_count [simp]: "recs_ok ob f (ntp_count e c v s) = recs_ok ob f s"
  by (simp add: recs_ok_def)

lemma recs_ok_take_slot:
  "recs_ok ob f s \<Longrightarrow> host_rec_ok ob f r \<Longrightarrow> recs_ok ob f (host_take_slot e rq queue r s)"
  by (simp add: recs_ok_def host_take_slot_def Let_def)

lemma recs_ok_setup_cmd:
  assumes "recs_ok ob f s"
  shows "recs_ok ob f (ntp_h_setup_cmd ob f e rq cmd s)"
proof -
  have start: "recs_ok ob f (snd (setup_queue ob f e rq s))"
    using assms stamped_setup_queue by (rule recs_ok_stamped)
  show ?thesis
    by (rule setup_cmd_cases [of ob f e rq cmd s])
      (auto simp: start intro!: recs_ok_take_slot host_new_rec_ok)
qed

lemma recs_ok_blk_done:
  assumes "recs_ok ob f s" and "rq \<noteq> 0"
  shows "recs_ok ob f (ntp_h_blk_done ob e rq s)"
proof (cases "host_entry s rq")
  case None
  then show ?thesis using assms by (simp add: ntp_h_blk_done_def)
next
  case (Some slot)
  then have "host_rec_ok ob f (he_rec (reqs s slot))"
    using assms by (auto simp: recs_ok_def host_entry_Some)
  with assms Some show ?thesis
    using blk_done_rec_ok [of ob f "he_rec (reqs s slot)" e]
    by (auto simp: recs_ok_def ntp_h_blk_done_def Let_def rec_upd_def)
qed

lemma recs_ok_fresh: "host_fresh s \<Longrightarrow> recs_ok ob f s"
  by (simp add: host_fresh_def recs_ok_def zero_host_entry_def)

subsection \<open>The record of one request\<close>

text \<open>Request \<open>rq\<close> has a record that began as \<open>r\<close>.\<close>

definition tracked :: "u64 \<Rightarrow> ntp_host_rec \<Rightarrow> 'a host_state_scheme \<Rightarrow> bool" where
  "tracked rq r s \<longleftrightarrow>
    (let x = reqs s (ntp_slot rq NTP_REC_SLOTS) in he_rq x = rq \<and> rec_ext r (he_rec x))"

lemma tracked_stamped: "tracked rq r s \<Longrightarrow> stamped s s' \<Longrightarrow> tracked rq r s'"
  unfolding tracked_def stamped_def Let_def by (auto intro: rec_ext_trans)

lemma tracked_setup_cmd:
  assumes "tracked rq r s" and "ntp_slot rq' NTP_REC_SLOTS \<noteq> ntp_slot rq NTP_REC_SLOTS"
  shows "tracked rq r (ntp_h_setup_cmd ob f e rq' cmd s)"
proof -
  have "tracked rq r (snd (setup_queue ob f e rq' s))"
    using assms(1) stamped_setup_queue by (rule tracked_stamped)
  then show ?thesis using assms(2)
    by (rule_tac setup_cmd_cases [of ob f e rq' cmd s])
      (auto simp: tracked_def host_take_slot_def Let_def)
qed

lemma tracked_blk_done:
  assumes "tracked rq r s" and "rq' \<noteq> rq"
  shows "tracked rq r (ntp_h_blk_done ob e rq' s)"
  using assms
  by (auto simp: tracked_def ntp_h_blk_done_def Let_def rec_upd_def host_entry_Some split: option.split)

text \<open>The block layer's completion emits the record and frees its slot.\<close>

lemma blk_done_emits:
  fixes ob :: host_obj and e :: env
  assumes inv: "host_inv s" and rq: "rq \<noteq> 0" and tr: "tracked rq r s"
  defines "r' \<equiv> blk_done_rec ob e (he_rec (reqs s (ntp_slot rq NTP_REC_SLOTS)))"
  shows "events (ntp_h_blk_done ob e rq s) = events s @ (if rb_ok e then [r'] else [])"
    and "rec_ext r r'" and "h_ts r' NTP_H_BLK_DONE = now e" and "hdr_cpu (h_hdr r') = cpu e"
    and "host_entry (ntp_h_blk_done ob e rq s) rq = None"
proof -
  let ?slot = "ntp_slot rq NTP_REC_SLOTS"
  have entry: "host_entry s rq = Some ?slot" and ext: "rec_ext r (he_rec (reqs s ?slot))"
    using tr by (simp_all add: tracked_def Let_def host_entry_Some)
  have "?slot \<in> occupied he_rq (reqs s)"
    using entry rq by (simp add: occupied_def ntp_slot_less host_entry_Some)
  then have busy: "ntp_inflight s \<noteq> 0"
    using inv inflight_zero [of he_rq "reqs s"] by (auto simp: host_inv_def)
  show "events (ntp_h_blk_done ob e rq s) = events s @ (if rb_ok e then [r'] else [])"
    using busy entry by (simp add: ntp_h_blk_done_def Let_def rec_upd_def r'_def)
  show "host_entry (ntp_h_blk_done ob e rq s) rq = None"
    using busy entry rq by (simp add: ntp_h_blk_done_def Let_def rec_upd_def) (simp add: host_entry_def)
  have "rec_ext (he_rec (reqs s ?slot)) r'"
    unfolding r'_def blk_done_rec_def Let_def
    by (auto simp: rec_ext_def set_ts_def or_flags_def first_only_def same_kind_flags_or)
  with ext show "rec_ext r r'" by (rule rec_ext_trans)
  show "h_ts r' NTP_H_BLK_DONE = now e" "hdr_cpu (h_hdr r') = cpu e"
    by (simp_all add: r'_def blk_done_rec_def Let_def set_ts_def or_flags_def)
qed

text \<open>Sampling another request keeps the record, or takes its slot and counts it as stale.\<close>

lemma counter_total_stamped: "stamped s s' \<Longrightarrow> counter_total s' = counter_total s"
  by (simp add: stamped_def counter_total_def fun_eq_iff)

lemma tracked_or_stale:
  assumes tr: "tracked rq r s" and rq: "rq \<noteq> 0"
  shows "tracked rq r (ntp_h_setup_cmd ob f e rq' cmd s) \<or>
    ntp_slot rq' NTP_REC_SLOTS = ntp_slot rq NTP_REC_SLOTS \<and>
    counter_total (ntp_h_setup_cmd ob f e rq' cmd s) NTP_CNT_STALE = counter_total s NTP_CNT_STALE + 1"
proof (cases "ntp_slot rq' NTP_REC_SLOTS = ntp_slot rq NTP_REC_SLOTS")
  case False
  then show ?thesis using tracked_setup_cmd [OF tr] by blast
next
  case True
  have start: "tracked rq r (snd (setup_queue ob f e rq' s))"
    using tr stamped_setup_queue by (rule tracked_stamped)
  then have held: "he_rq (reqs (snd (setup_queue ob f e rq' s)) (ntp_slot rq NTP_REC_SLOTS)) \<noteq> 0"
    using rq by (simp add: tracked_def Let_def)
  have same: "counter_total (snd (setup_queue ob f e rq' s)) = counter_total s"
    using stamped_setup_queue by (rule counter_total_stamped)
  show ?thesis
    by (rule setup_cmd_cases [of ob f e rq' cmd s])
      (use start in \<open>auto simp: tracked_def True held same host_take_slot_def Let_def counter_total_count\<close>)
qed

text \<open>The block layer's completion hands the record over, or counts it as dropped when the ring is full.\<close>

lemma blk_done_drops:
  assumes "host_inv s" and "rq \<noteq> 0" and "tracked rq r s"
  shows "counter_total (ntp_h_blk_done ob e rq s) NTP_CNT_RB_DROPS =
    counter_total s NTP_CNT_RB_DROPS + (if rb_ok e then 0 else 1)"
proof -
  let ?slot = "ntp_slot rq NTP_REC_SLOTS"
  have entry: "host_entry s rq = Some ?slot" using assms(3) by (simp add: tracked_def Let_def host_entry_Some)
  have "?slot \<in> occupied he_rq (reqs s)"
    using entry assms(2) by (simp add: occupied_def ntp_slot_less host_entry_Some)
  then have "ntp_inflight s \<noteq> 0"
    using assms(1) inflight_zero [of he_rq "reqs s"] by (auto simp: host_inv_def)
  with entry show ?thesis by (simp add: ntp_h_blk_done_def Let_def rec_upd_def counter_total_count)
qed

subsection \<open>Any sequence of hooks\<close>

text \<open>A property of the state that the shared hooks and every stamping hook keep.\<close>

definition kept :: "host_obj \<Rightarrow> ntp_filter \<Rightarrow> ('a host_state_scheme \<Rightarrow> bool) \<Rightarrow> bool" where
  "kept ob f P \<longleftrightarrow>
    (\<forall>e rq cmd s. rq \<noteq> 0 \<longrightarrow> P s \<longrightarrow> P (ntp_h_setup_cmd ob f e rq cmd s)) \<and>
    (\<forall>e rq s. rq \<noteq> 0 \<longrightarrow> P s \<longrightarrow> P (ntp_h_blk_done ob e rq s)) \<and>
    (\<forall>s s'. P s \<longrightarrow> stamped s s' \<longrightarrow> P s')"

lemma kept_host_inv: "kept ob f host_inv"
  unfolding kept_def using host_inv_setup_cmd host_inv_blk_done host_inv_stamped by blast

lemma kept_recs_ok: "kept ob f (recs_ok ob f)"
  unfolding kept_def using recs_ok_setup_cmd recs_ok_blk_done recs_ok_stamped by blast

locale host_object =
  fixes ob :: host_obj and f :: ntp_filter
    and step :: "'ev \<Rightarrow> 'a host_state_scheme \<Rightarrow> 'a host_state_scheme"
    and call :: "'ev \<Rightarrow> host_call"
  assumes step_setup: "call ev = Setup_cmd e rq cmd \<Longrightarrow> step ev s = ntp_h_setup_cmd ob f e rq cmd s"
    and step_blk_done: "call ev = Blk_done e rq \<Longrightarrow> step ev s = ntp_h_blk_done ob e rq s"
    and step_other: "call ev = Other_hook e \<Longrightarrow> stamped s (step ev s)"
begin

lemma run_keeps:
  assumes "kept ob f P" and "list_all (call_ok \<circ> call) evs" and "P s"
  shows "P (fold step evs s)"
  using assms(2,3)
proof (induction evs arbitrary: s)
  case (Cons ev evs)
  have "P (step ev s)"
  proof (cases "call ev")
    case (Setup_cmd e rq cmd)
    then show ?thesis using assms(1) Cons.prems by (simp add: kept_def step_setup)
  next
    case (Blk_done e rq)
    then show ?thesis using assms(1) Cons.prems by (simp add: kept_def step_blk_done)
  next
    case (Other_hook e)
    then show ?thesis using assms(1) Cons.prems(2) step_other unfolding kept_def by blast
  qed
  with Cons show ?case by simp
qed simp

lemma run_inv: "list_all (call_ok \<circ> call) evs \<Longrightarrow> host_inv s \<Longrightarrow> host_inv (fold step evs s)"
  by (rule run_keeps [OF kept_host_inv])

lemma run_recs_ok:
  "list_all (call_ok \<circ> call) evs \<Longrightarrow> recs_ok ob f s \<Longrightarrow> recs_ok ob f (fold step evs s)"
  by (rule run_keeps [OF kept_recs_ok])

lemma run_tracked_or_stale:
  assumes "list_all (\<lambda>ev. \<forall>e. call ev \<noteq> Blk_done e rq) evs" and "rq \<noteq> 0" and "tracked rq r s"
  shows "tracked rq r (fold step evs s) \<or>
    (\<exists>evs1 ev evs2 e rq' cmd. evs = evs1 @ ev # evs2 \<and> call ev = Setup_cmd e rq' cmd \<and>
       ntp_slot rq' NTP_REC_SLOTS = ntp_slot rq NTP_REC_SLOTS \<and>
       counter_total (fold step (evs1 @ [ev]) s) NTP_CNT_STALE =
         counter_total (fold step evs1 s) NTP_CNT_STALE + 1)"
  using assms(1,3)
proof (induction evs rule: rev_induct)
  case (snoc ev evs)
  then consider "tracked rq r (fold step evs s)"
    | evs1 ev' evs2 e rq' cmd where "evs = evs1 @ ev' # evs2" "call ev' = Setup_cmd e rq' cmd"
       "ntp_slot rq' NTP_REC_SLOTS = ntp_slot rq NTP_REC_SLOTS"
       "counter_total (fold step (evs1 @ [ev']) s) NTP_CNT_STALE = counter_total (fold step evs1 s) NTP_CNT_STALE + 1"
    by auto
  then show ?case
  proof cases
    case 1
    show ?thesis
    proof (cases "call ev")
      case (Setup_cmd e rq' cmd)
      note step_setup [OF Setup_cmd]
      with tracked_or_stale [OF 1 assms(2), of ob f e rq' cmd] show ?thesis
        using Setup_cmd by (elim disjE, simp, intro disjI2 exI [of _ evs] exI [of _ ev] exI [of _ "[]"]) simp
    next
      case (Blk_done e rq')
      with snoc.prems have "rq' \<noteq> rq" by auto
      then show ?thesis using tracked_blk_done [OF 1] by (simp add: step_blk_done [OF Blk_done])
    next
      case (Other_hook e)
      then show ?thesis using tracked_stamped [OF 1 step_other] by simp
    qed
  next
    case 2
    then show ?thesis by (intro disjI2 exI [of _ evs1] exI [of _ ev'] exI [of _ "evs2 @ [ev]"]) auto
  qed
qed simp

text \<open>
  No record is lost silently: whatever happens until the request completes, the completion hands
  over one record of this command (or counts a drop, with a full ring buffer), unless another
  sampled request took its slot, which was counted.
\<close>

lemma run_accounts_for:
  assumes inv: "host_inv s" and ok: "list_all (call_ok \<circ> call) evs"
    and rq: "rq \<noteq> 0" and entry: "host_entry s rq = Some slot"
    and keep: "list_all (\<lambda>ev. \<forall>e. call ev \<noteq> Blk_done e rq) evs"
    and fin: "call ev = Blk_done e rq"
  defines "s1 \<equiv> fold step evs s"
  shows "(\<exists>r. events (step ev s1) = events s1 @ (if rb_ok e then [r] else []) \<and>
       counter_total (step ev s1) NTP_CNT_RB_DROPS = counter_total s1 NTP_CNT_RB_DROPS + (if rb_ok e then 0 else 1) \<and>
       rec_ext (he_rec (reqs s slot)) r \<and> h_ts r NTP_H_BLK_DONE = now e \<and> host_entry (step ev s1) rq = None) \<or>
    (\<exists>evs1 ev evs2 e rq' cmd. evs = evs1 @ ev # evs2 \<and> call ev = Setup_cmd e rq' cmd \<and>
       ntp_slot rq' NTP_REC_SLOTS = ntp_slot rq NTP_REC_SLOTS \<and>
       counter_total (fold step (evs1 @ [ev]) s) NTP_CNT_STALE =
         counter_total (fold step evs1 s) NTP_CNT_STALE + 1)"
proof -
  have "tracked rq (he_rec (reqs s slot)) s"
    using entry by (auto simp: tracked_def Let_def host_entry_Some)
  from run_tracked_or_stale [OF keep rq this] show ?thesis
  proof
    assume tr: "tracked rq (he_rec (reqs s slot)) (fold step evs s)"
    have inv': "host_inv (fold step evs s)" using ok inv by (rule run_inv)
    show ?thesis unfolding s1_def step_blk_done [OF fin]
      using blk_done_emits [OF inv' rq tr, of ob e] blk_done_drops [OF inv' rq tr, of ob e] by blast
  qed blast
qed

end

subsection \<open>Times\<close>

text \<open>The events that a hook stamps with the clock (an arrival is read from the packet instead).\<close>

definition clocked :: "ntp_host_ts list" where
  "clocked = [NTP_H_CMD_SENT, NTP_H_R2T_PROC, NTP_H_DATA_START, NTP_H_DATA_SENT, NTP_H_C2H_PROC,
    NTP_H_RSP_PROC, NTP_H_NVME_DONE, NTP_H_BLK_DONE, NTP_H_SEND_DONE, NTP_H_C2H_DONE]"

text \<open>
  A record's times at or before \<open>lim\<close>: only the start, which the block layer took, is not bound;
  nothing is stamped before the request was queued, and first data and R2T arrive before they are
  processed.
\<close>

definition rec_times :: "u64 \<Rightarrow> ntp_host_rec \<Rightarrow> bool" where
  "rec_times lim r \<longleftrightarrow>
    (\<forall>t. t \<noteq> NTP_H_START \<longrightarrow> h_ts r t \<le> lim) \<and>
    (\<forall>t \<in> set clocked. h_ts r t \<noteq> 0 \<longrightarrow> h_ts r NTP_H_QUEUE_RQ \<le> h_ts r t) \<and>
    (h_ts r NTP_H_C2H_PROC \<noteq> 0 \<longrightarrow> h_ts r NTP_H_C2H_ARR \<le> h_ts r NTP_H_C2H_PROC) \<and>
    (h_ts r NTP_H_R2T_PROC \<noteq> 0 \<longrightarrow> h_ts r NTP_H_R2T_ARR \<le> h_ts r NTP_H_R2T_PROC)"

definition times_le :: "u64 \<Rightarrow> 'a host_state_scheme \<Rightarrow> bool" where
  "times_le lim s \<longleftrightarrow>
    (\<forall>slot. rec_times lim (he_rec (reqs s slot))) \<and>
    (\<forall>c. p_ts (pend s c) \<le> lim) \<and>
    (\<forall>c. rx_arrival (rx_ctx s c) \<le> lim) \<and>
    (\<forall>r \<in> set (events s). rec_times (h_ts r NTP_H_BLK_DONE) r)"

lemma rec_times_mono: "rec_times lim r \<Longrightarrow> lim \<le> lim' \<Longrightarrow> rec_times lim' r"
  unfolding rec_times_def by (auto intro: order_trans)

lemma times_le_mono: "times_le lim s \<Longrightarrow> lim \<le> lim' \<Longrightarrow> times_le lim' s"
  unfolding times_le_def by (auto intro: rec_times_mono order_trans)

text \<open>A stamp with the clock, and the arrival of a packet that was read before.\<close>

lemma rec_times_stamp:
  assumes "rec_times lim r" and "t \<noteq> NTP_H_START" and "t \<noteq> NTP_H_QUEUE_RQ"
    and "t \<noteq> NTP_H_C2H_ARR" and "t \<noteq> NTP_H_R2T_ARR"
  shows "rec_times lim (set_ts t lim r)"
  using assms unfolding rec_times_def set_ts_def by simp

lemma rec_times_arrival:
  assumes "rec_times lim r" and "v \<le> lim" and "t \<notin> set clocked"
    and "t \<noteq> NTP_H_START" and "t \<noteq> NTP_H_QUEUE_RQ"
    and "t = NTP_H_C2H_ARR \<Longrightarrow> h_ts r NTP_H_C2H_PROC = 0"
    and "t = NTP_H_R2T_ARR \<Longrightarrow> h_ts r NTP_H_R2T_PROC = 0"
  shows "rec_times lim (set_ts t v r)"
  using assms unfolding rec_times_def set_ts_def clocked_def by (cases t) simp_all

lemma rec_times_stamp_ts:
  assumes "rec_times lim r" and "t \<noteq> NTP_H_START" and "t \<noteq> NTP_H_QUEUE_RQ"
    and "t \<noteq> NTP_H_C2H_ARR" and "t \<noteq> NTP_H_R2T_ARR"
  shows "rec_times lim (stamp_ts t lim r)"
proof (cases "h_ts r t = 0")
  case True
  then show ?thesis using rec_times_stamp [OF assms] by (simp add: stamp_ts_def ntp_stamp_once_def)
next
  case False
  then have "stamp_ts t lim r = r" by (simp add: stamp_ts_def ntp_stamp_once_def set_ts_def)
  then show ?thesis using assms(1) by simp
qed

lemma rec_times_or_flags [simp]: "rec_times lim (or_flags m r) = rec_times lim r"
  by (simp add: rec_times_def or_flags_def)

lemma rec_times_frame [simp]:
  "rec_times lim (r\<lparr>h_c2h_busy_ns := x, h_c2h_skbs := y\<rparr>) = rec_times lim r"
  "rec_times lim (r\<lparr>h_hdr := h\<rparr>) = rec_times lim r"
  by (simp_all add: rec_times_def)

lemma rec_times_data_done: "rec_times lim r \<Longrightarrow> rec_times lim (rec_data_done c lim r)"
  by (simp add: rec_data_done_def rec_times_stamp)

lemma times_le_rec_upd:
  "times_le lim s \<Longrightarrow> rec_times lim (g (he_rec (reqs s slot))) \<Longrightarrow> times_le lim (rec_upd slot g s)"
  by (simp add: times_le_def rec_upd_def)

lemma times_le_recs: "times_le lim s \<Longrightarrow> rec_times lim (he_rec (reqs s slot))"
  by (simp add: times_le_def)

lemma times_le_stamp:
  assumes "times_le lim s" and "t \<noteq> NTP_H_START" and "t \<noteq> NTP_H_QUEUE_RQ"
    and "t \<noteq> NTP_H_C2H_ARR" and "t \<noteq> NTP_H_R2T_ARR"
  shows "times_le lim (rec_upd slot (set_ts t lim) s)" and "times_le lim (rec_upd slot (stamp_ts t lim) s)"
  using times_le_rec_upd [OF assms(1)] rec_times_stamp [OF times_le_recs [OF assms(1)] assms(2-)]
    rec_times_stamp_ts [OF times_le_recs [OF assms(1)] assms(2-)] by blast+

lemma times_le_arrives:
  assumes "times_le lim s" and "v \<le> lim" and "t \<notin> set clocked" and "t \<noteq> NTP_H_START" and "t \<noteq> NTP_H_QUEUE_RQ"
    and "t = NTP_H_C2H_ARR \<Longrightarrow> h_ts (he_rec (reqs s slot)) NTP_H_C2H_PROC = 0"
    and "t = NTP_H_R2T_ARR \<Longrightarrow> h_ts (he_rec (reqs s slot)) NTP_H_R2T_PROC = 0"
  shows "times_le lim (rec_upd slot (set_ts t v) s)"
  using rec_times_arrival [OF times_le_recs [OF assms(1)] assms(2-7)]
  by (rule times_le_rec_upd [OF assms(1)])

lemma times_le_flags: "times_le lim s \<Longrightarrow> times_le lim (rec_upd slot (or_flags m) s)"
  by (rule times_le_rec_upd) (simp_all add: times_le_recs)

lemma times_le_queues [simp]:
  "times_le lim (s\<lparr>counted := x\<rparr>) = times_le lim s" "times_le lim (s\<lparr>qstats := y\<rparr>) = times_le lim s"
  "times_le lim (s\<lparr>ntp_armed := b\<rparr>) = times_le lim s"
  by (simp_all add: times_le_def)

lemma times_le_pend: "times_le lim s \<Longrightarrow> p_ts p \<le> lim \<Longrightarrow> times_le lim (s\<lparr>pend := (pend s)(c := p)\<rparr>)"
  by (simp add: times_le_def)

lemma times_le_rx:
  "times_le lim s \<Longrightarrow> rx_arrival x \<le> lim \<Longrightarrow> times_le lim (s\<lparr>rx_ctx := (rx_ctx s)(c := x)\<rparr>)"
  by (simp add: times_le_def)

lemma times_le_arrival: "times_le lim s \<Longrightarrow> ntp_ctx_get e rx_tid (rx_ctx s) = Some c \<Longrightarrow> rx_arrival c \<le> lim"
  by (auto simp: times_le_def ntp_ctx_get_def split: if_splits)

lemma times_le_uncount: "times_le lim (uncount rq bits forget s) = times_le lim s"
  by (simp add: uncount_def Let_def split: option.split)

lemma times_le_get_qstat: "times_le lim (snd (get_qstat q s)) = times_le lim s"
  by (simp add: get_qstat_def Let_def split: option.split)

lemma times_le_host_queue_rq:
  "times_le (now e) s \<Longrightarrow> times_le (now e) (host_queue_rq f e hctx bd s)"
  using times_le_get_qstat [of "now e" "hctx_driver_data (km e) hctx" s]
  unfolding host_queue_rq_def Let_def
  by (cases "get_qstat (hctx_driver_data (km e) hctx) s")
    (auto split: option.split intro!: times_le_pend)

lemma times_le_host_rx_enter:
  "times_le lim s \<Longrightarrow> arrival \<le> lim \<Longrightarrow> times_le lim (host_rx_enter e queue skb arrival tnow s)"
  unfolding host_rx_enter_def by (rule times_le_rx) simp_all

lemma times_le_host_rx_exit: "times_le lim s \<Longrightarrow> times_le lim (host_rx_exit e s)"
  by (simp add: host_rx_exit_def times_le_rx times_le_arrival split: option.split)

lemma times_le_host_data_done: "times_le lim s \<Longrightarrow> times_le lim (host_data_done e slot lim s)"
  unfolding host_data_done_def Let_def
  by (intro times_le_rx times_le_rec_upd rec_times_data_done) (simp_all add: times_le_def)

lemma times_le_complete_slot:
  assumes "times_le (now e) s" and "rx_arrival c \<le> now e"
  shows "times_le (now e) (complete_slot e rq slot c s)"
proof -
  have arr: "times_le (now e) (rec_upd slot (set_ts NTP_H_RSP_ARR (rx_arrival c)) s)"
    using assms by (intro times_le_arrives) (simp_all add: clocked_def)
  have proc: "times_le (now e) (rec_upd slot (set_ts NTP_H_RSP_PROC (now e)) s')"
    if "times_le (now e) s'" for s' :: "'a host_state_scheme"
    using that by (intro times_le_stamp) simp_all
  show ?thesis unfolding complete_slot_def Let_def
    by (simp add: arr proc times_le_host_data_done assms(1))
qed

lemma times_le_host_complete:
  assumes "times_le (now e) s"
  shows "times_le (now e) (snd (host_complete f e rq s))"
  using assms times_le_arrival [OF assms, of e]
  by (auto simp: host_complete_def Let_def times_le_uncount split: option.split
      intro!: times_le_complete_slot)

lemma times_le_nvme_done: "times_le (now e) s \<Longrightarrow> times_le (now e) (ntp_h_nvme_done e rq s)"
  by (simp add: ntp_h_nvme_done_def times_le_stamp split: option.split)

lemma times_le_count [simp]: "times_le lim (ntp_count e c v s) = times_le lim s"
  by (simp add: times_le_def)

lemma setup_queue_times:
  assumes "times_le (now e) s"
  shows "times_le (now e) (snd (setup_queue ob f e rq s))"
    and "fst (setup_queue ob f e rq s) = Some (queue, ts, qu, qi) \<Longrightarrow> ts \<le> now e"
  using assms
  by (auto simp: setup_queue_def Let_def times_le_def ntp_ctx_get_def split: option.splits if_splits)

lemma rec_times_new: "ts \<le> lim \<Longrightarrow> rec_times lim (host_new_rec ob f e rq idv ts qu qi)"
  by (auto simp: rec_times_def host_new_rec_def Let_def clocked_def)

lemma times_le_take_slot:
  "times_le lim s \<Longrightarrow> rec_times lim r \<Longrightarrow> times_le lim (host_take_slot e rq queue r s)"
  by (simp add: times_le_def host_take_slot_def Let_def)

lemma times_le_setup_cmd:
  assumes "times_le (now e) s"
  shows "times_le (now e) (ntp_h_setup_cmd ob f e rq cmd s)"
proof -
  obtain q s' where sq: "setup_queue ob f e rq s = (q, s')" by fastforce
  have s': "times_le (now e) s'" using setup_queue_times(1) [OF assms, of ob f rq] sq by simp
  have ts: "ts \<le> now e" if "q = Some (queue, ts, qu, qi)" for queue ts qu qi
    using setup_queue_times(2) [OF assms, of ob f rq] sq that by simp
  show ?thesis
    by (cases q) (auto simp: ntp_h_setup_cmd_def sq s' ts Let_def split: option.split
        intro!: times_le_take_slot rec_times_new)
qed

lemma blk_done_rec_times:
  "rec_times (now e) r \<Longrightarrow> rec_times (now e) (blk_done_rec ob e r)"
  "h_ts (blk_done_rec ob e r) NTP_H_BLK_DONE = now e"
  by (simp_all add: blk_done_rec_def Let_def rec_times_stamp)
    (simp add: set_ts_def or_flags_def)

lemma times_le_blk_done:
  assumes "times_le (now e) s"
  shows "times_le (now e) (ntp_h_blk_done ob e rq s)"
  using assms
  by (auto simp: ntp_h_blk_done_def Let_def rec_upd_def times_le_def blk_done_rec_times
      split: option.split)

lemma times_le_fresh: "host_fresh s \<Longrightarrow> times_le 0 s"
  by (simp add: host_fresh_def times_le_def zero_host_entry_def rec_times_def zero_host_rec_def)

text \<open>The clock readings of a sequence of calls, which do not go back.\<close>

locale timed_host_object = host_object +
  assumes step_times:
    "call ev = Other_hook e \<Longrightarrow> times_le (now e) s \<Longrightarrow> times_le (now e) (step ev s)"
begin

lemma step_times_le:
  assumes "times_le lim s" and "lim \<le> now (call_env (call ev))"
  shows "times_le (now (call_env (call ev))) (step ev s)"
  using times_le_mono [OF assms] times_le_setup_cmd times_le_blk_done
  by (cases "call ev") (simp_all add: step_setup step_blk_done step_times)

lemma run_times_le:
  assumes "sorted (lim # map (now \<circ> call_env \<circ> call) evs)" and "times_le lim s"
  shows "times_le (last (lim # map (now \<circ> call_env \<circ> call) evs)) (fold step evs s)"
  using assms
proof (induction evs arbitrary: lim s)
  case (Cons ev evs)
  have "times_le (now (call_env (call ev))) (step ev s)"
    using step_times_le [of lim s ev] Cons.prems by auto
  with Cons show ?case by simp
qed simp

end

end
