(* ===== verification/Bpf_Host_Queues.thy ===== *)
theory Bpf_Host_Queues
  imports Bpf_Host_Run
begin

text \<open>
  The exact queue counts of a host object (\<^verbatim>\<open>filter.track_queues\<close>): the two numbers kept per
  queue are the numbers of requests of that queue that still carry the corresponding flag, as
  long as the map of counted requests has room.
\<close>

subsection \<open>Counting the entries of a map\<close>

definition tally :: "('v \<Rightarrow> bool) \<Rightarrow> ('k \<times> 'v) list \<Rightarrow> nat" where
  "tally P m = length (filter (P \<circ> snd) m)"

lemma tally_simps [simp]:
  "tally P [] = 0" "tally P ((k, v) # m) = (if P v then 1 else 0) + tally P m"
  by (simp_all add: tally_def)

lemma tally_insert:
  "map_of m k = None \<Longrightarrow> tally P (AList.update k v m) = tally P m + (if P v then 1 else 0)"
  by (induction m) (auto split: if_splits)

lemma tally_delete:
  "distinct (map fst m) \<Longrightarrow> map_of m k = Some v \<Longrightarrow>
   tally P m = (if P v then 1 else 0) + tally P (AList.delete k m)"
  by (induction m) (auto simp: delete_id split: if_splits)

lemma tally_modify:
  "distinct (map fst m) \<Longrightarrow> map_of m k = Some v \<Longrightarrow>
   tally P (hm_modify k g m) + (if P v then 1 else 0) = tally P m + (if P (g v) then 1 else 0)"
proof (induction m)
  case (Cons p m)
  obtain k' v' where p: "p = (k', v')" by fastforce
  show ?case
  proof (cases "k' = k")
    case True
    then show ?thesis using Cons.prems p by (simp add: hm_modify_def)
  next
    case False
    then show ?thesis using Cons p by (simp add: hm_modify_def)
  qed
qed simp

lemma tally_le_length: "tally P m \<le> length m"
  by (simp add: tally_def)

lemma hm_modify_keys [simp]: "map fst (hm_modify k g m) = map fst m"
  by (induction m) (auto simp: hm_modify_def)

lemma map_of_hm_modify:
  "map_of (hm_modify k g m) k' = (if k' = k then map_option g (map_of m k) else map_of m k')"
  by (induction m) (auto simp: hm_modify_def)

lemma length_hm_modify [simp]: "length (hm_modify k g m) = length m"
  by (metis hm_modify_keys length_map)

lemma hm_update_keys:
  "distinct (map fst m) \<Longrightarrow> distinct (map fst (hm_update_any n k v m))"
  "distinct (map fst m) \<Longrightarrow> distinct (map fst (hm_update_noexist n k v m))"
  by (simp_all add: hm_update_any_def hm_update_noexist_def distinct_update)

subsection \<open>The counts agree with the counted requests\<close>

abbreviation counts_in :: "u64 \<Rightarrow> u32 \<Rightarrow> counted \<Rightarrow> bool" where
  "counts_in q b c \<equiv> cn_queue c = q \<and> has_flag (cn_flags c) b"

definition queue_inv :: "'a host_state_scheme \<Rightarrow> bool" where
  "queue_inv s \<longleftrightarrow>
    distinct (map fst (counted s)) \<and> distinct (map fst (qstats s)) \<and>
    (\<forall>rq c. map_of (counted s) rq = Some c \<longrightarrow> map_of (qstats s) (cn_queue c) \<noteq> None) \<and>
    (\<forall>q qs. map_of (qstats s) q = Some qs \<longrightarrow>
       qs_unsent qs = of_nat (tally (counts_in q CNT_UNSENT) (counted s)) \<and>
       qs_inflight qs = of_nat (tally (counts_in q CNT_INFLIGHT) (counted s)))"

lemma queue_inv_frame:
  "counted s' = counted s \<Longrightarrow> qstats s' = qstats s \<Longrightarrow> queue_inv s' \<longleftrightarrow> queue_inv s"
  by (simp add: queue_inv_def)

lemma queue_inv_fresh: "host_fresh s \<Longrightarrow> queue_inv s"
  by (simp add: host_fresh_def queue_inv_def)

lemma CNT_flags:
  "has_flag (x AND y) CNT_UNSENT \<longleftrightarrow> has_flag x CNT_UNSENT \<and> has_flag y CNT_UNSENT"
  "has_flag (x AND y) CNT_INFLIGHT \<longleftrightarrow> has_flag x CNT_INFLIGHT \<and> has_flag y CNT_INFLIGHT"
  "has_flag (NOT x) CNT_UNSENT \<longleftrightarrow> \<not> has_flag x CNT_UNSENT"
  "has_flag (NOT x) CNT_INFLIGHT \<longleftrightarrow> \<not> has_flag x CNT_INFLIGHT"
  "has_flag CNT_UNSENT CNT_UNSENT" "has_flag CNT_INFLIGHT CNT_INFLIGHT"
  "\<not> has_flag CNT_UNSENT CNT_INFLIGHT" "\<not> has_flag CNT_INFLIGHT CNT_UNSENT"
proof -
  have b: "has_flag x CNT_UNSENT \<longleftrightarrow> bit x 0" "has_flag x CNT_INFLIGHT \<longleftrightarrow> bit x 1" for x :: u32
    using has_flag_bit [of x 0] has_flag_bit [of x 1] by (simp_all add: CNT_UNSENT_def CNT_INFLIGHT_def)
  show "has_flag (x AND y) CNT_UNSENT \<longleftrightarrow> has_flag x CNT_UNSENT \<and> has_flag y CNT_UNSENT"
    "has_flag (x AND y) CNT_INFLIGHT \<longleftrightarrow> has_flag x CNT_INFLIGHT \<and> has_flag y CNT_INFLIGHT"
    "has_flag (NOT x) CNT_UNSENT \<longleftrightarrow> \<not> has_flag x CNT_UNSENT"
    "has_flag (NOT x) CNT_INFLIGHT \<longleftrightarrow> \<not> has_flag x CNT_INFLIGHT"
    by (simp_all add: b bit_and_iff bit_not_iff)
qed (simp_all add: has_flag_def CNT_UNSENT_def CNT_INFLIGHT_def)

lemma qstat_drop_fields:
  "qs_unsent (qstat_drop bits qs) = qs_unsent qs - (if has_flag bits CNT_UNSENT then 1 else 0)"
  "qs_inflight (qstat_drop bits qs) = qs_inflight qs - (if has_flag bits CNT_INFLIGHT then 1 else 0)"
  by (simp_all add: qstat_drop_def Let_def)

text \<open>Clearing bits of a counted request takes it out of the counts of exactly those bits.\<close>

lemma tally_clear:
  assumes "distinct (map fst m)" and "map_of m rq = Some c" and "b \<in> {CNT_UNSENT, CNT_INFLIGHT}"
  shows "(of_nat (tally (counts_in q b) (hm_modify rq (\<lambda>c. c\<lparr>cn_flags := cn_flags c AND NOT bits\<rparr>) m)) :: s32) =
    of_nat (tally (counts_in q b) m) -
    (if cn_queue c = q \<and> has_flag (cn_flags c AND bits) b then 1 else 0)"
proof -
  have "tally (counts_in q b) (hm_modify rq (\<lambda>c. c\<lparr>cn_flags := cn_flags c AND NOT bits\<rparr>) m) +
      (if cn_queue c = q \<and> has_flag (cn_flags c AND bits) b then 1 else 0) = tally (counts_in q b) m"
    using tally_modify [OF assms(1,2), of "counts_in q b" "\<lambda>c. c\<lparr>cn_flags := cn_flags c AND NOT bits\<rparr>"] assms(3)
    by (auto simp: CNT_flags split: if_splits)
  from arg_cong [where f = "of_nat :: nat \<Rightarrow> s32", OF this] show ?thesis
    by (simp add: algebra_simps split: if_splits)
qed

lemma queue_inv_clear:
  assumes "queue_inv s" and "map_of (counted s) rq = Some c"
  shows "queue_inv (s\<lparr>counted := hm_modify rq (\<lambda>c. c\<lparr>cn_flags := cn_flags c AND NOT bits\<rparr>) (counted s),
                      qstats := hm_modify (cn_queue c) (qstat_drop (cn_flags c AND bits)) (qstats s)\<rparr>)"
  using assms
  by (auto simp: queue_inv_def map_of_hm_modify qstat_drop_fields tally_clear split: if_splits)

lemma queue_inv_forget:
  assumes "queue_inv s" and "map_of (counted s) rq = Some c"
    and "\<not> has_flag (cn_flags c) CNT_UNSENT" and "\<not> has_flag (cn_flags c) CNT_INFLIGHT"
  shows "queue_inv (s\<lparr>counted := AList.delete rq (counted s)\<rparr>)"
proof -
  have "tally (counts_in q b) (AList.delete rq (counted s)) = tally (counts_in q b) (counted s)"
    if "b \<in> {CNT_UNSENT, CNT_INFLIGHT}" for q b
    using assms that tally_delete [of "counted s" rq c "counts_in q b"] by (auto simp: queue_inv_def)
  then show ?thesis using assms
    by (auto simp: queue_inv_def distinct_delete delete_conv' split: if_splits)
qed

lemma queue_inv_uncount:
  assumes "queue_inv s" and "forget \<Longrightarrow> bits = CNT_UNSENT OR CNT_INFLIGHT"
  shows "queue_inv (uncount rq bits forget s)"
proof (cases "map_of (counted s) rq")
  case None
  then show ?thesis using assms by (simp add: uncount_def)
next
  case (Some c)
  let ?s = "s\<lparr>counted := hm_modify rq (\<lambda>c. c\<lparr>cn_flags := cn_flags c AND NOT bits\<rparr>) (counted s),
              qstats := hm_modify (cn_queue c) (qstat_drop (cn_flags c AND bits)) (qstats s)\<rparr>"
  have clear: "queue_inv ?s" using assms(1) Some by (rule queue_inv_clear)
  show ?thesis
  proof (cases forget)
    case False
    with clear Some show ?thesis by (simp add: uncount_def Let_def)
  next
    case True
    have "queue_inv (?s\<lparr>counted := AList.delete rq (counted ?s)\<rparr>)"
      by (rule queue_inv_forget [OF clear, where c = "c\<lparr>cn_flags := cn_flags c AND NOT bits\<rparr>"])
        (simp_all add: map_of_hm_modify Some assms(2) [OF True] CNT_flags has_flag_or)
    with True Some show ?thesis by (simp add: uncount_def Let_def)
  qed
qed

lemma queue_inv_get_qstat:
  assumes "queue_inv s" and "get_qstat q s = (qs, s')"
  shows "queue_inv s'" and "counted s' = counted s" and "map_of (qstats s') q = qs"
proof -
  have absent: "tally (counts_in q b) (counted s) = 0" if "map_of (qstats s) q = None" for b
  proof -
    have "cn_queue c \<noteq> q" if "(rq, c) \<in> set (counted s)" for rq c
    proof -
      have "map_of (qstats s) (cn_queue c) \<noteq> None"
        using assms(1) map_of_is_SomeI [OF _ that] unfolding queue_inv_def by blast
      then show ?thesis using \<open>map_of (qstats s) q = None\<close> by auto
    qed
    then show ?thesis by (fastforce simp: tally_def filter_empty_conv)
  qed
  show "queue_inv s'" "counted s' = counted s" "map_of (qstats s') q = qs"
    using assms absent
    by (auto simp: get_qstat_def Let_def hm_update_noexist_def queue_inv_def update_conv' distinct_update
        split: option.splits if_splits)
qed

lemma queue_inv_count:
  assumes inv: "queue_inv s" and new: "map_of (counted s) rq = None" and q: "map_of (qstats s) q = Some qs"
  shows "queue_inv (s\<lparr>pend := p,
    counted := AList.update rq \<lparr>cn_queue = q, cn_flags = CNT_UNSENT OR CNT_INFLIGHT\<rparr> (counted s),
    qstats := hm_modify q (\<lambda>qs. qs\<lparr>qs_unsent := qs_unsent qs + 1, qs_inflight := qs_inflight qs + 1\<rparr>)
      (qstats s)\<rparr>)"
  using assms
  by (auto simp: queue_inv_def map_of_hm_modify tally_insert distinct_update update_conv' CNT_flags has_flag_or
      split: if_splits)

lemma queue_inv_host_queue_rq:
  assumes inv: "queue_inv s" and room: "length (counted s) < COUNTED_MAX"
  shows "queue_inv (host_queue_rq f e hctx bd s)"
proof -
  obtain qs s' where gq: "get_qstat (hctx_driver_data (km e) hctx) s = (qs, s')" by fastforce
  note s' = queue_inv_get_qstat [OF inv gq]
  have frame: "queue_inv (t\<lparr>pend := p\<rparr>) = queue_inv t" for t :: "'a host_state_scheme" and p
    by (rule queue_inv_frame) simp_all
  show ?thesis using inv s' room queue_inv_count [OF s'(1)]
    by (auto simp: host_queue_rq_def Let_def gq frame hm_update_any_def split: option.split)
qed

lemma queue_frame [simp]:
  "counted (rec_upd slot g s) = counted s" "qstats (rec_upd slot g s) = qstats s"
  "counted (host_data_done e slot tnow s) = counted s" "qstats (host_data_done e slot tnow s) = qstats s"
  "counted (host_rx_enter e queue skb arrival tnow s) = counted s"
  "qstats (host_rx_enter e queue skb arrival tnow s) = qstats s"
  "counted (host_rx_exit e s) = counted s" "qstats (host_rx_exit e s) = qstats s"
  "counted (complete_slot e rq slot c s) = counted s" "qstats (complete_slot e rq slot c s) = qstats s"
  "counted (snd (setup_queue ob f e rq s)) = counted s" "qstats (snd (setup_queue ob f e rq s)) = qstats s"
  "counted (host_take_slot e rq queue r s) = counted s" "qstats (host_take_slot e rq queue r s) = qstats s"
  "counted (ntp_h_nvme_done e rq s) = counted s" "qstats (ntp_h_nvme_done e rq s) = qstats s"
  "counted (ntp_h_blk_done ob e rq s) = counted s" "qstats (ntp_h_blk_done ob e rq s) = qstats s"
  by (simp_all add: rec_upd_def host_data_done_def host_rx_enter_def host_rx_exit_def complete_slot_def
      setup_queue_def host_take_slot_def ntp_h_nvme_done_def ntp_h_blk_done_def Let_def split: option.split)

lemma queue_frame_setup_cmd [simp]:
  "counted (ntp_h_setup_cmd ob f e rq cmd s) = counted s" "qstats (ntp_h_setup_cmd ob f e rq cmd s) = qstats s"
  by (rule setup_cmd_cases [of ob f e rq cmd s]; simp)+

lemma queue_inv_same [simp]:
  "queue_inv (ntp_h_setup_cmd ob f e rq cmd s) = queue_inv s" "queue_inv (ntp_h_blk_done ob e rq s) = queue_inv s"
  "queue_inv (ntp_h_nvme_done e rq s) = queue_inv s" "queue_inv (rec_upd slot g s) = queue_inv s"
  "queue_inv (complete_slot e rq slot c s) = queue_inv s" "queue_inv (host_data_done e slot tnow s) = queue_inv s"
  "queue_inv (host_rx_enter e queue skb arrival tnow s) = queue_inv s" "queue_inv (host_rx_exit e s) = queue_inv s"
  "queue_inv (s\<lparr>rx_ctx := x\<rparr>) = queue_inv s" "queue_inv (s\<lparr>ntp_armed := b\<rparr>) = queue_inv s"
  by (rule queue_inv_frame; simp)+

lemma queue_inv_host_complete: "queue_inv s \<Longrightarrow> queue_inv (snd (host_complete f e rq s))"
proof -
  assume "queue_inv s"
  then have un: "queue_inv (uncount rq (CNT_UNSENT OR CNT_INFLIGHT) True s)" by (rule queue_inv_uncount) simp
  show ?thesis using \<open>queue_inv s\<close> un by (simp add: host_complete_def Let_def split: option.split)
qed

subsection \<open>Any sequence of hooks\<close>

locale counting_host_object = host_object +
  assumes step_queue_inv:
    "call ev = Other_hook e \<Longrightarrow> queue_inv s \<Longrightarrow> length (counted s) < COUNTED_MAX \<Longrightarrow>
     queue_inv (step ev s)"
begin

lemma run_queue_inv:
  assumes "\<And>n. n < length evs \<Longrightarrow> length (counted (fold step (take n evs) s)) < COUNTED_MAX"
    and "queue_inv s"
  shows "queue_inv (fold step evs s)"
  using assms
proof (induction evs rule: rev_induct)
  case (snoc ev evs)
  have before: "queue_inv (fold step evs s)"
  proof (rule snoc.IH [OF _ snoc.prems(2)])
    show "length (counted (fold step (take n evs) s)) < COUNTED_MAX" if "n < length evs" for n
      using snoc.prems(1) [of n] that by simp
  qed
  have room: "length (counted (fold step evs s)) < COUNTED_MAX"
    using snoc.prems(1) [of "length evs"] by simp
  have "queue_inv (step ev (fold step evs s))"
  proof (cases "call ev")
    case (Setup_cmd e rq cmd)
    then show ?thesis using before by (simp add: step_setup)
  next
    case (Blk_done e rq)
    then show ?thesis using before by (simp add: step_blk_done)
  next
    case (Other_hook e)
    then show ?thesis using before room by (rule step_queue_inv)
  qed
  then show ?case by simp
qed simp

end

text \<open>
  The count as a signed number, which is what a record carries: with fewer than 65536 counted
  requests it neither wraps nor is clamped.
\<close>

lemma tally_word:
  assumes "length m < COUNTED_MAX"
  shows "sint (of_nat (tally P m) :: s32) = int (tally P m)"
    and "unat (ntp_clamp_u16 (of_nat (tally P m))) = tally P m"
proof -
  have small: "tally P m < 65536" using assms tally_le_length [of P m] by (simp add: COUNTED_MAX_def)
  then show signed: "sint (of_nat (tally P m) :: s32) = int (tally P m)"
    by (simp add: signed_of_nat signed_take_bit_int_eq_self_iff)
  have "unat (ucast (of_nat (tally P m) :: s32) :: u16) = tally P m"
    using small by (simp add: unsigned_ucast_eq take_bit_nat_eq_self_iff unsigned_of_nat)
  then show "unat (ntp_clamp_u16 (of_nat (tally P m))) = tally P m"
    using small by (simp add: ntp_clamp_u16_def signed)
qed

end
