(* ===== verification/Bpf_Tcp_Host.thy ===== *)
theory Bpf_Tcp_Host
  imports Bpf_Host_Queues
begin

text \<open>
  The NVMe/TCP host object (\<^verbatim>\<open>src/bpf/nvme_tcp_host.bpf.c\<close>): its contexts, its hooks, and the
  programs attached to them. Programs that exist as fentry or fexit and as kprobe or kretprobe
  with the same body are one definition; where the two flavours differ (a kretprobe needs the
  context its kprobe left) both are given.
\<close>

subsection \<open>State\<close>

record send_ctx =
  sc_tid :: u64
  sc_req :: u64

record tsend_ctx =
  tc_tid :: u64
  tc_queue :: u64
  tc_req :: u64
  tc_cmd_pdu :: bool

record tcp_host_state = host_state +
  send_ctx :: "u32 \<Rightarrow> send_ctx"
  tsend_ctx :: "u32 \<Rightarrow> tsend_ctx"

text \<open>Constants of the kernel and of the NVMe/TCP specification (\<^verbatim>\<open>src/bpf/kernel_types.h\<close>).\<close>

definition nvme_tcp_c2h_data :: u8 where "nvme_tcp_c2h_data = 7"
definition NVME_TCP_SEND_CMD_PDU :: u32 where "NVME_TCP_SEND_CMD_PDU = 0"

subsection \<open>Which requests are NVMe/TCP's\<close>

definition host_queue_of :: "env \<Rightarrow> u64 \<Rightarrow> u64" where
  "host_queue_of e rq =
    (let req = rq + sizeof_request (km e);
         queue = treq_queue (km e) req
     in if queue = 0 then 0
        else if sk_user_data (km e) (sock_sk (km e) (tq_sock (km e) queue)) = queue then queue
        else 0)"

definition tcp_host :: host_obj where
  "tcp_host = \<lparr>ho_transport = NTP_TR_TCP, ho_hooks_queue_rq = False, ho_queue_of = host_queue_of\<rparr>"

subsection \<open>Sending\<close>

definition on_send_done ::
  "ntp_filter \<Rightarrow> env \<Rightarrow> u64 \<Rightarrow> s32 \<Rightarrow> bool \<Rightarrow> 'a host_state_scheme \<Rightarrow> 'a host_state_scheme" where
  "on_send_done f e req ret cmd_pdu s =
    (if ret \<noteq> 1 \<or> ntp_idle f s then s
     else
       let rq = rq_from_pdu e req;
           s = (if cmd_pdu \<and> f_track_queues f then uncount rq CNT_UNSENT False s else s);
           queue = treq_queue (km e) req
       in if tq_request (km e) queue \<noteq> 0 then s
          else
            case host_rec s rq of
              None \<Rightarrow> s
            | Some slot \<Rightarrow>
                if h_ts (he_rec (reqs s slot)) NTP_H_CMD_SENT = 0
                then rec_upd slot (set_ts NTP_H_CMD_SENT (now e)) s
                else if h_ts (he_rec (reqs s slot)) NTP_H_R2T_PROC \<noteq> 0
                then rec_upd slot (set_ts NTP_H_DATA_SENT (now e)) s
                else s)"

definition send_enter ::
  "env \<Rightarrow> u64 \<Rightarrow> 'a tcp_host_state_scheme \<Rightarrow> 'a tcp_host_state_scheme" where
  "send_enter e req s = s\<lparr>send_ctx := (send_ctx s)(cpu e := \<lparr>sc_tid = tid e, sc_req = req\<rparr>)\<rparr>"

definition send_exit ::
  "ntp_filter \<Rightarrow> env \<Rightarrow> s32 \<Rightarrow> bool \<Rightarrow> 'a tcp_host_state_scheme \<Rightarrow> 'a tcp_host_state_scheme" where
  "send_exit f e ret cmd_pdu s =
    (case ntp_ctx_get e sc_tid (send_ctx s) of
       None \<Rightarrow> s
     | Some c \<Rightarrow>
         let s = s\<lparr>send_ctx := (send_ctx s)(cpu e := c\<lparr>sc_tid := 0\<rparr>)\<rparr>
         in on_send_done f e (sc_req c) ret cmd_pdu s)"

definition on_send_h2c :: "env \<Rightarrow> u64 \<Rightarrow> 'a host_state_scheme \<Rightarrow> 'a host_state_scheme" where
  "on_send_h2c e req s =
    (if ntp_inflight s = 0 then s
     else
       case host_rec s (rq_from_pdu e req) of
         None \<Rightarrow> s
       | Some slot \<Rightarrow>
           if h_ts (he_rec (reqs s slot)) NTP_H_R2T_PROC \<noteq> 0
           then rec_upd slot (stamp_ts NTP_H_DATA_START (now e)) s
           else s)"

text \<open>Where the sending functions are inlined, their caller stands in.\<close>

definition tsend_found ::
  "env \<Rightarrow> tsend_ctx \<Rightarrow> u64 \<Rightarrow> 'a tcp_host_state_scheme \<Rightarrow> 'a tcp_host_state_scheme" where
  "tsend_found e c req s =
    on_send_h2c e req
      (s\<lparr>tsend_ctx := (tsend_ctx s)(cpu e :=
          c\<lparr>tc_req := req, tc_cmd_pdu := (treq_state (km e) req = NVME_TCP_SEND_CMD_PDU)\<rparr>)\<rparr>)"

definition try_send_enter ::
  "ntp_filter \<Rightarrow> env \<Rightarrow> u64 \<Rightarrow> 'a tcp_host_state_scheme \<Rightarrow> 'a tcp_host_state_scheme" where
  "try_send_enter f e queue s =
    (if ntp_idle f s then s
     else
       let c = (tsend_ctx s (cpu e))\<lparr>tc_tid := tid e, tc_queue := queue, tc_req := 0\<rparr>;
           s = s\<lparr>tsend_ctx := (tsend_ctx s)(cpu e := c)\<rparr>;
           req = tq_request (km e) queue
       in if req \<noteq> 0 then tsend_found e c req s else s)"

definition on_sock_send ::
  "ntp_filter \<Rightarrow> env \<Rightarrow> u64 \<Rightarrow> 'a tcp_host_state_scheme \<Rightarrow> 'a tcp_host_state_scheme" where
  "on_sock_send f e sock s =
    (if ntp_idle f s then s
     else
       case ntp_ctx_get e tc_tid (tsend_ctx s) of
         None \<Rightarrow> s
       | Some c \<Rightarrow>
           if tc_req c \<noteq> 0 then s
           else if sk_user_data (km e) (sock_sk (km e) sock) \<noteq> tc_queue c then s
           else
             let req = tq_request (km e) (tc_queue c)
             in if req \<noteq> 0 then tsend_found e c req s else s)"

definition try_send_exit ::
  "ntp_filter \<Rightarrow> env \<Rightarrow> s32 \<Rightarrow> 'a tcp_host_state_scheme \<Rightarrow> 'a tcp_host_state_scheme" where
  "try_send_exit f e ret s =
    (case ntp_ctx_get e tc_tid (tsend_ctx s) of
       None \<Rightarrow> s
     | Some c \<Rightarrow>
         let s = s\<lparr>tsend_ctx := (tsend_ctx s)(cpu e := c\<lparr>tc_tid := 0\<rparr>)\<rparr>
         in if tc_req c = 0 then s
            else
              let req = tc_req c;
                  s = (if tc_cmd_pdu c \<and> f_track_queues f \<and>
                          (tq_request (km e) (tc_queue c) \<noteq> req \<or>
                           treq_state (km e) req \<noteq> NVME_TCP_SEND_CMD_PDU)
                       then uncount (rq_from_pdu e req) CNT_UNSENT False s else s)
              in on_send_done f e req ret False s)"

subsection \<open>Receiving\<close>

definition on_recv_skb ::
  "ntp_filter \<Rightarrow> env \<Rightarrow> u64 \<Rightarrow> 'a host_state_scheme \<Rightarrow> 'a host_state_scheme" where
  "on_recv_skb f e skb s =
    (if ntp_idle f s then s
     else host_rx_enter e (sk_user_data (km e) (skb_sk (km e) skb)) skb
            (ntp_skb_arrival f e skb (now e)) (now e) s)"

definition on_recv_skb_exit :: "env \<Rightarrow> 'a host_state_scheme \<Rightarrow> 'a host_state_scheme" where
  "on_recv_skb_exit e s =
    (case ntp_ctx_get e rx_tid (rx_ctx s) of
       None \<Rightarrow> s
     | Some c \<Rightarrow>
         let s = (if rx_data_rq c \<noteq> 0
                  then case host_entry s (rx_data_rq c) of
                         None \<Rightarrow> s
                       | Some slot \<Rightarrow> host_data_done e slot (now e) s
                  else s)
         in s\<lparr>rx_ctx := (rx_ctx s)(cpu e := (rx_ctx s (cpu e))\<lparr>rx_tid := 0\<rparr>)\<rparr>)"

text \<open>
  \<open>on_copy\<close> from the point where the read's record is known: its first copy in this call. Another
  read whose data came earlier in the same packet is closed first.
\<close>

definition copy_begin ::
  "env \<Rightarrow> host_rx \<Rightarrow> u32 \<Rightarrow> 'a host_state_scheme \<Rightarrow> 'a host_state_scheme" where
  "copy_begin e c slot s =
    (let switched = (rx_data_rq c \<noteq> 0);
         s = (if switched
              then case host_entry s (rx_data_rq c) of
                     None \<Rightarrow> s
                   | Some prev \<Rightarrow> host_data_done e prev (now e) s
              else s);
         first = (h_ts (he_rec (reqs s slot)) NTP_H_C2H_PROC = 0);
         s = (if first
              then rec_upd slot (set_ts NTP_H_C2H_PROC (now e)) (rec_upd slot (set_ts NTP_H_C2H_ARR (rx_arrival c)) s)
              else s);
         busy = (if first then now e else if switched then now e else rx_enter c)
     in s\<lparr>rx_ctx := (rx_ctx s)(cpu e :=
            (rx_ctx s (cpu e))\<lparr>rx_busy_from := busy, rx_data_rq := he_rq (reqs s slot)\<rparr>)\<rparr>)"

definition on_copy ::
  "ntp_filter \<Rightarrow> env \<Rightarrow> u64 \<Rightarrow> 'a host_state_scheme \<Rightarrow> 'a host_state_scheme" where
  "on_copy f e skb s =
    (if ntp_idle f s then s
     else
       case ntp_ctx_get e rx_tid (rx_ctx s) of
         None \<Rightarrow> s
       | Some c \<Rightarrow>
           if rx_skb c \<noteq> skb then s
           else
             case data_pdu_at (km e) (tq_pdu (km e) (rx_queue c)) of
               None \<Rightarrow> s
             | Some (pdu_type, command_id) \<Rightarrow>
                 if pdu_type \<noteq> nvme_tcp_c2h_data then s
                 else
                   let cs = cid_idx s (cid_slot_of (rx_queue c) command_id)
                   in if cs_queue cs \<noteq> rx_queue c \<or> cs_cid cs \<noteq> command_id then s
                      else
                        case host_entry s (cs_rq cs) of
                          None \<Rightarrow> s
                        | Some slot \<Rightarrow>
                            let s = rec_upd slot (set_ts NTP_H_C2H_LAST_ARR (rx_arrival c)) s
                            in if rx_data_rq c = he_rq (reqs s slot) then s
                               else copy_begin e c slot s)"

definition on_r2t :: "env \<Rightarrow> u64 \<Rightarrow> 'a host_state_scheme \<Rightarrow> 'a host_state_scheme" where
  "on_r2t e req s =
    (case ntp_ctx_get e rx_tid (rx_ctx s) of
       None \<Rightarrow> s
     | Some c \<Rightarrow>
         (case host_rec s (rq_from_pdu e req) of
            None \<Rightarrow> s
          | Some slot \<Rightarrow>
              if h_ts (he_rec (reqs s slot)) NTP_H_R2T_PROC \<noteq> 0
              then rec_upd slot (or_flags NTP_F_MULTI_R2T) s
              else rec_upd slot (set_ts NTP_H_R2T_PROC (now e))
                     (rec_upd slot (set_ts NTP_H_R2T_ARR (rx_arrival c))
                       (rec_upd slot (or_flags NTP_F_R2T) s))))"

definition on_complete ::
  "ntp_filter \<Rightarrow> env \<Rightarrow> u64 \<Rightarrow> 'a host_state_scheme \<Rightarrow> 'a host_state_scheme" where
  "on_complete f e rq s =
    (case host_complete f e rq s of
       (None, s) \<Rightarrow> s
     | (Some slot, s) \<Rightarrow>
         if h_ts (he_rec (reqs s slot)) NTP_H_C2H_PROC = 0 then s
         else
           case ntp_ctx_get e rx_tid (rx_ctx s) of
             None \<Rightarrow> s
           | Some c \<Rightarrow>
               (case u8_at (km e) (tq_pdu (km e) (rx_queue c)) of
                  None \<Rightarrow> s
                | Some t \<Rightarrow> if t = nvme_tcp_c2h_data then rec_upd slot (or_flags NTP_F_DATA_SUCCESS) s else s))"

subsection \<open>Programs\<close>

datatype tcp_hook =
    User_arm env
  | User_disarm env
  | Ntp_h_queue_rq env u64 u64
  | Ntp_h_setup_cmd env u64 u64
  | Ntp_h_send_cmd_fx env u64 s32 | Ntp_h_send_cmd_kp env u64 | Ntp_h_send_cmd_kr env s32
  | Ntp_h_send_data_fx env u64 s32 | Ntp_h_send_data_kp env u64 | Ntp_h_send_data_kr env s32
  | Ntp_h_send_ddgst_fx env u64 s32 | Ntp_h_send_ddgst_kp env u64 | Ntp_h_send_ddgst_kr env s32
  | Ntp_h_send_h2c env u64
  | Ntp_h_try_send env u64 | Ntp_h_try_send_exit env s32
  | Ntp_h_sendpage env u64 | Ntp_h_nosendpage env u64 | Ntp_h_sendmsg env u64
  | Ntp_h_recv_skb env u64 | Ntp_h_recv_skb_exit env
  | Ntp_h_copy env u64 | Ntp_h_copy_hash env u64
  | Ntp_h_r2t env u64
  | Ntp_h_complete env u64
  | Ntp_h_nvme_done env u64
  | Ntp_h_blk_done env u64

primrec tcp_step ::
  "ntp_filter \<Rightarrow> tcp_hook \<Rightarrow> 'a tcp_host_state_scheme \<Rightarrow> 'a tcp_host_state_scheme" where
  "tcp_step f (User_arm e) s = s\<lparr>ntp_armed := True\<rparr>"
| "tcp_step f (User_disarm e) s = s\<lparr>ntp_armed := False\<rparr>"
| "tcp_step f (Ntp_h_queue_rq e hctx bd) s = host_queue_rq f e hctx bd s"
| "tcp_step f (Ntp_h_setup_cmd e rq cmd) s = ntp_h_setup_cmd tcp_host f e rq cmd s"
| "tcp_step f (Ntp_h_send_cmd_fx e req ret) s = on_send_done f e req ret True s"
| "tcp_step f (Ntp_h_send_cmd_kp e req) s = send_enter e req s"
| "tcp_step f (Ntp_h_send_cmd_kr e ret) s = send_exit f e ret True s"
| "tcp_step f (Ntp_h_send_data_fx e req ret) s = on_send_done f e req ret False s"
| "tcp_step f (Ntp_h_send_data_kp e req) s = send_enter e req s"
| "tcp_step f (Ntp_h_send_data_kr e ret) s = send_exit f e ret False s"
| "tcp_step f (Ntp_h_send_ddgst_fx e req ret) s = on_send_done f e req ret False s"
| "tcp_step f (Ntp_h_send_ddgst_kp e req) s = send_enter e req s"
| "tcp_step f (Ntp_h_send_ddgst_kr e ret) s = send_exit f e ret False s"
| "tcp_step f (Ntp_h_send_h2c e req) s = on_send_h2c e req s"
| "tcp_step f (Ntp_h_try_send e queue) s = try_send_enter f e queue s"
| "tcp_step f (Ntp_h_try_send_exit e ret) s = try_send_exit f e ret s"
| "tcp_step f (Ntp_h_sendpage e sock) s = on_sock_send f e sock s"
| "tcp_step f (Ntp_h_nosendpage e sock) s = on_sock_send f e sock s"
| "tcp_step f (Ntp_h_sendmsg e sock) s = on_sock_send f e sock s"
| "tcp_step f (Ntp_h_recv_skb e skb) s = on_recv_skb f e skb s"
| "tcp_step f (Ntp_h_recv_skb_exit e) s = on_recv_skb_exit e s"
| "tcp_step f (Ntp_h_copy e skb) s = on_copy f e skb s"
| "tcp_step f (Ntp_h_copy_hash e skb) s = on_copy f e skb s"
| "tcp_step f (Ntp_h_r2t e req) s = on_r2t e req s"
| "tcp_step f (Ntp_h_complete e rq) s = on_complete f e rq s"
| "tcp_step f (Ntp_h_nvme_done e rq) s = ntp_h_nvme_done e rq s"
| "tcp_step f (Ntp_h_blk_done e rq) s = ntp_h_blk_done tcp_host e rq s"

primrec tcp_call :: "tcp_hook \<Rightarrow> host_call" where
  "tcp_call (User_arm e) = Other_hook e"
| "tcp_call (User_disarm e) = Other_hook e"
| "tcp_call (Ntp_h_queue_rq e hctx bd) = Other_hook e"
| "tcp_call (Ntp_h_setup_cmd e rq cmd) = Setup_cmd e rq cmd"
| "tcp_call (Ntp_h_send_cmd_fx e req ret) = Other_hook e"
| "tcp_call (Ntp_h_send_cmd_kp e req) = Other_hook e"
| "tcp_call (Ntp_h_send_cmd_kr e ret) = Other_hook e"
| "tcp_call (Ntp_h_send_data_fx e req ret) = Other_hook e"
| "tcp_call (Ntp_h_send_data_kp e req) = Other_hook e"
| "tcp_call (Ntp_h_send_data_kr e ret) = Other_hook e"
| "tcp_call (Ntp_h_send_ddgst_fx e req ret) = Other_hook e"
| "tcp_call (Ntp_h_send_ddgst_kp e req) = Other_hook e"
| "tcp_call (Ntp_h_send_ddgst_kr e ret) = Other_hook e"
| "tcp_call (Ntp_h_send_h2c e req) = Other_hook e"
| "tcp_call (Ntp_h_try_send e queue) = Other_hook e"
| "tcp_call (Ntp_h_try_send_exit e ret) = Other_hook e"
| "tcp_call (Ntp_h_sendpage e sock) = Other_hook e"
| "tcp_call (Ntp_h_nosendpage e sock) = Other_hook e"
| "tcp_call (Ntp_h_sendmsg e sock) = Other_hook e"
| "tcp_call (Ntp_h_recv_skb e skb) = Other_hook e"
| "tcp_call (Ntp_h_recv_skb_exit e) = Other_hook e"
| "tcp_call (Ntp_h_copy e skb) = Other_hook e"
| "tcp_call (Ntp_h_copy_hash e skb) = Other_hook e"
| "tcp_call (Ntp_h_r2t e req) = Other_hook e"
| "tcp_call (Ntp_h_complete e rq) = Other_hook e"
| "tcp_call (Ntp_h_nvme_done e rq) = Other_hook e"
| "tcp_call (Ntp_h_blk_done e rq) = Blk_done e rq"

definition tcp_init :: tcp_host_state where
  "tcp_init = \<lparr>ntp_armed = False, ntp_inflight = 0, counters = (\<lambda>_. 0),
     reqs = (\<lambda>_. zero_host_entry), cid_idx = (\<lambda>_. \<lparr>cs_queue = 0, cs_rq = 0, cs_cid = 0\<rparr>),
     qstats = [], counted = [],
     pend = (\<lambda>_. \<lparr>p_tid = 0, p_rq = 0, p_queue = 0, p_ts = 0, p_q_unsent = 0, p_q_inflight = 0\<rparr>),
     rx_ctx = (\<lambda>_. \<lparr>rx_tid = 0, rx_queue = 0, rx_skb = 0, rx_arrival = 0, rx_enter = 0,
                    rx_data_rq = 0, rx_busy_from = 0\<rparr>),
     events = [],
     send_ctx = (\<lambda>_. \<lparr>sc_tid = 0, sc_req = 0\<rparr>),
     tsend_ctx = (\<lambda>_. \<lparr>tc_tid = 0, tc_queue = 0, tc_req = 0, tc_cmd_pdu = False\<rparr>)\<rparr>"

lemma tcp_init_fresh: "host_fresh tcp_init"
  by (simp add: tcp_init_def host_fresh_def)

subsection \<open>Every hook but sampling and the final one only stamps\<close>

lemma stamped_tcp_ctx [simp]:
  "stamped s' (s\<lparr>send_ctx := x\<rparr>) = stamped s' s" "stamped s' (s\<lparr>tsend_ctx := y\<rparr>) = stamped s' s"
  "stamped (s\<lparr>send_ctx := x\<rparr>) s' = stamped s s'" "stamped (s\<lparr>tsend_ctx := y\<rparr>) s' = stamped s s'"
  by (simp_all add: stamped_def)

lemma times_le_tcp_ctx [simp]:
  "times_le lim (s\<lparr>send_ctx := x\<rparr>) = times_le lim s" "times_le lim (s\<lparr>tsend_ctx := y\<rparr>) = times_le lim s"
  by (simp_all add: times_le_def)

lemma stamped_on_send_done: "stamped s (on_send_done f e req ret cmd_pdu s)"
proof -
  have rec: "stamped s' (rec_upd slot (set_ts NTP_H_CMD_SENT v) s')"
    if "h_ts (he_rec (reqs s' slot)) NTP_H_CMD_SENT = 0" for slot v and s' :: "'a host_state_scheme"
    using that by (intro stamped_rec_upd rec_ext_first) (simp_all add: first_only_def)
  have sent: "stamped s' (rec_upd slot (set_ts NTP_H_DATA_SENT v) s')" for slot v and s' :: "'a host_state_scheme"
    by (intro stamped_rec_upd rec_ext_set_ts) (simp_all add: first_only_def)
  have un: "stamped s s' \<Longrightarrow> stamped s' s'' \<Longrightarrow> stamped s s''" for s' s'' :: "'a host_state_scheme"
    by (rule stamped_trans)
  define s' where "s' = (if cmd_pdu \<and> f_track_queues f then uncount (rq_from_pdu e req) CNT_UNSENT False s else s)"
  have "stamped s s'" by (simp add: s'_def stamped_uncount)
  then show ?thesis
    unfolding on_send_done_def Let_def s'_def [symmetric]
    by (auto split: option.split intro: un [OF _ rec] un [OF _ sent])
qed

lemma stamped_send_exit: "stamped s (send_exit f e ret cmd_pdu s)"
  using stamped_on_send_done [of "s\<lparr>send_ctx := x\<rparr>" for x]
  by (simp add: send_exit_def Let_def split: option.split)

lemma stamped_on_send_h2c: "stamped s (on_send_h2c e req s)"
  by (simp add: on_send_h2c_def stamped_rec_upd rec_ext_stamp_ts first_only_def split: option.split)

lemma stamped_tsend_found: "stamped s (tsend_found e c req s)"
  using stamped_on_send_h2c [of "s\<lparr>tsend_ctx := x\<rparr>" for x] by (simp add: tsend_found_def)

lemma stamped_try_send_enter: "stamped s (try_send_enter f e queue s)"
  using stamped_tsend_found [of "s\<lparr>tsend_ctx := x\<rparr>" for x] by (simp add: try_send_enter_def Let_def)

lemma stamped_on_sock_send: "stamped s (on_sock_send f e sock s)"
  by (simp add: on_sock_send_def Let_def stamped_tsend_found split: option.split)

lemma stamped_try_send_exit: "stamped s (try_send_exit f e ret s)"
proof -
  have "stamped s (on_send_done f e req ret False (if P then uncount rq CNT_UNSENT False s' else s'))"
    if "stamped s s'" for P rq req and s' :: "'a tcp_host_state_scheme"
    by (rule stamped_trans [OF _ stamped_on_send_done])
      (simp add: that stamped_trans [OF that stamped_uncount])
  then show ?thesis by (auto simp: try_send_exit_def Let_def split: option.split)
qed

lemma stamped_on_recv_skb: "stamped s (on_recv_skb f e skb s)"
  by (simp add: on_recv_skb_def stamped_host_rx_enter)

lemma stamped_on_recv_skb_exit: "stamped s (on_recv_skb_exit e s)"
  unfolding on_recv_skb_exit_def Let_def
  by (auto split: option.split intro: stamped_trans [OF _ stamped_queues(4)] stamped_host_data_done)

lemma stamped_first_data:
  assumes "stamped s s'" and "h_ts (he_rec (reqs s' slot)) NTP_H_C2H_PROC = 0"
  shows "stamped s (rec_upd slot (set_ts NTP_H_C2H_PROC v) (rec_upd slot (set_ts NTP_H_C2H_ARR w) s'))"
proof -
  have arr: "stamped s' (rec_upd slot (set_ts NTP_H_C2H_ARR w) s')"
    using assms(2) by (intro stamped_rec_upd rec_ext_set_ts) (simp_all add: first_only_def)
  have proc: "stamped t (rec_upd slot (set_ts NTP_H_C2H_PROC v) t)"
    if "h_ts (he_rec (reqs t slot)) NTP_H_C2H_PROC = 0" for t :: "'b host_state_scheme"
    using that by (intro stamped_rec_upd rec_ext_first) (simp_all add: first_only_def)
  show ?thesis
    using assms arr by (intro stamped_trans [OF stamped_trans [OF assms(1) arr] proc])
      (simp add: rec_upd_def set_ts_def)
qed

lemma stamped_copy_begin: "stamped s (copy_begin e c slot s)"
proof -
  define s1 where "s1 = (if rx_data_rq c \<noteq> 0 then case host_entry s (rx_data_rq c) of
      None \<Rightarrow> s | Some prev \<Rightarrow> host_data_done e prev (now e) s else s)"
  have s1: "stamped s s1" by (simp add: s1_def stamped_host_data_done split: option.split)
  show ?thesis
    unfolding copy_begin_def Let_def s1_def [symmetric]
    by (rule stamped_trans [OF _ stamped_queues(4)]) (simp add: s1 stamped_first_data)
qed

lemma stamped_on_copy: "stamped s (on_copy f e skb s)"
proof -
  have last: "stamped s (rec_upd slot (set_ts NTP_H_C2H_LAST_ARR v) s)" for slot v
    by (intro stamped_rec_upd rec_ext_set_ts) (simp_all add: first_only_def)
  show ?thesis unfolding on_copy_def Let_def
    by (auto split: option.split simp: last intro: stamped_trans [OF last stamped_copy_begin])
qed

lemma stamped_on_r2t: "stamped s (on_r2t e req s)"
proof -
  have first: "stamped s (rec_upd slot (set_ts NTP_H_R2T_PROC v) (rec_upd slot (set_ts NTP_H_R2T_ARR w)
      (rec_upd slot (or_flags NTP_F_R2T) s)))" if z: "h_ts (he_rec (reqs s slot)) NTP_H_R2T_PROC = 0" for slot v w
  proof -
    have a: "stamped s (rec_upd slot (or_flags NTP_F_R2T) s)"
      by (simp add: stamped_rec_upd rec_ext_or_flags)
    have b: "stamped t (rec_upd slot (set_ts NTP_H_R2T_ARR w) t)"
      if "h_ts (he_rec (reqs t slot)) NTP_H_R2T_PROC = 0" for t :: "'a host_state_scheme"
      using that by (intro stamped_rec_upd rec_ext_set_ts) (simp_all add: first_only_def)
    have c: "stamped t (rec_upd slot (set_ts NTP_H_R2T_PROC v) t)"
      if "h_ts (he_rec (reqs t slot)) NTP_H_R2T_PROC = 0" for t :: "'a host_state_scheme"
      using that by (intro stamped_rec_upd rec_ext_first) (simp_all add: first_only_def)
    show ?thesis using z
      by (intro stamped_trans [OF stamped_trans [OF a b] c])
        (simp_all add: rec_upd_def set_ts_def or_flags_def)
  qed
  show ?thesis unfolding on_r2t_def
    by (auto split: option.split simp: first stamped_rec_upd rec_ext_or_flags)
qed

lemma stamped_on_complete: "stamped s (on_complete f e rq s)"
proof -
  obtain slot s' where hc: "host_complete f e rq s = (slot, s')" by fastforce
  have s': "stamped s s'" using stamped_host_complete [of s f e rq] hc by simp
  have "stamped s (rec_upd x (or_flags NTP_F_DATA_SUCCESS) s')" for x
    by (rule stamped_trans [OF s' stamped_rec_upd]) (simp add: rec_ext_or_flags)
  with s' show ?thesis unfolding on_complete_def hc
    by (cases slot) (auto split: option.split)
qed

lemmas tcp_stamped =
  stamped_host_queue_rq stamped_on_send_done stamped_send_exit stamped_on_send_h2c
  stamped_try_send_enter stamped_on_sock_send stamped_try_send_exit stamped_on_recv_skb
  stamped_on_recv_skb_exit stamped_on_copy stamped_on_r2t stamped_on_complete stamped_nvme_done

interpretation tcp: host_object tcp_host f "tcp_step f" tcp_call for f
proof
  show "tcp_step f ev s = ntp_h_setup_cmd tcp_host f e rq cmd s" if "tcp_call ev = Setup_cmd e rq cmd"
    for ev e rq cmd and s :: "'a tcp_host_state_scheme"
    using that by (cases ev) simp_all
  show "tcp_step f ev s = ntp_h_blk_done tcp_host e rq s" if "tcp_call ev = Blk_done e rq"
    for ev e rq and s :: "'a tcp_host_state_scheme"
    using that by (cases ev) simp_all
  show "stamped s (tcp_step f ev s)" if "tcp_call ev = Other_hook e"
    for ev e and s :: "'a tcp_host_state_scheme"
    using that by (cases ev) (simp_all add: tcp_stamped send_enter_def, simp_all add: stamped_def)
qed

subsection \<open>No hook stamps a time that has not come\<close>

lemma times_on_send_done: "times_le (now e) s \<Longrightarrow> times_le (now e) (on_send_done f e req ret cmd_pdu s)"
  unfolding on_send_done_def Let_def
  by (simp add: times_le_uncount times_le_stamp split: option.split)

lemma times_send_exit: "times_le (now e) s \<Longrightarrow> times_le (now e) (send_exit f e ret cmd_pdu s)"
  by (simp add: send_exit_def Let_def times_on_send_done split: option.split)

lemma times_on_send_h2c: "times_le (now e) s \<Longrightarrow> times_le (now e) (on_send_h2c e req s)"
  by (simp add: on_send_h2c_def times_le_stamp split: option.split)

lemma times_try_send_enter: "times_le (now e) s \<Longrightarrow> times_le (now e) (try_send_enter f e queue s)"
  by (simp add: try_send_enter_def tsend_found_def Let_def times_on_send_h2c)

lemma times_on_sock_send: "times_le (now e) s \<Longrightarrow> times_le (now e) (on_sock_send f e sock s)"
  by (simp add: on_sock_send_def tsend_found_def Let_def times_on_send_h2c split: option.split)

lemma times_try_send_exit: "times_le (now e) s \<Longrightarrow> times_le (now e) (try_send_exit f e ret s)"
  by (simp add: try_send_exit_def Let_def times_on_send_done times_le_uncount split: option.split)

lemma times_on_recv_skb: "times_le (now e) s \<Longrightarrow> times_le (now e) (on_recv_skb f e skb s)"
  by (simp add: on_recv_skb_def times_le_host_rx_enter ntp_skb_arrival_le)

lemma times_le_rx_upd:
  "times_le lim s \<Longrightarrow> rx_arrival (g (rx_ctx s c)) = rx_arrival (rx_ctx s c) \<Longrightarrow>
   times_le lim (s\<lparr>rx_ctx := (rx_ctx s)(c := g (rx_ctx s c))\<rparr>)"
  by (simp add: times_le_def)

lemma times_on_recv_skb_exit: "times_le (now e) s \<Longrightarrow> times_le (now e) (on_recv_skb_exit e s)"
  unfolding on_recv_skb_exit_def Let_def
  by (auto split: option.split intro!: times_le_rx_upd times_le_host_data_done)

lemma times_copy_begin:
  assumes "times_le (now e) s" and "rx_arrival c \<le> now e"
  shows "times_le (now e) (copy_begin e c slot s)"
proof -
  have first: "times_le (now e)
      (rec_upd slot (set_ts NTP_H_C2H_PROC (now e)) (rec_upd slot (set_ts NTP_H_C2H_ARR (rx_arrival c)) s'))"
    if "times_le (now e) s'" "h_ts (he_rec (reqs s' slot)) NTP_H_C2H_PROC = 0" for s' :: "'a host_state_scheme"
    using that assms(2) by (intro times_le_stamp times_le_arrives) (simp_all add: clocked_def)
  define s1 where "s1 = (if rx_data_rq c \<noteq> 0 then case host_entry s (rx_data_rq c) of
      None \<Rightarrow> s | Some prev \<Rightarrow> host_data_done e prev (now e) s else s)"
  have s1: "times_le (now e) s1" using assms(1) by (simp add: s1_def times_le_host_data_done split: option.split)
  show ?thesis
    unfolding copy_begin_def Let_def s1_def [symmetric]
    by (rule times_le_rx_upd) (simp_all add: s1 first)
qed

lemma times_on_copy:
  assumes "times_le (now e) s"
  shows "times_le (now e) (on_copy f e skb s)"
proof -
  have last: "times_le (now e) (rec_upd slot (set_ts NTP_H_C2H_LAST_ARR v) s)" if "v \<le> now e" for slot v
    using that assms by (intro times_le_arrives) (simp_all add: clocked_def)
  show ?thesis using assms times_le_arrival [OF assms, of e]
    by (auto simp: on_copy_def Let_def split: option.split intro!: times_copy_begin last)
qed

lemma times_on_r2t:
  assumes "times_le (now e) s"
  shows "times_le (now e) (on_r2t e req s)"
proof -
  have first: "times_le (now e) (rec_upd slot (set_ts NTP_H_R2T_PROC (now e))
      (rec_upd slot (set_ts NTP_H_R2T_ARR v) (rec_upd slot (or_flags NTP_F_R2T) s)))"
    if "v \<le> now e" "h_ts (he_rec (reqs s slot)) NTP_H_R2T_PROC = 0" for slot v
    using that assms by (intro times_le_stamp times_le_arrives times_le_flags)
      (simp_all add: clocked_def rec_upd_def or_flags_def)
  show ?thesis using assms times_le_arrival [OF assms, of e]
    by (auto simp: on_r2t_def times_le_flags split: option.split intro!: first)
qed

lemma times_on_complete:
  assumes "times_le (now e) s"
  shows "times_le (now e) (on_complete f e rq s)"
proof -
  obtain slot s' where hc: "host_complete f e rq s = (slot, s')" by fastforce
  have s': "times_le (now e) s'" using times_le_host_complete [OF assms, of f rq] hc by simp
  then show ?thesis unfolding on_complete_def hc by (cases slot) (simp_all add: times_le_flags split: option.split)
qed

lemmas tcp_times =
  times_le_host_queue_rq times_on_send_done times_send_exit times_on_send_h2c times_try_send_enter
  times_on_sock_send times_try_send_exit times_on_recv_skb times_on_recv_skb_exit times_on_copy
  times_on_r2t times_on_complete times_le_nvme_done

interpretation tcp: timed_host_object tcp_host f "tcp_step f" tcp_call for f
proof
  show "times_le (now e) (tcp_step f ev s)" if "tcp_call ev = Other_hook e" "times_le (now e) s"
    for ev e and s :: "'a tcp_host_state_scheme"
    using that by (cases ev) (simp_all add: tcp_times send_enter_def)
qed

subsection \<open>The queue counts\<close>

lemma queue_inv_tcp_ctx [simp]:
  "queue_inv (s\<lparr>send_ctx := x\<rparr>) = queue_inv s" "queue_inv (s\<lparr>tsend_ctx := y\<rparr>) = queue_inv s"
  by (rule queue_inv_frame; simp)+

lemma queue_inv_uncount_unsent [simp]: "queue_inv s \<Longrightarrow> queue_inv (uncount rq CNT_UNSENT False s)"
  by (rule queue_inv_uncount) simp_all

lemma queue_inv_on_send_done: "queue_inv s \<Longrightarrow> queue_inv (on_send_done f e req ret cmd_pdu s)"
  by (simp add: on_send_done_def Let_def split: option.split)

lemma queue_inv_on_send_h2c [simp]: "queue_inv (on_send_h2c e req s) = queue_inv s"
  by (simp add: on_send_h2c_def split: option.split)

lemma queue_inv_copy_begin [simp]: "queue_inv (copy_begin e c slot s) = queue_inv s"
  by (simp add: copy_begin_def Let_def split: option.split)

lemma queue_inv_receive [simp]:
  "queue_inv (on_recv_skb f e skb s) = queue_inv s" "queue_inv (on_recv_skb_exit e s) = queue_inv s"
  "queue_inv (on_copy f e skb s) = queue_inv s" "queue_inv (on_r2t e req s) = queue_inv s"
  by (simp_all add: on_recv_skb_def on_recv_skb_exit_def on_copy_def on_r2t_def Let_def split: option.split)

lemma queue_inv_send [simp]:
  "queue_inv s \<Longrightarrow> queue_inv (send_exit f e ret cmd_pdu s)" "queue_inv (send_enter e req s) = queue_inv s"
  "queue_inv (try_send_enter f e queue s) = queue_inv s" "queue_inv (on_sock_send f e sock s) = queue_inv s"
  "queue_inv s \<Longrightarrow> queue_inv (try_send_exit f e ret s)"
  by (simp_all add: send_exit_def send_enter_def try_send_enter_def on_sock_send_def try_send_exit_def
      tsend_found_def Let_def queue_inv_on_send_done split: option.split)

lemma queue_inv_on_complete: "queue_inv s \<Longrightarrow> queue_inv (on_complete f e rq s)"
proof -
  assume "queue_inv s"
  then have "queue_inv (snd (host_complete f e rq s))" by (rule queue_inv_host_complete)
  then show ?thesis
    by (cases "host_complete f e rq s") (simp add: on_complete_def split: option.split)
qed

interpretation tcp: counting_host_object tcp_host f "tcp_step f" tcp_call for f
proof
  show "queue_inv (tcp_step f ev s)"
    if "tcp_call ev = Other_hook e" "queue_inv s" "length (counted s) < COUNTED_MAX"
    for ev e and s :: "'a tcp_host_state_scheme"
    using that by (cases ev)
      (simp_all add: queue_inv_host_queue_rq queue_inv_on_send_done queue_inv_on_complete)
qed

subsection \<open>Properties\<close>

text \<open>\<open>tcp_run\<close>: the object after a sequence of hooks, from the moment it was loaded.\<close>

definition tcp_run :: "ntp_filter \<Rightarrow> tcp_hook list \<Rightarrow> tcp_host_state" where
  "tcp_run f evs = fold (tcp_step f) evs tcp_init"

abbreviation tcp_ok :: "tcp_hook list \<Rightarrow> bool" where
  "tcp_ok evs \<equiv> list_all (call_ok \<circ> tcp_call) evs"

lemma tcp_run_inv: "tcp_ok evs \<Longrightarrow> host_inv (tcp_run f evs)"
  unfolding tcp_run_def by (rule tcp.run_inv) (simp_all add: host_inv_fresh tcp_init_fresh)

subsection \<open>A concrete kernel\<close>

text \<open>
  Two read requests, at 0x1000 (command id 1) and 0x2000 (command id 2), on one queue at 0x10000;
  \<open>ex_km cid\<close> is the kernel's memory while the queue parses a C2H data PDU of command \<open>cid\<close>.
\<close>

definition ex_km :: "u16 \<Rightarrow> kmem" where
  "ex_km cid = zero_km\<lparr>sizeof_request := 0x100, treq_queue := \<lambda>_. 0x10000, sk_user_data := \<lambda>_. 0x10000,
     nvme_cmd_at := \<lambda>a. Some \<lparr>c_opcode = NTP_NVME_CMD_READ, c_command_id = ucast a, c_nsid = 1,
       c_dptr1 = 0, c_slba = 0, c_length = 7\<rparr>,
     rq_data_len := \<lambda>_. 4096, rq_start_time_ns := \<lambda>_. 5,
     data_pdu_at := \<lambda>_. Some (nvme_tcp_c2h_data, cid), u8_at := \<lambda>_. Some nvme_tcp_c2h_data\<rparr>"

definition ex_env :: "u64 \<Rightarrow> u16 \<Rightarrow> env" where
  "ex_env t cid = \<lparr>cpu = 0, tid = 7, now = t, rb_ok = True, km = ex_km cid, lru_victim = 0\<rparr>"

definition ex_run :: "tcp_hook list" where
  "ex_run =
    [User_arm (ex_env 10 0), Ntp_h_setup_cmd (ex_env 20 0) 0x1000 1,
     Ntp_h_send_cmd_fx (ex_env 30 0) 0x1100 1, Ntp_h_recv_skb (ex_env 100 0) 0x50,
     Ntp_h_copy (ex_env 110 1) 0x50, Ntp_h_complete (ex_env 120 1) 0x1000,
     Ntp_h_recv_skb_exit (ex_env 130 1), Ntp_h_nvme_done (ex_env 140 0) 0x1000]"


text \<open>
  One call of the receive function: data of command 2, then the last data of command 1, which
  completes, and then more data of command 2.
\<close>

definition ex_interleaved :: "tcp_hook list" where
  "ex_interleaved =
    [User_arm (ex_env 10 0), Ntp_h_setup_cmd (ex_env 20 0) 0x1000 1, Ntp_h_setup_cmd (ex_env 21 0) 0x2000 2,
     Ntp_h_recv_skb (ex_env 100 0) 0x50, Ntp_h_copy (ex_env 110 2) 0x50, Ntp_h_copy (ex_env 200 1) 0x50,
     Ntp_h_complete (ex_env 201 1) 0x1000, Ntp_h_copy (ex_env 202 2) 0x50,
     Ntp_h_complete (ex_env 300 2) 0x2000, Ntp_h_blk_done (ex_env 310 0) 0x2000]"

lemma ex_env_simps:
  "cpu (ex_env t c) = 0" "tid (ex_env t c) = 7" "now (ex_env t c) = t" "rb_ok (ex_env t c)"
  "km (ex_env t c) = ex_km c"
  by (simp_all add: ex_env_def)

lemma ex_km_simps:
  "sizeof_request (ex_km c) = 0x100" "treq_queue (ex_km c) a = 0x10000" "sk_user_data (ex_km c) a = 0x10000"
  "nvme_cmd_at (ex_km c) a = Some \<lparr>c_opcode = NTP_NVME_CMD_READ, c_command_id = ucast a, c_nsid = 1,
       c_dptr1 = 0, c_slba = 0, c_length = 7\<rparr>"
  "data_pdu_at (ex_km c) a = Some (nvme_tcp_c2h_data, c)" "u8_at (ex_km c) a = Some nvme_tcp_c2h_data"
  "tq_request (ex_km c) a = 0" "skb_tstamp (ex_km c) a = 0" "rq_data_len (ex_km c) a = 4096"
  by (simp_all add: ex_km_def zero_km_def)

lemma ex_slots:
  "ntp_slot 0x1000 NTP_REC_SLOTS = 0x2c40" "ntp_slot 0x2000 NTP_REC_SLOTS = 0x1880"
  "cid_slot_of 0x10000 1 = 0x3db1" "cid_slot_of 0x10000 2 = 0x3762"
  by (code_simp)+


lemmas ex_eval =
  tcp_run_def tcp_init_def ex_env_simps ex_km_simps ex_slots default_filter_def tcp_host_def
  host_queue_of_def ntp_h_setup_cmd_def setup_queue_def ntp_ctx_get_def ntp_read_cmd_def ntp_is_rw_def
  host_selected_def io_type_matches_def ntp_sampled_def ntp_size_matches_def ctrl_selected_def
  host_take_slot_def host_new_rec_def zero_rec_defs zero_host_entry_def ntp_count_def ntp_inflight_add_def ntp_idle_def
  on_recv_skb_def host_rx_enter_def ntp_skb_arrival_def on_copy_def copy_begin_def host_entry_def host_rec_def
  rec_upd_def set_ts_def or_flags_def on_complete_def host_complete_def complete_slot_def host_data_done_def
  rec_data_done_def ntp_h_blk_done_def blk_done_rec_def ntp_defs nvme_tcp_c2h_data_def Let_def
  on_send_done_def ntp_h_nvme_done_def stamp_ts_def ntp_stamp_once_def rq_from_pdu_def on_recv_skb_exit_def

text \<open>\<^bold>\<open>C11.\<close> After any sequence of hooks of the NVMe/TCP host object, on any CPUs and in any order,
  the number of records in flight is the number of slots taken, every record sits in the slot of its
  request, and the counters account for every sampled request: emitted, dropped, replaced, or in
  flight. The only condition is that the kernel passes no null request.\<close>

theorem tcp_host_accounts:
  assumes "list_all (call_ok \<circ> tcp_call) evs"
  shows "unat (ntp_inflight (tcp_run f evs)) = card (occupied he_rq (reqs (tcp_run f evs))) \<and>
    homed he_rq (reqs (tcp_run f evs)) \<and>
    counter_total (tcp_run f evs) NTP_CNT_HOST_SAMPLED =
      counter_total (tcp_run f evs) NTP_CNT_HOST_EMITTED + counter_total (tcp_run f evs) NTP_CNT_RB_DROPS +
      counter_total (tcp_run f evs) NTP_CNT_STALE + ntp_inflight (tcp_run f evs)"
  using tcp_run_inv [OF assms, of f] unfolding host_inv_def by (simp add: unat_inflight)

lemma ex_run_ok: "list_all (call_ok \<circ> tcp_call) ex_run"
  by (simp add: ex_run_def)

theorem tcp_host_accounts_witness:
  "list_all (call_ok \<circ> tcp_call) ex_run \<and> ntp_inflight (tcp_run default_filter ex_run) = 1 \<and>
   card (occupied he_rq (reqs (tcp_run default_filter ex_run))) = 1"
proof -
  have "ntp_inflight (tcp_run default_filter ex_run) = 1"
    by (simp add: ex_eval ex_run_def cong: if_weak_cong option.case_cong_weak)
  then show ?thesis using tcp_host_accounts [OF ex_run_ok, of default_filter] ex_run_ok by simp
qed

text \<open>A read's processing time can be counted twice: there is a run, with the clock going
  forward, whose emitted record has a processing time longer than the time from its first data to its
  last. It happens when another read completes between two pieces of this read's data in one packet:
  the completion makes the context forget that time was already counted in this call.\<close>

theorem tcp_busy_counted_twice:
  "\<exists>evs r. list_all (call_ok \<circ> tcp_call) evs \<and> sorted (map (now \<circ> call_env \<circ> tcp_call) evs) \<and>
     events (tcp_run default_filter evs) = [r] \<and>
     h_ts r NTP_H_C2H_PROC \<le> h_ts r NTP_H_C2H_DONE \<and>
     h_c2h_busy_ns r > h_ts r NTP_H_C2H_DONE - h_ts r NTP_H_C2H_PROC"
proof -
  have "map (\<lambda>r. (h_ts r NTP_H_C2H_PROC, h_ts r NTP_H_C2H_DONE, h_c2h_busy_ns r))
      (events (tcp_run default_filter ex_interleaved)) = [(110, 300, 290)]"
    by (simp add: ex_eval ex_interleaved_def cong: if_weak_cong option.case_cong_weak)
  then obtain r where "events (tcp_run default_filter ex_interleaved) = [r]"
    "h_ts r NTP_H_C2H_PROC = 110" "h_ts r NTP_H_C2H_DONE = 300" "h_c2h_busy_ns r = 290"
    by auto
  moreover have "list_all (call_ok \<circ> tcp_call) ex_interleaved"
    "sorted (map (now \<circ> call_env \<circ> tcp_call) ex_interleaved)"
    by (simp_all add: ex_interleaved_def ex_env_def)
  ultimately show ?thesis by (intro exI [of _ ex_interleaved] exI [of _ r]) simp
qed

text \<open>\<^bold>\<open>C12.\<close> Every record handed to user space is a host record of NVMe/TCP for a read or write that
  passes the whole filter (direction, sampling hash, size, controller, namespace); its flags say its
  direction and whether queues were tracked, and a write is marked either as solicited by R2T or as
  carrying its data in the capsule.\<close>

theorem tcp_host_records:
  assumes "list_all (call_ok \<circ> tcp_call) evs" and "r \<in> set (events (tcp_run f evs))"
  shows "hdr_kind (h_hdr r) = NTP_REC_HOST \<and> hdr_transport (h_hdr r) = NTP_TR_TCP \<and>
    ntp_is_rw (id_opcode (h_id r)) \<and> host_selected f (h_id r) (h_bytes r) (h_ctrl_instance r) \<and>
    (host_flag r NTP_F_WRITE \<longleftrightarrow> id_opcode (h_id r) = NTP_NVME_CMD_WRITE) \<and>
    (host_flag r NTP_F_QUEUES \<longleftrightarrow> f_track_queues f) \<and>
    (host_flag r NTP_F_WRITE \<longrightarrow> host_flag r NTP_F_R2T \<or> host_flag r NTP_F_INLINE_DATA)"
proof -
  have "recs_ok tcp_host f (tcp_run f evs)"
    unfolding tcp_run_def using assms(1) by (rule tcp.run_recs_ok) (simp add: recs_ok_fresh tcp_init_fresh)
  then show ?thesis using assms(2) by (auto simp: recs_ok_def host_rec_ok_def tcp_host_def)
qed

abbreviation ex_full :: "tcp_hook list" where
  "ex_full \<equiv> ex_run @ [Ntp_h_blk_done (ex_env 150 0) 0x1000]"

lemma ex_full_events:
  "map (\<lambda>r. (id_cid (h_id r), h_ts r NTP_H_QUEUE_RQ, h_ts r NTP_H_C2H_PROC, h_ts r NTP_H_BLK_DONE))
     (events (tcp_run default_filter ex_full)) = [(1, 20, 110, 150)]"
  by (simp add: ex_eval ex_run_def cong: if_weak_cong option.case_cong_weak)

theorem tcp_host_records_witness:
  "\<exists>r. events (tcp_run default_filter ex_full) = [r] \<and> hdr_transport (h_hdr r) = NTP_TR_TCP \<and>
     \<not> host_flag r NTP_F_QUEUES"
proof -
  obtain r where r: "events (tcp_run default_filter ex_full) = [r]" using ex_full_events by auto
  have "list_all (call_ok \<circ> tcp_call) ex_full" by (simp add: ex_run_def)
  from tcp_host_records [OF this, of r default_filter] r show ?thesis by (simp add: default_filter_def)
qed

text \<open>\<^bold>\<open>C10.\<close> A record in the table is never lost silently. In any run that reaches a state with a record
  for request \<open>rq\<close>, whatever hooks run next up to the block layer's completion of \<open>rq\<close>, one of two things
  is the case. Either the completion hands over exactly one record, or counts one drop if the ring
  buffer has no room; the record continues the one in the table (same command, size and start, and every
  first event keeps its time), its last event is the completion, and the slot is free again. Or another
  sampled request that hashes to the same slot took it in between, and was counted as stale when it
  did.\<close>

theorem tcp_host_delivers:
  fixes e :: env
  assumes "list_all (call_ok \<circ> tcp_call) (evs @ rest)" and "rq \<noteq> 0"
    and "host_entry (tcp_run f evs) rq = Some slot"
    and "list_all (\<lambda>ev. \<forall>e. ev \<noteq> Ntp_h_blk_done e rq) rest"
  defines "s \<equiv> tcp_run f (evs @ rest)" and "s' \<equiv> tcp_run f (evs @ rest @ [Ntp_h_blk_done e rq])"
  shows "(\<exists>r. events s' = events s @ (if rb_ok e then [r] else []) \<and>
       counter_total s' NTP_CNT_RB_DROPS = counter_total s NTP_CNT_RB_DROPS + (if rb_ok e then 0 else 1) \<and>
       rec_ext (he_rec (reqs (tcp_run f evs) slot)) r \<and> h_ts r NTP_H_BLK_DONE = now e \<and> host_entry s' rq = None) \<or>
    (\<exists>rest1 e' rq' cmd rest2. rest = rest1 @ Ntp_h_setup_cmd e' rq' cmd # rest2 \<and>
       ntp_slot rq' NTP_REC_SLOTS = ntp_slot rq NTP_REC_SLOTS \<and>
       counter_total (tcp_run f (evs @ rest1 @ [Ntp_h_setup_cmd e' rq' cmd])) NTP_CNT_STALE =
         counter_total (tcp_run f (evs @ rest1)) NTP_CNT_STALE + 1)"
proof -
  have inv: "host_inv (tcp_run f evs)" and ok: "list_all (call_ok \<circ> tcp_call) rest"
    using assms(1) by (simp_all add: tcp_run_inv)
  have blk: "ev = Ntp_h_blk_done e' rq" if "tcp_call ev = Blk_done e' rq" for ev e' using that by (cases ev) simp_all
  have sets: "ev = Ntp_h_setup_cmd e' rq' cmd" if "tcp_call ev = Setup_cmd e' rq' cmd" for ev e' rq' cmd
    using that by (cases ev) simp_all
  have keep: "list_all (\<lambda>ev. \<forall>e. tcp_call ev \<noteq> Blk_done e rq) rest"
    using assms(4) by (rule list.pred_mono_strong) (use blk in blast)
  have run: "fold (tcp_step f) xs (tcp_run f evs) = tcp_run f (evs @ xs)" for xs by (simp add: tcp_run_def)
  have last: "tcp_call (Ntp_h_blk_done e rq) = Blk_done e rq" by simp
  have fin: "tcp_step f (Ntp_h_blk_done e rq) s = s'" by (simp add: s_def s'_def tcp_run_def)
  from tcp.run_accounts_for [where f = f and ev = "Ntp_h_blk_done e rq" and e = e, OF inv ok assms(2,3) keep last]
  show ?thesis
  proof (elim disjE exE conjE, goal_cases)
    case (1 r)
    then show ?thesis unfolding run s_def [symmetric] fin by blast
  next
    case (2 rest1 ev rest2 e' rq' cmd)
    with sets [of ev e' rq' cmd] show ?thesis unfolding run by blast
  qed
qed

abbreviation ex_rest :: "tcp_hook list" where
  "ex_rest \<equiv> [Ntp_h_setup_cmd (ex_env 145 0) 0x2000 2]"

lemma ex_run_entry: "host_entry (tcp_run default_filter ex_run) 0x1000 = Some 0x2c40"
  by (simp add: ex_eval ex_run_def cong: if_weak_cong option.case_cong_weak)

theorem tcp_host_delivers_witness:
  "\<exists>r. events (tcp_run default_filter (ex_run @ ex_rest @ [Ntp_h_blk_done (ex_env 150 0) 0x1000])) =
         events (tcp_run default_filter (ex_run @ ex_rest)) @ [r] \<and> h_ts r NTP_H_BLK_DONE = 150"
proof -
  have "list_all (call_ok \<circ> tcp_call) (ex_run @ ex_rest)" by (simp add: ex_run_def)
  moreover have "list_all (\<lambda>ev. \<forall>e. ev \<noteq> Ntp_h_blk_done e 0x1000) ex_rest" by simp
  moreover have "(0x1000 :: u64) \<noteq> 0" by simp
  moreover have "ntp_slot rq' NTP_REC_SLOTS \<noteq> ntp_slot 0x1000 NTP_REC_SLOTS"
    if "ex_rest = rest1 @ Ntp_h_setup_cmd e' rq' cmd # rest2" for rest1 e' rq' cmd rest2
    using that by (auto simp: Cons_eq_append_conv ex_slots)
  ultimately show ?thesis
    using tcp_host_delivers [of ex_run ex_rest "0x1000" default_filter "0x2c40" "ex_env 150 0"] ex_run_entry
    by (auto simp: ex_env_simps)
qed

text \<open>\<^bold>\<open>C14.\<close> With exact queue counting, as long as the map of counted requests has never been full,
  the two numbers of every queue are the numbers of requests counted on it whose command is not yet
  sent, and not yet completed; read as signed numbers they are exact, and the 16 bits that go into a
  record hold them without clamping.\<close>

theorem tcp_host_queue_counts:
  assumes "\<And>n. n \<le> length evs \<Longrightarrow> length (counted (tcp_run f (take n evs))) < COUNTED_MAX"
    and "map_of (qstats (tcp_run f evs)) q = Some qs"
  shows "sint (qs_unsent qs) = int (tally (counts_in q CNT_UNSENT) (counted (tcp_run f evs))) \<and>
    sint (qs_inflight qs) = int (tally (counts_in q CNT_INFLIGHT) (counted (tcp_run f evs))) \<and>
    unat (ntp_clamp_u16 (qs_inflight qs)) = tally (counts_in q CNT_INFLIGHT) (counted (tcp_run f evs))"
proof -
  have "queue_inv (tcp_run f evs)" unfolding tcp_run_def
    using assms(1) by (intro tcp.run_queue_inv) (simp_all add: queue_inv_fresh tcp_init_fresh tcp_run_def)
  moreover have "length (counted (tcp_run f evs)) < COUNTED_MAX" using assms(1) [of "length evs"] by simp
  ultimately show ?thesis using assms(2) by (simp add: queue_inv_def tally_word)
qed

definition ex_tracking :: ntp_filter where
  "ex_tracking = default_filter\<lparr>f_track_queues := True\<rparr>"

definition ex_queued :: "tcp_hook list" where
  "ex_queued = [User_arm (ex_env 10 0), Ntp_h_queue_rq (ex_env 20 0) 3 4]"

theorem tcp_host_queue_counts_witness:
  "\<exists>qs. map_of (qstats (tcp_run ex_tracking ex_queued)) 0 = Some qs \<and> sint (qs_unsent qs) = 1"
proof -
  have small: "length (counted (tcp_run ex_tracking (take n ex_queued))) < COUNTED_MAX" if "n \<le> 2" for n
  proof -
    have "n \<in> {0, 1, 2}" using that by auto
    then show ?thesis
      by (auto simp: ex_queued_def tcp_run_def tcp_init_def host_queue_rq_def get_qstat_def Let_def
          ex_tracking_def default_filter_def hm_update_any_def hm_update_noexist_def COUNTED_MAX_def
          QSTATS_MAX_def ex_env_simps ex_km_def zero_km_def)
  qed
  have eval: "map_of (qstats (tcp_run ex_tracking ex_queued)) 0 = Some \<lparr>qs_unsent = 1, qs_inflight = 1\<rparr> \<and>
      tally (counts_in 0 CNT_UNSENT) (counted (tcp_run ex_tracking ex_queued)) = 1"
    by (simp add: ex_queued_def tcp_run_def tcp_init_def host_queue_rq_def get_qstat_def Let_def
        ex_tracking_def default_filter_def hm_update_any_def hm_update_noexist_def COUNTED_MAX_def
        QSTATS_MAX_def ex_env_simps ex_km_def zero_km_def hm_modify_def CNT_flags has_flag_or)
  have "length ex_queued = 2" by (simp add: ex_queued_def)
  then show ?thesis
    using tcp_host_queue_counts [of ex_queued ex_tracking 0 "\<lparr>qs_unsent = 1, qs_inflight = 1\<rparr>"] small eval
    by auto
qed

text \<open>What \<open>nvme_setup_cmd\<close> does for an armed object that does not track queues, on a request of
  NVMe/TCP whose command can be read: a read or write that the filter selects gets a fresh record in
  the slot of its request, with the command's identity and the present time as its queueing time, and
  both lookups, by request and by queue and command id, find it; any other request leaves the tables
  as they were. Other slots never change.\<close>

theorem tcp_setup_samples:
  assumes "ntp_armed s" and "\<not> f_track_queues f" and "host_queue_of e rq = queue" and "queue \<noteq> 0"
    and "ntp_read_cmd e cmd zero_cmd_id = Some idv"
  shows "if ntp_is_rw (id_opcode idv) \<and>
            host_selected f idv (rq_data_len (km e) rq) (ctrl_instance (km e) (host_ctrl e rq))
    then host_entry (tcp_step f (Ntp_h_setup_cmd e rq cmd) s) rq = Some (ntp_slot rq NTP_REC_SLOTS) \<and>
      host_rec_by_cid (tcp_step f (Ntp_h_setup_cmd e rq cmd) s) queue (id_cid idv) =
        Some (ntp_slot rq NTP_REC_SLOTS) \<and>
      reqs (tcp_step f (Ntp_h_setup_cmd e rq cmd) s) =
        (reqs s)(ntp_slot rq NTP_REC_SLOTS :=
          \<lparr>he_rq = rq, he_queue = queue, he_rec = host_new_rec tcp_host f e rq idv (now e) 0 0\<rparr>)
    else reqs (tcp_step f (Ntp_h_setup_cmd e rq cmd) s) = reqs s \<and>
      cid_idx (tcp_step f (Ntp_h_setup_cmd e rq cmd) s) = cid_idx s"
proof -
  have sq: "setup_queue tcp_host f e rq s = (Some (queue, 0, 0, 0), s)"
    using assms by (simp add: setup_queue_def tcp_host_def)
  have cid: "id_cid (h_id (host_new_rec tcp_host f e rq idv ts 0 0)) = id_cid idv" for ts
    by (simp add: host_new_rec_def Let_def)
  show ?thesis using assms(4,5)
    by (simp add: ntp_h_setup_cmd_def sq Let_def host_take_slot_def cid host_rec_by_cid_def host_rec_def)
      (simp add: host_entry_def Let_def)
qed

theorem tcp_setup_samples_witness:
  "host_rec_by_cid (tcp_step default_filter (Ntp_h_setup_cmd (ex_env 20 0) 0x1000 1) (tcp_run default_filter [User_arm (ex_env 10 0)]))
     0x10000 1 = Some 0x2c40"
proof -
  let ?s = "tcp_run default_filter [User_arm (ex_env 10 0)]"
  let ?id = "zero_cmd_id\<lparr>id_opcode := NTP_NVME_CMD_READ, id_cid := 1, id_nsid := 1, id_slba := 0, id_nlb := 7\<rparr>"
  have hyp: "ntp_armed ?s" "\<not> f_track_queues default_filter" "host_queue_of (ex_env 20 0) 0x1000 = 0x10000"
    "(0x10000 :: u64) \<noteq> 0" "ntp_read_cmd (ex_env 20 0) 1 zero_cmd_id = Some ?id"
    by (simp_all add: tcp_run_def tcp_init_def default_filter_def host_queue_of_def ntp_read_cmd_def Let_def
        ex_env_simps ex_km_simps zero_cmd_id_def)
  have sel: "ntp_is_rw (id_opcode ?id)"
    "host_selected default_filter ?id (rq_data_len (km (ex_env 20 0)) 0x1000)
       (ctrl_instance (km (ex_env 20 0)) (host_ctrl (ex_env 20 0) 0x1000))"
    by (simp_all add: ntp_is_rw_def host_selected_def io_type_matches_def ntp_sampled_def
        ntp_size_matches_def ctrl_selected_def default_filter_def)
  from tcp_setup_samples [OF hyp] sel show ?thesis by (simp add: ex_slots)
qed

end
