(* ===== verification/Bpf_Tcp_Times.thy ===== *)
theory Bpf_Tcp_Times
  imports Bpf_Tcp_Host
begin

text \<open>
  Where the times of an NVMe/TCP host record come from, and in which order they are. Every time that
  a program stamps with the clock is the time at which a program of the right kind ran for the same
  request, and the events whose order the programs themselves ensure are in that order. Both hold
  over any sequence of hooks, on any CPUs.
\<close>

subsection \<open>Which hook gives which time\<close>

text \<open>
  The events of request \<open>rq\<close> that a hook may stamp with its clock. A kretprobe has its request from
  the context that the kprobe left, and the sending functions of a socket from the sending queue, so
  for these the hook itself does not tell the request.
\<close>

definition sent_ts :: "s32 \<Rightarrow> ntp_host_ts list" where
  "sent_ts ret = (if ret = 1 then [NTP_H_CMD_SENT, NTP_H_DATA_SENT] else [])"

primrec tcp_stamps :: "tcp_hook \<Rightarrow> u64 \<Rightarrow> ntp_host_ts list" where
  "tcp_stamps (User_arm e) rq = []"
| "tcp_stamps (User_disarm e) rq = []"
| "tcp_stamps (Ntp_h_queue_rq e hctx bd) rq = (if bd_rq (km e) bd = rq then [NTP_H_QUEUE_RQ] else [])"
| "tcp_stamps (Ntp_h_setup_cmd e rq' cmd) rq = (if rq' = rq then [NTP_H_QUEUE_RQ] else [])"
| "tcp_stamps (Ntp_h_send_cmd_fx e req ret) rq = (if rq_from_pdu e req = rq then sent_ts ret else [])"
| "tcp_stamps (Ntp_h_send_cmd_kp e req) rq = []"
| "tcp_stamps (Ntp_h_send_cmd_kr e ret) rq = sent_ts ret"
| "tcp_stamps (Ntp_h_send_data_fx e req ret) rq = (if rq_from_pdu e req = rq then sent_ts ret else [])"
| "tcp_stamps (Ntp_h_send_data_kp e req) rq = []"
| "tcp_stamps (Ntp_h_send_data_kr e ret) rq = sent_ts ret"
| "tcp_stamps (Ntp_h_send_ddgst_fx e req ret) rq = (if rq_from_pdu e req = rq then sent_ts ret else [])"
| "tcp_stamps (Ntp_h_send_ddgst_kp e req) rq = []"
| "tcp_stamps (Ntp_h_send_ddgst_kr e ret) rq = sent_ts ret"
| "tcp_stamps (Ntp_h_send_h2c e req) rq = (if rq_from_pdu e req = rq then [NTP_H_DATA_START] else [])"
| "tcp_stamps (Ntp_h_try_send e queue) rq = [NTP_H_DATA_START]"
| "tcp_stamps (Ntp_h_try_send_exit e ret) rq = sent_ts ret"
| "tcp_stamps (Ntp_h_sendpage e sock) rq = [NTP_H_DATA_START]"
| "tcp_stamps (Ntp_h_nosendpage e sock) rq = [NTP_H_DATA_START]"
| "tcp_stamps (Ntp_h_sendmsg e sock) rq = [NTP_H_DATA_START]"
| "tcp_stamps (Ntp_h_recv_skb e skb) rq = []"
| "tcp_stamps (Ntp_h_recv_skb_exit e) rq = [NTP_H_C2H_DONE]"
| "tcp_stamps (Ntp_h_copy e skb) rq = [NTP_H_C2H_PROC, NTP_H_C2H_DONE]"
| "tcp_stamps (Ntp_h_copy_hash e skb) rq = [NTP_H_C2H_PROC, NTP_H_C2H_DONE]"
| "tcp_stamps (Ntp_h_r2t e req) rq = (if rq_from_pdu e req = rq then [NTP_H_R2T_PROC] else [])"
| "tcp_stamps (Ntp_h_complete e rq') rq = (if rq' = rq then [NTP_H_RSP_PROC, NTP_H_C2H_DONE] else [])"
| "tcp_stamps (Ntp_h_nvme_done e rq') rq = (if rq' = rq then [NTP_H_NVME_DONE] else [])"
| "tcp_stamps (Ntp_h_blk_done e rq') rq = (if rq' = rq then [NTP_H_BLK_DONE] else [])"

text \<open>The times that come from the clock: all but the block layer's start and the arrivals.\<close>

definition from_clock :: "ntp_host_ts list" where
  "from_clock = [NTP_H_QUEUE_RQ, NTP_H_CMD_SENT, NTP_H_R2T_PROC, NTP_H_DATA_START, NTP_H_DATA_SENT,
    NTP_H_C2H_PROC, NTP_H_RSP_PROC, NTP_H_NVME_DONE, NTP_H_BLK_DONE, NTP_H_SEND_DONE, NTP_H_C2H_DONE]"

text \<open>
  The events that the programs order: an arrival before the processing it belongs to, the R2T before
  the data it asks for, and the command before its data. (Each is a pair of an event and a later one.)
\<close>

definition ordered :: "(ntp_host_ts \<times> ntp_host_ts) list" where
  "ordered = [(NTP_H_C2H_ARR, NTP_H_C2H_PROC), (NTP_H_R2T_ARR, NTP_H_R2T_PROC), (NTP_H_RSP_ARR, NTP_H_RSP_PROC),
    (NTP_H_R2T_PROC, NTP_H_DATA_START), (NTP_H_R2T_PROC, NTP_H_DATA_SENT), (NTP_H_CMD_SENT, NTP_H_DATA_SENT)]"

text \<open>
  A record of request \<open>rq\<close> at time \<open>lim\<close>; \<open>P t rq v\<close> says that the event \<open>t\<close> of \<open>rq\<close> may have the
  time \<open>v\<close>.
\<close>

definition rec_sourced :: "u64 \<Rightarrow> (ntp_host_ts \<Rightarrow> u64 \<Rightarrow> u64 \<Rightarrow> bool) \<Rightarrow> u64 \<Rightarrow> ntp_host_rec \<Rightarrow> bool" where
  "rec_sourced lim P rq r \<longleftrightarrow>
    (\<forall>t. t \<noteq> NTP_H_START \<longrightarrow> h_ts r t \<le> lim) \<and>
    (\<forall>t \<in> set from_clock. h_ts r t = 0 \<or> P t rq (h_ts r t)) \<and>
    (\<forall>(a, b) \<in> set ordered. h_ts r b = 0 \<or> h_ts r a \<le> h_ts r b) \<and>
    (h_ts r NTP_H_R2T_PROC = 0 \<longrightarrow> h_ts r NTP_H_DATA_START = 0 \<and> h_ts r NTP_H_DATA_SENT = 0) \<and>
    (h_ts r NTP_H_CMD_SENT = 0 \<longrightarrow> h_ts r NTP_H_DATA_SENT = 0)"

definition sourced :: "u64 \<Rightarrow> (ntp_host_ts \<Rightarrow> u64 \<Rightarrow> u64 \<Rightarrow> bool) \<Rightarrow> 'a host_state_scheme \<Rightarrow> bool" where
  "sourced lim P s \<longleftrightarrow>
    (\<forall>slot. he_rq (reqs s slot) \<noteq> 0 \<longrightarrow> rec_sourced lim P (he_rq (reqs s slot)) (he_rec (reqs s slot))) \<and>
    (\<forall>c. p_ts (pend s c) \<le> lim \<and> (p_ts (pend s c) = 0 \<or> P NTP_H_QUEUE_RQ (p_rq (pend s c)) (p_ts (pend s c)))) \<and>
    (\<forall>c. rx_arrival (rx_ctx s c) \<le> lim) \<and>
    (\<forall>r \<in> set (events s). \<exists>rq. rec_sourced (h_ts r NTP_H_BLK_DONE) P rq r)"

lemma rec_sourced_mono:
  "rec_sourced lim P rq r \<Longrightarrow> lim \<le> lim' \<Longrightarrow> (\<And>t rq v. P t rq v \<Longrightarrow> P' t rq v) \<Longrightarrow> rec_sourced lim' P' rq r"
  unfolding rec_sourced_def by (meson order_trans)

lemma sourced_mono:
  assumes "sourced lim P s" and "lim \<le> lim'" and "\<And>t rq v. P t rq v \<Longrightarrow> P' t rq v"
  shows "sourced lim' P' s"
  using assms rec_sourced_mono [of _ P _ _ _ P'] unfolding sourced_def by (meson order_refl order_trans)

text \<open>The changes that the hooks make to a record.\<close>

lemma rec_sourced_clock:
  assumes "rec_sourced lim P rq r" and "P t rq lim" and "t \<in> set from_clock" and "t \<noteq> NTP_H_QUEUE_RQ"
    and "t = NTP_H_R2T_PROC \<or> t = NTP_H_CMD_SENT \<Longrightarrow> h_ts r t = 0"
    and "t = NTP_H_DATA_START \<or> t = NTP_H_DATA_SENT \<Longrightarrow> h_ts r NTP_H_R2T_PROC \<noteq> 0"
    and "t = NTP_H_DATA_SENT \<Longrightarrow> h_ts r NTP_H_CMD_SENT \<noteq> 0"
  shows "rec_sourced lim P rq (set_ts t lim r)"
  using assms unfolding rec_sourced_def set_ts_def
  by (cases t) (simp_all add: from_clock_def ordered_def)

lemma rec_sourced_last_arr:
  "rec_sourced lim P rq r \<Longrightarrow> v \<le> lim \<Longrightarrow> rec_sourced lim P rq (set_ts NTP_H_C2H_LAST_ARR v r)"
  unfolding rec_sourced_def set_ts_def by (simp add: from_clock_def ordered_def)

lemma rec_sourced_pair:
  assumes "rec_sourced lim P rq r" and "P b rq lim" and "v \<le> lim"
    and "(a, b) \<in> {(NTP_H_C2H_ARR, NTP_H_C2H_PROC), (NTP_H_R2T_ARR, NTP_H_R2T_PROC), (NTP_H_RSP_ARR, NTP_H_RSP_PROC)}"
    and "b = NTP_H_R2T_PROC \<Longrightarrow> h_ts r NTP_H_R2T_PROC = 0"
  shows "rec_sourced lim P rq (set_ts b lim (set_ts a v r))"
proof -
  from assms(4) consider "a = NTP_H_C2H_ARR" "b = NTP_H_C2H_PROC" | "a = NTP_H_R2T_ARR" "b = NTP_H_R2T_PROC"
    | "a = NTP_H_RSP_ARR" "b = NTP_H_RSP_PROC" by auto
  then show ?thesis
    using assms(1-3,5) by cases (simp_all add: rec_sourced_def set_ts_def from_clock_def ordered_def)
qed

lemma rec_sourced_flags [simp]:
  "rec_sourced lim P rq (or_flags m r) = rec_sourced lim P rq r"
  "rec_sourced lim P rq (r\<lparr>h_c2h_busy_ns := x, h_c2h_skbs := y\<rparr>) = rec_sourced lim P rq r"
  "rec_sourced lim P rq (r\<lparr>h_hdr := h\<rparr>) = rec_sourced lim P rq r"
  by (simp_all add: rec_sourced_def or_flags_def)

lemma rec_sourced_data_done:
  "rec_sourced lim P rq r \<Longrightarrow> P NTP_H_C2H_DONE rq lim \<Longrightarrow> rec_sourced lim P rq (rec_data_done c lim r)"
  by (auto simp: rec_data_done_def from_clock_def intro!: rec_sourced_clock)

lemma rec_sourced_stamp:
  assumes "rec_sourced lim P rq r" and "P t rq lim" and "t \<in> {NTP_H_DATA_START, NTP_H_NVME_DONE}"
    and "t = NTP_H_DATA_START \<Longrightarrow> h_ts r NTP_H_R2T_PROC \<noteq> 0"
  shows "rec_sourced lim P rq (stamp_ts t lim r)"
proof (cases "h_ts r t = 0")
  case True
  then show ?thesis using rec_sourced_clock [OF assms(1,2)] assms(3,4)
    by (auto simp: stamp_ts_def ntp_stamp_once_def from_clock_def)
next
  case False
  then have "stamp_ts t lim r = r" by (simp add: stamp_ts_def ntp_stamp_once_def set_ts_def)
  then show ?thesis using assms(1) by simp
qed

lemma rec_sourced_blk_done:
  assumes "rec_sourced (now e) P rq r" and "P NTP_H_BLK_DONE rq (now e)"
  shows "rec_sourced (now e) P rq (blk_done_rec ob e r)"
  using rec_sourced_clock [OF assms] by (simp add: blk_done_rec_def Let_def from_clock_def)

lemma rec_sourced_new:
  assumes "ts \<le> lim" and "ts = 0 \<or> P NTP_H_QUEUE_RQ rq ts"
  shows "rec_sourced lim P rq (host_new_rec ob f e rq' idv ts qu qi)"
  using assms by (auto simp: rec_sourced_def host_new_rec_def Let_def from_clock_def ordered_def)

subsection \<open>Every hook keeps it\<close>

lemma sourced_rec_upd:
  assumes "sourced lim P s"
    and "he_rq (reqs s slot) \<noteq> 0 \<Longrightarrow> rec_sourced lim P (he_rq (reqs s slot)) (he_rec (reqs s slot)) \<Longrightarrow>
      rec_sourced lim P (he_rq (reqs s slot)) (g (he_rec (reqs s slot)))"
  shows "sourced lim P (rec_upd slot g s)"
  using assms by (simp add: sourced_def rec_upd_def)

lemma rec_upd_comp: "rec_upd slot g (rec_upd slot h s) = rec_upd slot (g \<circ> h) s"
  by (simp add: rec_upd_def)

lemma sourced_frame [simp]:
  "sourced lim P (s\<lparr>counted := x\<rparr>) = sourced lim P s" "sourced lim P (s\<lparr>qstats := y\<rparr>) = sourced lim P s"
  "sourced lim P (s\<lparr>ntp_armed := b\<rparr>) = sourced lim P s" "sourced lim P (ntp_count e c v s) = sourced lim P s"
  by (simp_all add: sourced_def)

lemma sourced_tcp_ctx [simp]:
  "sourced lim P (s\<lparr>send_ctx := x\<rparr>) = sourced lim P s" "sourced lim P (s\<lparr>tsend_ctx := y\<rparr>) = sourced lim P s"
  by (simp_all add: sourced_def)

lemma sourced_uncount [simp]: "sourced lim P (uncount rq bits forget s) = sourced lim P s"
  by (simp add: uncount_def Let_def split: option.split)

lemma sourced_rx:
  "sourced lim P s \<Longrightarrow> rx_arrival x \<le> lim \<Longrightarrow> sourced lim P (s\<lparr>rx_ctx := (rx_ctx s)(c := x)\<rparr>)"
  by (simp add: sourced_def)

lemma sourced_pend:
  "sourced lim P s \<Longrightarrow> p_ts p \<le> lim \<Longrightarrow> p_ts p = 0 \<or> P NTP_H_QUEUE_RQ (p_rq p) (p_ts p) \<Longrightarrow>
    sourced lim P (s\<lparr>pend := (pend s)(c := p)\<rparr>)"
  by (simp add: sourced_def)

lemma sourced_arrival: "sourced lim P s \<Longrightarrow> ntp_ctx_get e rx_tid (rx_ctx s) = Some c \<Longrightarrow> rx_arrival c \<le> lim"
  by (auto simp: sourced_def ntp_ctx_get_def split: if_splits)

lemma sourced_get_qstat: "sourced lim P (snd (get_qstat q s)) = sourced lim P s"
  by (simp add: get_qstat_def Let_def split: option.split)

lemma sourced_host_queue_rq:
  assumes "sourced (now e) P s" and "P NTP_H_QUEUE_RQ (bd_rq (km e) bd) (now e)"
  shows "sourced (now e) P (host_queue_rq f e hctx bd s)"
  using assms sourced_get_qstat [of "now e" P "hctx_driver_data (km e) hctx" s]
  unfolding host_queue_rq_def Let_def
  by (cases "get_qstat (hctx_driver_data (km e) hctx) s")
    (auto split: option.split intro!: sourced_pend)

lemma sourced_host_data_done:
  assumes "sourced lim P s" and "P NTP_H_C2H_DONE (he_rq (reqs s slot)) lim"
  shows "sourced lim P (host_data_done e slot lim s)"
proof -
  have "sourced lim P (rec_upd slot (rec_data_done c lim) s)" for c
    using assms by (intro sourced_rec_upd rec_sourced_data_done)
  then show ?thesis unfolding host_data_done_def Let_def
    using assms(1) by (intro sourced_rx) (simp_all add: sourced_def)
qed

lemma host_rec_rq: "host_rec s rq = Some slot \<Longrightarrow> he_rq (reqs s slot) = rq"
  by (auto simp: host_rec_def host_entry_Some)

lemma sourced_on_send_done:
  assumes "sourced (now e) P s" and "\<And>t. t \<in> set (sent_ts ret) \<Longrightarrow> P t (rq_from_pdu e req) (now e)"
  shows "sourced (now e) P (on_send_done f e req ret cmd_pdu s)"
proof -
  define s1 where "s1 = (if cmd_pdu \<and> f_track_queues f then uncount (rq_from_pdu e req) CNT_UNSENT False s else s)"
  have s1: "sourced (now e) P s1" using assms(1) by (simp add: s1_def)
  have upd: "sourced (now e) P (rec_upd slot (set_ts t (now e)) s1)"
    if "host_rec s1 (rq_from_pdu e req) = Some slot" "ret = 1" "t \<in> {NTP_H_CMD_SENT, NTP_H_DATA_SENT}"
      "t = NTP_H_CMD_SENT \<Longrightarrow> h_ts (he_rec (reqs s1 slot)) NTP_H_CMD_SENT = 0"
      "t = NTP_H_DATA_SENT \<Longrightarrow> h_ts (he_rec (reqs s1 slot)) NTP_H_CMD_SENT \<noteq> 0 \<and>
         h_ts (he_rec (reqs s1 slot)) NTP_H_R2T_PROC \<noteq> 0" for slot t
    using s1 that assms(2) [of t] host_rec_rq [OF that(1)]
    by (intro sourced_rec_upd rec_sourced_clock) (auto simp: from_clock_def sent_ts_def)
  show ?thesis unfolding on_send_done_def Let_def s1_def [symmetric]
    using assms(1) s1 by (auto split: option.split intro!: upd)
qed

lemma sourced_on_send_h2c:
  assumes "sourced (now e) P s" and "P NTP_H_DATA_START (rq_from_pdu e req) (now e)"
  shows "sourced (now e) P (on_send_h2c e req s)"
  using assms unfolding on_send_h2c_def
  by (auto split: option.split dest!: host_rec_rq intro!: sourced_rec_upd rec_sourced_stamp)

lemma sourced_tsend_found:
  "sourced (now e) P s \<Longrightarrow> P NTP_H_DATA_START (rq_from_pdu e req) (now e) \<Longrightarrow> sourced (now e) P (tsend_found e c req s)"
  unfolding tsend_found_def by (rule sourced_on_send_h2c) simp_all

lemma sourced_sending:
  assumes "sourced (now e) P s" and "\<And>rq. P NTP_H_DATA_START rq (now e)"
  shows "sourced (now e) P (try_send_enter f e queue s)" and "sourced (now e) P (on_sock_send f e sock s)"
  using assms by (auto simp: try_send_enter_def on_sock_send_def Let_def split: option.split intro!: sourced_tsend_found)

lemma sourced_sent:
  assumes "sourced (now e) P s" and "\<And>t rq. t \<in> set (sent_ts ret) \<Longrightarrow> P t rq (now e)"
  shows "sourced (now e) P (send_exit f e ret cmd_pdu s)" and "sourced (now e) P (try_send_exit f e ret s)"
  using assms by (auto simp: send_exit_def try_send_exit_def Let_def split: option.split intro!: sourced_on_send_done)

lemma sourced_on_recv_skb: "sourced (now e) P s \<Longrightarrow> sourced (now e) P (on_recv_skb f e skb s)"
  by (simp add: on_recv_skb_def host_rx_enter_def sourced_rx ntp_skb_arrival_le)

lemma sourced_rx_upd:
  "sourced lim P s \<Longrightarrow> rx_arrival (g (rx_ctx s c)) = rx_arrival (rx_ctx s c) \<Longrightarrow>
   sourced lim P (s\<lparr>rx_ctx := (rx_ctx s)(c := g (rx_ctx s c))\<rparr>)"
  by (simp add: sourced_def)

lemma sourced_on_recv_skb_exit:
  "sourced (now e) P s \<Longrightarrow> (\<And>rq. P NTP_H_C2H_DONE rq (now e)) \<Longrightarrow> sourced (now e) P (on_recv_skb_exit e s)"
  unfolding on_recv_skb_exit_def Let_def
  by (auto split: option.split intro!: sourced_rx_upd sourced_host_data_done)

lemma sourced_pair:
  assumes "sourced (now e) P s" and "v \<le> now e" and "P b (he_rq (reqs s slot)) (now e)"
    and "(a, b) \<in> {(NTP_H_C2H_ARR, NTP_H_C2H_PROC), (NTP_H_R2T_ARR, NTP_H_R2T_PROC), (NTP_H_RSP_ARR, NTP_H_RSP_PROC)}"
    and "b = NTP_H_R2T_PROC \<Longrightarrow> h_ts (he_rec (reqs s slot)) NTP_H_R2T_PROC = 0"
  shows "sourced (now e) P (rec_upd slot (set_ts b (now e)) (rec_upd slot (set_ts a v) s))"
  unfolding rec_upd_comp using assms by (intro sourced_rec_upd) (simp_all add: rec_sourced_pair)

lemma sourced_on_copy:
  assumes "sourced (now e) P s" and "\<And>t rq. t \<in> {NTP_H_C2H_PROC, NTP_H_C2H_DONE} \<Longrightarrow> P t rq (now e)"
  shows "sourced (now e) P (on_copy f e skb s)"
proof -
  have begins: "sourced (now e) P (copy_begin e c slot s')"
    if "sourced (now e) P s'" "rx_arrival c \<le> now e" for c slot and s' :: "'a host_state_scheme"
  proof -
    define s1 where "s1 = (if rx_data_rq c \<noteq> 0 then case host_entry s' (rx_data_rq c) of
        None \<Rightarrow> s' | Some prev \<Rightarrow> host_data_done e prev (now e) s' else s')"
    have s1: "sourced (now e) P s1"
      using that(1) assms(2) by (simp add: s1_def sourced_host_data_done split: option.split)
    show ?thesis unfolding copy_begin_def Let_def s1_def [symmetric]
      by (rule sourced_rx_upd) (auto simp: s1 intro!: sourced_pair that(2) assms(2))
  qed
  have last: "sourced (now e) P (rec_upd slot (set_ts NTP_H_C2H_LAST_ARR v) s)" if "v \<le> now e" for slot v
    using that assms(1) by (intro sourced_rec_upd rec_sourced_last_arr)
  show ?thesis using assms(1) sourced_arrival [OF assms(1), of e]
    by (auto simp: on_copy_def Let_def split: option.split intro!: begins last)
qed

lemma sourced_on_r2t:
  assumes "sourced (now e) P s" and "P NTP_H_R2T_PROC (rq_from_pdu e req) (now e)"
  shows "sourced (now e) P (on_r2t e req s)"
proof -
  have flags: "sourced (now e) P (rec_upd slot (or_flags m) s)" for slot m
    using assms(1) by (intro sourced_rec_upd) simp_all
  have keeps: "he_rq (reqs (rec_upd slot (or_flags m) s) slot) = he_rq (reqs s slot)"
    "h_ts (he_rec (reqs (rec_upd slot (or_flags m) s) slot)) = h_ts (he_rec (reqs s slot))" for slot m
    by (simp_all add: rec_upd_def or_flags_def)
  show ?thesis using assms sourced_arrival [OF assms(1), of e]
    by (auto simp: on_r2t_def flags keeps split: option.split dest!: host_rec_rq intro!: sourced_pair)
qed

lemma sourced_complete_slot:
  assumes "sourced (now e) P s" and "rx_arrival c \<le> now e" and "he_rq (reqs s slot) = rq"
    and "\<And>t. t \<in> {NTP_H_RSP_PROC, NTP_H_C2H_DONE} \<Longrightarrow> P t rq (now e)"
  shows "sourced (now e) P (complete_slot e rq slot c s)"
proof -
  define s1 where "s1 = rec_upd slot (set_ts NTP_H_RSP_PROC (now e))
      (if rx_arrival c \<noteq> 0 then rec_upd slot (set_ts NTP_H_RSP_ARR (rx_arrival c)) s else s)"
  have "sourced (now e) P (rec_upd slot (set_ts NTP_H_RSP_PROC (now e)) s)"
    using assms by (intro sourced_rec_upd rec_sourced_clock) (simp_all add: from_clock_def)
  then have s1: "sourced (now e) P s1" using assms by (auto simp: s1_def intro!: sourced_pair)
  have "he_rq (reqs s1 slot) = rq" using assms(3) by (simp add: s1_def rec_upd_def)
  then show ?thesis unfolding complete_slot_def Let_def s1_def [symmetric]
    using s1 assms(4) by (simp add: sourced_host_data_done)
qed

lemma sourced_on_complete:
  assumes "sourced (now e) P s" and "\<And>t. t \<in> {NTP_H_RSP_PROC, NTP_H_C2H_DONE} \<Longrightarrow> P t rq (now e)"
  shows "sourced (now e) P (on_complete f e rq s)"
proof -
  obtain slot s' where hc: "host_complete f e rq s = (slot, s')" by fastforce
  have "sourced (now e) P (snd (host_complete f e rq s))"
    using assms sourced_arrival [OF assms(1), of e]
    by (auto simp: host_complete_def Let_def split: option.split dest: host_rec_rq intro!: sourced_complete_slot)
  then have s': "sourced (now e) P s'" by (simp add: hc)
  then have "sourced (now e) P (rec_upd x (or_flags m) s')" for x m by (intro sourced_rec_upd) simp_all
  with s' show ?thesis unfolding on_complete_def hc by (cases slot) (simp_all split: option.split)
qed

lemma sourced_nvme_done:
  "sourced (now e) P s \<Longrightarrow> P NTP_H_NVME_DONE rq (now e) \<Longrightarrow> sourced (now e) P (ntp_h_nvme_done e rq s)"
  unfolding ntp_h_nvme_done_def
  by (auto split: option.split dest!: host_rec_rq intro!: sourced_rec_upd rec_sourced_stamp)

lemma sourced_setup_queue:
  assumes "sourced (now e) P s"
  shows "sourced (now e) P (snd (setup_queue ob f e rq s))"
    and "fst (setup_queue ob f e rq s) = Some (queue, ts, qu, qi) \<Longrightarrow>
      ts \<le> now e \<and> (ts = 0 \<or> P NTP_H_QUEUE_RQ rq ts)"
  using assms
  by (auto simp: setup_queue_def Let_def sourced_def ntp_ctx_get_def split: option.splits if_splits)

lemma sourced_setup_cmd:
  assumes "sourced (now e) P s" and "P NTP_H_QUEUE_RQ rq (now e)"
  shows "sourced (now e) P (ntp_h_setup_cmd ob f e rq cmd s)"
proof -
  obtain q s' where sq: "setup_queue ob f e rq s = (q, s')" by fastforce
  have s': "sourced (now e) P s'" using sourced_setup_queue(1) [OF assms(1), of ob f rq] sq by simp
  have ts: "ts \<le> now e" "ts \<noteq> 0 \<longrightarrow> P NTP_H_QUEUE_RQ rq ts" if "q = Some (queue, ts, qu, qi)" for queue ts qu qi
    using sourced_setup_queue(2) [OF assms(1), of ob f rq] sq that by auto
  have take: "sourced (now e) P (host_take_slot e rq queue r s'')"
    if "sourced (now e) P s''" "rec_sourced (now e) P rq r" for queue r and s'' :: "'a host_state_scheme"
    using that by (simp add: sourced_def host_take_slot_def Let_def)
  show ?thesis
    by (cases q) (auto simp: ntp_h_setup_cmd_def sq s' ts(1) assms(2) Let_def split: option.split
        dest: ts(2) intro!: take rec_sourced_new)
qed

lemma sourced_blk_done:
  assumes "sourced (now e) P s" and "P NTP_H_BLK_DONE rq (now e)" and "rq \<noteq> 0"
  shows "sourced (now e) P (ntp_h_blk_done ob e rq s)"
proof (cases "host_entry s rq")
  case None
  then show ?thesis using assms(1) by (simp add: ntp_h_blk_done_def)
next
  case (Some slot)
  then have rq: "he_rq (reqs s slot) = rq" by (auto simp: host_entry_Some)
  with assms have r: "rec_sourced (now e) P rq (blk_done_rec ob e (he_rec (reqs s slot)))"
    by (intro rec_sourced_blk_done) (auto simp: sourced_def)
  then have "\<exists>rq. rec_sourced (h_ts r' NTP_H_BLK_DONE) P rq r'" if "r' = blk_done_rec ob e (he_rec (reqs s slot))" for r'
    using that by (auto simp: blk_done_rec_times)
  with assms r rq Some show ?thesis
    by (auto simp: ntp_h_blk_done_def Let_def rec_upd_def sourced_def)
qed

lemma sourced_step:
  assumes "sourced (now (call_env (tcp_call ev))) P s" and "call_ok (tcp_call ev)"
    and "\<And>t rq. t \<in> set (tcp_stamps ev rq) \<Longrightarrow> P t rq (now (call_env (tcp_call ev)))"
  shows "sourced (now (call_env (tcp_call ev))) P (tcp_step f ev s)"
  using assms
  by (cases ev)
    (auto simp: send_enter_def intro!: sourced_host_queue_rq sourced_setup_cmd sourced_on_send_done sourced_sent
      sourced_on_send_h2c sourced_sending sourced_on_recv_skb sourced_on_recv_skb_exit sourced_on_copy sourced_on_r2t
      sourced_on_complete sourced_nvme_done sourced_blk_done)

subsection \<open>Over any run\<close>

text \<open>Event \<open>t\<close> of request \<open>rq\<close> was given the time \<open>v\<close> by a hook of the run.\<close>

definition given :: "tcp_hook list \<Rightarrow> ntp_host_ts \<Rightarrow> u64 \<Rightarrow> u64 \<Rightarrow> bool" where
  "given evs t rq v \<longleftrightarrow> (\<exists>ev \<in> set evs. t \<in> set (tcp_stamps ev rq) \<and> v = now (call_env (tcp_call ev)))"

lemma sourced_fresh: "host_fresh s \<Longrightarrow> sourced 0 P s"
  by (simp add: host_fresh_def sourced_def zero_host_entry_def)

lemma sourced_run:
  assumes "sorted (map (now \<circ> call_env \<circ> tcp_call) evs)" and "tcp_ok evs"
  shows "sourced (last (0 # map (now \<circ> call_env \<circ> tcp_call) evs)) (given evs) (tcp_run f evs)"
  using assms
proof (induction evs rule: rev_induct)
  case Nil
  show ?case by (simp add: tcp_run_def sourced_fresh tcp_init_fresh)
next
  case (snoc ev evs)
  let ?lim = "last (0 # map (now \<circ> call_env \<circ> tcp_call) evs)"
  have lim: "?lim \<le> now (call_env (tcp_call ev))"
    using snoc.prems(1) by (cases evs rule: rev_cases) (simp_all add: sorted_append)
  have "sourced ?lim (given evs) (tcp_run f evs)"
    using snoc.prems by (intro snoc.IH) (simp_all add: sorted_append)
  then have "sourced (now (call_env (tcp_call ev))) (given (evs @ [ev])) (tcp_run f evs)"
    using lim by (rule sourced_mono) (auto simp: given_def)
  then have "sourced (now (call_env (tcp_call ev))) (given (evs @ [ev])) (tcp_step f ev (tcp_run f evs))"
    by (rule sourced_step) (use snoc.prems(2) in \<open>auto simp: given_def\<close>)
  then show ?case by (simp add: tcp_run_def)
qed

text \<open>\<^bold>\<open>C13.\<close> With a clock that does not go back, the times of every emitted record are right. There is one
  request such that each time taken from the clock is the time at which a hook of that event ran (for
  that request, where the hook names it): the command sent, the R2T and the data processed, the data
  sent, the response processed, the two completions. An arrival (of first data, R2T, response) is no
  later than its processing, the R2T's processing no later than the start and the end of sending the
  data, the command sent no later than its data; none of the hooks' times is before the request was
  queued, and no time is after the block layer's completion. (The start is the block layer's own
  reading.)\<close>

theorem tcp_host_times:
  assumes "list_all (call_ok \<circ> tcp_call) evs" and "sorted (map (now \<circ> call_env \<circ> tcp_call) evs)"
    and "r \<in> set (events (tcp_run f evs))"
  shows "(\<exists>rq. \<forall>t \<in> set from_clock. h_ts r t = 0 \<or>
       (\<exists>ev \<in> set evs. t \<in> set (tcp_stamps ev rq) \<and> h_ts r t = now (call_env (tcp_call ev)))) \<and>
    (\<forall>(a, b) \<in> set ordered. h_ts r b = 0 \<or> h_ts r a \<le> h_ts r b) \<and>
    (\<forall>t \<in> set from_clock. h_ts r t = 0 \<or> h_ts r NTP_H_QUEUE_RQ \<le> h_ts r t) \<and>
    (\<forall>t. t = NTP_H_START \<or> h_ts r t \<le> h_ts r NTP_H_BLK_DONE)"
proof -
  from sourced_run [OF assms(2,1), of f] assms(3)
  obtain rq where r: "rec_sourced (h_ts r NTP_H_BLK_DONE) (given evs) rq r"
    unfolding sourced_def by blast
  have "times_le (last (0 # map (now \<circ> call_env \<circ> tcp_call) evs)) (tcp_run f evs)"
    unfolding tcp_run_def using assms(2)
    by (intro tcp.run_times_le) (simp_all add: times_le_fresh tcp_init_fresh)
  then have "\<forall>t \<in> set clocked. h_ts r t \<noteq> 0 \<longrightarrow> h_ts r NTP_H_QUEUE_RQ \<le> h_ts r t"
    using assms(3) by (simp add: times_le_def rec_times_def)
  then have "\<forall>t \<in> set from_clock. h_ts r t = 0 \<or> h_ts r NTP_H_QUEUE_RQ \<le> h_ts r t"
    by (auto simp: clocked_def from_clock_def)
  with r show ?thesis unfolding rec_sourced_def given_def by blast
qed

theorem tcp_host_times_witness:
  "\<exists>r. events (tcp_run default_filter ex_full) = [r] \<and> h_ts r NTP_H_C2H_ARR \<le> h_ts r NTP_H_C2H_PROC \<and>
     h_ts r NTP_H_C2H_PROC = 110"
proof -
  obtain r where r: "events (tcp_run default_filter ex_full) = [r]" "h_ts r NTP_H_C2H_PROC = 110"
    using ex_full_events by auto
  have "list_all (call_ok \<circ> tcp_call) ex_full" by (simp add: ex_run_def)
  moreover have "sorted (map (now \<circ> call_env \<circ> tcp_call) ex_full)" by (simp add: ex_run_def ex_env_simps)
  ultimately show ?thesis
    using tcp_host_times [of ex_full r default_filter] r by (simp add: ordered_def)
qed

end
