(* ===== verification/Bpf_Rdma_Host.thy ===== *)
theory Bpf_Rdma_Host
  imports Bpf_Host_Queues
begin

text \<open>
  The NVMe/RDMA host object (\<^verbatim>\<open>src/bpf/nvme_rdma_host.bpf.c\<close>). No test tells an RDMA request
  apart, so the \<^verbatim>\<open>->queue_rq()\<close> hook is always there and its context decides.
\<close>

subsection \<open>State\<close>

record post_ctx =
  pc_tid :: u64
  pc_qe :: u64

record rdma_host_state = host_state +
  post_ctx :: "u32 \<Rightarrow> post_ctx"

definition host_queue_of :: "env \<Rightarrow> u64 \<Rightarrow> u64" where
  "host_queue_of e rq = 0"

definition rdma_host :: host_obj where
  "rdma_host = \<lparr>ho_transport = NTP_TR_RDMA, ho_hooks_queue_rq = True, ho_queue_of = host_queue_of\<rparr>"

text \<open>The request of a request's send queue element.\<close>

definition rq_of_sqe :: "env \<Rightarrow> u64 \<Rightarrow> u64" where
  "rq_of_sqe e qe = rq_from_pdu e (qe - off_rdma_sqe (km e))"

subsection \<open>Submission\<close>

definition on_posted ::
  "ntp_filter \<Rightarrow> env \<Rightarrow> u64 \<Rightarrow> s32 \<Rightarrow> 'a host_state_scheme \<Rightarrow> 'a host_state_scheme" where
  "on_posted f e qe ret s =
    (if ret \<noteq> 0 \<or> ntp_idle f s then s
     else
       let rq = rq_of_sqe e qe;
           s = (if f_track_queues f then uncount rq CNT_UNSENT False s else s)
       in case host_rec s rq of
            None \<Rightarrow> s
          | Some slot \<Rightarrow> rec_upd slot (stamp_ts NTP_H_CMD_SENT (now e)) s)"

definition ntp_hr_post_kp :: "env \<Rightarrow> u64 \<Rightarrow> 'a rdma_host_state_scheme \<Rightarrow> 'a rdma_host_state_scheme" where
  "ntp_hr_post_kp e qe s = s\<lparr>post_ctx := (post_ctx s)(cpu e := \<lparr>pc_tid = tid e, pc_qe = qe\<rparr>)\<rparr>"

definition ntp_hr_post_kr ::
  "ntp_filter \<Rightarrow> env \<Rightarrow> s32 \<Rightarrow> 'a rdma_host_state_scheme \<Rightarrow> 'a rdma_host_state_scheme" where
  "ntp_hr_post_kr f e ret s =
    (case ntp_ctx_get e pc_tid (post_ctx s) of
       None \<Rightarrow> s
     | Some c \<Rightarrow> on_posted f e (pc_qe c) ret (s\<lparr>post_ctx := (post_ctx s)(cpu e := c\<lparr>pc_tid := 0\<rparr>)\<rparr>))"

subsection \<open>Completions\<close>

definition on_send_done ::
  "ntp_filter \<Rightarrow> env \<Rightarrow> u64 \<Rightarrow> 'a host_state_scheme \<Rightarrow> 'a host_state_scheme" where
  "on_send_done f e wc s =
    (if ntp_idle f s then s
     else
       let cqe = wc_wr_cqe (km e) wc;
           s = (case host_rec s (rq_of_sqe e cqe) of
                  None \<Rightarrow> s
                | Some slot \<Rightarrow> rec_upd slot (stamp_ts NTP_H_SEND_DONE (now e)) s)
       in host_rx_enter e (wc_qp_context (km e) wc) 0 0 0 s)"

definition on_recv_done ::
  "ntp_filter \<Rightarrow> env \<Rightarrow> u64 \<Rightarrow> 'a host_state_scheme \<Rightarrow> 'a host_state_scheme" where
  "on_recv_done f e wc s =
    (if ntp_idle f s then s
     else
       let queue = wc_qp_context (km e) wc;
           data = qe_data (km e) (wc_wr_cqe (km e) wc);
           s = (case cqe_cid_at (km e) data of
                  None \<Rightarrow> s
                | Some cid \<Rightarrow>
                    (case host_rec_by_cid s queue cid of
                       None \<Rightarrow> s
                     | Some slot \<Rightarrow> rec_upd slot (stamp_ts NTP_H_RSP_ARR (now e)) s))
       in host_rx_enter e queue 0 0 0 s)"

definition on_inv_done ::
  "ntp_filter \<Rightarrow> env \<Rightarrow> u64 \<Rightarrow> 'a host_state_scheme \<Rightarrow> 'a host_state_scheme" where
  "on_inv_done f e wc s =
    (if \<not> ntp_idle f s then host_rx_enter e (wc_qp_context (km e) wc) 0 0 0 s else s)"

subsection \<open>Programs\<close>

datatype rdma_hook =
    User_arm env
  | User_disarm env
  | Ntp_hr_queue_rq env u64 u64
  | Ntp_h_setup_cmd env u64 u64
  | Ntp_hr_post_fx env u64 s32 | Ntp_hr_post_kp env u64 | Ntp_hr_post_kr env s32
  | Ntp_hr_send_done env u64 | Ntp_hr_send_done_exit env
  | Ntp_hr_recv_done env u64 | Ntp_hr_recv_done_exit env
  | Ntp_hr_inv_done env u64 | Ntp_hr_inv_done_exit env
  | Ntp_hr_complete env u64
  | Ntp_h_nvme_done env u64
  | Ntp_h_blk_done env u64

primrec rdma_step ::
  "ntp_filter \<Rightarrow> rdma_hook \<Rightarrow> 'a rdma_host_state_scheme \<Rightarrow> 'a rdma_host_state_scheme" where
  "rdma_step f (User_arm e) s = s\<lparr>ntp_armed := True\<rparr>"
| "rdma_step f (User_disarm e) s = s\<lparr>ntp_armed := False\<rparr>"
| "rdma_step f (Ntp_hr_queue_rq e hctx bd) s = host_queue_rq f e hctx bd s"
| "rdma_step f (Ntp_h_setup_cmd e rq cmd) s = ntp_h_setup_cmd rdma_host f e rq cmd s"
| "rdma_step f (Ntp_hr_post_fx e qe ret) s = on_posted f e qe ret s"
| "rdma_step f (Ntp_hr_post_kp e qe) s = ntp_hr_post_kp e qe s"
| "rdma_step f (Ntp_hr_post_kr e ret) s = ntp_hr_post_kr f e ret s"
| "rdma_step f (Ntp_hr_send_done e wc) s = on_send_done f e wc s"
| "rdma_step f (Ntp_hr_send_done_exit e) s = host_rx_exit e s"
| "rdma_step f (Ntp_hr_recv_done e wc) s = on_recv_done f e wc s"
| "rdma_step f (Ntp_hr_recv_done_exit e) s = host_rx_exit e s"
| "rdma_step f (Ntp_hr_inv_done e wc) s = on_inv_done f e wc s"
| "rdma_step f (Ntp_hr_inv_done_exit e) s = host_rx_exit e s"
| "rdma_step f (Ntp_hr_complete e rq) s = snd (host_complete f e rq s)"
| "rdma_step f (Ntp_h_nvme_done e rq) s = ntp_h_nvme_done e rq s"
| "rdma_step f (Ntp_h_blk_done e rq) s = ntp_h_blk_done rdma_host e rq s"

primrec rdma_call :: "rdma_hook \<Rightarrow> host_call" where
  "rdma_call (User_arm e) = Other_hook e"
| "rdma_call (User_disarm e) = Other_hook e"
| "rdma_call (Ntp_hr_queue_rq e hctx bd) = Other_hook e"
| "rdma_call (Ntp_h_setup_cmd e rq cmd) = Setup_cmd e rq cmd"
| "rdma_call (Ntp_hr_post_fx e qe ret) = Other_hook e"
| "rdma_call (Ntp_hr_post_kp e qe) = Other_hook e"
| "rdma_call (Ntp_hr_post_kr e ret) = Other_hook e"
| "rdma_call (Ntp_hr_send_done e wc) = Other_hook e"
| "rdma_call (Ntp_hr_send_done_exit e) = Other_hook e"
| "rdma_call (Ntp_hr_recv_done e wc) = Other_hook e"
| "rdma_call (Ntp_hr_recv_done_exit e) = Other_hook e"
| "rdma_call (Ntp_hr_inv_done e wc) = Other_hook e"
| "rdma_call (Ntp_hr_inv_done_exit e) = Other_hook e"
| "rdma_call (Ntp_hr_complete e rq) = Other_hook e"
| "rdma_call (Ntp_h_nvme_done e rq) = Other_hook e"
| "rdma_call (Ntp_h_blk_done e rq) = Blk_done e rq"

definition rdma_init :: rdma_host_state where
  "rdma_init = \<lparr>ntp_armed = False, ntp_inflight = 0, counters = (\<lambda>_. 0),
     reqs = (\<lambda>_. zero_host_entry), cid_idx = (\<lambda>_. \<lparr>cs_queue = 0, cs_rq = 0, cs_cid = 0\<rparr>),
     qstats = [], counted = [],
     pend = (\<lambda>_. \<lparr>p_tid = 0, p_rq = 0, p_queue = 0, p_ts = 0, p_q_unsent = 0, p_q_inflight = 0\<rparr>),
     rx_ctx = (\<lambda>_. \<lparr>rx_tid = 0, rx_queue = 0, rx_skb = 0, rx_arrival = 0, rx_enter = 0,
                    rx_data_rq = 0, rx_busy_from = 0\<rparr>),
     events = [],
     post_ctx = (\<lambda>_. \<lparr>pc_tid = 0, pc_qe = 0\<rparr>)\<rparr>"

lemma rdma_init_fresh: "host_fresh rdma_init"
  by (simp add: rdma_init_def host_fresh_def)

subsection \<open>Every hook but sampling and the final one only stamps\<close>

lemma stamped_post_ctx [simp]:
  "stamped s' (s\<lparr>post_ctx := x\<rparr>) = stamped s' s" "stamped (s\<lparr>post_ctx := x\<rparr>) s' = stamped s s'"
  by (simp_all add: stamped_def)

lemma times_le_post_ctx [simp]: "times_le lim (s\<lparr>post_ctx := x\<rparr>) = times_le lim s"
  by (simp add: times_le_def)

lemma queue_inv_post_ctx [simp]: "queue_inv (s\<lparr>post_ctx := x\<rparr>) = queue_inv s"
  by (rule queue_inv_frame) simp_all

lemma stamped_stamp_ts: "t \<in> set first_only \<Longrightarrow> stamped s (rec_upd slot (stamp_ts t v) s)"
  by (intro stamped_rec_upd rec_ext_stamp_ts)

lemma stamped_rsp_arr: "stamped s (rec_upd slot (stamp_ts NTP_H_RSP_ARR v) s)"
  unfolding stamp_ts_def by (intro stamped_rec_upd rec_ext_set_ts) (simp_all add: first_only_def)

lemma stamped_on_posted: "stamped s (on_posted f e qe ret s)"
  by (auto simp: on_posted_def Let_def stamped_uncount stamped_stamp_ts first_only_def split: option.split
      intro: stamped_trans [OF stamped_uncount stamped_stamp_ts])

lemma stamped_post_kr: "stamped s (ntp_hr_post_kr f e ret s)"
  using stamped_on_posted [of "s\<lparr>post_ctx := x\<rparr>" for x]
  by (simp add: ntp_hr_post_kr_def split: option.split)

lemma stamped_rdma_send_done: "stamped s (on_send_done f e wc s)"
  unfolding on_send_done_def Let_def
  by (rule stamped_if [OF stamped_refl stamped_trans [OF _ stamped_host_rx_enter]])
    (simp add: stamped_stamp_ts first_only_def split: option.split)

lemma stamped_on_recv_done: "stamped s (on_recv_done f e wc s)"
  unfolding on_recv_done_def Let_def
  by (rule stamped_if [OF stamped_refl stamped_trans [OF _ stamped_host_rx_enter]])
    (simp add: stamped_rsp_arr split: option.split)

lemma stamped_on_inv_done: "stamped s (on_inv_done f e wc s)"
  by (simp add: on_inv_done_def stamped_host_rx_enter)

interpretation rdma: host_object rdma_host f "rdma_step f" rdma_call for f
proof
  show "rdma_step f ev s = ntp_h_setup_cmd rdma_host f e rq cmd s" if "rdma_call ev = Setup_cmd e rq cmd"
    for ev e rq cmd and s :: "'a rdma_host_state_scheme"
    using that by (cases ev) simp_all
  show "rdma_step f ev s = ntp_h_blk_done rdma_host e rq s" if "rdma_call ev = Blk_done e rq"
    for ev e rq and s :: "'a rdma_host_state_scheme"
    using that by (cases ev) simp_all
  show "stamped s (rdma_step f ev s)" if "rdma_call ev = Other_hook e"
    for ev e and s :: "'a rdma_host_state_scheme"
    using that by (cases ev)
      (simp_all add: stamped_host_queue_rq stamped_on_posted ntp_hr_post_kp_def stamped_post_kr
        stamped_rdma_send_done stamped_on_recv_done stamped_on_inv_done stamped_host_rx_exit
        stamped_host_complete stamped_nvme_done, simp_all add: stamped_def)
qed

subsection \<open>No hook stamps a time that has not come\<close>

lemma times_le_enter_0 [simp]: "times_le lim s \<Longrightarrow> times_le lim (host_rx_enter e queue skb 0 t s)"
  by (rule times_le_host_rx_enter) simp_all

lemma times_rdma:
  assumes "times_le (now e) s"
  shows "times_le (now e) (on_posted f e qe ret s)" "times_le (now e) (on_send_done f e wc s)"
    "times_le (now e) (on_recv_done f e wc s)" "times_le (now e) (on_inv_done f e wc s)"
  using assms
  by (simp_all add: on_posted_def on_send_done_def on_recv_done_def on_inv_done_def Let_def
      times_le_uncount times_le_stamp split: option.split)

lemma times_post_kr: "times_le (now e) s \<Longrightarrow> times_le (now e) (ntp_hr_post_kr f e ret s)"
  by (simp add: ntp_hr_post_kr_def times_rdma split: option.split)

interpretation rdma: timed_host_object rdma_host f "rdma_step f" rdma_call for f
proof
  show "times_le (now e) (rdma_step f ev s)" if "rdma_call ev = Other_hook e" "times_le (now e) s"
    for ev e and s :: "'a rdma_host_state_scheme"
    using that by (cases ev)
      (simp_all add: times_rdma times_post_kr ntp_hr_post_kp_def times_le_host_queue_rq
        times_le_host_rx_exit times_le_host_complete times_le_nvme_done)
qed

subsection \<open>The queue counts\<close>

lemma queue_inv_on_posted: "queue_inv s \<Longrightarrow> queue_inv (on_posted f e qe ret s)"
  using queue_inv_uncount [of s False CNT_UNSENT]
  by (simp add: on_posted_def Let_def split: option.split)

lemma queue_inv_rdma [simp]:
  "queue_inv (on_send_done f e wc s) = queue_inv s" "queue_inv (on_recv_done f e wc s) = queue_inv s"
  "queue_inv (on_inv_done f e wc s) = queue_inv s"
  by (simp_all add: on_send_done_def on_recv_done_def on_inv_done_def Let_def split: option.split)

interpretation rdma: counting_host_object rdma_host f "rdma_step f" rdma_call for f
proof
  show "queue_inv (rdma_step f ev s)"
    if "rdma_call ev = Other_hook e" "queue_inv s" "length (counted s) < COUNTED_MAX"
    for ev e and s :: "'a rdma_host_state_scheme"
    using that by (cases ev)
      (simp_all add: queue_inv_host_queue_rq queue_inv_on_posted ntp_hr_post_kp_def ntp_hr_post_kr_def
        queue_inv_host_complete split: option.split)
qed

subsection \<open>Properties\<close>

definition rdma_run :: "ntp_filter \<Rightarrow> rdma_hook list \<Rightarrow> rdma_host_state" where
  "rdma_run f evs = fold (rdma_step f) evs rdma_init"

text \<open>One read request at 0x1000, passed to the driver and completed.\<close>

definition exr_km :: kmem where
  "exr_km = zero_km\<lparr>bd_rq := \<lambda>_. 0x1000,
     nvme_cmd_at := \<lambda>_. Some \<lparr>c_opcode = NTP_NVME_CMD_READ, c_command_id = 1, c_nsid = 1,
       c_dptr1 = 0, c_slba = 0, c_length = 7\<rparr>,
     rq_data_len := \<lambda>_. 4096, cqe_cid_at := \<lambda>_. Some 1\<rparr>"

definition exr_env :: "u64 \<Rightarrow> env" where
  "exr_env t = \<lparr>cpu = 0, tid = 7, now = t, rb_ok = True, km = exr_km, lru_victim = 0\<rparr>"

definition exr_run :: "rdma_hook list" where
  "exr_run = [User_arm (exr_env 10), Ntp_hr_queue_rq (exr_env 20) 3 4, Ntp_h_setup_cmd (exr_env 21) 0x1000 1,
     Ntp_hr_recv_done (exr_env 100) 5, Ntp_hr_complete (exr_env 101) 0x1000,
     Ntp_hr_recv_done_exit (exr_env 102), Ntp_h_blk_done (exr_env 110) 0x1000]"

lemma exr_simps:
  "cpu (exr_env t) = 0" "tid (exr_env t) = 7" "now (exr_env t) = t" "rb_ok (exr_env t)" "km (exr_env t) = exr_km"
  "bd_rq exr_km a = 0x1000" "rq_data_len exr_km a = 4096" "cqe_cid_at exr_km a = Some 1"
  "nvme_cmd_at exr_km a = Some \<lparr>c_opcode = NTP_NVME_CMD_READ, c_command_id = 1, c_nsid = 1,
       c_dptr1 = 0, c_slba = 0, c_length = 7\<rparr>"
  "rq_mq_hctx exr_km a = 0" "hctx_driver_data exr_km a = 0" "wc_qp_context exr_km a = 0"
  by (simp_all add: exr_env_def exr_km_def zero_km_def)

lemma exr_slots: "ntp_slot 0x1000 NTP_REC_SLOTS = 0x2c40" "cid_slot_of 0 1 = 0x39b1"
  by code_simp+

text \<open>
  \<^bold>\<open>C22.\<close> Over any sequence of hooks of the NVMe/RDMA host object, with a clock that does not go back, the records in flight
  are the slots taken, the counters account for every sampled request, and every record it emits is an RDMA host record of a
  read or write that passes the whole filter, in which no time, but maybe the block layer's own start, is after the
  request's completion.
\<close>

theorem rdma_host_accounts:
  assumes "list_all (call_ok \<circ> rdma_call) evs" and "sorted (map (now \<circ> call_env \<circ> rdma_call) evs)"
  shows "unat (ntp_inflight (rdma_run f evs)) = card (occupied he_rq (reqs (rdma_run f evs))) \<and>
    counter_total (rdma_run f evs) NTP_CNT_HOST_SAMPLED =
      counter_total (rdma_run f evs) NTP_CNT_HOST_EMITTED + counter_total (rdma_run f evs) NTP_CNT_RB_DROPS +
      counter_total (rdma_run f evs) NTP_CNT_STALE + ntp_inflight (rdma_run f evs) \<and>
    (\<forall>r \<in> set (events (rdma_run f evs)).
      host_rec_ok rdma_host f r \<and> (\<forall>t. t = NTP_H_START \<or> h_ts r t \<le> h_ts r NTP_H_BLK_DONE))"
proof -
  have "host_inv (rdma_run f evs)" "recs_ok rdma_host f (rdma_run f evs)"
    unfolding rdma_run_def using assms(1)
    by (simp_all add: rdma.run_inv rdma.run_recs_ok host_inv_fresh recs_ok_fresh rdma_init_fresh)
  moreover have "times_le (last (0 # map (now \<circ> call_env \<circ> rdma_call) evs)) (rdma_run f evs)"
    unfolding rdma_run_def using assms(2)
    by (intro rdma.run_times_le) (simp_all add: times_le_fresh rdma_init_fresh)
  ultimately show ?thesis
    by (auto simp: host_inv_def unat_inflight recs_ok_def times_le_def rec_times_def)
qed

theorem rdma_host_accounts_witness:
  "\<exists>r. events (rdma_run default_filter exr_run) = [r] \<and> h_ts r NTP_H_RSP_ARR = 100 \<and>
     host_rec_ok rdma_host default_filter r \<and> h_ts r NTP_H_RSP_PROC \<le> h_ts r NTP_H_BLK_DONE"
proof -
  have "map (\<lambda>r. h_ts r NTP_H_RSP_ARR) (events (rdma_run default_filter exr_run)) = [100]"
    by (simp add: rdma_run_def exr_run_def rdma_init_def exr_simps exr_slots default_filter_def rdma_host_def
        host_queue_rq_def ntp_h_setup_cmd_def setup_queue_def ntp_ctx_get_def ntp_read_cmd_def ntp_is_rw_def
        host_selected_def io_type_matches_def ntp_sampled_def ntp_size_matches_def ctrl_selected_def
        host_take_slot_def host_new_rec_def zero_rec_defs zero_host_entry_def ntp_count_def
        ntp_inflight_add_def ntp_idle_def on_recv_done_def host_rec_by_cid_def host_rec_def host_entry_def
        rec_upd_def set_ts_def stamp_ts_def ntp_stamp_once_def host_rx_enter_def host_complete_def
        complete_slot_def host_rx_exit_def ntp_h_blk_done_def blk_done_rec_def ntp_defs Let_def
        cong: if_weak_cong option.case_cong_weak)
  then obtain r where r: "events (rdma_run default_filter exr_run) = [r]" "h_ts r NTP_H_RSP_ARR = 100" by auto
  have ok: "list_all (call_ok \<circ> rdma_call) exr_run" and mono: "sorted (map (now \<circ> call_env \<circ> rdma_call) exr_run)"
    by (simp_all add: exr_run_def exr_simps)
  from rdma_host_accounts [OF ok mono, of default_filter] r show ?thesis
    using ntp_host_ts.distinct by fastforce
qed

end
