(* ===== verification/Bpf_Target.thy ===== *)
theory Bpf_Target
  imports Bpf_Common
begin

text \<open>
  The target side that every transport shares (\<^verbatim>\<open>src/bpf/target.bpf.h\<close>): the table of command
  records keyed by the address of the command's \<^verbatim>\<open>nvmet_req\<close>, the exact queue counts, the
  context of the receiving thread, and the hooks of nvmet-core, the backends and the block layer.
\<close>

subsection \<open>State\<close>

record tgt_entry_t =
  te_req :: u64
  te_parts :: u32
  te_rec :: ntp_tgt_rec

record tqstat =
  tqs_outstanding :: s32
  tqs_resp_queue :: s32

definition CNT_OUTSTANDING :: u32 where "CNT_OUTSTANDING = 1"
definition CNT_RESP_QUEUED :: u32 where "CNT_RESP_QUEUED = 2"

record tcounted =
  tcn_sq :: u64
  tcn_flags :: u32

record tgt_ctx =
  tx_tid :: u64
  tx_queue :: u64
  tx_sk :: u64
  tx_last_skb :: u64
  tx_arrival :: u64

text \<open>\<open>tevents\<close> is the list of the records handed to the ring buffer, the latest last.\<close>

record tgt_state = ntp_state +
  treqs :: "u32 \<Rightarrow> tgt_entry_t"
  tqstats :: "(u64 \<times> tqstat) list"
  tcounted :: "(u64 \<times> tcounted) list"
  tgt_ctx :: "u32 \<Rightarrow> tgt_ctx"
  tevents :: "ntp_tgt_rec list"

definition TQSTATS_MAX :: nat where "TQSTATS_MAX = 4096"
definition TCOUNTED_MAX :: nat where "TCOUNTED_MAX = 65536"

text \<open>
  What a transport object fixes: its number, the test that a command is its own, and when a
  sampled command arrived. Both may change the transport's part of the state.
\<close>

record 's tgt_obj =
  to_transport :: u8
  to_is_ours :: "env \<Rightarrow> u64 \<Rightarrow> u64 \<Rightarrow> 's \<Rightarrow> bool \<times> 's"
  to_sampled :: "env \<Rightarrow> u64 \<Rightarrow> u64 \<Rightarrow> u64 \<Rightarrow> 's \<Rightarrow> u64 \<times> 's"

subsection \<open>Writing a record\<close>

definition tset_ts :: "ntp_tgt_ts \<Rightarrow> u64 \<Rightarrow> ntp_tgt_rec \<Rightarrow> ntp_tgt_rec" where
  "tset_ts t v r = r\<lparr>t_ts := (t_ts r)(t := v)\<rparr>"

definition tstamp_ts :: "ntp_tgt_ts \<Rightarrow> u64 \<Rightarrow> ntp_tgt_rec \<Rightarrow> ntp_tgt_rec" where
  "tstamp_ts t v r = tset_ts t (ntp_stamp_once (t_ts r t) v) r"

definition tor_flags :: "u16 \<Rightarrow> ntp_tgt_rec \<Rightarrow> ntp_tgt_rec" where
  "tor_flags m r = r\<lparr>t_hdr := (t_hdr r)\<lparr>hdr_flags := hdr_flags (t_hdr r) OR m\<rparr>\<rparr>"

definition trec_upd ::
  "u32 \<Rightarrow> (ntp_tgt_rec \<Rightarrow> ntp_tgt_rec) \<Rightarrow> 'a tgt_state_scheme \<Rightarrow> 'a tgt_state_scheme" where
  "trec_upd slot g s =
    s\<lparr>treqs := (treqs s)(slot := (treqs s slot)\<lparr>te_rec := g (te_rec (treqs s slot))\<rparr>)\<rparr>"

subsection \<open>The receiving thread's context\<close>

definition tgt_ctx_enter ::
  "env \<Rightarrow> u64 \<Rightarrow> u64 \<Rightarrow> u64 \<Rightarrow> 'a tgt_state_scheme \<Rightarrow> 'a tgt_state_scheme" where
  "tgt_ctx_enter e queue sk arrival s =
    s\<lparr>tgt_ctx := (tgt_ctx s)(cpu e :=
        \<lparr>tx_tid = tid e, tx_queue = queue, tx_sk = sk, tx_last_skb = 0, tx_arrival = arrival\<rparr>)\<rparr>"

definition tgt_ctx_exit :: "env \<Rightarrow> 'a tgt_state_scheme \<Rightarrow> 'a tgt_state_scheme" where
  "tgt_ctx_exit e s =
    (case ntp_ctx_get e tx_tid (tgt_ctx s) of
       None \<Rightarrow> s
     | Some c \<Rightarrow> s\<lparr>tgt_ctx := (tgt_ctx s)(cpu e := c\<lparr>tx_tid := 0\<rparr>)\<rparr>)"

definition tgt_arrival :: "ntp_filter \<Rightarrow> env \<Rightarrow> tgt_ctx \<Rightarrow> u64 \<Rightarrow> u64" where
  "tgt_arrival f e c tnow =
    (if tx_last_skb c \<noteq> 0 then ntp_skb_arrival f e (tx_last_skb c) tnow
     else if tx_arrival c \<noteq> 0 then tx_arrival c else tnow)"

subsection \<open>Lookups and queue counts\<close>

definition tgt_entry :: "'a tgt_state_scheme \<Rightarrow> u64 \<Rightarrow> u32 option" where
  "tgt_entry s req =
    (let slot = ntp_slot req NTP_REC_SLOTS
     in if te_req (treqs s slot) = req then Some slot else None)"

definition tgt_rec :: "'a tgt_state_scheme \<Rightarrow> u64 \<Rightarrow> u32 option" where
  "tgt_rec s req = tgt_entry s req"

definition get_tqstat :: "u64 \<Rightarrow> 'a tgt_state_scheme \<Rightarrow> tqstat option \<times> 'a tgt_state_scheme" where
  "get_tqstat sq s =
    (case map_of (tqstats s) sq of
       Some qs \<Rightarrow> (Some qs, s)
     | None \<Rightarrow>
         let s = s\<lparr>tqstats := hm_update_noexist TQSTATS_MAX sq
                     \<lparr>tqs_outstanding = 0, tqs_resp_queue = 0\<rparr> (tqstats s)\<rparr>
         in (map_of (tqstats s) sq, s))"

definition tqstat_drop :: "u32 \<Rightarrow> tqstat \<Rightarrow> tqstat" where
  "tqstat_drop bits qs =
    (let qs = (if has_flag bits CNT_OUTSTANDING
               then qs\<lparr>tqs_outstanding := tqs_outstanding qs - 1\<rparr> else qs)
     in if has_flag bits CNT_RESP_QUEUED then qs\<lparr>tqs_resp_queue := tqs_resp_queue qs - 1\<rparr> else qs)"

definition uncount :: "u64 \<Rightarrow> u32 \<Rightarrow> bool \<Rightarrow> 'a tgt_state_scheme \<Rightarrow> 'a tgt_state_scheme" where
  "uncount req bits forget s =
    (case map_of (tcounted s) req of
       None \<Rightarrow> s
     | Some c \<Rightarrow>
         let dropped = tcn_flags c AND bits;
             s = s\<lparr>tcounted := hm_modify req (\<lambda>c. c\<lparr>tcn_flags := tcn_flags c AND NOT bits\<rparr>) (tcounted s)\<rparr>;
             s = s\<lparr>tqstats := hm_modify (tcn_sq c) (tqstat_drop dropped) (tqstats s)\<rparr>
         in if forget then s\<lparr>tcounted := AList.delete req (tcounted s)\<rparr> else s)"

definition count_resp_queued :: "u64 \<Rightarrow> 'a tgt_state_scheme \<Rightarrow> 'a tgt_state_scheme" where
  "count_resp_queued req s =
    (case map_of (tcounted s) req of
       None \<Rightarrow> s
     | Some tc \<Rightarrow>
         if has_flag (tcn_flags tc) CNT_RESP_QUEUED then s
         else s\<lparr>tcounted := hm_modify req (\<lambda>c. c\<lparr>tcn_flags := tcn_flags c OR CNT_RESP_QUEUED\<rparr>) (tcounted s),
                tqstats := hm_modify (tcn_sq tc) (\<lambda>qs. qs\<lparr>tqs_resp_queue := tqs_resp_queue qs + 1\<rparr>) (tqstats s)\<rparr>)"

subsection \<open>Response: the record leaves the table\<close>

definition tgt_uncount :: "ntp_filter \<Rightarrow> u64 \<Rightarrow> 'a tgt_state_scheme \<Rightarrow> 'a tgt_state_scheme" where
  "tgt_uncount f req s =
    (if f_track_queues f then uncount req (CNT_OUTSTANDING OR CNT_RESP_QUEUED) True s else s)"

definition tgt_emit :: "env \<Rightarrow> u64 \<Rightarrow> 'a tgt_state_scheme \<Rightarrow> 'a tgt_state_scheme" where
  "tgt_emit e req s =
    (case tgt_entry s req of
       None \<Rightarrow> s
     | Some slot \<Rightarrow>
         let s = trec_upd slot (\<lambda>r. r\<lparr>t_hdr := (t_hdr r)\<lparr>hdr_cpu := cpu e\<rparr>\<rparr>) s;
             s = (if rb_ok e
                  then ntp_count e NTP_CNT_TGT_EMITTED 1 (s\<lparr>tevents := tevents s @ [te_rec (treqs s slot)]\<rparr>)
                  else ntp_count e NTP_CNT_RB_DROPS 1 s);
             s = s\<lparr>treqs := (treqs s)(slot := (treqs s slot)\<lparr>te_req := 0\<rparr>)\<rparr>
         in ntp_inflight_add (-1) s)"

definition tgt_finish :: "ntp_filter \<Rightarrow> env \<Rightarrow> u64 \<Rightarrow> 'a tgt_state_scheme \<Rightarrow> 'a tgt_state_scheme" where
  "tgt_finish f e req s = tgt_emit e req (tgt_uncount f req s)"

subsection \<open>Command arrival\<close>

text \<open>
  \<open>ntp_t_req_init\<close> in parts: counting the command, closing a record its \<^verbatim>\<open>nvmet_req\<close> still
  has, the tests, and the new record.
\<close>

definition count_arrival ::
  "ntp_filter \<Rightarrow> u64 \<Rightarrow> u64 \<Rightarrow> 'a tgt_state_scheme \<Rightarrow> (u16 \<times> u16) \<times> 'a tgt_state_scheme" where
  "count_arrival f req sq s =
    (if \<not> f_track_queues f then ((0, 0), s)
     else
       let (qs, s) = get_tqstat sq s;
           s = uncount req (CNT_OUTSTANDING OR CNT_RESP_QUEUED) True s
       in case (qs, map_of (tqstats s) sq) of
            (Some _, Some qs) \<Rightarrow>
              ((ntp_clamp_u16 (tqs_outstanding qs), ntp_clamp_u16 (tqs_resp_queue qs)),
               s\<lparr>tcounted := hm_update_any TCOUNTED_MAX req \<lparr>tcn_sq = sq, tcn_flags = CNT_OUTSTANDING\<rparr> (tcounted s),
                 tqstats := hm_modify sq (\<lambda>qs. qs\<lparr>tqs_outstanding := tqs_outstanding qs + 1\<rparr>) (tqstats s)\<rparr>)
          | _ \<Rightarrow> ((0, 0), s))"

definition emit_reused :: "env \<Rightarrow> u64 \<Rightarrow> 'a tgt_state_scheme \<Rightarrow> 'a tgt_state_scheme" where
  "emit_reused e req s =
    (if ntp_inflight s = 0 then s
     else
       case tgt_entry s req of
         None \<Rightarrow> s
       | Some slot \<Rightarrow> tgt_emit e req (trec_upd slot (tor_flags NTP_F_REUSED) s))"

definition tgt_selected :: "ntp_filter \<Rightarrow> ntp_cmd_id \<Rightarrow> bool" where
  "tgt_selected f idv \<longleftrightarrow>
    ntp_is_rw (id_opcode idv) \<and> io_type_matches f (id_opcode idv) \<and>
    ntp_sampled f (id_cid idv) (id_slba idv) (id_nlb idv)"

definition tgt_new_rec ::
  "u8 \<Rightarrow> ntp_filter \<Rightarrow> env \<Rightarrow> u64 \<Rightarrow> ntp_cmd_id \<Rightarrow> u64 \<Rightarrow> u16 \<Rightarrow> u16 \<Rightarrow> ntp_tgt_rec" where
  "tgt_new_rec transport f e sq idv arr qo qr =
    (let flags = (if id_opcode idv = NTP_NVME_CMD_WRITE then NTP_F_WRITE else 0) OR
                 (if f_track_queues f then NTP_F_QUEUES else 0)
     in zero_tgt_rec
          \<lparr>t_hdr := \<lparr>hdr_kind = NTP_REC_TARGET, hdr_transport = transport, hdr_flags = flags, hdr_cpu = 0\<rparr>,
           t_id := idv\<lparr>id_cntlid := sq_ctrl_cntlid (km e) sq, id_qid := sq_qid (km e) sq\<rparr>,
           t_q_outstanding := qo, t_q_resp_queue := qr,
           t_ts := (\<lambda>_. 0)(NTP_T_CMD_ARR := arr, NTP_T_CMD_PROC := now e)\<rparr>)"

definition tgt_take_slot ::
  "env \<Rightarrow> u64 \<Rightarrow> ntp_tgt_rec \<Rightarrow> 'a tgt_state_scheme \<Rightarrow> 'a tgt_state_scheme" where
  "tgt_take_slot e req r s =
    (let slot = ntp_slot req NTP_REC_SLOTS;
         s = (if te_req (treqs s slot) \<noteq> 0 then ntp_count e NTP_CNT_STALE 1 s
              else ntp_inflight_add 1 s);
         s = s\<lparr>treqs := (treqs s)(slot := \<lparr>te_req = req, te_parts = 0, te_rec = r\<rparr>)\<rparr>
     in ntp_count e NTP_CNT_TGT_SAMPLED 1 s)"

definition ntp_t_req_init ::
  "'a tgt_state_scheme tgt_obj \<Rightarrow> ntp_filter \<Rightarrow> env \<Rightarrow> u64 \<Rightarrow> u64 \<Rightarrow> 'a tgt_state_scheme
    \<Rightarrow> 'a tgt_state_scheme" where
  "ntp_t_req_init ob f e req cmd s =
    (let sq = nreq_sq (km e) req
     in if \<not> ntp_armed s \<or> sq_qid (km e) sq = 0 then s
        else
          let (ours, s) = to_is_ours ob e req sq s
          in if \<not> ours then s
             else
               let ((qo, qr), s) = count_arrival f req sq s;
                   s = ntp_count e NTP_CNT_TGT_CMDS 1 s;
                   s = emit_reused e req s
               in case ntp_read_cmd e cmd zero_cmd_id of
                    None \<Rightarrow> s
                  | Some idv \<Rightarrow>
                      if \<not> tgt_selected f idv then s
                      else
                        let (arr, s) = to_sampled ob e req sq (now e) s
                        in tgt_take_slot e req (tgt_new_rec (to_transport ob) f e sq idv arr qo qr) s)"

subsection \<open>Backend\<close>

definition on_exec :: "env \<Rightarrow> u64 \<Rightarrow> 'a tgt_state_scheme \<Rightarrow> 'a tgt_state_scheme" where
  "on_exec e req s =
    (if ntp_inflight s = 0 then s
     else
       case tgt_rec s req of
         None \<Rightarrow> s
       | Some slot \<Rightarrow>
           if t_ts (te_rec (treqs s slot)) NTP_T_EXEC \<noteq> 0 then s
           else trec_upd slot (\<lambda>r. (tset_ts NTP_T_EXEC (now e) r)\<lparr>t_bytes := ucast (nreq_transfer_len (km e) req)\<rparr>) s)"

text \<open>The bdev backend sets \<^verbatim>\<open>bio->bi_private\<close> to the \<^verbatim>\<open>nvmet_req\<close>.\<close>

definition rec_of_rq :: "env \<Rightarrow> u64 \<Rightarrow> 'a tgt_state_scheme \<Rightarrow> u32 option" where
  "rec_of_rq e rq s =
    (if ntp_inflight s = 0 then None
     else
       let priv = rq_bio_private (km e) rq
       in if priv \<noteq> 0 then tgt_rec s priv else None)"

definition ntp_t_be_issue :: "env \<Rightarrow> u64 \<Rightarrow> 'a tgt_state_scheme \<Rightarrow> 'a tgt_state_scheme" where
  "ntp_t_be_issue e rq s =
    (case rec_of_rq e rq s of
       None \<Rightarrow> s
     | Some slot \<Rightarrow> trec_upd slot (tstamp_ts NTP_T_BE_ISSUE (now e)) s)"

definition ntp_t_be_done :: "env \<Rightarrow> u64 \<Rightarrow> 'a tgt_state_scheme \<Rightarrow> 'a tgt_state_scheme" where
  "ntp_t_be_done e rq s =
    (case rec_of_rq e rq s of
       None \<Rightarrow> s
     | Some slot \<Rightarrow> trec_upd slot (tset_ts NTP_T_BE_DONE (now e)) s)"

definition ntp_t_complete :: "env \<Rightarrow> u64 \<Rightarrow> 'a tgt_state_scheme \<Rightarrow> 'a tgt_state_scheme" where
  "ntp_t_complete e req s =
    (if ntp_inflight s = 0 then s
     else
       case tgt_rec s req of
         None \<Rightarrow> s
       | Some slot \<Rightarrow> trec_upd slot (tstamp_ts NTP_T_COMPLETE (now e)) s)"

subsection \<open>What a hook may do to the records\<close>

definition tfirst_only :: "ntp_tgt_ts list" where
  "tfirst_only = [NTP_T_CMD_ARR, NTP_T_CMD_PROC, NTP_T_R2T_QUEUED, NTP_T_R2T_SENT, NTP_T_DATA_PROC,
    NTP_T_EXEC, NTP_T_BE_ISSUE, NTP_T_COMPLETE, NTP_T_RSP_QUEUED, NTP_T_SEND_DONE]"

definition kind_flags :: "u16 \<Rightarrow> bool \<times> bool" where
  "kind_flags x = (has_flag x NTP_F_WRITE, has_flag x NTP_F_QUEUES)"

text \<open>A later stage of the same record: the same command, and the first events keep their times.\<close>

definition trec_ext :: "ntp_tgt_rec \<Rightarrow> ntp_tgt_rec \<Rightarrow> bool" where
  "trec_ext r r' \<longleftrightarrow>
    hdr_kind (t_hdr r') = hdr_kind (t_hdr r) \<and> hdr_transport (t_hdr r') = hdr_transport (t_hdr r) \<and>
    kind_flags (hdr_flags (t_hdr r')) = kind_flags (hdr_flags (t_hdr r)) \<and> t_id r' = t_id r \<and>
    t_q_outstanding r' = t_q_outstanding r \<and> t_q_resp_queue r' = t_q_resp_queue r \<and>
    (\<forall>t \<in> set tfirst_only. t_ts r t \<noteq> 0 \<longrightarrow> t_ts r' t = t_ts r t)"

lemma trec_ext_refl [simp]: "trec_ext r r"
  by (simp add: trec_ext_def)

lemma trec_ext_trans: "trec_ext r1 r2 \<Longrightarrow> trec_ext r2 r3 \<Longrightarrow> trec_ext r1 r3"
  by (simp add: trec_ext_def)

lemma trec_ext_set_ts: "t \<notin> set tfirst_only \<or> t_ts r t = 0 \<Longrightarrow> trec_ext r (tset_ts t v r)"
  by (auto simp: trec_ext_def tset_ts_def)

lemma trec_ext_stamp_ts: "trec_ext r (tstamp_ts t v r)"
  by (auto simp: trec_ext_def tstamp_ts_def tset_ts_def ntp_stamp_once_def)

lemma other_tflags [simp]:
  "\<not> has_flag NTP_F_INLINE_DATA NTP_F_WRITE" "\<not> has_flag NTP_F_INLINE_DATA NTP_F_QUEUES"
  "\<not> has_flag NTP_F_R2T NTP_F_WRITE" "\<not> has_flag NTP_F_R2T NTP_F_QUEUES"
  "\<not> has_flag NTP_F_RDMA_READ NTP_F_WRITE" "\<not> has_flag NTP_F_RDMA_READ NTP_F_QUEUES"
  "\<not> has_flag NTP_F_DATA_SUCCESS NTP_F_WRITE" "\<not> has_flag NTP_F_DATA_SUCCESS NTP_F_QUEUES"
  "\<not> has_flag NTP_F_REUSED NTP_F_WRITE" "\<not> has_flag NTP_F_REUSED NTP_F_QUEUES"
  "has_flag NTP_F_WRITE NTP_F_WRITE" "has_flag NTP_F_QUEUES NTP_F_QUEUES"
  "\<not> has_flag NTP_F_WRITE NTP_F_QUEUES" "\<not> has_flag NTP_F_QUEUES NTP_F_WRITE"
  "has_flag NTP_F_REUSED NTP_F_REUSED"
  by (simp_all add: has_flag_def flag_defs)

lemma trec_ext_or_flags:
  "\<not> has_flag m NTP_F_WRITE \<Longrightarrow> \<not> has_flag m NTP_F_QUEUES \<Longrightarrow> trec_ext r (tor_flags m r)"
  by (simp add: trec_ext_def tor_flags_def kind_flags_def has_flag_or)

lemma trec_ext_fields [simp]:
  "trec_ext r (r'\<lparr>t_bytes := b\<rparr>) = trec_ext r r'" "trec_ext r (r'\<lparr>t_h2c_busy_ns := x\<rparr>) = trec_ext r r'"
  "trec_ext r (r'\<lparr>t_h2c_skbs := y\<rparr>) = trec_ext r r'"
  "trec_ext r (r'\<lparr>t_hdr := (t_hdr r')\<lparr>hdr_cpu := c\<rparr>\<rparr>) = trec_ext r r'"
  by (simp_all add: trec_ext_def)

text \<open>A hook that only stamps: no record enters or leaves the table.\<close>

definition tstamped :: "'a tgt_state_scheme \<Rightarrow> 'a tgt_state_scheme \<Rightarrow> bool" where
  "tstamped s s' \<longleftrightarrow>
    ntp_inflight s' = ntp_inflight s \<and> counters s' = counters s \<and> tevents s' = tevents s \<and>
    (\<forall>slot. te_req (treqs s' slot) = te_req (treqs s slot) \<and>
            trec_ext (te_rec (treqs s slot)) (te_rec (treqs s' slot)))"

text \<open>
  The moves a hook of a target object is made of. Only two of them change which records are in
  the table: one is handed over, or a selected command takes its slot.
\<close>

inductive tgt_move :: "u8 \<Rightarrow> ntp_filter \<Rightarrow> 'a tgt_state_scheme \<Rightarrow> 'a tgt_state_scheme \<Rightarrow> bool"
  for tr f where
  stamp: "tstamped s s' \<Longrightarrow> tgt_move tr f s s'"
| count: "tgt_move tr f s (ntp_count e NTP_CNT_TGT_CMDS v s)"
| emit: "req \<noteq> 0 \<Longrightarrow> tgt_move tr f s (tgt_emit e req s)"
| sample: "req \<noteq> 0 \<Longrightarrow> tgt_selected f idv \<Longrightarrow>
    tgt_move tr f s (tgt_take_slot e req (tgt_new_rec tr f e sq idv arr qo qr) s)"

abbreviation tgt_moves :: "u8 \<Rightarrow> ntp_filter \<Rightarrow> 'a tgt_state_scheme \<Rightarrow> 'a tgt_state_scheme \<Rightarrow> bool" where
  "tgt_moves tr f \<equiv> (tgt_move tr f)\<^sup>*\<^sup>*"

lemma tstamped_refl [simp]: "tstamped s s"
  by (simp add: tstamped_def)

lemma tstamped_trec_upd:
  "trec_ext (te_rec (treqs s slot)) (g (te_rec (treqs s slot))) \<Longrightarrow> tstamped s (trec_upd slot g s)"
  by (simp add: tstamped_def trec_upd_def)

lemma tstamped_frame [simp]:
  "tstamped s (s\<lparr>tqstats := a\<rparr>)" "tstamped s (s\<lparr>tcounted := b\<rparr>)" "tstamped s (s\<lparr>tgt_ctx := c\<rparr>)"
  "tstamped s (s\<lparr>ntp_armed := d\<rparr>)"
  by (simp_all add: tstamped_def)

lemma tstamped_trans: "tstamped s1 s2 \<Longrightarrow> tstamped s2 s3 \<Longrightarrow> tstamped s1 s3"
  unfolding tstamped_def by (simp, blast intro: trec_ext_trans)

lemma tstamped_queues:
  "tstamped s (uncount req bits forget s)" "tstamped s (count_resp_queued req s)"
  "tstamped s (tgt_uncount f req s)" "tstamped s (snd (get_tqstat sq s))"
  by (simp_all add: uncount_def count_resp_queued_def tgt_uncount_def get_tqstat_def Let_def tstamped_def
      split: option.split)

lemma tstamped_count_arrival: "tstamped s (snd (count_arrival f req sq s))"
proof -
  obtain qs s' where gq: "get_tqstat sq s = (qs, s')" by fastforce
  have "tstamped s s'" using tstamped_queues(4) [of s sq] gq by simp
  then have un: "tstamped s (uncount req b True s')" for b by (rule tstamped_trans [OF _ tstamped_queues(1)])
  have "tstamped s (s''\<lparr>tcounted := a, tqstats := b\<rparr>)" if "tstamped s s''" for s'' a b
    using that by (simp add: tstamped_def)
  with un show ?thesis by (simp add: count_arrival_def Let_def gq split: option.split)
qed

lemma tstamped_ctx: "tstamped s (tgt_ctx_enter e queue sk arrival s)" "tstamped s (tgt_ctx_exit e s)"
  by (simp_all add: tgt_ctx_enter_def tgt_ctx_exit_def split: option.split)

lemma tstamped_backend:
  "tstamped s (on_exec e req s)" "tstamped s (ntp_t_be_issue e rq s)" "tstamped s (ntp_t_be_done e rq s)"
  "tstamped s (ntp_t_complete e req s)"
  by (auto simp: on_exec_def ntp_t_be_issue_def ntp_t_be_done_def ntp_t_complete_def tfirst_only_def
      split: option.split intro!: tstamped_trec_upd trec_ext_stamp_ts trec_ext_set_ts)

lemma tmove_stamped: "tstamped s s' \<Longrightarrow> tgt_moves tr f s s'"
  by (simp add: r_into_rtranclp tgt_move.stamp)

lemma tmove_emit: "req \<noteq> 0 \<Longrightarrow> tgt_moves tr f s (tgt_emit e req s)"
  by (simp add: r_into_rtranclp tgt_move.emit)

lemma tmove_finish: "req \<noteq> 0 \<Longrightarrow> tgt_moves tr f s (tgt_finish f' e req s)"
  unfolding tgt_finish_def
  by (rule rtranclp_trans [OF tmove_stamped [OF tstamped_queues(3)] tmove_emit])

lemma tmove_reused: "req \<noteq> 0 \<Longrightarrow> tgt_moves tr f s (emit_reused e req s)"
  unfolding emit_reused_def
  by (auto split: option.split intro!: rtranclp_trans [OF tmove_stamped tmove_emit] tstamped_trec_upd
      simp: trec_ext_or_flags)

text \<open>A transport's two functions may only stamp.\<close>

definition tgt_obj_ok :: "'a tgt_state_scheme tgt_obj \<Rightarrow> bool" where
  "tgt_obj_ok ob \<longleftrightarrow>
    (\<forall>e req sq s. tstamped s (snd (to_is_ours ob e req sq s))) \<and>
    (\<forall>e req sq t s. tstamped s (snd (to_sampled ob e req sq t s)))"

lemma tmove_req_init:
  assumes ob: "tgt_obj_ok ob" and req: "req \<noteq> 0"
  shows "tgt_moves (to_transport ob) f s (ntp_t_req_init ob f e req cmd s)"
proof -
  define sq where "sq = nreq_sq (km e) req"
  obtain ours s1 where s1: "to_is_ours ob e req sq s = (ours, s1)" by fastforce
  obtain qo qr s2 where s2: "count_arrival f req sq s1 = ((qo, qr), s2)" by (metis prod.exhaust)
  define s3 where "s3 = emit_reused e req (ntp_count e NTP_CNT_TGT_CMDS 1 s2)"
  obtain arr s4 where s4: "to_sampled ob e req sq (now e) s3 = (arr, s4)" by fastforce
  have m1: "tgt_moves (to_transport ob) f s s1"
    using ob s1 by (metis tgt_obj_ok_def snd_conv tmove_stamped)
  have m2: "tgt_moves (to_transport ob) f s s2"
    using tstamped_count_arrival [of s1 f req sq] s2 by (auto intro: rtranclp_trans [OF m1 tmove_stamped])
  have m3: "tgt_moves (to_transport ob) f s s3"
    unfolding s3_def
    by (rule rtranclp_trans [OF rtranclp.rtrancl_into_rtrancl [OF m2 tgt_move.count] tmove_reused [OF req]])
  have m4: "tgt_moves (to_transport ob) f s s4"
    using ob s4 by (metis tgt_obj_ok_def snd_conv tmove_stamped rtranclp_trans m3)
  have "tgt_moves (to_transport ob) f s
      (tgt_take_slot e req (tgt_new_rec (to_transport ob) f e sq idv arr qo qr) s4)"
    if "tgt_selected f idv" for idv
    using rtranclp.rtrancl_into_rtrancl [OF m4 tgt_move.sample [OF req that]] .
  then show ?thesis
    unfolding ntp_t_req_init_def sq_def [symmetric] Let_def
    using m1 m3 by (simp add: s1 s2 s3_def [symmetric] s4 split: option.split)
qed

subsection \<open>Accounting of the records\<close>

definition tgt_inv :: "'a tgt_state_scheme \<Rightarrow> bool" where
  "tgt_inv s \<longleftrightarrow>
    ntp_inflight s = of_nat (card (occupied te_req (treqs s))) \<and>
    homed te_req (treqs s) \<and>
    counter_total s NTP_CNT_TGT_SAMPLED =
      counter_total s NTP_CNT_TGT_EMITTED + counter_total s NTP_CNT_RB_DROPS +
      counter_total s NTP_CNT_STALE + ntp_inflight s"

lemma tcounter_total_frame [simp]:
  "counter_total (s\<lparr>treqs := a\<rparr>) = counter_total s" "counter_total (s\<lparr>tevents := ev\<rparr>) = counter_total s"
  "counter_total (ntp_inflight_add v s) = counter_total s"
  by (simp_all add: counter_total_def fun_eq_iff ntp_inflight_add_def)

lemma tgt_count_frame [simp]:
  "ntp_inflight (ntp_count e c v s) = ntp_inflight s" "treqs (ntp_count e c v s) = treqs s"
  "tevents (ntp_count e c v s) = tevents s" "ntp_inflight (ntp_inflight_add v s) = ntp_inflight s + v"
  "treqs (ntp_inflight_add v s) = treqs s" "tevents (ntp_inflight_add v s) = tevents s"
  by (simp_all add: ntp_count_def ntp_inflight_add_def)

lemma tgt_entry_Some:
  "tgt_entry s req = Some slot \<longleftrightarrow> slot = ntp_slot req NTP_REC_SLOTS \<and> te_req (treqs s slot) = req"
  by (auto simp: tgt_entry_def Let_def)

lemma tgt_inv_stamped: "tgt_inv s \<Longrightarrow> tstamped s s' \<Longrightarrow> tgt_inv s'"
  by (simp add: tgt_inv_def tstamped_def counter_total_def fun_eq_iff homed_def
      occupied_owners [of te_req "treqs s'" "treqs s"])

lemma tgt_inv_take_slot:
  assumes inv: "tgt_inv s" and req: "req \<noteq> 0"
  shows "tgt_inv (tgt_take_slot e req r s)"
proof (cases "te_req (treqs s (ntp_slot req NTP_REC_SLOTS)) = 0")
  case True
  then show ?thesis using inv req
    by (simp add: tgt_inv_def tgt_take_slot_def Let_def counter_total_count homed_upd
        occupied_take [OF ntp_slot_less])
next
  case False
  then show ?thesis using inv req
    by (simp add: tgt_inv_def tgt_take_slot_def Let_def counter_total_count homed_upd occupied_same)
qed

lemma tgt_inv_emit:
  assumes inv: "tgt_inv s" and req: "req \<noteq> 0"
  shows "tgt_inv (tgt_emit e req s)"
proof (cases "tgt_entry s req")
  case None
  then show ?thesis using inv by (simp add: tgt_emit_def)
next
  case (Some slot)
  then have slot: "slot = ntp_slot req NTP_REC_SLOTS" "te_req (treqs s slot) = req"
    by (auto simp: tgt_entry_Some)
  have free: "of_nat (card (occupied te_req ((treqs s)(ntp_slot req NTP_REC_SLOTS := x)))) =
      of_nat (card (occupied te_req (treqs s))) - (1 :: i64)" if "te_req x = 0" for x
    using occupied_free [of slot te_req "treqs s" x] slot req that by (simp add: ntp_slot_less)
  show ?thesis using inv Some req slot
    by (simp add: tgt_inv_def tgt_emit_def Let_def trec_upd_def counter_total_count homed_free free)
qed

lemma tgt_inv_move: "tgt_move tr f s s' \<Longrightarrow> tgt_inv s \<Longrightarrow> tgt_inv s'"
proof (induction rule: tgt_move.induct)
  case (count s e v)
  then show ?case by (simp add: tgt_inv_def counter_total_count)
qed (simp_all add: tgt_inv_stamped tgt_inv_emit tgt_inv_take_slot)

subsection \<open>Which records exist\<close>

definition tgt_rec_ok :: "u8 \<Rightarrow> ntp_filter \<Rightarrow> ntp_tgt_rec \<Rightarrow> bool" where
  "tgt_rec_ok tr f r \<longleftrightarrow>
    hdr_kind (t_hdr r) = NTP_REC_TARGET \<and> hdr_transport (t_hdr r) = tr \<and> tgt_selected f (t_id r) \<and>
    (tgt_flag r NTP_F_WRITE \<longleftrightarrow> id_opcode (t_id r) = NTP_NVME_CMD_WRITE) \<and>
    (tgt_flag r NTP_F_QUEUES \<longleftrightarrow> f_track_queues f)"

definition trecs_ok :: "u8 \<Rightarrow> ntp_filter \<Rightarrow> 'a tgt_state_scheme \<Rightarrow> bool" where
  "trecs_ok tr f s \<longleftrightarrow>
    (\<forall>slot. te_req (treqs s slot) \<noteq> 0 \<longrightarrow> tgt_rec_ok tr f (te_rec (treqs s slot))) \<and>
    (\<forall>r \<in> set (tevents s). tgt_rec_ok tr f r)"

lemma tgt_rec_ok_ext: "tgt_rec_ok tr f r \<Longrightarrow> trec_ext r r' \<Longrightarrow> tgt_rec_ok tr f r'"
  by (simp add: tgt_rec_ok_def trec_ext_def kind_flags_def)

lemma tgt_new_rec_ok: "tgt_selected f idv \<Longrightarrow> tgt_rec_ok tr f (tgt_new_rec tr f e sq idv arr qo qr)"
  by (simp add: tgt_rec_ok_def tgt_new_rec_def Let_def has_flag_or tgt_selected_def)

lemma tgt_rec_ok_cpu [simp]:
  "tgt_rec_ok tr f (r\<lparr>t_hdr := (t_hdr r)\<lparr>hdr_cpu := c\<rparr>\<rparr>) = tgt_rec_ok tr f r"
  by (simp add: tgt_rec_ok_def)

lemma trecs_ok_move: "tgt_move tr f s s' \<Longrightarrow> trecs_ok tr f s \<Longrightarrow> trecs_ok tr f s'"
proof (induction rule: tgt_move.induct)
  case (stamp s s')
  then show ?case unfolding trecs_ok_def tstamped_def by (auto intro: tgt_rec_ok_ext)
next
  case (count s e v)
  then show ?case by (simp add: trecs_ok_def)
next
  case (emit req s e)
  show ?case
  proof (cases "tgt_entry s req")
    case None
    then show ?thesis using emit by (simp add: tgt_emit_def)
  next
    case (Some slot)
    then have "tgt_rec_ok tr f (te_rec (treqs s slot))" using emit by (auto simp: trecs_ok_def tgt_entry_Some)
    with Some emit show ?thesis by (auto simp: trecs_ok_def tgt_emit_def Let_def trec_upd_def)
  qed
next
  case (sample req idv s e sq arr qo qr)
  then show ?case by (simp add: trecs_ok_def tgt_take_slot_def Let_def tgt_new_rec_ok)
qed

lemma tgt_inv_moves: "tgt_moves tr f s s' \<Longrightarrow> tgt_inv s \<Longrightarrow> tgt_inv s'"
  by (induction rule: rtranclp_induct) (simp_all add: tgt_inv_move)

lemma trecs_ok_moves: "tgt_moves tr f s s' \<Longrightarrow> trecs_ok tr f s \<Longrightarrow> trecs_ok tr f s'"
  by (induction rule: rtranclp_induct) (auto intro: trecs_ok_move)

subsection \<open>Any sequence of hooks\<close>

definition zero_tgt_entry :: tgt_entry_t where
  "zero_tgt_entry = \<lparr>te_req = 0, te_parts = 0, te_rec = zero_tgt_rec\<rparr>"

definition tgt_fresh :: "'a tgt_state_scheme \<Rightarrow> bool" where
  "tgt_fresh s \<longleftrightarrow>
    \<not> ntp_armed s \<and> ntp_inflight s = 0 \<and> counters s = (\<lambda>_. 0) \<and> treqs s = (\<lambda>_. zero_tgt_entry) \<and>
    tqstats s = [] \<and> tcounted s = [] \<and>
    tgt_ctx s = (\<lambda>_. \<lparr>tx_tid = 0, tx_queue = 0, tx_sk = 0, tx_last_skb = 0, tx_arrival = 0\<rparr>) \<and> tevents s = []"

lemma tgt_inv_fresh: "tgt_fresh s \<Longrightarrow> tgt_inv s"
  by (simp add: tgt_fresh_def tgt_inv_def zero_tgt_entry_def occupied_def homed_def counter_total_def)

lemma trecs_ok_fresh: "tgt_fresh s \<Longrightarrow> trecs_ok tr f s"
  by (simp add: tgt_fresh_def trecs_ok_def zero_tgt_entry_def)

text \<open>\<open>good\<close> is what a transport keeps of its own contexts.\<close>

locale tgt_object =
  fixes tr :: u8 and f :: ntp_filter
    and step :: "'ev \<Rightarrow> 'a tgt_state_scheme \<Rightarrow> 'a tgt_state_scheme"
    and ok :: "'ev \<Rightarrow> bool" and good :: "'a tgt_state_scheme \<Rightarrow> bool"
  assumes step_moves: "ok ev \<Longrightarrow> good s \<Longrightarrow> tgt_moves tr f s (step ev s)"
    and step_good: "ok ev \<Longrightarrow> good s \<Longrightarrow> good (step ev s)"
begin

lemma run_moves: "list_all ok evs \<Longrightarrow> good s \<Longrightarrow> tgt_moves tr f s (fold step evs s)"
proof (induction evs arbitrary: s)
  case (Cons ev evs)
  then show ?case
    using step_moves [of ev s] step_good [of ev s] Cons.IH [of "step ev s"] by (auto intro: rtranclp_trans)
qed simp

lemma run_tgt_inv: "list_all ok evs \<Longrightarrow> good s \<Longrightarrow> tgt_inv s \<Longrightarrow> tgt_inv (fold step evs s)"
  using run_moves tgt_inv_moves by blast

lemma run_trecs_ok:
  "list_all ok evs \<Longrightarrow> good s \<Longrightarrow> trecs_ok tr f s \<Longrightarrow> trecs_ok tr f (fold step evs s)"
  using run_moves trecs_ok_moves by blast

end

subsection \<open>Handing a record over\<close>

lemma tgt_emit_events:
  assumes "tgt_entry s req = Some slot"
  shows "tevents (tgt_emit e req s) = tevents s @
      (if rb_ok e then [(te_rec (treqs s slot))\<lparr>t_hdr := (t_hdr (te_rec (treqs s slot)))\<lparr>hdr_cpu := cpu e\<rparr>\<rparr>] else [])"
    and "req \<noteq> 0 \<Longrightarrow> tgt_entry (tgt_emit e req s) req = None"
  using assms by (simp_all add: tgt_emit_def Let_def trec_upd_def) (auto simp: tgt_entry_def Let_def)

lemma tgt_inv_busy: "tgt_inv s \<Longrightarrow> tgt_entry s req = Some slot \<Longrightarrow> req \<noteq> 0 \<Longrightarrow> ntp_inflight s \<noteq> 0"
proof -
  assume inv: "tgt_inv s" and entry: "tgt_entry s req = Some slot" and req: "req \<noteq> 0"
  have "slot \<in> occupied te_req (treqs s)"
    using entry req by (auto simp: occupied_def ntp_slot_less tgt_entry_Some)
  then show ?thesis using inv inflight_zero [of te_req "treqs s"] by (auto simp: tgt_inv_def)
qed

lemma tstamped_entry: "tstamped s s' \<Longrightarrow> tgt_entry s' req = tgt_entry s req"
  by (simp add: tstamped_def tgt_entry_def Let_def)

lemma tstamped_ext: "tstamped s s' \<Longrightarrow> trec_ext (te_rec (treqs s slot)) (te_rec (treqs s' slot))"
  by (simp add: tstamped_def)

lemma tgt_inv_counted [simp]: "tgt_inv (ntp_count e NTP_CNT_TGT_CMDS v s) = tgt_inv s"
  by (simp add: tgt_inv_def counter_total_count)

lemma tgt_entry_counted [simp]: "tgt_entry (ntp_count e c v s) req = tgt_entry s req"
  by (simp add: tgt_entry_def Let_def)

lemma take_slot_entry:
  "tgt_entry (tgt_take_slot e req r s) req = Some (ntp_slot req NTP_REC_SLOTS)"
  "te_rec (treqs (tgt_take_slot e req r s) (ntp_slot req NTP_REC_SLOTS)) = r"
  "tevents (tgt_take_slot e req r s) = tevents s"
  by (simp_all add: tgt_take_slot_def tgt_entry_def Let_def)

text \<open>
  A record that is still open when its \<^verbatim>\<open>nvmet_req\<close> carries a new command is handed over
  first; what the table then holds for that address belongs to the new command.
\<close>

lemma req_init_reused:
  fixes f :: ntp_filter and cmd :: u64
  assumes ob: "tgt_obj_ok ob" and inv: "tgt_inv s" and req: "req \<noteq> 0"
    and entry: "tgt_entry s req = Some slot" and armed: "ntp_armed s"
    and io: "sq_qid (km e) (nreq_sq (km e) req) \<noteq> 0"
    and ours: "fst (to_is_ours ob e req (nreq_sq (km e) req) s)" and room: "rb_ok e"
  defines "s' \<equiv> ntp_t_req_init ob f e req cmd s"
  shows "\<exists>r. tevents s' = tevents s @ [r] \<and> trec_ext (te_rec (treqs s slot)) r \<and> tgt_flag r NTP_F_REUSED"
    and "tgt_entry s' req = Some slot' \<Longrightarrow> t_ts (te_rec (treqs s' slot')) NTP_T_CMD_PROC = now e"
proof -
  define sq where "sq = nreq_sq (km e) req"
  obtain s1 where s1: "to_is_ours ob e req sq s = (True, s1)"
    using ours by (metis (full_types) prod.collapse sq_def)
  obtain qo qr s2 where s2: "count_arrival f req sq s1 = ((qo, qr), s2)" by (metis prod.exhaust)
  define s3 where "s3 = emit_reused e req (ntp_count e NTP_CNT_TGT_CMDS 1 s2)"
  obtain arr s4 where s4: "to_sampled ob e req sq (now e) s3 = (arr, s4)" by fastforce
  have st1: "tstamped s s1" using ob s1 by (metis tgt_obj_ok_def snd_conv)
  have st2: "tstamped s s2"
    using tstamped_trans [OF st1, of s2] tstamped_count_arrival [of s1 f req sq] s2 by simp
  have inv2: "tgt_inv s2" using inv st2 by (rule tgt_inv_stamped)
  have entry2: "tgt_entry s2 req = Some slot" using tstamped_entry [OF st2] entry by simp
  have busy: "ntp_inflight s2 \<noteq> 0" using tgt_inv_busy [OF inv2 entry2 req] .
  let ?marked = "trec_upd slot (tor_flags NTP_F_REUSED) (ntp_count e NTP_CNT_TGT_CMDS 1 s2)"
  have s3: "s3 = tgt_emit e req ?marked" using busy entry2 by (simp add: s3_def emit_reused_def)
  have marked: "tgt_entry ?marked req = Some slot"
    using entry2 by (auto simp: tgt_entry_Some trec_upd_def)
  let ?r = "(te_rec (treqs ?marked slot))\<lparr>t_hdr := (t_hdr (te_rec (treqs ?marked slot)))\<lparr>hdr_cpu := cpu e\<rparr>\<rparr>"
  have ev3: "tevents s3 = tevents s @ [?r]"
    using tgt_emit_events(1) [OF marked, of e] room st2 by (simp add: s3 trec_upd_def tstamped_def)
  have free: "tgt_entry s3 req = None" using tgt_emit_events(2) [OF marked req, of e] by (simp add: s3)
  have ext: "trec_ext (te_rec (treqs s slot)) ?r"
    using tstamped_ext [OF st2, of slot]
    by (simp add: trec_upd_def) (rule trec_ext_trans, assumption, simp add: trec_ext_or_flags)
  have flag: "tgt_flag ?r NTP_F_REUSED" by (simp add: trec_upd_def tor_flags_def has_flag_or)
  have st4: "tstamped s3 s4" using ob s4 by (metis tgt_obj_ok_def snd_conv)
  have s': "s' = s3 \<or> (\<exists>idv. s' = tgt_take_slot e req (tgt_new_rec (to_transport ob) f e sq idv arr qo qr) s4)"
    using armed io unfolding s'_def ntp_t_req_init_def sq_def [symmetric] Let_def
    by (auto simp: s1 s2 s3_def [symmetric] s4 split: option.split)
  show "\<exists>r. tevents s' = tevents s @ [r] \<and> trec_ext (te_rec (treqs s slot)) r \<and> tgt_flag r NTP_F_REUSED"
    using s' ev3 ext flag st4 by (auto simp: take_slot_entry tstamped_def)
  show "tgt_entry s' req = Some slot' \<Longrightarrow> t_ts (te_rec (treqs s' slot')) NTP_T_CMD_PROC = now e"
    using s' free by (auto simp: take_slot_entry tgt_new_rec_def Let_def)
qed

end
