(* ===== verification/Bpf_Tcp_Target.thy ===== *)
theory Bpf_Tcp_Target
  imports Bpf_Target
begin

text \<open>
  The NVMe/TCP target object (\<^verbatim>\<open>src/bpf/nvme_tcp_target.bpf.c\<close>): what a thread last read from
  a socket, the queues whose sends matter, and the transport's hooks.
\<close>

subsection \<open>State\<close>

record tcp_rx =
  tr_tid :: u64
  tr_skb :: u64
  tr_sk :: u64
  tr_enter :: u64
  tr_offset :: i64

record tcp_tgt_state = tgt_state +
  tcp_rx :: "u32 \<Rightarrow> tcp_rx"
  tqueues :: "(u64 \<times> u64) list"

definition TQUEUES_MAX :: nat where "TQUEUES_MAX = 4096"

definition NVMET_TCP_SEND_DATA_PDU :: u32 where "NVMET_TCP_SEND_DATA_PDU = 0"
definition NVMET_TCP_SEND_R2T :: u32 where "NVMET_TCP_SEND_R2T = 2"
definition NVMET_TCP_SEND_RESPONSE :: u32 where "NVMET_TCP_SEND_RESPONSE = 4"
definition NVMET_TCP_RECV_DATA :: u32 where "NVMET_TCP_RECV_DATA = 1"

lemmas nvmet_states = NVMET_TCP_SEND_DATA_PDU_def NVMET_TCP_SEND_R2T_def NVMET_TCP_SEND_RESPONSE_def
  NVMET_TCP_RECV_DATA_def

text \<open>\<^verbatim>\<open>container_of()\<close> between a command, its request, a submission queue and its queue.\<close>

definition cmd_of :: "env \<Rightarrow> u64 \<Rightarrow> u64" where "cmd_of e req = req - off_tcp_cmd_req (km e)"
definition req_of :: "env \<Rightarrow> u64 \<Rightarrow> u64" where "req_of e cmd = cmd + off_tcp_cmd_req (km e)"
definition queue_of_sq :: "env \<Rightarrow> u64 \<Rightarrow> u64" where "queue_of_sq e sq = sq - off_tcp_queue_sq (km e)"

subsection \<open>What this thread last read from a socket\<close>

definition on_copy ::
  "env \<Rightarrow> u64 \<Rightarrow> s32 \<Rightarrow> 'a tcp_tgt_state_scheme \<Rightarrow> 'a tcp_tgt_state_scheme" where
  "on_copy e skb offset s =
    s\<lparr>tcp_rx := (tcp_rx s)(cpu e :=
        \<lparr>tr_tid = tid e, tr_skb = skb, tr_sk = skb_sk (km e) skb,
         tr_enter = (if ntp_inflight s \<noteq> 0 then now e else 0), tr_offset = scast offset\<rparr>)\<rparr>"

text \<open>
  The end of a copy, from the point where the command's record is known: the copy counts when the
  record is a write solicited by R2T whose data is being received.
\<close>

definition copied :: "ntp_filter \<Rightarrow> env \<Rightarrow> tcp_rx \<Rightarrow> ntp_tgt_rec \<Rightarrow> ntp_tgt_rec" where
  "copied f e r x =
    (if \<not> tgt_flag x NTP_F_R2T \<or> t_ts x NTP_T_DATA_PROC = 0 \<or> t_ts x NTP_T_EXEC \<noteq> 0 then x
     else
       let from = (if t_h2c_skbs x = 0 \<and> sint (tr_offset r) > 0 then t_ts x NTP_T_DATA_PROC else tr_enter r)
       in if now e < from then x
          else tset_ts NTP_T_DATA_LAST_ARR (ntp_skb_arrival f e (tr_skb r) (now e))
                 (tset_ts NTP_T_DATA_DONE (now e)
                   (x\<lparr>t_h2c_busy_ns := t_h2c_busy_ns x + (now e - from), t_h2c_skbs := t_h2c_skbs x + 1\<rparr>)))"

definition on_copy_done ::
  "ntp_filter \<Rightarrow> env \<Rightarrow> s32 \<Rightarrow> 'a tcp_tgt_state_scheme \<Rightarrow> 'a tcp_tgt_state_scheme" where
  "on_copy_done f e ret s =
    (if ntp_inflight s = 0 then s
     else
       case ntp_ctx_get e tr_tid (tcp_rx s) of
         None \<Rightarrow> s
       | Some r \<Rightarrow>
           let s = s\<lparr>tcp_rx := (tcp_rx s)(cpu e := r\<lparr>tr_enter := 0\<rparr>)\<rparr>
           in if tr_enter r = 0 \<or> ret \<noteq> 0 then s
              else
                let sk = tr_sk r;
                    queue = sk_user_data (km e) sk
                in if queue = 0 \<or> sock_sk (km e) (ttq_sock (km e) queue) \<noteq> sk then s
                   else if ttq_rcv_state (km e) queue \<noteq> NVMET_TCP_RECV_DATA then s
                   else
                     let cmd = ttq_cmd (km e) queue
                     in if cmd = 0 then s
                        else
                          case tgt_entry s (req_of e cmd) of
                            None \<Rightarrow> s
                          | Some slot \<Rightarrow> trec_upd slot (copied f e r) s)"

definition rx_arrival :: "ntp_filter \<Rightarrow> env \<Rightarrow> u64 \<Rightarrow> u64 \<Rightarrow> 'a tcp_tgt_state_scheme \<Rightarrow> u64" where
  "rx_arrival f e sk tnow s =
    (case ntp_ctx_get e tr_tid (tcp_rx s) of
       None \<Rightarrow> tnow
     | Some r \<Rightarrow> if tr_sk r \<noteq> sk then tnow else ntp_skb_arrival f e (tr_skb r) tnow)"

subsection \<open>Command arrival\<close>

definition remember_queue :: "env \<Rightarrow> u64 \<Rightarrow> 'a tcp_tgt_state_scheme \<Rightarrow> 'a tcp_tgt_state_scheme" where
  "remember_queue e queue s =
    s\<lparr>tqueues := lru_update e TQUEUES_MAX queue (ttq_sock (km e) queue) (tqueues s)\<rparr>"

definition tgt_is_ours ::
  "ntp_filter \<Rightarrow> env \<Rightarrow> u64 \<Rightarrow> u64 \<Rightarrow> 'a tcp_tgt_state_scheme \<Rightarrow> bool \<times> 'a tcp_tgt_state_scheme" where
  "tgt_is_ours f e req sq s =
    (let queue = queue_of_sq e sq
     in if sk_user_data (km e) (sock_sk (km e) (ttq_sock (km e) queue)) \<noteq> queue then (False, s)
        else (True, if f_track_queues f then remember_queue e queue s else s))"

definition tgt_sampled ::
  "ntp_filter \<Rightarrow> env \<Rightarrow> u64 \<Rightarrow> u64 \<Rightarrow> u64 \<Rightarrow> 'a tcp_tgt_state_scheme \<Rightarrow> u64 \<times> 'a tcp_tgt_state_scheme" where
  "tgt_sampled f e req sq tnow s =
    (let queue = queue_of_sq e sq;
         s = remember_queue e queue s
     in (rx_arrival f e (sock_sk (km e) (ttq_sock (km e) queue)) tnow s, s))"

definition tcp_target :: "ntp_filter \<Rightarrow> 'a tcp_tgt_state_scheme tgt_obj" where
  "tcp_target f = \<lparr>to_transport = NTP_TR_TCP, to_is_ours = tgt_is_ours f, to_sampled = tgt_sampled f\<rparr>"

subsection \<open>Transport events\<close>

text \<open>A write to a record that may not exist (\<^verbatim>\<open>if (rec) ...\<close>).\<close>

definition on_rec ::
  "u32 option \<Rightarrow> (ntp_tgt_rec \<Rightarrow> ntp_tgt_rec) \<Rightarrow> 'a tgt_state_scheme \<Rightarrow> 'a tgt_state_scheme" where
  "on_rec rec g s = (case rec of None \<Rightarrow> s | Some slot \<Rightarrow> trec_upd slot g s)"

definition on_queue_resp ::
  "ntp_filter \<Rightarrow> env \<Rightarrow> u64 \<Rightarrow> 'a tgt_state_scheme \<Rightarrow> 'a tgt_state_scheme" where
  "on_queue_resp f e req s =
    (if ntp_idle f s then s
     else
       let rec = tgt_rec s req;
           opcode = (case u8_at (km e) (nreq_cmd (km e) req) of None \<Rightarrow> 0 | Some x \<Rightarrow> x)
       in if (f_track_queues f \<or> rec \<noteq> None) \<and> opcode = NTP_NVME_CMD_WRITE \<and>
             ucast (tcmd_rbytes_done (km e) (cmd_of e req)) < nreq_transfer_len (km e) req
          then on_rec rec (tstamp_ts NTP_T_R2T_QUEUED (now e)) s
          else on_rec rec (tstamp_ts NTP_T_RSP_QUEUED (now e))
                 (if f_track_queues f then count_resp_queued req s else s))"

definition h2c :: "u64 \<Rightarrow> env \<Rightarrow> ntp_tgt_rec \<Rightarrow> ntp_tgt_rec" where
  "h2c arrival e x =
    (if t_ts x NTP_T_R2T_SENT = 0 then tor_flags NTP_F_INLINE_DATA x
     else if t_ts x NTP_T_DATA_PROC \<noteq> 0 then x
     else tset_ts NTP_T_DATA_PROC (now e) (tset_ts NTP_T_DATA_ARR arrival (tor_flags NTP_F_R2T x)))"

definition on_h2c ::
  "ntp_filter \<Rightarrow> env \<Rightarrow> u64 \<Rightarrow> 'a tcp_tgt_state_scheme \<Rightarrow> 'a tcp_tgt_state_scheme" where
  "on_h2c f e cmd s =
    (if ntp_inflight s = 0 then s
     else
       case tgt_rec s (req_of e cmd) of
         None \<Rightarrow> s
       | Some slot \<Rightarrow>
           trec_upd slot
             (h2c (rx_arrival f e (sock_sk (km e) (ttq_sock (km e) (tcmd_queue (km e) cmd))) (now e) s) e) s)"

definition on_sendmsg ::
  "ntp_filter \<Rightarrow> env \<Rightarrow> u64 \<Rightarrow> 'a tcp_tgt_state_scheme \<Rightarrow> 'a tcp_tgt_state_scheme" where
  "on_sendmsg f e sock s =
    (if ntp_idle f s then s
     else
       let queue = sk_user_data (km e) (sock_sk (km e) sock)
       in if map_of (tqueues s) queue \<noteq> Some sock then s
          else
            let cmd = ttq_snd_cmd (km e) queue
            in if cmd = 0 \<or> tcmd_offset (km e) cmd \<noteq> 0 then s
               else
                 let req = req_of e cmd;
                     rec = tgt_rec s req;
                     st = tcmd_state (km e) cmd
                 in if rec = None \<and> \<not> f_track_queues f then s
                    else if st = NVMET_TCP_SEND_R2T then on_rec rec (tstamp_ts NTP_T_R2T_SENT (now e)) s
                    else if st = NVMET_TCP_SEND_DATA_PDU then
                      let s = on_rec rec (tstamp_ts NTP_T_C2H_SENT (now e)) s
                      in if sq_sqhd_disabled (km e) (queue + off_tcp_queue_sq (km e))
                         then tgt_finish f e req (on_rec rec (tor_flags NTP_F_DATA_SUCCESS) s) else s
                    else if st = NVMET_TCP_SEND_RESPONSE then
                      tgt_finish f e req (on_rec rec (tset_ts NTP_T_RSP_SENT (now e)) s)
                    else s)"

subsection \<open>Programs\<close>

datatype ttcp_hook =
    User_arm env
  | User_disarm env
  | Ntp_t_req_init env u64 u64
  | Ntp_t_exec_bdev env u64 | Ntp_t_exec_file env u64 | Ntp_t_exec_pt env u64
  | Ntp_t_be_issue env u64 | Ntp_t_be_done env u64 | Ntp_t_complete env u64
  | Ntp_t_copy env u64 s32 | Ntp_t_copy_done env s32
  | Ntp_t_queue_resp env u64
  | Ntp_t_h2c env u64
  | Ntp_t_sendmsg env u64 | Ntp_t_sendpage env u64

primrec ttcp_step ::
  "ntp_filter \<Rightarrow> ttcp_hook \<Rightarrow> 'a tcp_tgt_state_scheme \<Rightarrow> 'a tcp_tgt_state_scheme" where
  "ttcp_step f (User_arm e) s = s\<lparr>ntp_armed := True\<rparr>"
| "ttcp_step f (User_disarm e) s = s\<lparr>ntp_armed := False\<rparr>"
| "ttcp_step f (Ntp_t_req_init e req cmd) s = ntp_t_req_init (tcp_target f) f e req cmd s"
| "ttcp_step f (Ntp_t_exec_bdev e req) s = on_exec e req s"
| "ttcp_step f (Ntp_t_exec_file e req) s = on_exec e req s"
| "ttcp_step f (Ntp_t_exec_pt e req) s = on_exec e req s"
| "ttcp_step f (Ntp_t_be_issue e rq) s = ntp_t_be_issue e rq s"
| "ttcp_step f (Ntp_t_be_done e rq) s = ntp_t_be_done e rq s"
| "ttcp_step f (Ntp_t_complete e req) s = ntp_t_complete e req s"
| "ttcp_step f (Ntp_t_copy e skb offset) s = on_copy e skb offset s"
| "ttcp_step f (Ntp_t_copy_done e ret) s = on_copy_done f e ret s"
| "ttcp_step f (Ntp_t_queue_resp e req) s = on_queue_resp f e req s"
| "ttcp_step f (Ntp_t_h2c e cmd) s = on_h2c f e cmd s"
| "ttcp_step f (Ntp_t_sendmsg e sock) s = on_sendmsg f e sock s"
| "ttcp_step f (Ntp_t_sendpage e sock) s = on_sendmsg f e sock s"

text \<open>What the kernel guarantees: the request that arrives, and the one being sent, are not null.\<close>

definition sending :: "env \<Rightarrow> u64 \<Rightarrow> u64" where
  "sending e sock = req_of e (ttq_snd_cmd (km e) (sk_user_data (km e) (sock_sk (km e) sock)))"

fun ttcp_ok :: "ttcp_hook \<Rightarrow> bool" where
  "ttcp_ok (Ntp_t_req_init e req cmd) \<longleftrightarrow> req \<noteq> 0"
| "ttcp_ok (Ntp_t_sendmsg e sock) \<longleftrightarrow> sending e sock \<noteq> 0"
| "ttcp_ok (Ntp_t_sendpage e sock) \<longleftrightarrow> sending e sock \<noteq> 0"
| "ttcp_ok _ \<longleftrightarrow> True"

definition ttcp_init :: tcp_tgt_state where
  "ttcp_init = \<lparr>ntp_armed = False, ntp_inflight = 0, counters = (\<lambda>_. 0), treqs = (\<lambda>_. zero_tgt_entry),
     tqstats = [], tcounted = [],
     tgt_ctx = (\<lambda>_. \<lparr>tx_tid = 0, tx_queue = 0, tx_sk = 0, tx_last_skb = 0, tx_arrival = 0\<rparr>), tevents = [],
     tcp_rx = (\<lambda>_. \<lparr>tr_tid = 0, tr_skb = 0, tr_sk = 0, tr_enter = 0, tr_offset = 0\<rparr>), tqueues = []\<rparr>"

lemma ttcp_init_fresh: "tgt_fresh ttcp_init"
  by (simp add: ttcp_init_def tgt_fresh_def)

subsection \<open>Every hook is made of moves\<close>

lemma tstamped_ttcp [simp]: "tstamped s (s\<lparr>tcp_rx := a\<rparr>)" "tstamped s (s\<lparr>tqueues := b\<rparr>)"
  by (simp_all add: tstamped_def)

lemma trec_ext_copied: "trec_ext x (copied f e r x)"
proof -
  have "trec_ext x (tset_ts NTP_T_DATA_LAST_ARR a (tset_ts NTP_T_DATA_DONE b (x\<lparr>t_h2c_busy_ns := c, t_h2c_skbs := d\<rparr>)))" for a b c d
    by (rule trec_ext_trans [OF _ trec_ext_set_ts]) (simp_all add: trec_ext_trans [OF _ trec_ext_set_ts] tfirst_only_def)
  then show ?thesis by (simp add: copied_def Let_def)
qed

lemma tstamped_on_copy_done: "tstamped s (on_copy_done f e ret s)"
  unfolding on_copy_done_def Let_def
  by (auto split: option.split intro!: tstamped_trans [OF tstamped_ttcp(1) tstamped_trec_upd] trec_ext_copied)

lemma trec_ext_h2c: "trec_ext x (h2c a e x)"
proof -
  have arr: "trec_ext y (tset_ts NTP_T_DATA_ARR a (tor_flags NTP_F_R2T y))" for y
    by (rule trec_ext_trans [OF trec_ext_or_flags trec_ext_set_ts]) (simp_all add: tfirst_only_def)
  have "trec_ext x (tset_ts NTP_T_DATA_PROC (now e) (tset_ts NTP_T_DATA_ARR a (tor_flags NTP_F_R2T x)))"
    if "t_ts x NTP_T_DATA_PROC = 0"
    using that by (intro trec_ext_trans [OF arr trec_ext_set_ts]) (simp add: tset_ts_def tor_flags_def)
  then show ?thesis by (simp add: h2c_def trec_ext_or_flags)
qed

lemma tstamped_stamp: "tstamped s (trec_upd slot (tstamp_ts t v) s)"
  by (intro tstamped_trec_upd trec_ext_stamp_ts)

lemma tstamped_on_rec:
  "(\<And>r. trec_ext r (g r)) \<Longrightarrow> tstamped s s' \<Longrightarrow> tstamped s (on_rec rec g s')"
  by (auto simp: on_rec_def split: option.split intro: tstamped_trans [OF _ tstamped_trec_upd])

lemma tstamped_on_queue_resp: "tstamped s (on_queue_resp f e req s)"
  by (simp add: on_queue_resp_def Let_def tstamped_on_rec trec_ext_stamp_ts tstamped_queues)

lemma tstamped_on_h2c: "tstamped s (on_h2c f e cmd s)"
  by (simp add: on_h2c_def tstamped_trec_upd trec_ext_h2c split: option.split)

lemma tmoves_on_sendmsg:
  assumes "sending e sock \<noteq> 0"
  shows "tgt_moves tr f' s (on_sendmsg f e sock s)"
proof -
  let ?req = "sending e sock"
  have fin: "tgt_moves tr f' s (tgt_finish f e ?req s')" if "tstamped s s'" for s' :: "'a tcp_tgt_state_scheme"
    using tmove_stamped [OF that] tmove_finish [OF assms] by (rule rtranclp_trans)
  have stamp: "trec_ext r (tset_ts NTP_T_RSP_SENT v r)" "trec_ext r (tor_flags NTP_F_DATA_SUCCESS r)" for r v
    by (simp_all add: trec_ext_set_ts trec_ext_or_flags tfirst_only_def)
  show ?thesis
    by (simp add: on_sendmsg_def Let_def sending_def [symmetric] fin tmove_stamped tstamped_on_rec
        trec_ext_stamp_ts stamp)
qed

lemma tcp_target_ok: "tgt_obj_ok (tcp_target f)"
  by (simp add: tgt_obj_ok_def tcp_target_def tgt_is_ours_def tgt_sampled_def remember_queue_def Let_def)

interpretation ttcp: tgt_object NTP_TR_TCP f "ttcp_step f" ttcp_ok "\<lambda>_. True" for f
proof
  fix ev and s :: "'a tcp_tgt_state_scheme"
  assume ok: "ttcp_ok ev"
  have init: "tgt_moves NTP_TR_TCP f s (ntp_t_req_init (tcp_target f) f e req cmd s)" if "req \<noteq> 0" for e req cmd
    using tmove_req_init [OF tcp_target_ok that, of f f s e cmd] by (simp add: tcp_target_def)
  show "tgt_moves NTP_TR_TCP f s (ttcp_step f ev s)"
    using ok by (cases ev)
      (simp_all add: init tmoves_on_sendmsg tmove_stamped tstamped_backend on_copy_def tstamped_on_copy_done
        tstamped_on_queue_resp tstamped_on_h2c)
qed simp

subsection \<open>Properties\<close>

definition ttcp_run :: "ntp_filter \<Rightarrow> ttcp_hook list \<Rightarrow> tcp_tgt_state" where
  "ttcp_run f evs = fold (ttcp_step f) evs ttcp_init"

lemma ttcp_run_inv: "list_all ttcp_ok evs \<Longrightarrow> tgt_inv (ttcp_run f evs)"
  unfolding ttcp_run_def by (rule ttcp.run_tgt_inv) (simp_all add: tgt_inv_fresh ttcp_init_fresh)

text \<open>
  A concrete target: one queue at 0x5000 with its socket at 0x70, and a read command whose request
  is at 0x3000 and whose response is the next thing to send.
\<close>

definition ext_km :: kmem where
  "ext_km = zero_km\<lparr>off_tcp_cmd_req := 0x10, off_tcp_queue_sq := 8, nreq_sq := \<lambda>_. 0x5008, sq_qid := \<lambda>_. 1,
     ttq_sock := \<lambda>_. 0x70, sock_sk := \<lambda>_. 0x71, sk_user_data := \<lambda>_. 0x5000, ttq_snd_cmd := \<lambda>_. 0x2ff0,
     tcmd_state := \<lambda>_. NVMET_TCP_SEND_RESPONSE,
     nvme_cmd_at := \<lambda>_. Some \<lparr>c_opcode = NTP_NVME_CMD_READ, c_command_id = 1, c_nsid = 1,
       c_dptr1 = 0, c_slba = 0, c_length = 7\<rparr>\<rparr>"

definition ext_env :: "u64 \<Rightarrow> env" where
  "ext_env t = \<lparr>cpu = 0, tid = 7, now = t, rb_ok = True, km = ext_km, lru_victim = 0\<rparr>"

definition ext_run :: "ttcp_hook list" where
  "ext_run = [User_arm (ext_env 10), Ntp_t_req_init (ext_env 20) 0x3000 1, Ntp_t_exec_bdev (ext_env 30) 0x3000]"

lemma ext_env_simps:
  "cpu (ext_env t) = 0" "tid (ext_env t) = 7" "now (ext_env t) = t" "rb_ok (ext_env t)" "km (ext_env t) = ext_km"
  by (simp_all add: ext_env_def)

lemma ext_km_simps:
  "off_tcp_cmd_req ext_km = 0x10" "off_tcp_queue_sq ext_km = 8" "nreq_sq ext_km a = 0x5008"
  "sq_qid ext_km a = 1" "ttq_sock ext_km a = 0x70" "sock_sk ext_km a = 0x71" "sk_user_data ext_km a = 0x5000"
  "ttq_snd_cmd ext_km a = 0x2ff0" "tcmd_state ext_km a = NVMET_TCP_SEND_RESPONSE" "tcmd_offset ext_km a = 0"
  "nvme_cmd_at ext_km a = Some \<lparr>c_opcode = NTP_NVME_CMD_READ, c_command_id = 1, c_nsid = 1,
     c_dptr1 = 0, c_slba = 0, c_length = 7\<rparr>"
  by (simp_all add: ext_km_def zero_km_def)

lemma ext_slot: "ntp_slot 0x3000 NTP_REC_SLOTS = 0x4c0"
  by code_simp

lemmas ext_eval =
  ttcp_run_def ext_run_def ttcp_init_def ext_env_simps ext_km_simps ext_slot default_filter_def
  ntp_t_req_init_def tcp_target_def tgt_is_ours_def tgt_sampled_def remember_queue_def lru_update_def
  queue_of_sq_def rx_arrival_def ntp_ctx_get_def count_arrival_def emit_reused_def ntp_read_cmd_def
  tgt_selected_def ntp_is_rw_def io_type_matches_def ntp_sampled_def tgt_take_slot_def tgt_new_rec_def
  zero_rec_defs zero_tgt_entry_def ntp_count_def ntp_inflight_add_def on_exec_def tgt_rec_def tgt_entry_def
  trec_upd_def tset_ts_def ntp_defs TQUEUES_MAX_def Let_def

lemma ext_run_state:
  "ntp_inflight (ttcp_run default_filter ext_run) = 1" "ntp_armed (ttcp_run default_filter ext_run)"
  "tgt_entry (ttcp_run default_filter ext_run) 0x3000 = Some 0x4c0"
  "tqueues (ttcp_run default_filter ext_run) = [(0x5000, 0x70)]"
  by (simp_all add: ext_eval cong: if_weak_cong option.case_cong_weak)

lemma ext_run_ok: "list_all ttcp_ok ext_run"
  by (simp add: ext_run_def)

text \<open>After any sequence of hooks of the NVMe/TCP target object the records in flight are the
  slots taken, every record sits in the slot of its request, the counters account for every sampled
  command, and every record handed over is a target record of a read or write that the filter's
  direction and sampling select, with flags that say its direction and whether queues were tracked.\<close>

theorem tcp_target_accounts:
  assumes "list_all ttcp_ok evs"
  shows "unat (ntp_inflight (ttcp_run f evs)) = card (occupied te_req (treqs (ttcp_run f evs))) \<and>
    homed te_req (treqs (ttcp_run f evs)) \<and>
    counter_total (ttcp_run f evs) NTP_CNT_TGT_SAMPLED =
      counter_total (ttcp_run f evs) NTP_CNT_TGT_EMITTED + counter_total (ttcp_run f evs) NTP_CNT_RB_DROPS +
      counter_total (ttcp_run f evs) NTP_CNT_STALE + ntp_inflight (ttcp_run f evs) \<and>
    (\<forall>r \<in> set (tevents (ttcp_run f evs)). tgt_rec_ok NTP_TR_TCP f r)"
proof -
  have "trecs_ok NTP_TR_TCP f (ttcp_run f evs)"
    unfolding ttcp_run_def using assms by (rule ttcp.run_trecs_ok) (simp_all add: trecs_ok_fresh ttcp_init_fresh)
  then show ?thesis
    using ttcp_run_inv [OF assms, of f] by (simp add: tgt_inv_def trecs_ok_def unat_inflight)
qed

theorem tcp_target_accounts_witness:
  "list_all ttcp_ok ext_run \<and> card (occupied te_req (treqs (ttcp_run default_filter ext_run))) = 1"
  using tcp_target_accounts [OF ext_run_ok, of default_filter] ext_run_ok by (simp add: ext_run_state)

text \<open>A record is never continued by another command: when a request that still has a record
  arrives with a new command, that record is handed over first, unchanged but for its mark, and whatever
  the table holds for this request afterwards was started by the new command, at this moment.\<close>

theorem tcp_target_reuse:
  assumes "list_all ttcp_ok evs" and "req \<noteq> 0" and "tgt_entry (ttcp_run f evs) req = Some slot"
    and "ntp_armed (ttcp_run f evs)" and "sq_qid (km e) (nreq_sq (km e) req) \<noteq> 0"
    and "fst (tgt_is_ours f e req (nreq_sq (km e) req) (ttcp_run f evs))" and "rb_ok e"
  shows "(\<exists>r. tevents (ttcp_run f (evs @ [Ntp_t_req_init e req cmd])) = tevents (ttcp_run f evs) @ [r] \<and>
      trec_ext (te_rec (treqs (ttcp_run f evs) slot)) r \<and> tgt_flag r NTP_F_REUSED) \<and>
    (tgt_entry (ttcp_run f (evs @ [Ntp_t_req_init e req cmd])) req = None \<or>
     t_ts (te_rec (treqs (ttcp_run f (evs @ [Ntp_t_req_init e req cmd])) slot)) NTP_T_CMD_PROC = now e)"
proof -
  have ours: "fst (to_is_ours (tcp_target f) e req (nreq_sq (km e) req) (ttcp_run f evs))"
    using assms(6) by (simp add: tcp_target_def)
  note reused = req_init_reused [OF tcp_target_ok ttcp_run_inv [OF assms(1)] assms(2-5) ours assms(7), of f cmd]
  have run: "ttcp_run f (evs @ [Ntp_t_req_init e req cmd]) = ntp_t_req_init (tcp_target f) f e req cmd (ttcp_run f evs)"
    by (simp add: ttcp_run_def)
  have slot: "slot = ntp_slot req NTP_REC_SLOTS" using assms(3) by (simp add: tgt_entry_Some)
  show ?thesis unfolding run using reused slot
    by (cases "tgt_entry (ntp_t_req_init (tcp_target f) f e req cmd (ttcp_run f evs)) req")
      (auto simp: tgt_entry_Some)
qed

theorem tcp_target_reuse_witness:
  "\<exists>r. tevents (ttcp_run default_filter (ext_run @ [Ntp_t_req_init (ext_env 40) 0x3000 1])) =
       tevents (ttcp_run default_filter ext_run) @ [r] \<and> tgt_flag r NTP_F_REUSED"
  using tcp_target_reuse [OF ext_run_ok, of "0x3000" default_filter "0x4c0" "ext_env 40" 1] ext_run_state(2,3)
  by (auto simp: ext_env_simps ext_km_simps tgt_is_ours_def queue_of_sq_def)

subsection \<open>The sockets of the queues\<close>

text \<open>
  The kernel's view that a run relies on: request \<open>req\<close> belongs to queue \<open>qf req\<close>, and the socket of
  queue \<open>q\<close> is \<open>sockf q\<close>, whenever a command arrives.
\<close>

fun queues_stable :: "(u64 \<Rightarrow> u64) \<Rightarrow> (u64 \<Rightarrow> u64) \<Rightarrow> ttcp_hook \<Rightarrow> bool" where
  "queues_stable qf sockf (Ntp_t_req_init e req cmd) \<longleftrightarrow>
    queue_of_sq e (nreq_sq (km e) req) = qf req \<and> ttq_sock (km e) (qf req) = sockf (qf req)"
| "queues_stable qf sockf _ \<longleftrightarrow> True"

definition queues_known :: "(u64 \<Rightarrow> u64) \<Rightarrow> (u64 \<Rightarrow> u64) \<Rightarrow> 'a tcp_tgt_state_scheme \<Rightarrow> bool" where
  "queues_known qf sockf s \<longleftrightarrow>
    (\<forall>slot. te_req (treqs s slot) \<noteq> 0 \<longrightarrow>
       map_of (tqueues s) (qf (te_req (treqs s slot))) = Some (sockf (qf (te_req (treqs s slot)))))"

lemma map_of_lru_update:
  "map_of m k \<noteq> None \<or> length m < n \<Longrightarrow> map_of (lru_update e n k v m) = (map_of m)(k \<mapsto> v)"
  by (simp add: lru_update_def update_conv')

lemma queues_known_mono:
  assumes "queues_known qf sockf s" and "tqueues s' = tqueues s"
    and "\<And>slot. te_req (treqs s' slot) = te_req (treqs s slot) \<or> te_req (treqs s' slot) = 0"
  shows "queues_known qf sockf s'"
  using assms unfolding queues_known_def by metis

lemma queues_known_remember:
  assumes "queues_known qf sockf s" and "ttq_sock (km e) q = sockf q"
    and "map_of (tqueues s) q \<noteq> None \<or> length (tqueues s) < TQUEUES_MAX"
  shows "queues_known qf sockf (remember_queue e q s)"
    and "map_of (tqueues (remember_queue e q s)) q = Some (sockf q)"
  using assms by (auto simp: queues_known_def remember_queue_def map_of_lru_update)

lemma tqueues_frame [simp]:
  "tqueues (ntp_count e c v s) = tqueues s" "tqueues (ntp_inflight_add v' s) = tqueues s"
  "tqueues (trec_upd slot g s) = tqueues s" "tqueues (on_rec rec g s) = tqueues s"
  "tqueues (tgt_emit e req s) = tqueues s" "tqueues (emit_reused e req s) = tqueues s"
  "tqueues (uncount req bits forget s) = tqueues s" "tqueues (tgt_uncount f req s) = tqueues s"
  "tqueues (count_resp_queued req s) = tqueues s" "tqueues (tgt_finish f e req s) = tqueues s"
  by (simp_all add: ntp_count_def ntp_inflight_add_def trec_upd_def on_rec_def tgt_emit_def emit_reused_def
      uncount_def tgt_uncount_def count_resp_queued_def tgt_finish_def Let_def split: option.split)

lemma te_req_upd [simp]:
  "te_req (treqs (trec_upd slot g s) x) = te_req (treqs s x)" "te_req (treqs (on_rec rec g s) x) = te_req (treqs s x)"
  by (simp_all add: trec_upd_def on_rec_def split: option.split)

lemma te_req_uncount [simp]:
  "treqs (uncount req bits forget s) = treqs s" "treqs (tgt_uncount f req s) = treqs s"
  "treqs (count_resp_queued req s) = treqs s"
  by (simp_all add: uncount_def tgt_uncount_def count_resp_queued_def Let_def split: option.split)

lemma te_req_emit:
  "te_req (treqs (tgt_emit e req s) x) = te_req (treqs s x) \<or> te_req (treqs (tgt_emit e req s) x) = 0"
  "te_req (treqs (emit_reused e req s) x) = te_req (treqs s x) \<or> te_req (treqs (emit_reused e req s) x) = 0"
  by (simp_all add: tgt_emit_def emit_reused_def Let_def split: option.split)

lemma count_arrival_frame [simp]:
  "tqueues (snd (count_arrival f req sq s)) = tqueues s" "treqs (snd (count_arrival f req sq s)) = treqs s"
  by (simp_all add: count_arrival_def get_tqstat_def Let_def split: option.split)

lemma queues_known_req_init:
  assumes known: "queues_known qf sockf s" and room: "length (tqueues s) < TQUEUES_MAX"
    and queue: "queue_of_sq e (nreq_sq (km e) req) = qf req" "ttq_sock (km e) (qf req) = sockf (qf req)"
  shows "queues_known qf sockf (ntp_t_req_init (tcp_target f) f e req cmd s)"
proof -
  define sq where "sq = nreq_sq (km e) req"
  obtain ours s1 where s1: "tgt_is_ours f e req sq s = (ours, s1)" by fastforce
  have k1: "queues_known qf sockf s1 \<and> (map_of (tqueues s1) (qf req) \<noteq> None \<or> length (tqueues s1) < TQUEUES_MAX)"
    using s1 known room queues_known_remember [OF known queue(2)] queue(1)
    by (auto simp: tgt_is_ours_def sq_def Let_def split: if_splits)
  obtain q s2 where s2: "count_arrival f req sq s1 = (q, s2)" by fastforce
  define s3 where "s3 = emit_reused e req (ntp_count e NTP_CNT_TGT_CMDS 1 s2)"
  have same: "tqueues s2 = tqueues s1" "treqs s2 = treqs s1"
    using s2 count_arrival_frame [of f req sq s1] by simp_all
  have k3: "queues_known qf sockf s3"
    by (rule queues_known_mono [of _ _ s1]) (use k1 same te_req_emit(2) [of e req "ntp_count e NTP_CNT_TGT_CMDS 1 s2"] in \<open>simp_all add: s3_def\<close>)
  have t3: "map_of (tqueues s3) (qf req) \<noteq> None \<or> length (tqueues s3) < TQUEUES_MAX"
    using k1 same by (simp add: s3_def)
  obtain arr s4 where s4: "tgt_sampled f e req sq (now e) s3 = (arr, s4)" by fastforce
  then have "s4 = remember_queue e (qf req) s3" using queue(1) by (simp add: tgt_sampled_def sq_def Let_def)
  then have k4: "queues_known qf sockf s4" "map_of (tqueues s4) (qf req) = Some (sockf (qf req))"
    using queues_known_remember [OF k3 queue(2) t3] by simp_all
  have "queues_known qf sockf (tgt_take_slot e req r s4)" for r
    using k4 by (simp add: queues_known_def tgt_take_slot_def Let_def)
  then show ?thesis
    unfolding ntp_t_req_init_def sq_def [symmetric] Let_def
    using known k1 k3 by (cases q) (simp add: tcp_target_def s1 s2 s3_def [symmetric] s4 split: option.split)
qed

lemma queues_known_same:
  "tqueues s' = tqueues s \<Longrightarrow> (\<And>x. te_req (treqs s' x) = te_req (treqs s x)) \<Longrightarrow>
    queues_known qf sockf s' = queues_known qf sockf s"
  by (simp add: queues_known_def)

lemma queues_known_stamps [simp]:
  "queues_known qf sockf (s\<lparr>ntp_armed := b\<rparr>) = queues_known qf sockf s"
  "queues_known qf sockf (on_exec e req s) = queues_known qf sockf s"
  "queues_known qf sockf (ntp_t_be_issue e rq s) = queues_known qf sockf s"
  "queues_known qf sockf (ntp_t_be_done e rq s) = queues_known qf sockf s"
  "queues_known qf sockf (ntp_t_complete e req s) = queues_known qf sockf s"
  "queues_known qf sockf (on_copy e skb offset s) = queues_known qf sockf s"
  "queues_known qf sockf (on_copy_done f e ret s) = queues_known qf sockf s"
  "queues_known qf sockf (on_queue_resp f e req s) = queues_known qf sockf s"
  "queues_known qf sockf (on_h2c f e cmd s) = queues_known qf sockf s"
  by (rule queues_known_same;
    simp add: on_exec_def ntp_t_be_issue_def ntp_t_be_done_def ntp_t_complete_def on_copy_def on_copy_done_def
      on_queue_resp_def on_h2c_def Let_def split: option.split)+

lemma queues_known_finish: "queues_known qf sockf s \<Longrightarrow> queues_known qf sockf (tgt_finish f e req s)"
  by (rule queues_known_mono [of _ _ s])
    (use te_req_emit(1) [of e req "tgt_uncount f req s"] in \<open>simp_all add: tgt_finish_def\<close>)

lemma queues_known_on_rec: "queues_known qf sockf (on_rec rec g s) = queues_known qf sockf s"
  by (rule queues_known_same) simp_all

lemma queues_known_on_sendmsg: "queues_known qf sockf s \<Longrightarrow> queues_known qf sockf (on_sendmsg f e sock s)"
  by (simp add: on_sendmsg_def Let_def queues_known_finish queues_known_on_rec)

lemma queues_known_step:
  assumes "queues_known qf sockf s" and "length (tqueues s) < TQUEUES_MAX" and "queues_stable qf sockf ev"
  shows "queues_known qf sockf (ttcp_step f ev s)"
  using assms by (cases ev) (simp_all add: queues_known_req_init queues_known_on_sendmsg)

lemma queues_known_run:
  assumes "list_all (queues_stable qf sockf) evs"
    and "\<And>n. n < length evs \<Longrightarrow> length (tqueues (ttcp_run f (take n evs))) < TQUEUES_MAX"
  shows "queues_known qf sockf (ttcp_run f evs)"
  using assms
proof (induction evs rule: rev_induct)
  case Nil
  show ?case by (simp add: queues_known_def ttcp_run_def ttcp_init_def zero_tgt_entry_def)
next
  case (snoc ev evs)
  have "queues_known qf sockf (ttcp_run f evs)"
  proof (rule snoc.IH)
    show "length (tqueues (ttcp_run f (take n evs))) < TQUEUES_MAX" if "n < length evs" for n
      using snoc.prems(2) [of n] that by simp
  qed (use snoc.prems(1) in simp)
  moreover have "length (tqueues (ttcp_run f evs)) < TQUEUES_MAX" using snoc.prems(2) [of "length evs"] by simp
  ultimately have "queues_known qf sockf (ttcp_step f ev (ttcp_run f evs))"
    using snoc.prems(1) by (intro queues_known_step) simp_all
  then show ?case by (simp add: ttcp_run_def)
qed

text \<open>The queue \<open>q\<close>, through its socket, starts to send the response of request \<open>req\<close>.\<close>

definition starts_response :: "env \<Rightarrow> u64 \<Rightarrow> u64 \<Rightarrow> u64 \<Rightarrow> bool" where
  "starts_response e sock q req \<longleftrightarrow>
    sk_user_data (km e) (sock_sk (km e) sock) = q \<and> ttq_snd_cmd (km e) q = cmd_of e req \<and> cmd_of e req \<noteq> 0 \<and>
    tcmd_offset (km e) (cmd_of e req) = 0 \<and> tcmd_state (km e) (cmd_of e req) = NVMET_TCP_SEND_RESPONSE"

lemma tgt_emit_drops:
  "tgt_entry s req = Some slot \<Longrightarrow> counter_total (tgt_emit e req s) NTP_CNT_RB_DROPS =
    counter_total s NTP_CNT_RB_DROPS + (if rb_ok e then 0 else 1)"
  by (simp add: tgt_emit_def Let_def trec_upd_def counter_total_count)

text \<open>\<^bold>\<open>C32.\<close> Sending the response ends the record. Take any run in which each request stays with its
  queue and each queue with its socket, and the map of sockets never filled up. When a request has a record in
  the table and its queue starts to send its response, the record leaves the table at this moment: it is handed
  over, or counted as dropped when the ring buffer has no room. It continues the one in the table, and its
  response time is this moment. That the object recognises the socket is not assumed: sampling the command made
  it remember the queue.\<close>

theorem tcp_target_response:
  fixes e :: env
  assumes "list_all ttcp_ok evs" and "list_all (queues_stable qf sockf) evs"
    and "\<And>n. n < length evs \<Longrightarrow> length (tqueues (ttcp_run f (take n evs))) < TQUEUES_MAX"
    and "req \<noteq> 0" and "tgt_entry (ttcp_run f evs) req = Some slot"
    and "starts_response e (sockf (qf req)) (qf req) req"
  defines "s \<equiv> ttcp_run f evs" and "s' \<equiv> ttcp_run f (evs @ [Ntp_t_sendmsg e (sockf (qf req))])"
  shows "\<exists>r. tevents s' = tevents s @ (if rb_ok e then [r] else []) \<and>
    counter_total s' NTP_CNT_RB_DROPS = counter_total s NTP_CNT_RB_DROPS + (if rb_ok e then 0 else 1) \<and>
    trec_ext (te_rec (treqs s slot)) r \<and> t_ts r NTP_T_RSP_SENT = now e \<and> tgt_entry s' req = None"
proof -
  let ?sock = "sockf (qf req)"
  let ?t = "tgt_uncount f req (trec_upd slot (tset_ts NTP_T_RSP_SENT (now e)) s)"
  have entry_s: "tgt_entry s req = Some slot" using assms(5) by (simp add: s_def)
  have held: "te_req (treqs s slot) = req" using entry_s by (auto simp: tgt_entry_Some)
  have "map_of (tqueues s) (qf req) = Some ?sock"
    using queues_known_run [OF assms(2,3)] held assms(4) unfolding queues_known_def s_def by metis
  moreover have "ntp_inflight s \<noteq> 0"
    using tgt_inv_busy [OF ttcp_run_inv [OF assms(1)] assms(5,4)] by (simp add: s_def)
  moreover have "req_of e (cmd_of e req) = req" by (simp add: req_of_def cmd_of_def)
  ultimately have run: "s' = tgt_emit e req ?t"
    using assms(6) entry_s
    by (simp add: s'_def s_def ttcp_run_def on_sendmsg_def Let_def ntp_idle_def tgt_finish_def on_rec_def
        tgt_rec_def nvmet_states starts_response_def)
  have sent: "tstamped s (trec_upd slot (tset_ts NTP_T_RSP_SENT (now e)) s)"
    by (intro tstamped_trec_upd trec_ext_set_ts) (simp add: tfirst_only_def)
  have st: "tstamped s ?t" by (rule tstamped_trans [OF sent tstamped_queues(3)])
  then have entry: "tgt_entry ?t req = Some slot" using entry_s tstamped_entry by metis
  let ?r = "(te_rec (treqs ?t slot))\<lparr>t_hdr := (t_hdr (te_rec (treqs ?t slot)))\<lparr>hdr_cpu := cpu e\<rparr>\<rparr>"
  have "tevents s' = tevents s @ (if rb_ok e then [?r] else [])"
    using tgt_emit_events(1) [OF entry, of e] st by (simp add: run tstamped_def)
  moreover have "counter_total s' NTP_CNT_RB_DROPS = counter_total s NTP_CNT_RB_DROPS + (if rb_ok e then 0 else 1)"
    using tgt_emit_drops [OF entry, of e] st by (simp add: run tstamped_def counter_total_def)
  moreover have "trec_ext (te_rec (treqs s slot)) ?r" using tstamped_ext [OF st] by simp
  moreover have "t_ts ?r NTP_T_RSP_SENT = now e" by (simp add: trec_upd_def tset_ts_def)
  ultimately show ?thesis using tgt_emit_events(2) [OF entry assms(4), of e] unfolding run by blast
qed

theorem tcp_target_response_witness:
  "\<exists>r. tevents (ttcp_run default_filter (ext_run @ [Ntp_t_sendmsg (ext_env 50) 0x70])) =
       tevents (ttcp_run default_filter ext_run) @ [r] \<and> t_ts r NTP_T_RSP_SENT = 50"
proof -
  let ?qf = "\<lambda>_. 0x5000 :: u64" and ?sockf = "\<lambda>_. 0x70 :: u64"
  have stable: "list_all (queues_stable ?qf ?sockf) ext_run"
    by (simp add: ext_run_def queue_of_sq_def ext_env_simps ext_km_simps)
  have room: "length (tqueues (ttcp_run default_filter (take n ext_run))) < TQUEUES_MAX" if "n < length ext_run" for n
  proof -
    have "n \<in> {0, 1, 2}" using that by (auto simp: ext_run_def)
    then show ?thesis by (auto simp: ext_eval cong: if_weak_cong option.case_cong_weak)
  qed
  have starts: "starts_response (ext_env 50) 0x70 0x5000 0x3000"
    by (simp add: starts_response_def cmd_of_def ext_env_simps ext_km_simps)
  show ?thesis
    using tcp_target_response [OF ext_run_ok stable room, of "0x3000" "0x4c0" "ext_env 50"] starts ext_run_state(3)
    by (auto simp: ext_env_simps)
qed

end
