(* ===== verification/Bpf_Rdma_Target.thy ===== *)
theory Bpf_Rdma_Target
  imports Bpf_Target
begin

text \<open>
  The NVMe/RDMA target object (\<^verbatim>\<open>src/bpf/nvme_rdma_target.bpf.c\<close>). A record is handed over at
  the later of two events, the return of the function that posts the response and the send
  completion, which may be seen in either order.
\<close>

subsection \<open>State\<close>

record resp_ctx =
  rc_tid :: u64
  rc_req :: u64

record rdma_tgt_state = tgt_state +
  resp_ctx :: "u32 \<Rightarrow> resp_ctx"

definition NVMET_RDMA_REQ_INLINE_DATA :: u32 where "NVMET_RDMA_REQ_INLINE_DATA = 1"

subsection \<open>Command arrival\<close>

definition tgt_is_ours :: "env \<Rightarrow> u64 \<Rightarrow> u64 \<Rightarrow> 'a tgt_state_scheme \<Rightarrow> bool \<times> 'a tgt_state_scheme" where
  "tgt_is_ours e req sq s = (ntp_ctx_get e tx_tid (tgt_ctx s) \<noteq> None, s)"

definition tgt_sampled ::
  "ntp_filter \<Rightarrow> env \<Rightarrow> u64 \<Rightarrow> u64 \<Rightarrow> u64 \<Rightarrow> 'a tgt_state_scheme \<Rightarrow> u64 \<times> 'a tgt_state_scheme" where
  "tgt_sampled f e req sq tnow s =
    (case ntp_ctx_get e tx_tid (tgt_ctx s) of
       None \<Rightarrow> (tnow, s)
     | Some c \<Rightarrow> (tgt_arrival f e c tnow, s))"

definition rdma_target :: "ntp_filter \<Rightarrow> 'a rdma_tgt_state_scheme tgt_obj" where
  "rdma_target f = \<lparr>to_transport = NTP_TR_RDMA, to_is_ours = tgt_is_ours, to_sampled = tgt_sampled f\<rparr>"

definition req_of_rsp :: "env \<Rightarrow> u64 \<Rightarrow> u64" where
  "req_of_rsp e rsp = rsp + off_rdma_rsp_req (km e)"

definition on_recv_done :: "env \<Rightarrow> u64 \<Rightarrow> 'a tgt_state_scheme \<Rightarrow> 'a tgt_state_scheme" where
  "on_recv_done e wc s = tgt_ctx_enter e (wc_qp_context (km e) wc) 0 (now e) s"

subsection \<open>Write data\<close>

definition execute_rec :: "env \<Rightarrow> u64 \<Rightarrow> u64 \<Rightarrow> ntp_tgt_rec \<Rightarrow> ntp_tgt_rec" where
  "execute_rec e req rsp x =
    (if \<not> tgt_flag x NTP_F_WRITE then x
     else if nreq_transfer_len (km e) req = 0 \<or> has_flag (rsp_flags (km e) rsp) NVMET_RDMA_REQ_INLINE_DATA
     then tor_flags NTP_F_INLINE_DATA x
     else tstamp_ts NTP_T_R2T_SENT (now e) (tor_flags NTP_F_RDMA_READ x))"

definition on_execute :: "env \<Rightarrow> u64 \<Rightarrow> 'a tgt_state_scheme \<Rightarrow> 'a tgt_state_scheme" where
  "on_execute e rsp s =
    (if ntp_inflight s = 0 then s
     else
       case tgt_rec s (req_of_rsp e rsp) of
         None \<Rightarrow> s
       | Some slot \<Rightarrow> trec_upd slot (execute_rec e (req_of_rsp e rsp) rsp) s)"

definition on_read_done :: "env \<Rightarrow> u64 \<Rightarrow> 'a tgt_state_scheme \<Rightarrow> 'a tgt_state_scheme" where
  "on_read_done e wc s =
    (if ntp_inflight s = 0 then s
     else
       let rsp = wc_wr_cqe (km e) wc - off_rdma_read_cqe (km e)
       in case tgt_rec s (req_of_rsp e rsp) of
            None \<Rightarrow> s
          | Some slot \<Rightarrow>
              if t_ts (te_rec (treqs s slot)) NTP_T_DATA_PROC \<noteq> 0 then s
              else trec_upd slot (\<lambda>x. tset_ts NTP_T_DATA_PROC (now e) (tset_ts NTP_T_DATA_ARR (now e) x)) s)"

subsection \<open>Response\<close>

definition on_queue_resp ::
  "ntp_filter \<Rightarrow> env \<Rightarrow> u64 \<Rightarrow> 'a tgt_state_scheme \<Rightarrow> 'a tgt_state_scheme" where
  "on_queue_resp f e req s =
    (if ntp_idle f s then s
     else
       let s = (if f_track_queues f then count_resp_queued req s else s)
       in case tgt_rec s req of
            None \<Rightarrow> s
          | Some slot \<Rightarrow> trec_upd slot (tstamp_ts NTP_T_RSP_QUEUED (now e)) s)"

definition RSP_POSTED :: u32 where "RSP_POSTED = 1"
definition RSP_SEND_DONE :: u32 where "RSP_SEND_DONE = 2"

definition rsp_part_done :: "env \<Rightarrow> u64 \<Rightarrow> u32 \<Rightarrow> 'a tgt_state_scheme \<Rightarrow> 'a tgt_state_scheme" where
  "rsp_part_done e req part s =
    (case tgt_entry s req of
       None \<Rightarrow> s
     | Some slot \<Rightarrow>
         let parts = te_parts (treqs s slot) OR part;
             s = s\<lparr>treqs := (treqs s)(slot := (treqs s slot)\<lparr>te_parts := parts\<rparr>)\<rparr>
         in if parts = RSP_POSTED OR RSP_SEND_DONE then tgt_emit e req s else s)"

definition posted_rec :: "env \<Rightarrow> ntp_tgt_rec \<Rightarrow> ntp_tgt_rec" where
  "posted_rec e x =
    tset_ts NTP_T_RSP_SENT (now e) (if tgt_flag x NTP_F_WRITE then x else tset_ts NTP_T_C2H_SENT (now e) x)"

definition on_queue_resp_exit ::
  "ntp_filter \<Rightarrow> env \<Rightarrow> u64 \<Rightarrow> 'a tgt_state_scheme \<Rightarrow> 'a tgt_state_scheme" where
  "on_queue_resp_exit f e req s =
    (if ntp_idle f s then s
     else
       let s = (case tgt_rec s req of
                  None \<Rightarrow> s
                | Some slot \<Rightarrow> rsp_part_done e req RSP_POSTED (trec_upd slot (posted_rec e) s))
       in tgt_uncount f req s)"

definition on_send_done :: "env \<Rightarrow> u64 \<Rightarrow> 'a tgt_state_scheme \<Rightarrow> 'a tgt_state_scheme" where
  "on_send_done e wc s =
    (if ntp_inflight s = 0 then s
     else
       let rsp = wc_wr_cqe (km e) wc - off_rdma_send_cqe (km e);
           req = req_of_rsp e rsp
       in case tgt_rec s req of
            None \<Rightarrow> s
          | Some slot \<Rightarrow>
              rsp_part_done e req RSP_SEND_DONE (trec_upd slot (tstamp_ts NTP_T_SEND_DONE (now e)) s))"

definition ntp_tr_queue_resp_kp ::
  "ntp_filter \<Rightarrow> env \<Rightarrow> u64 \<Rightarrow> 'a rdma_tgt_state_scheme \<Rightarrow> 'a rdma_tgt_state_scheme" where
  "ntp_tr_queue_resp_kp f e req s =
    on_queue_resp f e req (s\<lparr>resp_ctx := (resp_ctx s)(cpu e := \<lparr>rc_tid = tid e, rc_req = req\<rparr>)\<rparr>)"

definition ntp_tr_queue_resp_kr ::
  "ntp_filter \<Rightarrow> env \<Rightarrow> 'a rdma_tgt_state_scheme \<Rightarrow> 'a rdma_tgt_state_scheme" where
  "ntp_tr_queue_resp_kr f e s =
    (case ntp_ctx_get e rc_tid (resp_ctx s) of
       None \<Rightarrow> s
     | Some c \<Rightarrow> on_queue_resp_exit f e (rc_req c) (s\<lparr>resp_ctx := (resp_ctx s)(cpu e := c\<lparr>rc_tid := 0\<rparr>)\<rparr>))"

subsection \<open>Programs\<close>

datatype trdma_hook =
    User_arm env
  | User_disarm env
  | Ntp_t_req_init env u64 u64
  | Ntp_t_exec_bdev env u64 | Ntp_t_exec_file env u64 | Ntp_t_exec_pt env u64
  | Ntp_t_be_issue env u64 | Ntp_t_be_done env u64 | Ntp_t_complete env u64
  | Ntp_tr_recv_done env u64 | Ntp_tr_recv_done_exit env
  | Ntp_tr_execute env u64 | Ntp_tr_read_done env u64
  | Ntp_tr_queue_resp env u64 | Ntp_tr_queue_resp_fx env u64
  | Ntp_tr_queue_resp_kp env u64 | Ntp_tr_queue_resp_kr env
  | Ntp_tr_send_done env u64

primrec trdma_step ::
  "ntp_filter \<Rightarrow> trdma_hook \<Rightarrow> 'a rdma_tgt_state_scheme \<Rightarrow> 'a rdma_tgt_state_scheme" where
  "trdma_step f (User_arm e) s = s\<lparr>ntp_armed := True\<rparr>"
| "trdma_step f (User_disarm e) s = s\<lparr>ntp_armed := False\<rparr>"
| "trdma_step f (Ntp_t_req_init e req cmd) s = ntp_t_req_init (rdma_target f) f e req cmd s"
| "trdma_step f (Ntp_t_exec_bdev e req) s = on_exec e req s"
| "trdma_step f (Ntp_t_exec_file e req) s = on_exec e req s"
| "trdma_step f (Ntp_t_exec_pt e req) s = on_exec e req s"
| "trdma_step f (Ntp_t_be_issue e rq) s = ntp_t_be_issue e rq s"
| "trdma_step f (Ntp_t_be_done e rq) s = ntp_t_be_done e rq s"
| "trdma_step f (Ntp_t_complete e req) s = ntp_t_complete e req s"
| "trdma_step f (Ntp_tr_recv_done e wc) s = on_recv_done e wc s"
| "trdma_step f (Ntp_tr_recv_done_exit e) s = tgt_ctx_exit e s"
| "trdma_step f (Ntp_tr_execute e rsp) s = on_execute e rsp s"
| "trdma_step f (Ntp_tr_read_done e wc) s = on_read_done e wc s"
| "trdma_step f (Ntp_tr_queue_resp e req) s = on_queue_resp f e req s"
| "trdma_step f (Ntp_tr_queue_resp_fx e req) s = on_queue_resp_exit f e req s"
| "trdma_step f (Ntp_tr_queue_resp_kp e req) s = ntp_tr_queue_resp_kp f e req s"
| "trdma_step f (Ntp_tr_queue_resp_kr e) s = ntp_tr_queue_resp_kr f e s"
| "trdma_step f (Ntp_tr_send_done e wc) s = on_send_done e wc s"

definition sent_req :: "env \<Rightarrow> u64 \<Rightarrow> u64" where
  "sent_req e wc = req_of_rsp e (wc_wr_cqe (km e) wc - off_rdma_send_cqe (km e))"

text \<open>
  What the kernel guarantees: requests are not null. The kretprobe finds its request in the
  context, which is tagged with the thread's number; a thread with number 0, the idle task, cannot
  be told from a closed context, so that hook is taken to run on another thread.
\<close>

fun trdma_ok :: "trdma_hook \<Rightarrow> bool" where
  "trdma_ok (Ntp_t_req_init e req cmd) \<longleftrightarrow> req \<noteq> 0"
| "trdma_ok (Ntp_tr_queue_resp_fx e req) \<longleftrightarrow> req \<noteq> 0"
| "trdma_ok (Ntp_tr_queue_resp_kp e req) \<longleftrightarrow> req \<noteq> 0"
| "trdma_ok (Ntp_tr_queue_resp_kr e) \<longleftrightarrow> tid e \<noteq> 0"
| "trdma_ok (Ntp_tr_send_done e wc) \<longleftrightarrow> sent_req e wc \<noteq> 0"
| "trdma_ok _ \<longleftrightarrow> True"

definition resp_ok :: "'a rdma_tgt_state_scheme \<Rightarrow> bool" where
  "resp_ok s \<longleftrightarrow> (\<forall>c. rc_tid (resp_ctx s c) \<noteq> 0 \<longrightarrow> rc_req (resp_ctx s c) \<noteq> 0)"

definition trdma_init :: rdma_tgt_state where
  "trdma_init = \<lparr>ntp_armed = False, ntp_inflight = 0, counters = (\<lambda>_. 0), treqs = (\<lambda>_. zero_tgt_entry),
     tqstats = [], tcounted = [],
     tgt_ctx = (\<lambda>_. \<lparr>tx_tid = 0, tx_queue = 0, tx_sk = 0, tx_last_skb = 0, tx_arrival = 0\<rparr>), tevents = [],
     resp_ctx = (\<lambda>_. \<lparr>rc_tid = 0, rc_req = 0\<rparr>)\<rparr>"

lemma trdma_init_fresh: "tgt_fresh trdma_init" "resp_ok trdma_init"
  by (simp_all add: trdma_init_def tgt_fresh_def resp_ok_def)

subsection \<open>Every hook is made of moves\<close>

lemma tstamped_resp_ctx [simp]: "tstamped s (s\<lparr>resp_ctx := a\<rparr>)"
  by (simp add: tstamped_def)

lemma trec_ext_execute: "trec_ext x (execute_rec e req rsp x)"
  by (auto simp: execute_rec_def trec_ext_or_flags intro: trec_ext_trans [OF trec_ext_or_flags trec_ext_stamp_ts])

lemma trec_ext_posted: "trec_ext x (posted_rec e x)"
  unfolding posted_rec_def
  by (rule trec_ext_trans [OF _ trec_ext_set_ts]) (simp_all add: trec_ext_set_ts tfirst_only_def)

lemma tstamped_write_data: "tstamped s (on_execute e rsp s)" "tstamped s (on_read_done e wc s)"
proof -
  show "tstamped s (on_execute e rsp s)"
    by (simp add: on_execute_def tstamped_trec_upd trec_ext_execute split: option.split)
  have "trec_ext x (tset_ts NTP_T_DATA_PROC v (tset_ts NTP_T_DATA_ARR w x))" if "t_ts x NTP_T_DATA_PROC = 0" for x v w
    using that by (intro trec_ext_trans [OF trec_ext_set_ts trec_ext_set_ts]) (simp_all add: tfirst_only_def tset_ts_def)
  then show "tstamped s (on_read_done e wc s)"
    by (simp add: on_read_done_def Let_def tstamped_trec_upd split: option.split)
qed

lemma tstamped_rdma_queue_resp: "tstamped s (on_queue_resp f e req s)"
  by (auto simp: on_queue_resp_def Let_def tstamped_queues split: option.split
      intro: tstamped_trec_upd trec_ext_stamp_ts tstamped_trans [OF tstamped_queues(2) tstamped_trec_upd])

lemma tmoves_part_done:
  assumes "req \<noteq> 0"
  shows "tgt_moves tr f s (rsp_part_done e req part s)"
proof -
  have "tstamped s (s\<lparr>treqs := (treqs s)(slot := (treqs s slot)\<lparr>te_parts := p\<rparr>)\<rparr>)" for slot p
    by (simp add: tstamped_def)
  from tmove_stamped [OF this] show ?thesis
    by (auto simp: rsp_part_done_def Let_def split: option.split
        intro: rtranclp_trans [OF _ tmove_emit [OF assms]])
qed

lemma tmoves_queue_resp_exit:
  assumes "req \<noteq> 0"
  shows "tgt_moves tr f' s (on_queue_resp_exit f e req s)"
proof -
  have "tgt_moves tr f' s (rsp_part_done e req RSP_POSTED (trec_upd slot (posted_rec e) s))" for slot
    by (rule rtranclp_trans [OF tmove_stamped tmoves_part_done [OF assms]])
      (simp add: tstamped_trec_upd trec_ext_posted)
  then have "tgt_moves tr f' s (case tgt_rec s req of None \<Rightarrow> s
      | Some slot \<Rightarrow> rsp_part_done e req RSP_POSTED (trec_upd slot (posted_rec e) s))"
    by (simp split: option.split)
  then show ?thesis
    unfolding on_queue_resp_exit_def Let_def
    by (auto intro: rtranclp_trans [OF _ tmove_stamped [OF tstamped_queues(3)]])
qed

lemma tmoves_send_done:
  assumes "sent_req e wc \<noteq> 0"
  shows "tgt_moves tr f s (on_send_done e wc s)"
proof -
  have "tgt_moves tr f s (rsp_part_done e (sent_req e wc) RSP_SEND_DONE (trec_upd slot (tstamp_ts NTP_T_SEND_DONE (now e)) s))" for slot
    by (rule rtranclp_trans [OF tmove_stamped tmoves_part_done [OF assms]])
      (intro tstamped_trec_upd trec_ext_stamp_ts)
  then show ?thesis by (simp add: on_send_done_def Let_def sent_req_def [symmetric] split: option.split)
qed

lemma rdma_target_ok: "tgt_obj_ok (rdma_target f)"
  by (simp add: tgt_obj_ok_def rdma_target_def tgt_is_ours_def tgt_sampled_def split: option.split)

lemma resp_ctx_basic [simp]:
  "resp_ctx (trec_upd slot g s) = resp_ctx s" "resp_ctx (uncount req bits forget s) = resp_ctx s"
  "resp_ctx (count_resp_queued req s) = resp_ctx s" "resp_ctx (ntp_count e c v s) = resp_ctx s"
  "resp_ctx (ntp_inflight_add w s) = resp_ctx s" "resp_ctx (snd (get_tqstat sq s)) = resp_ctx s"
  by (simp_all add: trec_upd_def uncount_def count_resp_queued_def ntp_count_def ntp_inflight_add_def
      get_tqstat_def Let_def split: option.split)

lemma resp_ctx_emit [simp]:
  "resp_ctx (tgt_emit e req s) = resp_ctx s" "resp_ctx (tgt_uncount f req s) = resp_ctx s"
  "resp_ctx (tgt_take_slot e req r s) = resp_ctx s"
  by (simp_all add: tgt_emit_def tgt_uncount_def tgt_take_slot_def Let_def split: option.split)

lemma resp_ctx_hooks [simp]:
  "resp_ctx (rsp_part_done e req part s) = resp_ctx s" "resp_ctx (on_queue_resp f e req s) = resp_ctx s"
  "resp_ctx (emit_reused e req s) = resp_ctx s" "resp_ctx (on_exec e req s) = resp_ctx s"
  "resp_ctx (ntp_t_be_issue e rq s) = resp_ctx s" "resp_ctx (ntp_t_be_done e rq s) = resp_ctx s"
  "resp_ctx (ntp_t_complete e req s) = resp_ctx s" "resp_ctx (on_execute e rsp s) = resp_ctx s"
  "resp_ctx (on_read_done e wc s) = resp_ctx s" "resp_ctx (tgt_ctx_exit e s) = resp_ctx s"
  "resp_ctx (on_recv_done e wc s) = resp_ctx s"
  by (simp_all add: rsp_part_done_def on_queue_resp_def emit_reused_def on_exec_def ntp_t_be_issue_def
      ntp_t_be_done_def ntp_t_complete_def on_execute_def on_read_done_def tgt_ctx_exit_def on_recv_done_def
      tgt_ctx_enter_def Let_def split: option.split)

lemma resp_ctx_response [simp]:
  "resp_ctx (on_queue_resp_exit f e req s) = resp_ctx s" "resp_ctx (on_send_done e wc s) = resp_ctx s"
  by (simp_all add: on_queue_resp_exit_def on_send_done_def Let_def split: option.split)

lemma resp_ctx_count_arrival [simp]: "resp_ctx (snd (count_arrival f req sq s)) = resp_ctx s"
  using resp_ctx_basic(6) [of sq s]
  by (cases "get_tqstat sq s") (simp add: count_arrival_def Let_def split: option.split)

lemma resp_ctx_req_init [simp]: "resp_ctx (ntp_t_req_init (rdma_target f) f e req cmd s) = resp_ctx s"
  using resp_ctx_count_arrival [of f req "nreq_sq (km e) req" s]
  by (cases "count_arrival f req (nreq_sq (km e) req) s")
    (auto simp: ntp_t_req_init_def rdma_target_def tgt_is_ours_def tgt_sampled_def Let_def
      split: option.split prod.split)

lemma resp_ok_frame: "resp_ctx s' = resp_ctx s \<Longrightarrow> resp_ok s' = resp_ok s"
  by (simp add: resp_ok_def)

lemma resp_ctx_found:
  "ntp_ctx_get e rc_tid (resp_ctx s) = Some c \<Longrightarrow> tid e \<noteq> 0 \<Longrightarrow> resp_ok s \<Longrightarrow> rc_req c \<noteq> 0"
  by (auto simp: ntp_ctx_get_def resp_ok_def split: if_splits)

lemma tmoves_queue_resp_kr:
  assumes "tid e \<noteq> 0" and "resp_ok s"
  shows "tgt_moves tr f' s (ntp_tr_queue_resp_kr f e s)"
  using resp_ctx_found [OF _ assms]
  by (auto simp: ntp_tr_queue_resp_kr_def split: option.split
      intro!: rtranclp_trans [OF tmove_stamped [OF tstamped_resp_ctx] tmoves_queue_resp_exit])

lemma tmoves_queue_resp_kp: "tgt_moves tr f' s (ntp_tr_queue_resp_kp f e req s)"
  unfolding ntp_tr_queue_resp_kp_def
  by (rule rtranclp_trans [OF tmove_stamped [OF tstamped_resp_ctx] tmove_stamped [OF tstamped_rdma_queue_resp]])

interpretation trdma: tgt_object NTP_TR_RDMA f "trdma_step f" trdma_ok resp_ok for f
proof
  fix ev and s :: "'a rdma_tgt_state_scheme"
  assume ok: "trdma_ok ev" and good: "resp_ok s"
  have init: "tgt_moves NTP_TR_RDMA f s (ntp_t_req_init (rdma_target f) f e req cmd s)" if "req \<noteq> 0" for e req cmd
    using tmove_req_init [OF rdma_target_ok that, of f f s e cmd] by (simp add: rdma_target_def)
  show "tgt_moves NTP_TR_RDMA f s (trdma_step f ev s)"
    using ok good by (cases ev)
      (simp_all add: init tmoves_send_done tmoves_queue_resp_exit tmoves_queue_resp_kr tmoves_queue_resp_kp
        tmove_stamped tstamped_backend tstamped_write_data tstamped_rdma_queue_resp tstamped_ctx on_recv_done_def)
  show "resp_ok (trdma_step f ev s)"
    using ok good by (cases ev)
      (auto simp: resp_ok_def ntp_tr_queue_resp_kp_def ntp_tr_queue_resp_kr_def split: option.split)
qed

subsection \<open>The two ends of a response\<close>

lemma part_first:
  assumes "tgt_entry s req = Some slot" and "te_parts (treqs s slot) = 0" and "part \<in> {RSP_POSTED, RSP_SEND_DONE}"
  shows "rsp_part_done e req part s = s\<lparr>treqs := (treqs s)(slot := (treqs s slot)\<lparr>te_parts := part\<rparr>)\<rparr>"
  using assms by (auto simp: rsp_part_done_def Let_def RSP_POSTED_def RSP_SEND_DONE_def)

lemma part_second:
  assumes "tgt_entry s req = Some slot" and "te_parts (treqs s slot) OR part = RSP_POSTED OR RSP_SEND_DONE"
    and "req \<noteq> 0" and "rb_ok e"
  shows "\<exists>r. tevents (rsp_part_done e req part s) = tevents s @ [r] \<and>
      trec_ext (te_rec (treqs s slot)) r \<and> t_ts r = t_ts (te_rec (treqs s slot)) \<and>
      tgt_entry (rsp_part_done e req part s) req = None"
proof -
  let ?s = "s\<lparr>treqs := (treqs s)(slot := (treqs s slot)\<lparr>te_parts := RSP_POSTED OR RSP_SEND_DONE\<rparr>)\<rparr>"
  have entry: "tgt_entry ?s req = Some slot" using assms(1) by (auto simp: tgt_entry_Some)
  have "rsp_part_done e req part s = tgt_emit e req ?s"
    using assms(1,2) by (simp add: rsp_part_done_def Let_def)
  then show ?thesis using tgt_emit_events [OF entry, of e] assms(3,4) by simp
qed

text \<open>Both hooks, for a request whose record is in the table.\<close>

lemma send_done_eq:
  assumes "ntp_inflight s \<noteq> 0" and "tgt_entry s req = Some slot" and "sent_req e wc = req"
  shows "on_send_done e wc s =
    rsp_part_done e req RSP_SEND_DONE (trec_upd slot (tstamp_ts NTP_T_SEND_DONE (now e)) s)"
  using assms by (simp add: on_send_done_def Let_def sent_req_def [symmetric] tgt_rec_def)

lemma queue_resp_exit_eq:
  assumes "ntp_inflight s \<noteq> 0" and "tgt_entry s req = Some slot"
  shows "on_queue_resp_exit f e req s =
    tgt_uncount f req (rsp_part_done e req RSP_POSTED (trec_upd slot (posted_rec e) s))"
  using assms by (simp add: on_queue_resp_exit_def Let_def ntp_idle_def tgt_rec_def)

lemma uncount_keeps [simp]:
  "tevents (tgt_uncount f req s) = tevents s" "treqs (tgt_uncount f req s) = treqs s"
  "ntp_inflight (tgt_uncount f req s) = ntp_inflight s"
  "tgt_entry (tgt_uncount f req s) r = tgt_entry s r"
  by (simp_all add: tgt_uncount_def uncount_def tgt_entry_def Let_def split: option.split)

lemma upd_keeps:
  "tgt_entry (trec_upd slot g s) req = tgt_entry s req" "tevents (trec_upd slot g s) = tevents s"
  "te_parts (treqs (trec_upd slot g s) slot) = te_parts (treqs s slot)"
  "te_rec (treqs (trec_upd slot g s) slot) = g (te_rec (treqs s slot))"
  "ntp_inflight (trec_upd slot g s) = ntp_inflight s"
  by (simp_all add: trec_upd_def tgt_entry_def Let_def)

subsection \<open>Properties\<close>

definition trdma_run :: "ntp_filter \<Rightarrow> trdma_hook list \<Rightarrow> rdma_tgt_state" where
  "trdma_run f evs = fold (trdma_step f) evs trdma_init"

lemma trdma_run_inv: "list_all trdma_ok evs \<Longrightarrow> tgt_inv (trdma_run f evs)"
  unfolding trdma_run_def by (rule trdma.run_tgt_inv) (simp_all add: tgt_inv_fresh trdma_init_fresh)

text \<open>A concrete target: one read command whose request is at 0x3000.\<close>

definition exs_km :: kmem where
  "exs_km = zero_km\<lparr>off_rdma_rsp_req := 0x10, nreq_sq := \<lambda>_. 0x5008, sq_qid := \<lambda>_. 1, wc_wr_cqe := \<lambda>_. 0x2ff0,
     nvme_cmd_at := \<lambda>_. Some \<lparr>c_opcode = NTP_NVME_CMD_READ, c_command_id = 1, c_nsid = 1,
       c_dptr1 = 0, c_slba = 0, c_length = 7\<rparr>\<rparr>"

definition exs_env :: "u64 \<Rightarrow> env" where
  "exs_env t = \<lparr>cpu = 0, tid = 7, now = t, rb_ok = True, km = exs_km, lru_victim = 0\<rparr>"

definition exs_run :: "trdma_hook list" where
  "exs_run = [User_arm (exs_env 10), Ntp_tr_recv_done (exs_env 15) 4, Ntp_t_req_init (exs_env 20) 0x3000 1]"

lemma exs_simps:
  "cpu (exs_env t) = 0" "tid (exs_env t) = 7" "now (exs_env t) = t" "rb_ok (exs_env t)" "km (exs_env t) = exs_km"
  "off_rdma_rsp_req exs_km = 0x10" "nreq_sq exs_km a = 0x5008" "sq_qid exs_km a = 1" "wc_wr_cqe exs_km a = 0x2ff0"
  "off_rdma_send_cqe exs_km = 0" "wc_qp_context exs_km a = 0"
  "nvme_cmd_at exs_km a = Some \<lparr>c_opcode = NTP_NVME_CMD_READ, c_command_id = 1, c_nsid = 1,
     c_dptr1 = 0, c_slba = 0, c_length = 7\<rparr>"
  by (simp_all add: exs_env_def exs_km_def zero_km_def)

lemma exs_slot: "ntp_slot 0x3000 NTP_REC_SLOTS = 0x4c0"
  by code_simp

lemmas exs_eval =
  trdma_run_def exs_run_def trdma_init_def exs_simps exs_slot default_filter_def on_recv_done_def
  tgt_ctx_enter_def ntp_t_req_init_def rdma_target_def tgt_is_ours_def tgt_sampled_def tgt_arrival_def
  ntp_ctx_get_def count_arrival_def emit_reused_def ntp_read_cmd_def tgt_selected_def ntp_is_rw_def
  io_type_matches_def ntp_sampled_def tgt_take_slot_def tgt_new_rec_def zero_rec_defs zero_tgt_entry_def
  ntp_count_def ntp_inflight_add_def tgt_entry_def ntp_defs Let_def

lemma exs_run_state:
  "ntp_inflight (trdma_run default_filter exs_run) = 1"
  "tgt_entry (trdma_run default_filter exs_run) 0x3000 = Some 0x4c0"
  "te_parts (treqs (trdma_run default_filter exs_run) 0x4c0) = 0"
  "t_ts (te_rec (treqs (trdma_run default_filter exs_run) 0x4c0)) NTP_T_SEND_DONE = 0"
  by (simp_all add: exs_eval cong: if_weak_cong option.case_cong_weak)

lemma exs_run_ok: "list_all trdma_ok exs_run"
  by (simp add: exs_run_def)



text \<open>A record leaves the table when both ends of its response have been seen, in whichever
  order: after the first of the posting's return and the send completion nothing is handed over and the
  record is still there; the second hands over exactly one record, which continues the one in the table
  and holds the times of both, and frees the slot.\<close>

theorem rdma_target_both_ends:
  assumes "list_all trdma_ok evs" and "req \<noteq> 0" and "tgt_entry (trdma_run f evs) req = Some slot"
    and "te_parts (treqs (trdma_run f evs) slot) = 0" and "sent_req e1 wc = req" and "sent_req e2 wc = req"
    and "rb_ok e2"
    and "t_ts (te_rec (treqs (trdma_run f evs) slot)) NTP_T_SEND_DONE = 0"
  shows "tevents (trdma_run f (evs @ [Ntp_tr_queue_resp_fx e1 req])) = tevents (trdma_run f evs) \<and>
    tevents (trdma_run f (evs @ [Ntp_tr_send_done e1 wc])) = tevents (trdma_run f evs) \<and>
    (\<exists>r. tevents (trdma_run f (evs @ [Ntp_tr_queue_resp_fx e1 req, Ntp_tr_send_done e2 wc])) =
          tevents (trdma_run f evs) @ [r] \<and> trec_ext (te_rec (treqs (trdma_run f evs) slot)) r \<and>
        t_ts r NTP_T_RSP_SENT = now e1 \<and> t_ts r NTP_T_SEND_DONE = now e2) \<and>
    (\<exists>r. tevents (trdma_run f (evs @ [Ntp_tr_send_done e1 wc, Ntp_tr_queue_resp_fx e2 req])) =
          tevents (trdma_run f evs) @ [r] \<and> trec_ext (te_rec (treqs (trdma_run f evs) slot)) r \<and>
        t_ts r NTP_T_RSP_SENT = now e2 \<and> t_ts r NTP_T_SEND_DONE = now e1)"
proof -
  define s where "s = trdma_run f evs"
  note entry = assms(3,4) [folded s_def] and fresh = assms(8) [folded s_def]
  have busy: "ntp_inflight s \<noteq> 0" using tgt_inv_busy [OF trdma_run_inv [OF assms(1)] assms(3,2)] by (simp add: s_def)
  let ?x = "te_rec (treqs s slot)"
  define p1 where "p1 = on_queue_resp_exit f e1 req s"
  define q1 where "q1 = on_send_done e1 wc s"
  have p1: "tevents p1 = tevents s" "ntp_inflight p1 \<noteq> 0" "tgt_entry p1 req = Some slot"
    "te_parts (treqs p1 slot) = RSP_POSTED" "te_rec (treqs p1 slot) = posted_rec e1 ?x"
    using entry busy
    by (simp_all add: p1_def queue_resp_exit_eq part_first [where slot = slot] upd_keeps)
      (auto simp: upd_keeps tgt_entry_Some trec_upd_def)
  have q1: "tevents q1 = tevents s" "ntp_inflight q1 \<noteq> 0" "tgt_entry q1 req = Some slot"
    "te_parts (treqs q1 slot) = RSP_SEND_DONE" "te_rec (treqs q1 slot) = tstamp_ts NTP_T_SEND_DONE (now e1) ?x"
    using entry busy assms(5)
    by (simp_all add: q1_def send_done_eq part_first [where slot = slot] upd_keeps)
      (auto simp: upd_keeps tgt_entry_Some trec_upd_def)
  have p2: "\<exists>r. tevents (on_send_done e2 wc p1) = tevents s @ [r] \<and>
      trec_ext (tstamp_ts NTP_T_SEND_DONE (now e2) (posted_rec e1 ?x)) r \<and>
      t_ts r = t_ts (tstamp_ts NTP_T_SEND_DONE (now e2) (posted_rec e1 ?x))"
    using part_second [of "trec_upd slot (tstamp_ts NTP_T_SEND_DONE (now e2)) p1" req slot RSP_SEND_DONE e2] p1 assms(2,6,7)
    by (auto simp: send_done_eq [OF p1(2,3) assms(6)] upd_keeps)
  have q2: "\<exists>r. tevents (on_queue_resp_exit f e2 req q1) = tevents s @ [r] \<and>
      trec_ext (posted_rec e2 (tstamp_ts NTP_T_SEND_DONE (now e1) ?x)) r \<and>
      t_ts r = t_ts (posted_rec e2 (tstamp_ts NTP_T_SEND_DONE (now e1) ?x))"
    using part_second [of "trec_upd slot (posted_rec e2) q1" req slot RSP_POSTED e2] q1 assms(2,7)
    by (auto simp: queue_resp_exit_eq [OF q1(2,3)] upd_keeps or.commute)
  have times: "t_ts (tstamp_ts NTP_T_SEND_DONE (now e2) (posted_rec e1 ?x)) NTP_T_RSP_SENT = now e1"
    "t_ts (tstamp_ts NTP_T_SEND_DONE (now e2) (posted_rec e1 ?x)) NTP_T_SEND_DONE = now e2"
    "t_ts (posted_rec e2 (tstamp_ts NTP_T_SEND_DONE (now e1) ?x)) NTP_T_RSP_SENT = now e2"
    "t_ts (posted_rec e2 (tstamp_ts NTP_T_SEND_DONE (now e1) ?x)) NTP_T_SEND_DONE = now e1"
    using fresh by (simp_all add: posted_rec_def tstamp_ts_def tset_ts_def ntp_stamp_once_def)
  have ext: "trec_ext ?x (tstamp_ts NTP_T_SEND_DONE (now e2) (posted_rec e1 ?x))"
    "trec_ext ?x (posted_rec e2 (tstamp_ts NTP_T_SEND_DONE (now e1) ?x))"
    by (rule trec_ext_trans [OF trec_ext_posted trec_ext_stamp_ts] trec_ext_trans [OF trec_ext_stamp_ts trec_ext_posted])+
  have run: "trdma_run f (evs @ [Ntp_tr_queue_resp_fx e1 req]) = p1" "trdma_run f (evs @ [Ntp_tr_send_done e1 wc]) = q1"
    "trdma_run f (evs @ [Ntp_tr_queue_resp_fx e1 req, Ntp_tr_send_done e2 wc]) = on_send_done e2 wc p1"
    "trdma_run f (evs @ [Ntp_tr_send_done e1 wc, Ntp_tr_queue_resp_fx e2 req]) = on_queue_resp_exit f e2 req q1"
    by (simp_all add: p1_def q1_def s_def trdma_run_def)
  show ?thesis unfolding run s_def [symmetric]
    using p1(1) q1(1) p2 q2 times ext by (auto intro: trec_ext_trans)
qed

theorem rdma_target_both_ends_witness:
  "\<exists>r. tevents (trdma_run default_filter (exs_run @ [Ntp_tr_send_done (exs_env 30) 4, Ntp_tr_queue_resp_fx (exs_env 40) 0x3000])) =
       tevents (trdma_run default_filter exs_run) @ [r] \<and> t_ts r NTP_T_RSP_SENT = 40 \<and> t_ts r NTP_T_SEND_DONE = 30"
proof -
  have req: "sent_req (exs_env t) 4 = 0x3000" for t by (simp add: sent_req_def req_of_rsp_def exs_simps)
  show ?thesis
    using rdma_target_both_ends [OF exs_run_ok, of "0x3000" default_filter "0x4c0" "exs_env 30" 4 "exs_env 40"]
      exs_run_state(2-4) req by (auto simp: exs_simps)
qed

end
