(* ===== verification/Bpf_Spdk.thy ===== *)
theory Bpf_Spdk
  imports Bpf_Common C_Strings
begin

text \<open>
  SPDK's transports (\<^verbatim>\<open>src/bpf/spdk.bpf.h\<close> and the four objects that include it). SPDK hands
  over the times of a finished command; the programs turn them into the records the kernel
  objects emit. Over TCP two times that only the kernel sees are kept in rings per thread and
  looked up by a binary search.
\<close>

subsection \<open>What SPDK hands over\<close>

record spdk_times =
  st_t :: "nat \<Rightarrow> u64"
  st_r2ts :: u16
  st_flags :: u16
  st_bytes :: u32

definition SPDK_F_C2H_SUCCESS :: u16 where "SPDK_F_C2H_SUCCESS = push_bit 0 1"

datatype spdk_host_event =
  SPDK_H_SUBMIT | SPDK_H_CMD_SENT | SPDK_H_R2T | SPDK_H_H2C_START | SPDK_H_H2C_SENT | SPDK_H_C2H |
  SPDK_H_RSP | SPDK_H_DONE

primrec spdk_h :: "spdk_host_event \<Rightarrow> nat" where
  "spdk_h SPDK_H_SUBMIT = 0" | "spdk_h SPDK_H_CMD_SENT = 1" | "spdk_h SPDK_H_R2T = 2"
| "spdk_h SPDK_H_H2C_START = 3" | "spdk_h SPDK_H_H2C_SENT = 4" | "spdk_h SPDK_H_C2H = 5"
| "spdk_h SPDK_H_RSP = 6" | "spdk_h SPDK_H_DONE = 7"

datatype spdk_tgt_event =
  SPDK_T_CMD | SPDK_T_R2T_QUEUED | SPDK_T_R2T_SENT | SPDK_T_H2C | SPDK_T_EXEC | SPDK_T_EXECUTED |
  SPDK_T_RSP_QUEUED | SPDK_T_C2H_SENT | SPDK_T_RSP_SENT

primrec spdk_t :: "spdk_tgt_event \<Rightarrow> nat" where
  "spdk_t SPDK_T_CMD = 0" | "spdk_t SPDK_T_R2T_QUEUED = 1" | "spdk_t SPDK_T_R2T_SENT = 2"
| "spdk_t SPDK_T_H2C = 3" | "spdk_t SPDK_T_EXEC = 4" | "spdk_t SPDK_T_EXECUTED = 5"
| "spdk_t SPDK_T_RSP_QUEUED = 6" | "spdk_t SPDK_T_C2H_SENT = 7" | "spdk_t SPDK_T_RSP_SENT = 8"

datatype spdk_rdma_host_event =
  SPDK_RH_SUBMIT | SPDK_RH_CMD_POSTED | SPDK_RH_SEND_DONE | SPDK_RH_RSP | SPDK_RH_DONE

primrec spdk_rh :: "spdk_rdma_host_event \<Rightarrow> nat" where
  "spdk_rh SPDK_RH_SUBMIT = 0" | "spdk_rh SPDK_RH_CMD_POSTED = 1" | "spdk_rh SPDK_RH_SEND_DONE = 2"
| "spdk_rh SPDK_RH_RSP = 3" | "spdk_rh SPDK_RH_DONE = 4"

datatype spdk_rdma_tgt_event =
  SPDK_RT_CMD_ARR | SPDK_RT_CMD | SPDK_RT_READ_QUEUED | SPDK_RT_READ_POSTED | SPDK_RT_READ_DONE |
  SPDK_RT_EXEC | SPDK_RT_EXECUTED | SPDK_RT_RSP_QUEUED | SPDK_RT_RSP_POSTED | SPDK_RT_SEND_DONE

primrec spdk_rt :: "spdk_rdma_tgt_event \<Rightarrow> nat" where
  "spdk_rt SPDK_RT_CMD_ARR = 0" | "spdk_rt SPDK_RT_CMD = 1" | "spdk_rt SPDK_RT_READ_QUEUED = 2"
| "spdk_rt SPDK_RT_READ_POSTED = 3" | "spdk_rt SPDK_RT_READ_DONE = 4" | "spdk_rt SPDK_RT_EXEC = 5"
| "spdk_rt SPDK_RT_EXECUTED = 6" | "spdk_rt SPDK_RT_RSP_QUEUED = 7" | "spdk_rt SPDK_RT_RSP_POSTED = 8"
| "spdk_rt SPDK_RT_SEND_DONE = 9"

text \<open>The process's memory, as \<^verbatim>\<open>bpf_probe_read_user\<close> reads it.\<close>

record umem =
  u_cmd_at :: "u64 \<Rightarrow> ntp_nvme_cmd option"
  u_times_at :: "u64 \<Rightarrow> spdk_times option"

subsection \<open>State\<close>

definition SPDK_RING :: u64 where "SPDK_RING = 512"

text \<open>The two arrays of a ring, by slot.\<close>

record spdk_ring =
  rg_tid :: u64
  rg_n :: u64
  rg_t :: "u64 \<Rightarrow> u64"
  rg_v :: "u64 \<Rightarrow> u64"

record spdk_rx =
  sx_tid :: u64
  sx_start :: u64
  sx_copied :: bool

record spdk_state = ntp_state +
  spdk_recv_ring :: "u32 \<Rightarrow> spdk_ring"
  spdk_send_ring :: "u32 \<Rightarrow> spdk_ring"
  spdk_rx :: "u32 \<Rightarrow> spdk_rx"
  host_events :: "ntp_host_rec list"
  tgt_events :: "ntp_tgt_rec list"

subsection \<open>Rings\<close>

definition spdk_ring_own :: "env \<Rightarrow> (u32 \<Rightarrow> spdk_ring) \<Rightarrow> spdk_ring" where
  "spdk_ring_own e m =
    (let r = m (cpu e) in if rg_tid r \<noteq> tid e then r\<lparr>rg_tid := tid e, rg_n := 0\<rparr> else r)"

definition spdk_ring_add :: "u64 \<Rightarrow> u64 \<Rightarrow> spdk_ring \<Rightarrow> spdk_ring" where
  "spdk_ring_add t v r =
    (let i = rg_n r AND (SPDK_RING - 1)
     in r\<lparr>rg_t := (rg_t r)(i := t), rg_v := (rg_v r)(i := v), rg_n := rg_n r + 1\<rparr>)"

definition spdk_ring_get :: "env \<Rightarrow> bool \<Rightarrow> 'a spdk_state_scheme \<Rightarrow> spdk_ring" where
  "spdk_ring_get e send s = (if send then spdk_send_ring s (cpu e) else spdk_recv_ring s (cpu e))"

text \<open>One halving of the search, and the search: ten halvings, unrolled.\<close>

definition halve :: "(u64 \<Rightarrow> u64) \<Rightarrow> u64 \<Rightarrow> u64 \<Rightarrow> u64 \<times> u64 \<Rightarrow> u64 \<times> u64" where
  "halve ts base x = (\<lambda>(lo, hi).
    let mid = (lo + hi) div 2
    in if lo < hi
       then if ts ((base + mid) AND (SPDK_RING - 1)) \<le> x then (mid + 1, hi) else (lo, mid)
       else (lo, hi))"

definition spdk_ring_find :: "env \<Rightarrow> spdk_ring \<Rightarrow> u64 \<Rightarrow> u64" where
  "spdk_ring_find e r x =
    (if rg_tid r \<noteq> tid e \<or> x = 0 then 0
     else
       let n = (if rg_n r < SPDK_RING then rg_n r else SPDK_RING);
           base = rg_n r - n;
           lo = fst ((halve (rg_t r) base x ^^ 10) (0, n))
       in if lo \<noteq> 0 then rg_v r ((base + lo - 1) AND (SPDK_RING - 1)) else 0)"

subsection \<open>Hooks of the socket calls\<close>

definition spdk_process :: "ntp_filter \<Rightarrow> env \<Rightarrow> bool" where
  "spdk_process f e =
    (let tgid = (ucast (drop_bit 32 (tid e)) :: u32)
     in list_ex (\<lambda>i. i < unat (f_npids f) \<and> f_pids f ! i = tgid) [0 ..< NTP_MAX_PIDS])"

definition spdk_recvmsg :: "ntp_filter \<Rightarrow> env \<Rightarrow> 'a spdk_state_scheme \<Rightarrow> 'a spdk_state_scheme" where
  "spdk_recvmsg f e s =
    (if f_npids f = 0 \<or> \<not> spdk_process f e then s
     else s\<lparr>spdk_rx := (spdk_rx s)(cpu e := \<lparr>sx_tid = tid e, sx_start = now e, sx_copied = False\<rparr>)\<rparr>)"

definition spdk_copy :: "ntp_filter \<Rightarrow> env \<Rightarrow> u64 \<Rightarrow> 'a spdk_state_scheme \<Rightarrow> 'a spdk_state_scheme" where
  "spdk_copy f e skb s =
    (case ntp_ctx_get e sx_tid (spdk_rx s) of
       None \<Rightarrow> s
     | Some c \<Rightarrow>
         if sx_copied c then s
         else
           s\<lparr>spdk_rx := (spdk_rx s)(cpu e := c\<lparr>sx_copied := True\<rparr>),
             spdk_recv_ring := (spdk_recv_ring s)(cpu e :=
               spdk_ring_add (sx_start c) (ntp_skb_arrival f e skb (now e)) (spdk_ring_own e (spdk_recv_ring s)))\<rparr>)"

definition spdk_sendmsg :: "ntp_filter \<Rightarrow> env \<Rightarrow> 'a spdk_state_scheme \<Rightarrow> 'a spdk_state_scheme" where
  "spdk_sendmsg f e s =
    (if f_npids f = 0 \<or> \<not> spdk_process f e then s
     else s\<lparr>spdk_send_ring := (spdk_send_ring s)(cpu e :=
              spdk_ring_add (now e) (now e) (spdk_ring_own e (spdk_send_ring s)))\<rparr>)"

definition spdk_arrival :: "env \<Rightarrow> u64 \<Rightarrow> u64 \<Rightarrow> 'a spdk_state_scheme \<Rightarrow> u64" where
  "spdk_arrival e parsed fl s =
    (let a = spdk_ring_find e (spdk_ring_get e False s) parsed
     in if a \<noteq> 0 \<and> a \<ge> fl \<and> a \<le> parsed then a else parsed)"

definition spdk_handed :: "env \<Rightarrow> u64 \<Rightarrow> u64 \<Rightarrow> 'a spdk_state_scheme \<Rightarrow> u64" where
  "spdk_handed e taken queued s =
    (let x = spdk_ring_find e (spdk_ring_get e True s) taken
     in if x \<noteq> 0 \<and> x \<ge> queued \<and> x \<le> taken then x else taken)"

subsection \<open>A finished command\<close>

definition spdk_read_cmd :: "umem \<Rightarrow> u64 \<Rightarrow> ntp_cmd_id \<Rightarrow> (ntp_cmd_id \<times> u32) option" where
  "spdk_read_cmd um cmd idv =
    (case u_cmd_at um cmd of
       None \<Rightarrow> None
     | Some c \<Rightarrow> Some (idv\<lparr>id_opcode := c_opcode c, id_cid := c_command_id c, id_nsid := c_nsid c,
                          id_slba := c_slba c, id_nlb := c_length c\<rparr>,
                      ucast (c_dptr1 c)))"

definition spdk_selected :: "ntp_filter \<Rightarrow> ntp_cmd_id \<Rightarrow> u32 \<Rightarrow> bool \<Rightarrow> bool" where
  "spdk_selected f idv bytes wr \<longleftrightarrow>
    (f_io_type f = 2 \<or> f_io_type f = (if wr then 1 else 0)) \<and>
    ntp_sampled f (id_cid idv) (id_slba idv) (id_nlb idv) \<and> ntp_size_matches f bytes"

text \<open>\<^verbatim>\<open>BPF_SNPRINTF(rec->disk, ..., "spdk-c%un%u", cntlid, nsid)\<close> into 32 zeroed bytes.\<close>

definition spdk_disk :: "u32 \<Rightarrow> u32 \<Rightarrow> u8 list" where
  "spdk_disk cntlid nsid =
    (let str = snprintf_s NTP_DISK_NAME_LEN
                 (''spdk-c'' @ dec (unat cntlid) @ ''n'' @ dec (unat nsid))
     in map of_char str @ replicate (NTP_DISK_NAME_LEN - length str) 0)"

text \<open>
  What the four probes do alike: read the command and its times, count it, apply the filter, and
  hand over a record built by \<open>mk\<close>.
\<close>

definition host_estimate :: "ntp_filter \<Rightarrow> env \<Rightarrow> bool \<Rightarrow> u32 \<Rightarrow> 'a ntp_state_scheme \<Rightarrow> 'a ntp_state_scheme" where
  "host_estimate f e wr bytes s =
    ntp_count e (if wr then NTP_CNT_HOST_WRITE_BYTES else NTP_CNT_HOST_READ_BYTES)
      (ucast bytes * ucast (f_sample_every f))
      (ntp_count e (if wr then NTP_CNT_HOST_WRITE_IOS else NTP_CNT_HOST_READ_IOS)
        (ucast (f_sample_every f)) s)"

definition tcp_host_flags :: "bool \<Rightarrow> spdk_times \<Rightarrow> u16" where
  "tcp_host_flags wr st =
    (let t = (\<lambda>ev. st_t st (spdk_h ev))
     in NTP_F_SPDK OR (if wr then NTP_F_WRITE else 0) OR
        (if t SPDK_H_R2T \<noteq> 0 then NTP_F_R2T else 0) OR
        (if st_r2ts st > 1 then NTP_F_MULTI_R2T else 0) OR
        (if wr \<and> t SPDK_H_R2T = 0 then NTP_F_INLINE_DATA else 0) OR
        (if \<not> wr \<and> t SPDK_H_C2H \<noteq> 0 \<and> t SPDK_H_RSP = 0 then NTP_F_DATA_SUCCESS else 0))"

definition tcp_host_rec ::
  "env \<Rightarrow> ntp_cmd_id \<Rightarrow> u32 \<Rightarrow> u32 \<Rightarrow> u32 \<Rightarrow> spdk_times \<Rightarrow> 'a spdk_state_scheme \<Rightarrow> ntp_host_rec" where
  "tcp_host_rec e idv bytes qid cntlid st s =
    (let t = (\<lambda>ev. st_t st (spdk_h ev));
         fl = t SPDK_H_SUBMIT
     in zero_host_rec
          \<lparr>h_hdr := \<lparr>hdr_kind = NTP_REC_HOST, hdr_transport = NTP_TR_TCP,
                     hdr_flags = tcp_host_flags (id_opcode idv = NTP_NVME_CMD_WRITE) st, hdr_cpu = cpu e\<rparr>,
           h_id := idv\<lparr>id_cntlid := ucast cntlid, id_qid := ucast qid\<rparr>,
           h_bytes := bytes, h_ctrl_instance := cntlid,
           h_ts := (\<lambda>_. 0)
             (NTP_H_START := t SPDK_H_SUBMIT, NTP_H_QUEUE_RQ := t SPDK_H_SUBMIT,
              NTP_H_CMD_SENT := t SPDK_H_CMD_SENT, NTP_H_R2T_PROC := t SPDK_H_R2T,
              NTP_H_R2T_ARR := spdk_arrival e (t SPDK_H_R2T) fl s,
              NTP_H_DATA_START := t SPDK_H_H2C_START, NTP_H_DATA_SENT := t SPDK_H_H2C_SENT,
              NTP_H_C2H_PROC := t SPDK_H_C2H, NTP_H_C2H_ARR := spdk_arrival e (t SPDK_H_C2H) fl s,
              NTP_H_RSP_ARR := spdk_arrival e (t SPDK_H_RSP) fl s,
              NTP_H_RSP_PROC := t SPDK_H_DONE, NTP_H_NVME_DONE := t SPDK_H_DONE,
              NTP_H_BLK_DONE := t SPDK_H_DONE),
           h_disk := spdk_disk cntlid (id_nsid idv)\<rparr>)"

definition rdma_host_rec ::
  "env \<Rightarrow> ntp_cmd_id \<Rightarrow> u32 \<Rightarrow> u32 \<Rightarrow> u32 \<Rightarrow> spdk_times \<Rightarrow> ntp_host_rec" where
  "rdma_host_rec e idv bytes qid cntlid st =
    (let t = (\<lambda>ev. st_t st (spdk_rh ev))
     in zero_host_rec
          \<lparr>h_hdr := \<lparr>hdr_kind = NTP_REC_HOST, hdr_transport = NTP_TR_RDMA,
                     hdr_flags = NTP_F_SPDK OR (if id_opcode idv = NTP_NVME_CMD_WRITE then NTP_F_WRITE else 0),
                     hdr_cpu = cpu e\<rparr>,
           h_id := idv\<lparr>id_cntlid := ucast cntlid, id_qid := ucast qid\<rparr>,
           h_bytes := bytes, h_ctrl_instance := cntlid,
           h_ts := (\<lambda>_. 0)
             (NTP_H_START := t SPDK_RH_SUBMIT, NTP_H_QUEUE_RQ := t SPDK_RH_SUBMIT,
              NTP_H_CMD_SENT := t SPDK_RH_CMD_POSTED, NTP_H_SEND_DONE := t SPDK_RH_SEND_DONE,
              NTP_H_RSP_ARR := t SPDK_RH_RSP, NTP_H_RSP_PROC := t SPDK_RH_DONE,
              NTP_H_NVME_DONE := t SPDK_RH_DONE, NTP_H_BLK_DONE := t SPDK_RH_DONE),
           h_disk := spdk_disk cntlid (id_nsid idv)\<rparr>)"

definition tcp_tgt_rec ::
  "env \<Rightarrow> ntp_cmd_id \<Rightarrow> u32 \<Rightarrow> u32 \<Rightarrow> u32 \<Rightarrow> spdk_times \<Rightarrow> 'a spdk_state_scheme \<Rightarrow> ntp_tgt_rec" where
  "tcp_tgt_rec e idv bytes qid cntlid st s =
    (let t = (\<lambda>ev. st_t st (spdk_t ev));
         flags = NTP_F_SPDK OR (if id_opcode idv = NTP_NVME_CMD_WRITE then NTP_F_WRITE else 0) OR
                 (if t SPDK_T_R2T_QUEUED \<noteq> 0 then NTP_F_R2T else 0) OR
                 (if st_r2ts st > 1 then NTP_F_MULTI_R2T else 0) OR
                 (if has_flag (st_flags st) SPDK_F_C2H_SUCCESS then NTP_F_DATA_SUCCESS else 0)
     in zero_tgt_rec
          \<lparr>t_hdr := \<lparr>hdr_kind = NTP_REC_TARGET, hdr_transport = NTP_TR_TCP, hdr_flags = flags, hdr_cpu = cpu e\<rparr>,
           t_id := idv\<lparr>id_cntlid := ucast cntlid, id_qid := ucast qid\<rparr>,
           t_bytes := bytes,
           t_ts := (\<lambda>_. 0)
             (NTP_T_CMD_PROC := t SPDK_T_CMD, NTP_T_CMD_ARR := spdk_arrival e (t SPDK_T_CMD) 0 s,
              NTP_T_R2T_QUEUED := t SPDK_T_R2T_QUEUED,
              NTP_T_R2T_SENT := spdk_handed e (t SPDK_T_R2T_SENT) (t SPDK_T_R2T_QUEUED) s,
              NTP_T_DATA_PROC := t SPDK_T_H2C,
              NTP_T_DATA_ARR := spdk_arrival e (t SPDK_T_H2C) (t SPDK_T_R2T_QUEUED) s,
              NTP_T_EXEC := t SPDK_T_EXEC, NTP_T_COMPLETE := t SPDK_T_EXECUTED,
              NTP_T_RSP_QUEUED := t SPDK_T_RSP_QUEUED,
              NTP_T_C2H_SENT := spdk_handed e (t SPDK_T_C2H_SENT) (t SPDK_T_RSP_QUEUED) s,
              NTP_T_RSP_SENT := spdk_handed e (t SPDK_T_RSP_SENT) (t SPDK_T_RSP_QUEUED) s)\<rparr>)"

definition rdma_tgt_rec ::
  "env \<Rightarrow> ntp_cmd_id \<Rightarrow> u32 \<Rightarrow> u32 \<Rightarrow> u32 \<Rightarrow> spdk_times \<Rightarrow> ntp_tgt_rec" where
  "rdma_tgt_rec e idv bytes qid cntlid st =
    (let t = (\<lambda>ev. st_t st (spdk_rt ev));
         wr = (id_opcode idv = NTP_NVME_CMD_WRITE);
         flags = NTP_F_SPDK OR
                 (if wr then NTP_F_WRITE OR
                    (if t SPDK_RT_READ_QUEUED \<noteq> 0 then NTP_F_RDMA_READ else NTP_F_INLINE_DATA) else 0)
     in zero_tgt_rec
          \<lparr>t_hdr := \<lparr>hdr_kind = NTP_REC_TARGET, hdr_transport = NTP_TR_RDMA, hdr_flags = flags, hdr_cpu = cpu e\<rparr>,
           t_id := idv\<lparr>id_cntlid := ucast cntlid, id_qid := ucast qid\<rparr>,
           t_bytes := bytes,
           t_ts := (\<lambda>_. 0)
             (NTP_T_CMD_ARR := t SPDK_RT_CMD_ARR, NTP_T_CMD_PROC := t SPDK_RT_CMD,
              NTP_T_R2T_QUEUED := t SPDK_RT_READ_QUEUED, NTP_T_R2T_SENT := t SPDK_RT_READ_POSTED,
              NTP_T_DATA_ARR := t SPDK_RT_READ_DONE, NTP_T_DATA_PROC := t SPDK_RT_READ_DONE,
              NTP_T_EXEC := t SPDK_RT_EXEC, NTP_T_COMPLETE := t SPDK_RT_EXECUTED,
              NTP_T_RSP_QUEUED := t SPDK_RT_RSP_QUEUED, NTP_T_RSP_SENT := t SPDK_RT_RSP_POSTED,
              NTP_T_C2H_SENT := (if wr then 0 else t SPDK_RT_RSP_POSTED),
              NTP_T_SEND_DONE := t SPDK_RT_SEND_DONE)\<rparr>)"

subsection \<open>The probes\<close>

definition ntp_u_nvme_tcp_done ::
  "ntp_filter \<Rightarrow> env \<Rightarrow> umem \<Rightarrow> u64 \<Rightarrow> u32 \<Rightarrow> u32 \<Rightarrow> u64 \<Rightarrow> 'a spdk_state_scheme \<Rightarrow> 'a spdk_state_scheme" where
  "ntp_u_nvme_tcp_done f e um cmd qid cntlid tms s =
    (if \<not> ntp_armed s then s
     else
       case (spdk_read_cmd um cmd zero_cmd_id, u_times_at um tms) of
         (Some (idv, bytes), Some st) \<Rightarrow>
           if \<not> ntp_is_rw (id_opcode idv) then s
           else
             let wr = (id_opcode idv = NTP_NVME_CMD_WRITE);
                 s = host_estimate f e wr bytes s
             in if \<not> spdk_selected f idv bytes wr \<or> (f_nsid f \<noteq> 0 \<and> id_nsid idv \<noteq> f_nsid f) then s
                else
                  let s = ntp_count e NTP_CNT_HOST_SAMPLED 1 s
                  in if \<not> rb_ok e then ntp_count e NTP_CNT_RB_DROPS 1 s
                     else ntp_count e NTP_CNT_HOST_EMITTED 1
                            (s\<lparr>host_events := host_events s @ [tcp_host_rec e idv bytes qid cntlid st s]\<rparr>)
       | _ \<Rightarrow> s)"

definition ntp_u_nvme_rdma_done ::
  "ntp_filter \<Rightarrow> env \<Rightarrow> umem \<Rightarrow> u64 \<Rightarrow> u32 \<Rightarrow> u32 \<Rightarrow> u64 \<Rightarrow> 'a spdk_state_scheme \<Rightarrow> 'a spdk_state_scheme" where
  "ntp_u_nvme_rdma_done f e um cmd qid cntlid tms s =
    (if \<not> ntp_armed s then s
     else
       case (spdk_read_cmd um cmd zero_cmd_id, u_times_at um tms) of
         (Some (idv, _), Some st) \<Rightarrow>
           if \<not> ntp_is_rw (id_opcode idv) then s
           else
             let bytes = st_bytes st;
                 wr = (id_opcode idv = NTP_NVME_CMD_WRITE);
                 s = host_estimate f e wr bytes s
             in if \<not> spdk_selected f idv bytes wr \<or> (f_nsid f \<noteq> 0 \<and> id_nsid idv \<noteq> f_nsid f) then s
                else
                  let s = ntp_count e NTP_CNT_HOST_SAMPLED 1 s
                  in if \<not> rb_ok e then ntp_count e NTP_CNT_RB_DROPS 1 s
                     else ntp_count e NTP_CNT_HOST_EMITTED 1
                            (s\<lparr>host_events := host_events s @ [rdma_host_rec e idv bytes qid cntlid st]\<rparr>)
       | _ \<Rightarrow> s)"

definition ntp_u_nvmf_tcp_done ::
  "ntp_filter \<Rightarrow> env \<Rightarrow> umem \<Rightarrow> u64 \<Rightarrow> u32 \<Rightarrow> u32 \<Rightarrow> u64 \<Rightarrow> 'a spdk_state_scheme \<Rightarrow> 'a spdk_state_scheme" where
  "ntp_u_nvmf_tcp_done f e um cmd qid cntlid tms s =
    (if \<not> ntp_armed s then s
     else
       case (spdk_read_cmd um cmd zero_cmd_id, u_times_at um tms) of
         (Some (idv, bytes), Some st) \<Rightarrow>
           if \<not> ntp_is_rw (id_opcode idv) then s
           else
             let s = ntp_count e NTP_CNT_TGT_CMDS (ucast (f_sample_every f)) s
             in if \<not> spdk_selected f idv bytes (id_opcode idv = NTP_NVME_CMD_WRITE) then s
                else
                  let s = ntp_count e NTP_CNT_TGT_SAMPLED 1 s
                  in if \<not> rb_ok e then ntp_count e NTP_CNT_RB_DROPS 1 s
                     else ntp_count e NTP_CNT_TGT_EMITTED 1
                            (s\<lparr>tgt_events := tgt_events s @ [tcp_tgt_rec e idv bytes qid cntlid st s]\<rparr>)
       | _ \<Rightarrow> s)"

definition ntp_u_nvmf_rdma_done ::
  "ntp_filter \<Rightarrow> env \<Rightarrow> umem \<Rightarrow> u64 \<Rightarrow> u32 \<Rightarrow> u32 \<Rightarrow> u64 \<Rightarrow> 'a spdk_state_scheme \<Rightarrow> 'a spdk_state_scheme" where
  "ntp_u_nvmf_rdma_done f e um cmd qid cntlid tms s =
    (if \<not> ntp_armed s then s
     else
       case (spdk_read_cmd um cmd zero_cmd_id, u_times_at um tms) of
         (Some (idv, _), Some st) \<Rightarrow>
           if \<not> ntp_is_rw (id_opcode idv) then s
           else
             let bytes = st_bytes st;
                 s = ntp_count e NTP_CNT_TGT_CMDS (ucast (f_sample_every f)) s
             in if \<not> spdk_selected f idv bytes (id_opcode idv = NTP_NVME_CMD_WRITE) then s
                else
                  let s = ntp_count e NTP_CNT_TGT_SAMPLED 1 s
                  in if \<not> rb_ok e then ntp_count e NTP_CNT_RB_DROPS 1 s
                     else ntp_count e NTP_CNT_TGT_EMITTED 1
                            (s\<lparr>tgt_events := tgt_events s @ [rdma_tgt_rec e idv bytes qid cntlid st]\<rparr>)
       | _ \<Rightarrow> s)"

subsection \<open>The binary search\<close>

text \<open>
  The ring as a list: the entries of the last 512 additions, oldest first. The search returns the
  value of the last one whose time is not after \<open>x\<close>.
\<close>

definition latest :: "u64 \<Rightarrow> (u64 \<times> u64) list \<Rightarrow> u64" where
  "latest x es = (case filter (\<lambda>(t, v). t \<le> x) es of [] \<Rightarrow> 0 | ys \<Rightarrow> snd (last ys))"

text \<open>The search on natural numbers, over the times \<open>g 0, g 1, ...\<close>\<close>

definition halve_nat :: "(nat \<Rightarrow> bool) \<Rightarrow> nat \<times> nat \<Rightarrow> nat \<times> nat" where
  "halve_nat P = (\<lambda>(lo, hi). let mid = (lo + hi) div 2 in
     if lo < hi then if P mid then (mid + 1, hi) else (lo, mid) else (lo, hi))"

definition search_inv :: "(nat \<Rightarrow> bool) \<Rightarrow> nat \<Rightarrow> nat \<times> nat \<Rightarrow> bool" where
  "search_inv P n = (\<lambda>(lo, hi). lo \<le> hi \<and> hi \<le> n \<and> (\<forall>i < lo. P i) \<and> (\<forall>i. hi \<le> i \<and> i < n \<longrightarrow> \<not> P i))"

lemma halve_nat_inv:
  assumes down: "\<And>i j. j < n \<Longrightarrow> P j \<Longrightarrow> i \<le> j \<Longrightarrow> P i" and inv: "search_inv P n q"
  shows "search_inv P n (halve_nat P q)"
    and "snd (halve_nat P q) - fst (halve_nat P q) \<le> (snd q - fst q) div 2"
proof -
  obtain lo hi where q: "q = (lo, hi)" by fastforce
  note i = inv [unfolded q search_inv_def, simplified]
  let ?mid = "(lo + hi) div 2"
  have mid: "lo \<le> ?mid" "?mid < hi" if "lo < hi" using that by auto
  have up: "\<not> P j" if "lo < hi" "\<not> P ?mid" "?mid \<le> j" "j < n" for j
    using down [of j ?mid] that by blast
  have le: "P j" if "lo < hi" "P ?mid" "j < Suc ?mid" for j
    using down [of ?mid j] that i mid by auto
  consider "\<not> lo < hi" | "lo < hi" "P ?mid" | "lo < hi" "\<not> P ?mid" by blast
  then have "search_inv P n (halve_nat P q) \<and>
    snd (halve_nat P q) - fst (halve_nat P q) \<le> (snd q - fst q) div 2"
  proof cases
    case 1
    then show ?thesis using inv i by (simp add: q halve_nat_def)
  next
    case 2
    then have "halve_nat P q = (Suc ?mid, hi)" by (simp add: q halve_nat_def)
    moreover have "search_inv P n (Suc ?mid, hi)" using i mid [OF 2(1)] le [OF 2] by (simp add: search_inv_def)
    moreover have "hi - Suc ?mid \<le> (hi - lo) div 2" by linarith
    ultimately show ?thesis by (simp add: q)
  next
    case 3
    then have "halve_nat P q = (lo, ?mid)" by (simp add: q halve_nat_def)
    moreover have "search_inv P n (lo, ?mid)" using i mid [OF 3(1)] up [OF 3] by (simp add: search_inv_def)
    moreover have "?mid - lo \<le> (hi - lo) div 2" by linarith
    ultimately show ?thesis by (simp add: q)
  qed
  then show "search_inv P n (halve_nat P q)"
    and "snd (halve_nat P q) - fst (halve_nat P q) \<le> (snd q - fst q) div 2" by blast+
qed

lemma halvings_inv:
  assumes down: "\<And>i j. j < n \<Longrightarrow> P j \<Longrightarrow> i \<le> j \<Longrightarrow> P i"
  shows "search_inv P n ((halve_nat P ^^ k) (0, n)) \<and>
    snd ((halve_nat P ^^ k) (0, n)) - fst ((halve_nat P ^^ k) (0, n)) \<le> n div 2 ^ k"
proof (induction k)
  case 0
  then show ?case by (auto simp: search_inv_def)
next
  case (Suc k)
  let ?q = "(halve_nat P ^^ k) (0, n)"
  have "snd (halve_nat P ?q) - fst (halve_nat P ?q) \<le> (snd ?q - fst ?q) div 2"
    by (rule halve_nat_inv(2) [OF down]) (use Suc in auto)
  also have "\<dots> \<le> n div 2 ^ k div 2" using Suc by (simp add: div_le_mono)
  also have "\<dots> = n div 2 ^ Suc k" by (metis div_mult2_eq power_Suc2)
  finally show ?case using halve_nat_inv(1) [OF down, where q = ?q] Suc by simp
qed

text \<open>Ten halvings are enough for 512 entries: the search ends on the boundary.\<close>

lemma search_ends:
  assumes down: "\<And>i j. j < n \<Longrightarrow> P j \<Longrightarrow> i \<le> j \<Longrightarrow> P i" and "n \<le> 512"
  defines "k \<equiv> fst ((halve_nat P ^^ 10) (0, n))"
  shows "k \<le> n" and "\<And>i. i < n \<Longrightarrow> P i \<longleftrightarrow> i < k"
proof -
  let ?q = "(halve_nat P ^^ 10) (0, n)"
  have inv: "search_inv P n ?q" and small: "snd ?q - fst ?q \<le> n div 2 ^ 10"
    using halvings_inv [OF down, where k = 10] by auto
  have "snd ?q - fst ?q = 0" using small assms(2) by simp
  then have "snd ?q = fst ?q" using inv by (auto simp: search_inv_def split_beta)
  then show "k \<le> n" "\<And>i. i < n \<Longrightarrow> P i \<longleftrightarrow> i < k"
    using inv by (auto simp: search_inv_def split_beta k_def not_less)
qed

text \<open>The search of the program is that search, on 64-bit numbers.\<close>

lemma ring_slot: "(of_nat i :: u64) AND (SPDK_RING - 1) = of_nat (i mod 512)"
proof -
  have "SPDK_RING - 1 = (mask 9 :: u64)" by (simp add: SPDK_RING_def mask_eq_exp_minus_1)
  then have "(of_nat i :: u64) AND (SPDK_RING - 1) = take_bit 9 (of_nat i)" by (simp only: take_bit_eq_mask)
  also have "\<dots> = of_nat (take_bit 9 i)" by (simp only: take_bit_of_nat)
  finally show ?thesis by (simp add: take_bit_eq_mod)
qed

lemma unat_small: "n < 2 ^ 64 \<Longrightarrow> unat (of_nat n :: u64) = n"
  by (simp add: unsigned_of_nat take_bit_nat_eq_self)

lemma halve_sim:
  assumes "a \<le> 512" and "b \<le> 512"
  shows "halve ts base x (of_nat a, of_nat b) =
    map_prod of_nat of_nat (halve_nat (\<lambda>i. ts ((base + of_nat i) AND (SPDK_RING - 1)) \<le> x) (a, b))"
proof -
  have ab: "unat (of_nat a :: u64) = a" "unat (of_nat b :: u64) = b" using assms by (simp_all add: unat_small)
  have less: "(of_nat a :: u64) < of_nat b \<longleftrightarrow> a < b" by (simp add: word_less_nat_alt ab)
  have "unat ((of_nat a + of_nat b :: u64) div 2) = (a + b) div 2"
    using assms unat_small [of "a + b"] by (simp add: unat_div)
  then have mid: "(of_nat a + of_nat b :: u64) div 2 = of_nat ((a + b) div 2)"
    using assms by (simp add: word_unat_eq_iff unat_small)
  show ?thesis by (simp add: halve_def halve_nat_def less mid Let_def)
qed

lemma halve_nat_bound:
  assumes "fst q \<le> m" and "snd q \<le> m"
  shows "fst (halve_nat P q) \<le> m" and "snd (halve_nat P q) \<le> m"
  using assms by (auto simp: halve_nat_def Let_def split_beta)

lemma halvings_sim:
  fixes ts :: "u64 \<Rightarrow> u64" and base x :: u64
  assumes "n \<le> 512"
  defines "P \<equiv> \<lambda>i. ts ((base + of_nat i) AND (SPDK_RING - 1)) \<le> x"
  shows "(halve ts base x ^^ k) (0, of_nat n) = map_prod of_nat of_nat ((halve_nat P ^^ k) (0, n)) \<and>
    fst ((halve_nat P ^^ k) (0, n)) \<le> 512 \<and> snd ((halve_nat P ^^ k) (0, n)) \<le> 512"
proof (induction k)
  case (Suc k)
  obtain a b where q: "(halve_nat P ^^ k) (0, n) = (a, b)" by fastforce
  then have "a \<le> 512" "b \<le> 512" using Suc by simp_all
  then show ?case
    using Suc q halve_sim [of a b ts base x, folded P_def] halve_nat_bound [of "(a, b)" 512 P] by simp
qed (use assms in simp)

subsection \<open>A ring after any additions\<close>

definition ring_adds :: "(u64 \<times> u64) list \<Rightarrow> spdk_ring \<Rightarrow> spdk_ring" where
  "ring_adds es r = fold (\<lambda>(t, v). spdk_ring_add t v) es r"

text \<open>A slot the thread has just taken over holds nothing, whatever its arrays contain.\<close>

lemma ring_adds_contents:
  assumes "rg_n r = 0"
  shows "rg_n (ring_adds es r) = of_nat (length es) \<and> rg_tid (ring_adds es r) = rg_tid r \<and>
    (\<forall>i < length es. length es \<le> i + 512 \<longrightarrow>
       rg_t (ring_adds es r) (of_nat (i mod 512)) = fst (es ! i) \<and>
       rg_v (ring_adds es r) (of_nat (i mod 512)) = snd (es ! i))"
proof (induction es rule: rev_induct)
  case (snoc e es)
  obtain t v where e: "e = (t, v)" by fastforce
  have add: "ring_adds (es @ [(t, v)]) r = spdk_ring_add t v (ring_adds es r)" by (simp add: ring_adds_def)
  have other: "(of_nat (i mod 512) :: u64) \<noteq> of_nat (length es mod 512)"
    if "i < length es" "Suc (length es) \<le> i + 512" for i
  proof
    assume "(of_nat (i mod 512) :: u64) = of_nat (length es mod 512)"
    then have "unat (of_nat (i mod 512) :: u64) = unat (of_nat (length es mod 512) :: u64)" by simp
    then have "i mod 512 = length es mod 512" by (simp add: unat_small)
    then have "(length es - i) mod 512 = 0" using that by (metis less_imp_le mod_eq_iff_dvd_symdiff_nat mod_eq_dvd_iff_nat dvd_imp_mod_0)
    then show False using that by (simp add: mod_less)
  qed
  show ?case using snoc other
    by (auto simp: add spdk_ring_add_def ring_slot nth_append e less_Suc_eq Let_def)
qed (use assms in \<open>simp add: ring_adds_def\<close>)

lemma filter_boundary:
  assumes "\<And>i. i < length ys \<Longrightarrow> Q (ys ! i) \<longleftrightarrow> i < k" and "k \<le> length ys"
  shows "filter Q ys = take k ys"
proof -
  have "filter Q (take k ys) = take k ys"
    using assms by (auto simp: filter_id_conv in_set_conv_nth)
  moreover have "filter Q (drop k ys) = []"
    using assms by (auto simp: filter_empty_conv in_set_conv_nth)
  moreover have "filter Q ys = filter Q (take k ys) @ filter Q (drop k ys)"
    by (metis append_take_drop_id filter_append)
  ultimately show ?thesis by simp
qed

lemma latest_boundary:
  assumes "\<And>i. i < length ys \<Longrightarrow> fst (ys ! i) \<le> x \<longleftrightarrow> i < k" and "k \<le> length ys"
  shows "latest x ys = (if k = 0 then 0 else snd (ys ! (k - 1)))"
proof -
  have "filter (\<lambda>(t, v). t \<le> x) ys = take k ys"
    by (rule filter_boundary) (use assms in \<open>auto simp: split_beta\<close>)
  moreover have "last (take k ys) = ys ! (k - 1)" if "k \<noteq> 0"
    using that assms(2) by (subst last_conv_nth) (auto simp: min_def)
  moreover have "take k ys \<noteq> []" if "k \<noteq> 0" using that assms(2) by auto
  moreover have "latest x ys = snd (last zs)" if "filter (\<lambda>(t, v). t \<le> x) ys = zs" "zs \<noteq> []" for zs
    using that by (cases zs) (simp_all add: latest_def)
  ultimately show ?thesis by (cases "k = 0") (simp_all add: latest_def)
qed

text \<open>\<^bold>\<open>C31.\<close> Whatever calls a thread's ring has recorded since the thread took the slot,
  as long as their times ascend, the ten unrolled halvings of \<open>spdk_ring_find\<close> return what a scan
  of the last 512 of them would: the value of the latest entry not after \<open>x\<close>, and 0 when there is none.\<close>

theorem spdk_ring_find_latest:
  assumes asc: "sorted (map fst es)" and len: "length es < 2 ^ 64" and x: "x \<noteq> 0"
    and r: "rg_n r = 0" "rg_tid r = tid e"
  shows "spdk_ring_find e (ring_adds es r) x = latest x (drop (length es - 512) es)"
proof -
  let ?r = "ring_adds es r" and ?ys = "drop (length es - 512) es"
  define b n where "b = length es - 512" and "n = min (length es) 512"
  define P where "P = (\<lambda>i. rg_t ?r ((of_nat b + of_nat i) AND (SPDK_RING - 1)) \<le> x)"
  define k where "k = fst ((halve_nat P ^^ 10) (0, n))"
  have n: "n \<le> 512" "length ?ys = n" "length es = b + n" by (auto simp: n_def b_def)
  note c = ring_adds_contents [OF r(1), where es = es]
  have slot: "(of_nat b + of_nat i :: u64) AND (SPDK_RING - 1) = of_nat ((b + i) mod 512)" for i
    using ring_slot [of "b + i"] by simp
  have at: "rg_t ?r (of_nat ((b + i) mod 512)) = fst (?ys ! i) \<and> rg_v ?r (of_nat ((b + i) mod 512)) = snd (?ys ! i)"
    if "i < n" for i
  proof -
    have "b + i < length es" "length es \<le> b + i + 512" using that n(1,3) by simp_all
    moreover have "?ys ! i = es ! (b + i)" by (simp add: b_def)
    ultimately show ?thesis using c by metis
  qed
  have P: "P i \<longleftrightarrow> fst (?ys ! i) \<le> x" if "i < n" for i using at [OF that] by (simp add: P_def slot)
  have mono: "fst (?ys ! i) \<le> fst (?ys ! j)" if "i \<le> j" "j < n" for i j
    using sorted_nth_mono [OF sorted_wrt_drop [OF asc], of i j] that n by (simp add: drop_map)
  have down: "P i" if "j < n" "P j" "i \<le> j" for i j
    using P [of i] P [of j] mono [of i j] that by (meson order_trans le_less_trans)
  have k: "k \<le> n" "\<And>i. i < n \<Longrightarrow> P i \<longleftrightarrow> i < k"
    unfolding k_def using search_ends [where P = P and n = n] down n(1) by blast+
  have size: "(if rg_n ?r < SPDK_RING then rg_n ?r else SPDK_RING) = of_nat n"
    using c len by (auto simp: n_def SPDK_RING_def word_less_nat_alt unat_small)
  have base: "rg_n ?r - of_nat n = of_nat b" using c n by simp
  have lo: "fst ((halve (rg_t ?r) (of_nat b) x ^^ 10) (0, of_nat n)) = of_nat k"
    using halvings_sim [OF n(1), where k = 10 and ts = "rg_t ?r" and base = "of_nat b" and x = x]
    by (simp add: P_def k_def)
  have nz: "(of_nat k :: u64) \<noteq> 0 \<longleftrightarrow> k \<noteq> 0" using k(1) n(1) by (simp add: word_unat_eq_iff unat_small)
  have last: "(of_nat b + of_nat k - 1 :: u64) AND (SPDK_RING - 1) = of_nat ((b + (k - 1)) mod 512)" if "k \<noteq> 0"
    using slot [of "k - 1"] that by (simp add: of_nat_diff add_diff_eq)
  have "spdk_ring_find e ?r x =
      (if k \<noteq> 0 then rg_v ?r ((of_nat b + of_nat k - 1) AND (SPDK_RING - 1)) else 0)"
    unfolding spdk_ring_find_def Let_def size base lo nz using c r x by simp
  also have "\<dots> = (if k = 0 then 0 else snd (?ys ! (k - 1)))" 
  proof (cases k)
    case (Suc j)
    then show ?thesis using k(1) at [of j] last by simp
  qed simp
  also have "\<dots> = latest x ?ys" by (rule latest_boundary [symmetric]) (use k P n in auto)
  finally show ?thesis .
qed

definition ex_ring :: spdk_ring where
  "ex_ring = \<lparr>rg_tid = 7, rg_n = 0, rg_t = \<lambda>_. 0, rg_v = \<lambda>_. 0\<rparr>"

definition ex_spdk_env :: "u64 \<Rightarrow> env" where
  "ex_spdk_env t = \<lparr>cpu = 0, tid = 7, now = t, rb_ok = True, km = zero_km, lru_victim = 0\<rparr>"

theorem spdk_ring_find_latest_witness:
  "spdk_ring_find (ex_spdk_env 90) (ring_adds [(10, 9), (20, 18), (30, 29)] ex_ring) 25 = 18"
  using spdk_ring_find_latest [of "[(10, 9), (20, 18), (30, 29)]" 25 ex_ring "ex_spdk_env 90"]
  by (simp add: ex_ring_def ex_spdk_env_def latest_def)

subsection \<open>Runs of the four objects\<close>

text \<open>
  The programs of an object as the calls of its hooks. The objects over TCP have the hooks of the
  socket calls (the host's not the one of sending); the objects over RDMA have the last alone.
\<close>

datatype spdk_hook =
  Ntp_s_recvmsg env
| Ntp_s_copy env u64
| Ntp_s_sendmsg env
| Ntp_u_done env umem u64 u32 u32 u64

type_synonym spdk_probe =
  "ntp_filter \<Rightarrow> env \<Rightarrow> umem \<Rightarrow> u64 \<Rightarrow> u32 \<Rightarrow> u32 \<Rightarrow> u64 \<Rightarrow> spdk_state \<Rightarrow> spdk_state"

fun spdk_step :: "spdk_probe \<Rightarrow> ntp_filter \<Rightarrow> spdk_hook \<Rightarrow> spdk_state \<Rightarrow> spdk_state" where
  "spdk_step probe f (Ntp_s_recvmsg e) s = spdk_recvmsg f e s"
| "spdk_step probe f (Ntp_s_copy e skb) s = spdk_copy f e skb s"
| "spdk_step probe f (Ntp_s_sendmsg e) s = spdk_sendmsg f e s"
| "spdk_step probe f (Ntp_u_done e um cmd qid cntlid tms) s = probe f e um cmd qid cntlid tms s"

definition spdk_init :: spdk_state where
  "spdk_init = \<lparr>ntp_armed = True, ntp_inflight = 0, counters = \<lambda>_. 0,
     spdk_recv_ring = \<lambda>_. \<lparr>rg_tid = 0, rg_n = 0, rg_t = \<lambda>_. 0, rg_v = \<lambda>_. 0\<rparr>,
     spdk_send_ring = \<lambda>_. \<lparr>rg_tid = 0, rg_n = 0, rg_t = \<lambda>_. 0, rg_v = \<lambda>_. 0\<rparr>,
     spdk_rx = \<lambda>_. \<lparr>sx_tid = 0, sx_start = 0, sx_copied = False\<rparr>, host_events = [], tgt_events = []\<rparr>"

definition spdk_run :: "spdk_probe \<Rightarrow> ntp_filter \<Rightarrow> spdk_hook list \<Rightarrow> spdk_state" where
  "spdk_run probe f evs = fold (spdk_step probe f) evs spdk_init"

text \<open>What a finished command may do to the accounts: nothing, one drop, or one record that is good.\<close>

definition accounts_step ::
  "ntp_counter \<Rightarrow> ntp_counter \<Rightarrow> (spdk_state \<Rightarrow> 'r list) \<Rightarrow> ('r \<Rightarrow> bool) \<Rightarrow> spdk_state \<Rightarrow> spdk_state \<Rightarrow> bool" where
  "accounts_step sampled emitted out good s s' \<longleftrightarrow>
    (out s' = out s \<and> counter_total s' sampled = counter_total s sampled \<and>
       counter_total s' emitted = counter_total s emitted \<and>
       counter_total s' NTP_CNT_RB_DROPS = counter_total s NTP_CNT_RB_DROPS) \<or>
    (out s' = out s \<and> counter_total s' sampled = counter_total s sampled + 1 \<and>
       counter_total s' emitted = counter_total s emitted \<and>
       counter_total s' NTP_CNT_RB_DROPS = counter_total s NTP_CNT_RB_DROPS + 1) \<or>
    (\<exists>r. out s' = out s @ [r] \<and> good r \<and> counter_total s' sampled = counter_total s sampled + 1 \<and>
       counter_total s' emitted = counter_total s emitted + 1 \<and>
       counter_total s' NTP_CNT_RB_DROPS = counter_total s NTP_CNT_RB_DROPS)"

locale spdk_object =
  fixes probe :: spdk_probe and sampled emitted :: ntp_counter
    and out :: "spdk_state \<Rightarrow> 'r list" and good :: "ntp_filter \<Rightarrow> 'r \<Rightarrow> bool"
  assumes probe_accounts: "accounts_step sampled emitted out (good f) s (probe f e um cmd qid cntlid tms s)"
    and out_frame: "out (s\<lparr>spdk_rx := a\<rparr>) = out s" "out (s\<lparr>spdk_recv_ring := b\<rparr>) = out s"
      "out (s\<lparr>spdk_send_ring := b\<rparr>) = out s"
    and out_init: "out spdk_init = []"
begin

lemma step_accounts: "accounts_step sampled emitted out (good f) s (spdk_step probe f h s)"
proof (cases h)
  case (Ntp_s_recvmsg e)
  then show ?thesis
    by (auto simp: accounts_step_def spdk_recvmsg_def out_frame counter_total_def)
next
  case (Ntp_s_copy e skb)
  then show ?thesis
    by (auto simp: accounts_step_def spdk_copy_def out_frame counter_total_def split: option.split)
next
  case (Ntp_s_sendmsg e)
  then show ?thesis
    by (auto simp: accounts_step_def spdk_sendmsg_def out_frame counter_total_def)
next
  case (Ntp_u_done e um cmd qid cntlid tms)
  then show ?thesis using probe_accounts by simp
qed

lemma run_accounts:
  "counter_total (spdk_run probe f evs) sampled =
     counter_total (spdk_run probe f evs) emitted + counter_total (spdk_run probe f evs) NTP_CNT_RB_DROPS \<and>
   counter_total (spdk_run probe f evs) emitted = of_nat (length (out (spdk_run probe f evs))) \<and>
   list_all (good f) (out (spdk_run probe f evs))"
proof (induction evs rule: rev_induct)
  case Nil
  then show ?case by (simp add: spdk_run_def out_init) (simp add: spdk_init_def counter_total_def)
next
  case (snoc h evs)
  have "spdk_run probe f (evs @ [h]) = spdk_step probe f h (spdk_run probe f evs)" by (simp add: spdk_run_def)
  then show ?case using step_accounts [of f "spdk_run probe f evs" h] snoc by (auto simp: accounts_step_def)
qed

end

subsection \<open>What the records say\<close>

text \<open>
  A time looked up in a ring never precedes the earliest possible time, never follows the event it
  belongs to, and is set exactly when that event happened.
\<close>

definition looked_up :: "u64 \<Rightarrow> u64 \<Rightarrow> u64 \<Rightarrow> bool" where
  "looked_up earliest found event \<longleftrightarrow>
    found \<le> event \<and> (found = 0 \<longleftrightarrow> event = 0) \<and> (earliest \<le> event \<longrightarrow> earliest \<le> found)"

lemma spdk_arrival_looked_up: "looked_up fl (spdk_arrival e parsed fl s) parsed"
  by (auto simp: looked_up_def spdk_arrival_def Let_def)

lemma spdk_handed_looked_up: "looked_up queued (spdk_handed e taken queued s) taken"
  by (auto simp: looked_up_def spdk_handed_def Let_def)

definition spdk_hdr_ok :: "u8 \<Rightarrow> u8 \<Rightarrow> ntp_filter \<Rightarrow> ntp_rec_hdr \<Rightarrow> ntp_cmd_id \<Rightarrow> u32 \<Rightarrow> bool" where
  "spdk_hdr_ok kind tr f hdr idv bytes \<longleftrightarrow>
    hdr_kind hdr = kind \<and> hdr_transport hdr = tr \<and> has_flag (hdr_flags hdr) NTP_F_SPDK \<and>
    (has_flag (hdr_flags hdr) NTP_F_WRITE \<longleftrightarrow> id_opcode idv = NTP_NVME_CMD_WRITE) \<and>
    ntp_is_rw (id_opcode idv) \<and> spdk_selected f idv bytes (id_opcode idv = NTP_NVME_CMD_WRITE)"

definition spdk_host_ok :: "u8 \<Rightarrow> ntp_filter \<Rightarrow> ntp_host_rec \<Rightarrow> bool" where
  "spdk_host_ok tr f r \<longleftrightarrow>
    spdk_hdr_ok NTP_REC_HOST tr f (h_hdr r) (h_id r) (h_bytes r) \<and>
    (f_nsid f = 0 \<or> id_nsid (h_id r) = f_nsid f) \<and>
    h_ts r NTP_H_QUEUE_RQ = h_ts r NTP_H_START \<and> h_ts r NTP_H_BLK_DONE = h_ts r NTP_H_NVME_DONE"

definition spdk_tcp_host_ok :: "ntp_filter \<Rightarrow> ntp_host_rec \<Rightarrow> bool" where
  "spdk_tcp_host_ok f r \<longleftrightarrow> spdk_host_ok NTP_TR_TCP f r \<and>
    looked_up (h_ts r NTP_H_START) (h_ts r NTP_H_R2T_ARR) (h_ts r NTP_H_R2T_PROC) \<and>
    looked_up (h_ts r NTP_H_START) (h_ts r NTP_H_C2H_ARR) (h_ts r NTP_H_C2H_PROC) \<and>
    (host_flag r NTP_F_R2T \<longleftrightarrow> h_ts r NTP_H_R2T_PROC \<noteq> 0)"

definition spdk_tcp_tgt_ok :: "ntp_filter \<Rightarrow> ntp_tgt_rec \<Rightarrow> bool" where
  "spdk_tcp_tgt_ok f r \<longleftrightarrow>
    spdk_hdr_ok NTP_REC_TARGET NTP_TR_TCP f (t_hdr r) (t_id r) (t_bytes r) \<and>
    looked_up 0 (t_ts r NTP_T_CMD_ARR) (t_ts r NTP_T_CMD_PROC) \<and>
    looked_up (t_ts r NTP_T_R2T_QUEUED) (t_ts r NTP_T_DATA_ARR) (t_ts r NTP_T_DATA_PROC) \<and>
    (tgt_flag r NTP_F_R2T \<longleftrightarrow> t_ts r NTP_T_R2T_QUEUED \<noteq> 0) \<and>
    t_ts r NTP_T_BE_ISSUE = 0 \<and> t_ts r NTP_T_BE_DONE = 0"

definition spdk_rdma_tgt_ok :: "ntp_filter \<Rightarrow> ntp_tgt_rec \<Rightarrow> bool" where
  "spdk_rdma_tgt_ok f r \<longleftrightarrow>
    spdk_hdr_ok NTP_REC_TARGET NTP_TR_RDMA f (t_hdr r) (t_id r) (t_bytes r) \<and>
    (tgt_flag r NTP_F_RDMA_READ \<longrightarrow> tgt_flag r NTP_F_WRITE \<and> t_ts r NTP_T_R2T_QUEUED \<noteq> 0) \<and>
    (tgt_flag r NTP_F_WRITE \<longleftrightarrow> tgt_flag r NTP_F_RDMA_READ \<or> tgt_flag r NTP_F_INLINE_DATA) \<and>
    (tgt_flag r NTP_F_WRITE \<longrightarrow> t_ts r NTP_T_C2H_SENT = 0) \<and>
    t_ts r NTP_T_BE_ISSUE = 0 \<and> t_ts r NTP_T_BE_DONE = 0"

lemma has_flag_if: "has_flag (if c then a else b) m \<longleftrightarrow> (if c then has_flag a m else has_flag b m)"
  by simp

lemma spdk_flags:
  "has_flag NTP_F_SPDK NTP_F_SPDK" "\<not> has_flag NTP_F_SPDK NTP_F_WRITE" "\<not> has_flag NTP_F_SPDK NTP_F_R2T" "\<not> has_flag NTP_F_SPDK NTP_F_RDMA_READ" "\<not> has_flag NTP_F_SPDK NTP_F_INLINE_DATA"
  "\<not> has_flag NTP_F_WRITE NTP_F_SPDK" "has_flag NTP_F_WRITE NTP_F_WRITE" "\<not> has_flag NTP_F_WRITE NTP_F_R2T" "\<not> has_flag NTP_F_WRITE NTP_F_RDMA_READ" "\<not> has_flag NTP_F_WRITE NTP_F_INLINE_DATA"
  "\<not> has_flag NTP_F_R2T NTP_F_SPDK" "\<not> has_flag NTP_F_R2T NTP_F_WRITE" "has_flag NTP_F_R2T NTP_F_R2T" "\<not> has_flag NTP_F_R2T NTP_F_RDMA_READ" "\<not> has_flag NTP_F_R2T NTP_F_INLINE_DATA"
  "\<not> has_flag NTP_F_MULTI_R2T NTP_F_SPDK" "\<not> has_flag NTP_F_MULTI_R2T NTP_F_WRITE" "\<not> has_flag NTP_F_MULTI_R2T NTP_F_R2T" "\<not> has_flag NTP_F_MULTI_R2T NTP_F_RDMA_READ" "\<not> has_flag NTP_F_MULTI_R2T NTP_F_INLINE_DATA"
  "\<not> has_flag NTP_F_INLINE_DATA NTP_F_SPDK" "\<not> has_flag NTP_F_INLINE_DATA NTP_F_WRITE" "\<not> has_flag NTP_F_INLINE_DATA NTP_F_R2T" "\<not> has_flag NTP_F_INLINE_DATA NTP_F_RDMA_READ" "has_flag NTP_F_INLINE_DATA NTP_F_INLINE_DATA"
  "\<not> has_flag NTP_F_DATA_SUCCESS NTP_F_SPDK" "\<not> has_flag NTP_F_DATA_SUCCESS NTP_F_WRITE" "\<not> has_flag NTP_F_DATA_SUCCESS NTP_F_R2T" "\<not> has_flag NTP_F_DATA_SUCCESS NTP_F_RDMA_READ" "\<not> has_flag NTP_F_DATA_SUCCESS NTP_F_INLINE_DATA"
  "\<not> has_flag NTP_F_RDMA_READ NTP_F_SPDK" "\<not> has_flag NTP_F_RDMA_READ NTP_F_WRITE" "\<not> has_flag NTP_F_RDMA_READ NTP_F_R2T" "has_flag NTP_F_RDMA_READ NTP_F_RDMA_READ" "\<not> has_flag NTP_F_RDMA_READ NTP_F_INLINE_DATA"
  by (simp_all add: has_flag_def flag_defs)

lemmas spdk_flag_simps = spdk_flags has_flag_or has_flag_if

lemma tcp_host_rec_ok:
  assumes "ntp_is_rw (id_opcode idv)" "spdk_selected f idv bytes (id_opcode idv = NTP_NVME_CMD_WRITE)"
    and "f_nsid f = 0 \<or> id_nsid idv = f_nsid f"
  shows "spdk_tcp_host_ok f (tcp_host_rec e idv bytes qid cntlid st s)"
  using assms
  by (simp add: spdk_tcp_host_ok_def spdk_host_ok_def spdk_hdr_ok_def tcp_host_rec_def Let_def zero_rec_defs
      spdk_arrival_looked_up spdk_selected_def tcp_host_flags_def spdk_flag_simps)

lemma rdma_host_rec_ok:
  assumes "ntp_is_rw (id_opcode idv)" "spdk_selected f idv bytes (id_opcode idv = NTP_NVME_CMD_WRITE)"
    and "f_nsid f = 0 \<or> id_nsid idv = f_nsid f"
  shows "spdk_host_ok NTP_TR_RDMA f (rdma_host_rec e idv bytes qid cntlid st)"
  using assms
  by (simp add: spdk_host_ok_def spdk_hdr_ok_def rdma_host_rec_def Let_def zero_rec_defs spdk_selected_def spdk_flag_simps)

lemma tcp_tgt_rec_ok:
  assumes "ntp_is_rw (id_opcode idv)" "spdk_selected f idv bytes (id_opcode idv = NTP_NVME_CMD_WRITE)"
  shows "spdk_tcp_tgt_ok f (tcp_tgt_rec e idv bytes qid cntlid st s)"
  using assms
  by (simp add: spdk_tcp_tgt_ok_def spdk_hdr_ok_def tcp_tgt_rec_def Let_def zero_rec_defs
      spdk_arrival_looked_up spdk_selected_def spdk_flag_simps)

lemma rdma_tgt_rec_ok:
  assumes "ntp_is_rw (id_opcode idv)" "spdk_selected f idv bytes (id_opcode idv = NTP_NVME_CMD_WRITE)"
  shows "spdk_rdma_tgt_ok f (rdma_tgt_rec e idv bytes qid cntlid st)"
  using assms
  by (simp add: spdk_rdma_tgt_ok_def spdk_hdr_ok_def rdma_tgt_rec_def Let_def zero_rec_defs spdk_selected_def spdk_flag_simps)

subsection \<open>The four objects keep their accounts\<close>

lemma counter_total_events [simp]:
  "counter_total (s\<lparr>host_events := a\<rparr>) = counter_total s" "counter_total (s\<lparr>tgt_events := b\<rparr>) = counter_total s"
  by (simp_all add: counter_total_def fun_eq_iff)

lemma events_count [simp]:
  "host_events (ntp_count e c v s) = host_events s" "tgt_events (ntp_count e c v s) = tgt_events s"
  by (simp_all add: ntp_count_def)

lemmas accounts_simps = counter_total_count host_estimate_def spdk_init_def

interpretation stcp_host: spdk_object ntp_u_nvme_tcp_done NTP_CNT_HOST_SAMPLED NTP_CNT_HOST_EMITTED host_events spdk_tcp_host_ok
proof unfold_locales
  fix f s e um cmd qid cntlid tms
  show "accounts_step NTP_CNT_HOST_SAMPLED NTP_CNT_HOST_EMITTED host_events (spdk_tcp_host_ok f) s
      (ntp_u_nvme_tcp_done f e um cmd qid cntlid tms s)"
    by (auto simp: ntp_u_nvme_tcp_done_def Let_def accounts_simps accounts_step_def split: option.split
        intro!: tcp_host_rec_ok)
qed (simp_all add: accounts_simps)

interpretation srdma_host: spdk_object ntp_u_nvme_rdma_done NTP_CNT_HOST_SAMPLED NTP_CNT_HOST_EMITTED host_events
  "spdk_host_ok NTP_TR_RDMA"
proof unfold_locales
  fix f s e um cmd qid cntlid tms
  show "accounts_step NTP_CNT_HOST_SAMPLED NTP_CNT_HOST_EMITTED host_events (spdk_host_ok NTP_TR_RDMA f) s
      (ntp_u_nvme_rdma_done f e um cmd qid cntlid tms s)"
    by (auto simp: ntp_u_nvme_rdma_done_def Let_def accounts_simps accounts_step_def split: option.split
        intro!: rdma_host_rec_ok)
qed (simp_all add: accounts_simps)

interpretation stcp_tgt: spdk_object ntp_u_nvmf_tcp_done NTP_CNT_TGT_SAMPLED NTP_CNT_TGT_EMITTED tgt_events spdk_tcp_tgt_ok
proof unfold_locales
  fix f s e um cmd qid cntlid tms
  show "accounts_step NTP_CNT_TGT_SAMPLED NTP_CNT_TGT_EMITTED tgt_events (spdk_tcp_tgt_ok f) s
      (ntp_u_nvmf_tcp_done f e um cmd qid cntlid tms s)"
    by (auto simp: ntp_u_nvmf_tcp_done_def Let_def accounts_simps accounts_step_def split: option.split
        intro!: tcp_tgt_rec_ok)
qed (simp_all add: accounts_simps)

interpretation srdma_tgt: spdk_object ntp_u_nvmf_rdma_done NTP_CNT_TGT_SAMPLED NTP_CNT_TGT_EMITTED tgt_events spdk_rdma_tgt_ok
proof unfold_locales
  fix f s e um cmd qid cntlid tms
  show "accounts_step NTP_CNT_TGT_SAMPLED NTP_CNT_TGT_EMITTED tgt_events (spdk_rdma_tgt_ok f) s
      (ntp_u_nvmf_rdma_done f e um cmd qid cntlid tms s)"
    by (auto simp: ntp_u_nvmf_rdma_done_def Let_def accounts_simps accounts_step_def split: option.split
        intro!: rdma_tgt_rec_ok)
qed (simp_all add: accounts_simps)

text \<open>After any sequence of hooks of an SPDK host, over TCP or RDMA, every sampled
  command was either handed over or dropped, the counter of handed-over records is their number, and
  every one of them passes the filter, says its direction and that it comes from SPDK, has an empty
  block-layer stage at both ends, and (over TCP) the arrival times looked up for it lie between its
  submission and the moment the PDU was parsed.\<close>

theorem spdk_host_accounts:
  "counter_total (spdk_run ntp_u_nvme_tcp_done f evs) NTP_CNT_HOST_SAMPLED =
     counter_total (spdk_run ntp_u_nvme_tcp_done f evs) NTP_CNT_HOST_EMITTED +
     counter_total (spdk_run ntp_u_nvme_tcp_done f evs) NTP_CNT_RB_DROPS \<and>
   counter_total (spdk_run ntp_u_nvme_tcp_done f evs) NTP_CNT_HOST_EMITTED =
     of_nat (length (host_events (spdk_run ntp_u_nvme_tcp_done f evs))) \<and>
   list_all (spdk_tcp_host_ok f) (host_events (spdk_run ntp_u_nvme_tcp_done f evs)) \<and>
   counter_total (spdk_run ntp_u_nvme_rdma_done f evs) NTP_CNT_HOST_SAMPLED =
     counter_total (spdk_run ntp_u_nvme_rdma_done f evs) NTP_CNT_HOST_EMITTED +
     counter_total (spdk_run ntp_u_nvme_rdma_done f evs) NTP_CNT_RB_DROPS \<and>
   counter_total (spdk_run ntp_u_nvme_rdma_done f evs) NTP_CNT_HOST_EMITTED =
     of_nat (length (host_events (spdk_run ntp_u_nvme_rdma_done f evs))) \<and>
   list_all (spdk_host_ok NTP_TR_RDMA f) (host_events (spdk_run ntp_u_nvme_rdma_done f evs))"
  using stcp_host.run_accounts [of f evs] srdma_host.run_accounts [of f evs] by blast

text \<open>The same of an SPDK target: the accounts balance, and every record passes the
  filter, leaves the block layer's times unset, and says how a write's data came; over TCP the arrival
  times looked up for it precede the parsing of the PDU, over RDMA a write's data came by RDMA READ or
  in the command, and then no data was sent back.\<close>

theorem spdk_target_accounts:
  "counter_total (spdk_run ntp_u_nvmf_tcp_done f evs) NTP_CNT_TGT_SAMPLED =
     counter_total (spdk_run ntp_u_nvmf_tcp_done f evs) NTP_CNT_TGT_EMITTED +
     counter_total (spdk_run ntp_u_nvmf_tcp_done f evs) NTP_CNT_RB_DROPS \<and>
   counter_total (spdk_run ntp_u_nvmf_tcp_done f evs) NTP_CNT_TGT_EMITTED =
     of_nat (length (tgt_events (spdk_run ntp_u_nvmf_tcp_done f evs))) \<and>
   list_all (spdk_tcp_tgt_ok f) (tgt_events (spdk_run ntp_u_nvmf_tcp_done f evs)) \<and>
   counter_total (spdk_run ntp_u_nvmf_rdma_done f evs) NTP_CNT_TGT_SAMPLED =
     counter_total (spdk_run ntp_u_nvmf_rdma_done f evs) NTP_CNT_TGT_EMITTED +
     counter_total (spdk_run ntp_u_nvmf_rdma_done f evs) NTP_CNT_RB_DROPS \<and>
   counter_total (spdk_run ntp_u_nvmf_rdma_done f evs) NTP_CNT_TGT_EMITTED =
     of_nat (length (tgt_events (spdk_run ntp_u_nvmf_rdma_done f evs))) \<and>
   list_all (spdk_rdma_tgt_ok f) (tgt_events (spdk_run ntp_u_nvmf_rdma_done f evs))"
  using stcp_tgt.run_accounts [of f evs] srdma_tgt.run_accounts [of f evs] by blast

end
