(* ===== verification/Loader_Select.thy ===== *)
theory Loader_Select
  imports Config "HOL-Library.List_Lexorder"
begin

text \<open>
  Which BPF objects and which of their programs are loaded (\<^verbatim>\<open>src/src/loader.c\<close>): the table of objects, the
  symbols of the kernel, the flavour of the function hooks, and the selection of programs. A program is its
  name and its section; the programs of an object, the lines of \<^verbatim>\<open>/proc/kallsyms\<close>, the
  environment variable \<^verbatim>\<open>NTPROF_SKIP\<close> and the answers of the operating system are parameters.
\<close>

subsection \<open>The BPF objects\<close>

record obj_desc =
  od_name :: string
  od_role :: ntp_role
  od_transport :: u8
  od_btf_module :: string
  od_required :: "string list"
  od_spdk :: bool

definition tcp_host_required :: "string list" where
  "tcp_host_required = [''ntp_h_setup_cmd'', ''ntp_h_recv_skb'', ''ntp_h_complete'', ''ntp_h_blk_done'']"

definition tcp_target_required :: "string list" where
  "tcp_target_required = [''ntp_t_copy'', ''ntp_t_req_init'', ''ntp_t_queue_resp'', ''ntp_t_sendmsg'']"

definition exact_only :: "string list" where
  "exact_only = [''ntp_h_queue_rq'']"

definition fallbacks :: "(string \<times> string) list" where
  "fallbacks = [(''ntp_h_try_send'', ''nvme_tcp_try_send_cmd_pdu''), (''ntp_h_sendpage'', ''nvme_tcp_try_send_cmd_pdu''),
     (''ntp_h_nosendpage'', ''nvme_tcp_try_send_cmd_pdu''), (''ntp_h_sendmsg'', ''nvme_tcp_try_send_cmd_pdu'')]"

definition rdma_host_required :: "string list" where
  "rdma_host_required = [''ntp_hr_queue_rq'', ''ntp_h_setup_cmd'', ''ntp_hr_recv_done'', ''ntp_hr_send_done'',
     ''ntp_hr_complete'', ''ntp_h_blk_done'']"

definition rdma_target_required :: "string list" where
  "rdma_target_required = [''ntp_tr_recv_done'', ''ntp_t_req_init'', ''ntp_tr_queue_resp'', ''ntp_tr_send_done'']"

definition spdk_host_required :: "string list" where "spdk_host_required = [''ntp_u_nvme_tcp_done'']"
definition spdk_target_required :: "string list" where "spdk_target_required = [''ntp_u_nvmf_tcp_done'']"
definition spdk_rdma_host_required :: "string list" where "spdk_rdma_host_required = [''ntp_u_nvme_rdma_done'']"
definition spdk_rdma_target_required :: "string list" where "spdk_rdma_target_required = [''ntp_u_nvmf_rdma_done'']"

definition obj :: "string \<Rightarrow> ntp_role \<Rightarrow> u8 \<Rightarrow> string \<Rightarrow> string list \<Rightarrow> bool \<Rightarrow> obj_desc" where
  "obj n r t b req spdk = \<lparr>od_name = n, od_role = r, od_transport = t, od_btf_module = b, od_required = req, od_spdk = spdk\<rparr>"

definition objects :: "obj_desc list" where
  "objects =
    [obj ''nvme_tcp_host'' NTP_ROLE_HOST NTP_TR_TCP ''nvme_tcp'' tcp_host_required False,
     obj ''nvme_tcp_target'' NTP_ROLE_TARGET NTP_TR_TCP ''nvmet_tcp'' tcp_target_required False,
     obj ''nvme_rdma_host'' NTP_ROLE_HOST NTP_TR_RDMA ''nvme_rdma'' rdma_host_required False,
     obj ''nvme_rdma_target'' NTP_ROLE_TARGET NTP_TR_RDMA ''nvmet_rdma'' rdma_target_required False,
     obj ''spdk_tcp_host'' NTP_ROLE_HOST NTP_TR_TCP ''nvme_tcp'' spdk_host_required True,
     obj ''spdk_tcp_target'' NTP_ROLE_TARGET NTP_TR_TCP ''nvmet_tcp'' spdk_target_required True,
     obj ''spdk_rdma_host'' NTP_ROLE_HOST NTP_TR_RDMA ''nvme_rdma'' spdk_rdma_host_required True,
     obj ''spdk_rdma_target'' NTP_ROLE_TARGET NTP_TR_RDMA ''nvmet_rdma'' spdk_rdma_target_required True]"

text \<open>Roles are bits: \<^verbatim>\<open>a & b\<close>.\<close>

fun role_and :: "ntp_role \<Rightarrow> ntp_role \<Rightarrow> bool" where
  "role_and NTP_ROLE_HOST NTP_ROLE_TARGET = False"
| "role_and NTP_ROLE_TARGET NTP_ROLE_HOST = False"
| "role_and _ _ = True"

definition role_in_spdk :: "ntp_config \<Rightarrow> ntp_role \<Rightarrow> bool" where
  "role_in_spdk c r = (if role_and r NTP_ROLE_HOST then cf_spdk_host c \<noteq> [] else cf_spdk_target c \<noteq> [])"

definition wanted :: "ntp_config \<Rightarrow> obj_desc \<Rightarrow> bool" where
  "wanted c d \<longleftrightarrow> role_and (cf_role c) (od_role d) \<and> cf_transport c = od_transport d \<and>
     od_spdk d = role_in_spdk c (od_role d)"

record bpf_prog =
  bp_name :: string
  bp_section :: string

definition is_usdt :: "bpf_prog \<Rightarrow> bool" where
  "is_usdt p \<longleftrightarrow> bp_section p = ''usdt''"

subsection \<open>Symbols of the kernel\<close>

fun strcmp :: "string \<Rightarrow> string \<Rightarrow> int" where
  "strcmp [] [] = 0"
| "strcmp [] (b # bs) = -1"
| "strcmp (a # as) [] = 1"
| "strcmp (a # as) (b # bs) =
    (if a = b then strcmp as bs else if (of_char a :: nat) < of_char b then -1 else 1)"

text \<open>\<^verbatim>\<open>sscanf(line, "%*s %*s %255s", name)\<close>: the third word of a line, cut.\<close>

definition next_word :: "string \<Rightarrow> string \<times> string" where
  "next_word s = (let s = dropWhile is_space s in (takeWhile (\<lambda>c. \<not> is_space c) s, dropWhile (\<lambda>c. \<not> is_space c) s))"

definition ksym_of :: "string \<Rightarrow> string option" where
  "ksym_of line =
    (let (a, r) = next_word line; (b, r) = next_word r; (n, r) = next_word r
     in if a = [] \<or> b = [] \<or> n = [] then None else Some (take 255 n))"

definition ksyms_load :: "string list \<Rightarrow> string list" where
  "ksyms_load lines = sort_key (map (of_char :: char \<Rightarrow> nat)) (List.map_filter ksym_of lines)"

text \<open>\<^verbatim>\<open>bsearch\<close>, over the part of the array from \<open>l\<close> to before \<open>u\<close>.\<close>

function bsearch :: "string \<Rightarrow> string list \<Rightarrow> nat \<Rightarrow> nat \<Rightarrow> bool" where
  "bsearch name xs l u =
    (if l < u
     then
       let idx = (l + u) div 2; c = strcmp name (xs ! idx)
       in if c < 0 then bsearch name xs l idx
          else if c > 0 then bsearch name xs (idx + 1) u else True
     else False)"
  by pat_completeness auto

termination bsearch
  by (relation "measure (\<lambda>(_, _, l, u). u - l)") auto

declare bsearch.simps [simp del]

definition ksyms_has :: "string list \<Rightarrow> string \<Rightarrow> bool" where
  "ksyms_has k name = bsearch name k 0 (length k)"

subsection \<open>Programs\<close>

definition USDT_PREFIX :: string where "USDT_PREFIX = ''ntp_u_''"

definition starts_with :: "string \<Rightarrow> string \<Rightarrow> bool" where
  "starts_with p s \<longleftrightarrow> take (length p) s = p"

definition after_slash :: "string \<Rightarrow> string" where
  "after_slash sec = tl (dropWhile (\<lambda>c. c \<noteq> CHR ''/'') sec)"

definition target_present :: "string list \<Rightarrow> bpf_prog \<Rightarrow> bool" where
  "target_present k p =
    (let sec = bp_section p
     in if is_usdt p then True
        else if CHR ''/'' \<notin> set sec then False
        else if starts_with ''raw_tp/'' sec \<or> starts_with ''tp_btf/'' sec
        then ksyms_has k (snprintf_s 256 (''__tracepoint_'' @ after_slash sec))
        else ksyms_has k (after_slash sec))"

definition base_len :: "string \<Rightarrow> nat" where
  "base_len prog =
    (let n = length prog
     in if n > 3 \<and> drop (n - 3) prog \<in> {''_fe'', ''_fx'', ''_kp'', ''_kr''} then n - 3 else n)"

definition in_list :: "string list \<Rightarrow> string \<Rightarrow> bool" where
  "in_list list prog =
    (let n = base_len prog in list_ex (\<lambda>r. length r = n \<and> take n r = take n prog) list)"

definition is_required :: "obj_desc \<Rightarrow> string \<Rightarrow> bool" where
  "is_required d prog = in_list (od_required d) prog"

definition fallback_for :: "string \<Rightarrow> string option" where
  "fallback_for prog =
    (let n = base_len prog
     in map_option snd (find (\<lambda>(p, missing). length p = n \<and> take n p = take n prog) fallbacks))"

function skip_list :: "string \<Rightarrow> string \<Rightarrow> bool" where
  "skip_list list prog =
    (if list = [] then False
     else
       let item = takeWhile (\<lambda>c. c \<noteq> CHR '','') list; rest = dropWhile (\<lambda>c. c \<noteq> CHR '','') list; n = base_len prog
       in if length item = n \<and> take n list = take n prog then True
          else if rest = [] then False else skip_list (tl rest) prog)"
  by pat_completeness auto

lemma dropWhile_shorter:
  assumes "xs \<noteq> []"
  shows "length (tl (dropWhile P xs)) < length xs"
proof -
  have "0 < length xs" using assms by simp
  then show ?thesis unfolding length_tl using length_dropWhile_le [of P xs] by linarith
qed

termination skip_list
  by (relation "measure (\<lambda>(list, _). length list)") (simp_all add: dropWhile_shorter del: length_tl)

declare skip_list.simps [simp del]

definition skipped :: "string option \<Rightarrow> string \<Rightarrow> bool" where
  "skipped env prog = (case env of None \<Rightarrow> False | Some list \<Rightarrow> skip_list list prog)"

datatype flavour = FL_COMMON | FL_FENTRY | FL_KPROBE

definition flavour_of :: "bpf_prog \<Rightarrow> flavour" where
  "flavour_of p =
    (let sec = bp_section p
     in if starts_with ''fentry/'' sec \<or> starts_with ''fexit/'' sec then FL_FENTRY
        else if starts_with ''kprobe/'' sec \<or> starts_with ''kretprobe/'' sec then FL_KPROBE
        else FL_COMMON)"

text \<open>
  What deciding the flavour needs of the system: whether the kernel has BTF, which modules have, and what the
  check of an fentry attachment gave (\<open>blocked\<close>: it did not succeed in time). The check runs once.
\<close>

record sys =
  sys_kernel_btf :: bool
  sys_module_btf :: "string \<Rightarrow> bool"
  sys_blocked :: bool

definition choose_flavour :: "sys \<Rightarrow> ntp_config \<Rightarrow> flavour" where
  "choose_flavour y c =
    (if cf_force_kprobes c \<or> \<not> sys_kernel_btf y then FL_KPROBE
     else if cf_force_fentry c then FL_FENTRY
     else if sys_blocked y then FL_KPROBE else FL_FENTRY)"

definition module_btf :: "sys \<Rightarrow> obj_desc \<Rightarrow> bool" where
  "module_btf y d = sys_module_btf y (snprintf_s 256 (''/sys/kernel/btf/'' @ od_btf_module d))"

definition object_flavour :: "sys \<Rightarrow> ntp_config \<Rightarrow> obj_desc \<Rightarrow> flavour" where
  "object_flavour y c d = (if \<not> od_spdk d \<and> \<not> module_btf y d then FL_KPROBE else choose_flavour y c)"

text \<open>The programs with their autoload flag, or \<open>None\<close> when a required attach point is missing.\<close>

fun select_programs ::
  "obj_desc \<Rightarrow> string list \<Rightarrow> flavour \<Rightarrow> bool \<Rightarrow> string option \<Rightarrow> bpf_prog list \<Rightarrow> (bpf_prog \<times> bool) list option" where
  "select_programs d ks fl exact env [] = Some []"
| "select_programs d ks fl exact env (p # ps) =
    (let name = bp_name p; pf = flavour_of p; stands_in = fallback_for name;
         rest = (\<lambda>load. map_option (Cons (p, load)) (select_programs d ks fl exact env ps))
     in if (pf \<noteq> FL_COMMON \<and> pf \<noteq> fl) \<or> (\<not> exact \<and> in_list exact_only name) \<or>
           (case stands_in of None \<Rightarrow> False | Some f \<Rightarrow> ksyms_has ks f)
        then rest False
        else if skipped env name then rest False
        else if target_present ks p then rest True
        else if is_required d name then None
        else rest False)"

subsection \<open>Searching\<close>

abbreviation code_of :: "string \<Rightarrow> nat list" where "code_of \<equiv> map of_char"

lemma strcmp_code: "strcmp a b < 0 \<longleftrightarrow> code_of a < code_of b" "strcmp a b = 0 \<longleftrightarrow> a = b"
  by (induction a b rule: strcmp.induct) auto

lemma strcmp_cases: "strcmp a b > 0 \<longleftrightarrow> code_of b < code_of a"
proof -
  have "inj_on (of_char :: char \<Rightarrow> nat) UNIV" by (simp add: inj_on_def)
  then have "code_of a = code_of b \<longleftrightarrow> a = b" by (metis inj_map_eq_map)
  then show ?thesis using strcmp_code [of a b] by (metis linorder_neqE less_asym less_irrefl)
qed

lemma bsearch_iff:
  assumes "sorted (map code_of xs)"
  shows "u \<le> length xs \<Longrightarrow> bsearch name xs l u \<longleftrightarrow> (\<exists>i. l \<le> i \<and> i < u \<and> xs ! i = name)"
  using assms
proof (induction name xs l u rule: bsearch.induct)
  case (1 name xs l u)
  show ?case
  proof (cases "l < u")
    case False
    then show ?thesis by (subst bsearch.simps) auto
  next
    case True
    let ?i = "(l + u) div 2"
    have i: "l \<le> ?i" "?i < u" using True by auto
    have le: "code_of (xs ! a) \<le> code_of (xs ! b)" if "a \<le> b" "b < u" for a b
      using that "1.prems" sorted_nth_mono [of "map code_of xs" a b] by simp
    consider "strcmp name (xs ! ?i) < 0" | "strcmp name (xs ! ?i) > 0" | "strcmp name (xs ! ?i) = 0" by linarith
    then show ?thesis
    proof cases
      case 1
      then have "\<not> (?i \<le> k \<and> k < u \<and> xs ! k = name)" for k
        using le [of ?i k] strcmp_code(1) [of name "xs ! ?i"] by auto
      moreover have "bsearch name xs l u = bsearch name xs l ?i" using 1 True by (subst bsearch.simps) simp
      moreover have "bsearch name xs l ?i \<longleftrightarrow> (\<exists>k. l \<le> k \<and> k < ?i \<and> xs ! k = name)"
        using "1.IH"(1) [OF True refl refl 1] "1.prems" i by simp
      ultimately show ?thesis using i(2) by (metis (no_types) less_trans not_le)
    next
      case 2
      have none: "\<not> k \<le> ?i" if "l \<le> k" "xs ! k = name" for k
        using le [of k ?i] strcmp_cases [of name "xs ! ?i"] i(2) that 2 by auto
      have "bsearch name xs l u = bsearch name xs (?i + 1) u" using 2 True by (subst bsearch.simps) simp
      also have "\<dots> \<longleftrightarrow> (\<exists>k. ?i + 1 \<le> k \<and> k < u \<and> xs ! k = name)"
        using "1.IH"(2) [OF True refl refl] 2 "1.prems" by simp
      also have "\<dots> \<longleftrightarrow> (\<exists>k. l \<le> k \<and> k < u \<and> xs ! k = name)"
      proof
        assume "\<exists>k. ?i + 1 \<le> k \<and> k < u \<and> xs ! k = name"
        then obtain k where "?i + 1 \<le> k" "k < u" "xs ! k = name" by blast
        moreover from this(1) i(1) have "l \<le> k" by linarith
        ultimately show "\<exists>k. l \<le> k \<and> k < u \<and> xs ! k = name" by blast
      next
        assume "\<exists>k. l \<le> k \<and> k < u \<and> xs ! k = name"
        then obtain k where "l \<le> k" "k < u" "xs ! k = name" by blast
        moreover from none [OF this(1,3)] have "?i + 1 \<le> k" by linarith
        ultimately show "\<exists>k. ?i + 1 \<le> k \<and> k < u \<and> xs ! k = name" by blast
      qed
      finally show ?thesis .
    next
      case 3
      then have "xs ! ?i = name" using strcmp_code(2) by metis
      moreover have "bsearch name xs l u" using 3 True by (subst bsearch.simps) simp
      ultimately show ?thesis using i by blast
    qed
  qed
qed

lemma ksyms_has_mem: "ksyms_has (ksyms_load lines) name \<longleftrightarrow> name \<in> set (List.map_filter ksym_of lines)"
proof -
  have "sorted (map code_of (ksyms_load lines))" by (simp add: ksyms_load_def)
  then have "ksyms_has (ksyms_load lines) name \<longleftrightarrow> name \<in> set (ksyms_load lines)"
    using bsearch_iff [of "ksyms_load lines" "length (ksyms_load lines)" name 0] by (auto simp: ksyms_has_def in_set_conv_nth)
  then show ?thesis by (simp add: ksyms_load_def)
qed

text \<open>
  Looking up a symbol is right: the binary search over the sorted names finds a name exactly when it is the
  third word, cut to 255 characters, of a line of \<^verbatim>\<open>/proc/kallsyms\<close>.
\<close>

theorem ksyms_lookup:
  "ksyms_has (ksyms_load lines) name \<longleftrightarrow> (\<exists>line \<in> set lines. ksym_of line = Some name)"
  unfolding ksyms_has_mem by (force simp: List.map_filter_def)

subsection \<open>Programs\<close>

lemma in_list_base: "in_list list prog \<longleftrightarrow> take (base_len prog) prog \<in> set list"
proof -
  have "base_len prog \<le> length prog" by (simp add: base_len_def Let_def)
  then have "(length r = base_len prog \<and> take (base_len prog) r = take (base_len prog) prog) \<longleftrightarrow> r = take (base_len prog) prog" for r
    by auto
  then show ?thesis by (auto simp: in_list_def Let_def list_ex_iff)
qed

text \<open>A program is for this kernel and these settings, and is loaded when its attach point is there.\<close>

definition eligible :: "string list \<Rightarrow> flavour \<Rightarrow> bool \<Rightarrow> string option \<Rightarrow> bpf_prog \<Rightarrow> bool" where
  "eligible ks fl exact env p \<longleftrightarrow> flavour_of p \<in> {FL_COMMON, fl} \<and> (exact \<or> \<not> in_list exact_only (bp_name p)) \<and>
     (case fallback_for (bp_name p) of None \<Rightarrow> True | Some f \<Rightarrow> \<not> ksyms_has ks f) \<and> \<not> skipped env (bp_name p)"

lemma select_programs_Cons:
  "select_programs d ks fl exact env (p # ps) =
    (if eligible ks fl exact env p \<and> \<not> target_present ks p \<and> is_required d (bp_name p) then None
     else map_option (Cons (p, eligible ks fl exact env p \<and> target_present ks p)) (select_programs d ks fl exact env ps))"
  by (auto simp: eligible_def Let_def split: option.split)

lemma select_programs_eq:
  "select_programs d ks fl exact env ps =
    (if list_ex (\<lambda>p. eligible ks fl exact env p \<and> \<not> target_present ks p \<and> is_required d (bp_name p)) ps then None
     else Some (map (\<lambda>p. (p, eligible ks fl exact env p \<and> target_present ks p)) ps))"
  by (induction ps) (simp_all add: select_programs_Cons del: select_programs.simps(2))

text \<open>
  \<^bold>\<open>C21.\<close> Selecting the programs of an object fails exactly when a required program, of the chosen flavour and
  not skipped, has no attach point on this kernel. Otherwise a program is loaded exactly when it is eligible
  and its attach point exists, so that no function is hooked in two flavours, and every required program
  that is eligible is loaded.
\<close>

theorem select_programs_correct:
  "(select_programs d ks fl exact env ps = None \<longleftrightarrow>
      (\<exists>p \<in> set ps. eligible ks fl exact env p \<and> is_required d (bp_name p) \<and> \<not> target_present ks p)) \<and>
   (\<forall>sel. select_programs d ks fl exact env ps = Some sel \<longrightarrow>
      map fst sel = ps \<and>
      (\<forall>(p, load) \<in> set sel. load = (eligible ks fl exact env p \<and> target_present ks p) \<and>
         (load \<longrightarrow> flavour_of p \<in> {FL_COMMON, fl}) \<and>
         (is_required d (bp_name p) \<and> eligible ks fl exact env p \<longrightarrow> load)))"
  unfolding select_programs_eq by (auto simp: comp_def eligible_def list_ex_iff)

text \<open>A kprobe of the host's object whose function the kernel has.\<close>

definition sample_prog :: bpf_prog where
  "sample_prog = \<lparr>bp_name = ''ntp_h_blk_done_kp'', bp_section = ''kprobe/f''\<rparr>"

theorem select_programs_correct_witness:
  "\<exists>sel. select_programs (hd objects) [''f''] FL_KPROBE False None [sample_prog] = Some sel \<and> map fst sel = [sample_prog] \<and>
    (\<forall>(p, load) \<in> set sel. load = (eligible [''f''] FL_KPROBE False None p \<and> target_present [''f''] p))"
proof -
  have "select_programs (hd objects) [''f''] FL_KPROBE False None [sample_prog] = Some [(sample_prog, True)]" by code_simp
  then show ?thesis using select_programs_correct [of "hd objects" "[''f'']" FL_KPROBE False None "[sample_prog]"] by fastforce
qed

text \<open>
  For either transport, one object is loaded for each role of the configuration, the one in the
  kernel or the one for SPDK as the configuration says; the kernel's come first, and the host's before
  the target's among those of a kind.
\<close>

theorem wanted_objects:
  assumes "cf_transport c = NTP_TR_TCP \<or> cf_transport c = NTP_TR_RDMA"
  shows "map (\<lambda>d. (od_role d, od_transport d, od_spdk d)) (filter (wanted c) objects) =
    (let h = cf_role c \<noteq> NTP_ROLE_TARGET; hs = cf_spdk_host c \<noteq> []; t = cf_role c \<noteq> NTP_ROLE_HOST; ts = cf_spdk_target c \<noteq> [];
         H = (NTP_ROLE_HOST, cf_transport c, hs); T = (NTP_ROLE_TARGET, cf_transport c, ts)
     in (if h \<and> \<not> hs then [H] else []) @ (if t \<and> \<not> ts then [T] else []) @
        (if h \<and> hs then [H] else []) @ (if t \<and> ts then [T] else []))"
  using assms
  by (cases "cf_role c"; cases "cf_spdk_host c = []"; cases "cf_spdk_target c = []")
    (auto simp: objects_def obj_def wanted_def role_in_spdk_def NTP_TR_TCP_def NTP_TR_RDMA_def)

theorem wanted_objects_witness:
  "map (\<lambda>d. (od_role d, od_transport d, od_spdk d)) (filter (wanted config_defaults) objects) = [(NTP_ROLE_HOST, NTP_TR_TCP, False)]"
  using wanted_objects [of config_defaults] by (simp add: config_defaults_def)

end
