(* ===== verification/Loader_Filter.thy ===== *)
theory Loader_Filter
  imports Config Bpf_Host
begin

text \<open>
  What the loader computes for the BPF objects (\<^verbatim>\<open>src/src/loader.c\<close>): the filter from the
  configuration, the controllers of a session, the offset between the clocks, and the size of the ring buffer.
  Reads of sysfs and of the clocks are parameters.
\<close>

subsection \<open>The size of the ring buffer\<close>

definition MAX_RINGBUF_MB :: u32 where "MAX_RINGBUF_MB = 256"

lemma and_pred_less: "x \<noteq> 0 \<Longrightarrow> x AND (x - 1) < (x :: u64)"
  by (meson word_and_le2 order.strict_trans1 word_and_le1 le_less_trans word_less_1 measure_unat word_less_nat_alt)

text \<open>The loop that clears the lowest bits until one is left.\<close>

function power_of_two :: "u64 \<Rightarrow> u64" where
  "power_of_two x = (if x AND (x - 1) \<noteq> 0 then power_of_two (x AND (x - 1)) else x)"
  by pat_completeness auto

termination power_of_two
  by (relation "measure unat") (auto simp: word_less_nat_alt [symmetric] intro!: and_pred_less)

declare power_of_two.simps [simp del]

definition ring_bytes :: "ntp_config \<Rightarrow> u64" where
  "ring_bytes c =
    power_of_two (push_bit 20 (ucast (if cf_buffer_mb c > MAX_RINGBUF_MB then MAX_RINGBUF_MB else cf_buffer_mb c)))"

subsection \<open>The clocks\<close>

text \<open>
  Each read gives the monotonic clock, the real-time clock and the monotonic clock again, in ns. The numbers are
  mathematical integers: times of day in ns are far from the limits of 64 bits. Division truncates.
\<close>

definition half :: "int \<Rightarrow> int" where
  "half x = (if x < 0 then - ((- x) div 2) else x div 2)"

definition INT64_MAX :: int where "INT64_MAX = 2 ^ 63 - 1"

definition real_minus_mono :: "(int \<times> int \<times> int) list \<Rightarrow> int" where
  "real_minus_mono reads =
    fst (foldl (\<lambda>(best, best_gap) (a, r, b).
      let gap = b - a in if gap < best_gap then (r - (a + half gap), gap) else (best, best_gap)) (0, INT64_MAX) reads)"

subsection \<open>The controllers of a session\<close>

text \<open>\<^verbatim>\<open>%u\<close> of \<^verbatim>\<open>sscanf\<close>: as \<^verbatim>\<open>strtoul\<close>, cut to 32 bits.\<close>

definition scan_u :: "string \<Rightarrow> (u32 \<times> string) option" where
  "scan_u s = (let (v, rest, erange) = strtoull s in if rest = s then None else Some (ucast v, rest))"

definition scan_session :: "string \<Rightarrow> (u32 \<times> u32) option" where
  "scan_session s =
    (if take 4 s \<noteq> ''nvme'' then None
     else
       case scan_u (drop 4 s) of
         None \<Rightarrow> None
       | Some (subsys, rest) \<Rightarrow>
           if rest = [] \<or> hd rest \<noteq> CHR ''n'' then None
           else case scan_u (tl rest) of None \<Rightarrow> None | Some (ns, rest) \<Rightarrow> Some (subsys, ns))"

record sysfs =
  fs_nsid :: "string \<Rightarrow> u32 option"
  fs_exists :: "string \<Rightarrow> bool"

definition path_device :: "u32 \<Rightarrow> nat \<Rightarrow> u32 \<Rightarrow> string" where
  "path_device subsys ctrl ns =
    snprintf_s 256 (''/sys/block/nvme'' @ dec (unat subsys) @ ''c'' @ dec ctrl @ ''n'' @ dec (unat ns))"

definition zero_filter :: ntp_filter where
  "zero_filter = \<lparr>f_sample_every = 0, f_io_type = 0, f_n_sizes = 0, f_ctrl_filter = 0, f_track_queues = False,
     f_min_bytes = 0, f_max_bytes = 0, f_sizes = replicate NTP_MAX_SIZE_FILTERS 0, f_ctrl_mask = replicate 4 0,
     f_nsid = 0, f_real_minus_mono = 0, f_npids = 0, f_pids = replicate NTP_MAX_PIDS 0\<rparr>"

definition set_ctrl :: "nat \<Rightarrow> u64 list \<Rightarrow> u64 list" where
  "set_ctrl ctrl m = m[ctrl div 64 := m ! (ctrl div 64) OR push_bit (ctrl mod 64) 1]"

definition resolve_session :: "sysfs \<Rightarrow> string \<Rightarrow> ntp_filter option" where
  "resolve_session y session =
    (if session = ''all'' then Some zero_filter
     else
       case scan_session session of
         None \<Rightarrow> None
       | Some (subsys, ns) \<Rightarrow>
           let nsid = (case fs_nsid y (snprintf_s 256 (''/sys/block/'' @ session @ ''/nsid'')) of Some n \<Rightarrow> n | None \<Rightarrow> ns);
               ctrls = filter (\<lambda>ctrl. fs_exists y (path_device subsys ctrl ns)) [0 ..< 256];
               msk = foldl (\<lambda>m ctrl. set_ctrl ctrl m) (replicate 4 0) ctrls
           in if ctrls = [] \<and> subsys > 255 then None
              else Some (zero_filter\<lparr>f_nsid := nsid, f_ctrl_filter := 1,
                f_ctrl_mask := if ctrls = [] then set_ctrl (unat subsys) msk else msk\<rparr>))"

subsection \<open>The filter\<close>

primrec io_code :: "ntp_io_type \<Rightarrow> u8" where
  "io_code NTP_IO_READ = 0" | "io_code NTP_IO_WRITE = 1" | "io_code NTP_IO_BOTH = 2"

definition fill_filter :: "int \<Rightarrow> ntp_config \<Rightarrow> ntp_filter option \<Rightarrow> ntp_filter" where
  "fill_filter offset c host_sel =
    (let f = zero_filter\<lparr>f_sample_every := if cf_sample_every c \<noteq> 0 then cf_sample_every c else 1,
           f_io_type := io_code (cf_io_type c), f_n_sizes := of_nat (cf_n_sizes c),
           f_sizes := foldl (\<lambda>s i. s[i := cf_sizes c ! i]) (replicate NTP_MAX_SIZE_FILTERS 0) [0 ..< cf_n_sizes c],
           f_min_bytes := ucast (cf_min_size c), f_max_bytes := ucast (cf_max_size c)\<rparr>;
         f = (case host_sel of None \<Rightarrow> f
              | Some sel \<Rightarrow> f\<lparr>f_ctrl_filter := f_ctrl_filter sel, f_ctrl_mask := f_ctrl_mask sel, f_nsid := f_nsid sel\<rparr>)
     in f\<lparr>f_track_queues := cf_exact_queues c, f_real_minus_mono := of_int offset\<rparr>)"

subsection \<open>Powers of two\<close>

lemma bit_top:
  assumes "2 ^ k \<le> unat x" and "unat x < 2 ^ Suc k"
  shows "bit (x :: u64) k"
proof -
  have "unat x div 2 ^ k = 1" using assms by (simp add: div_nat_eqI)
  then have "bit (unat x) k" by (simp add: bit_iff_odd)
  then show ?thesis by (simp add: bit_unsigned_iff)
qed

lemma and_pred_keeps:
  fixes x :: u64
  assumes "2 ^ k < unat x" and "unat x < 2 ^ Suc k"
  shows "2 ^ k \<le> unat (x AND (x - 1))" and "unat (x AND (x - 1)) < unat x"
proof -
  have "unat (x - 1) = unat x - 1" using assms(1) by (metis unat_minus_one unat_0 less_nat_zero_code)
  moreover have "2 ^ k \<le> unat x - 1" "2 ^ k \<le> unat x" "unat x - 1 < 2 ^ Suc k" using assms by linarith+
  ultimately have "bit x k" "bit (x - 1) k" using assms(2) bit_top [of k x] bit_top [of k "x - 1"] by simp_all
  then have "bit (x AND (x - 1)) k" by (simp add: bit_and_iff)
  then have "bit (unat (x AND (x - 1))) k" by (simp add: bit_unsigned_iff)
  then show "2 ^ k \<le> unat (x AND (x - 1))"
    by (metis bit_iff_odd div_less dvd_0_right not_le)
  have "x \<noteq> 0" using assms(1) by auto
  then show "unat (x AND (x - 1)) < unat x" using and_pred_less word_less_nat_alt by blast
qed

lemma power_of_two_eq: "2 ^ k \<le> unat x \<Longrightarrow> unat x < 2 ^ Suc k \<Longrightarrow> unat (power_of_two x) = 2 ^ k"
proof (induction x rule: power_of_two.induct)
  case (1 x)
  show ?case
  proof (cases "unat x = 2 ^ k")
    case True
    have "x = of_nat (unat x)" by simp
    then have "x = 2 ^ k" unfolding True by simp
    then have "x AND (x - 1) = 0"
      by (intro bit_word_eqI) (auto simp: bit_simps bit_mask_iff simp flip: mask_eq_exp_minus_1)
    then show ?thesis using True by (simp add: power_of_two.simps)
  next
    case False
    then have "2 ^ k < unat x" using 1 by simp
    note keeps = and_pred_keeps [OF this 1(3)]
    have "x AND (x - 1) \<noteq> 0"
    proof
      assume "x AND (x - 1) = 0"
      then have "2 ^ k \<le> (0 :: nat)" using keeps(1) by simp
      then show False by simp
    qed
    then show ?thesis using 1 keeps by (subst power_of_two.simps) simp
  qed
qed

text \<open>
  \<^bold>\<open>C39.\<close> The size of the ring buffer is what the kernel accepts: for every buffer size but 0 the loop ends with a power of
  two, from 1 MiB to 256 MiB, that is at most the size asked for (or the maximum) and more than half of it.
\<close>

theorem ring_bytes_power:
  assumes "cf_buffer_mb c \<noteq> 0"
  shows "\<exists>k. unat (ring_bytes c) = 2 ^ k \<and> 20 \<le> k \<and> k \<le> 28 \<and>
    2 ^ k \<le> min (unat (cf_buffer_mb c)) 256 * 2 ^ 20 \<and> min (unat (cf_buffer_mb c)) 256 * 2 ^ 20 < 2 ^ Suc k"
proof -
  define mb where "mb = min (unat (cf_buffer_mb c)) 256"
  have mb: "0 < mb" "mb \<le> 256" using assms by (auto simp: mb_def unat_gt_0)
  let ?x = "push_bit 20 (ucast (if cf_buffer_mb c > MAX_RINGBUF_MB then MAX_RINGBUF_MB else cf_buffer_mb c)) :: u64"
  have "unat (if cf_buffer_mb c > MAX_RINGBUF_MB then MAX_RINGBUF_MB else cf_buffer_mb c) = mb"
    by (auto simp: mb_def MAX_RINGBUF_MB_def word_less_nat_alt min_def)
  then have x: "unat ?x = mb * 2 ^ 20"
    using mb by (simp add: push_bit_eq_mult unat_word_ariths unsigned_ucast_eq take_bit_eq_mod)
  obtain k where k: "2 ^ k \<le> mb" "mb < 2 ^ Suc k"
    using mb(1) ex_power_ivl1 [of 2 mb] by auto
  have "k \<le> 8"
  proof (rule ccontr)
    assume "\<not> k \<le> 8"
    then have "(2 :: nat) ^ 9 \<le> 2 ^ k" by (intro power_increasing) simp_all
    then show False using k(1) mb(2) by simp
  qed
  moreover have "2 ^ (k + 20) \<le> mb * 2 ^ 20" "mb * 2 ^ 20 < 2 ^ Suc (k + 20)" using k by (simp_all add: power_add)
  ultimately show ?thesis
    using power_of_two_eq [of "k + 20" ?x] x by (intro exI [of _ "k + 20"]) (simp add: ring_bytes_def mb_def)
qed

theorem ring_bytes_power_witness: "unat (ring_bytes (config_defaults\<lparr>cf_buffer_mb := 3\<rparr>)) = 2097152"
proof -
  obtain k where k: "unat (ring_bytes (config_defaults\<lparr>cf_buffer_mb := 3\<rparr>)) = 2 ^ k"
    "2 ^ k \<le> (3145728 :: nat)" "3145728 < (2 :: nat) ^ Suc k"
    using ring_bytes_power [of "config_defaults\<lparr>cf_buffer_mb := 3\<rparr>"] by auto
  have "(2 :: nat) ^ k < 2 ^ 22" "(2 :: nat) ^ 21 < 2 ^ Suc k" using k(2,3) by simp_all
  then have "k < 22" "21 < Suc k" by (metis one_less_numeral_iff power_less_imp_less_exp semiring_norm(76))+
  then have "k = 21" by simp
  then show ?thesis using k(1) by simp
qed

subsection \<open>The clock offset\<close>

text \<open>
  The offset between the clocks is as exact as the best of the reads allows: when the real-time clock is the
  monotonic clock plus \<open>D\<close> and was read between the two reads of the other, the result is off by at most half
  the smallest time, rounded up, that a pair of reads took.
\<close>

theorem clock_offset_bound:
  assumes "reads \<noteq> []" and "\<forall>(a, r, b) \<in> set reads. a \<le> r - D \<and> r - D \<le> b \<and> b - a < INT64_MAX"
  shows "\<bar>real_minus_mono reads - D\<bar> \<le> (Min ((\<lambda>(a, r, b). b - a) ` set reads) + 1) div 2"
proof -
  let ?step = "\<lambda>(best, best_gap) (a, r, b). let gap = b - a in
    if gap < best_gap then (r - (a + half gap), gap) else (best, best_gap :: int)"
  let ?gap = "\<lambda>(a, r, b). b - a :: int"
  have one: "\<bar>r - (a + half (b - a)) - D\<bar> \<le> (b - a + 1) div 2" if "a \<le> r - D" "r - D \<le> b" for a r b
    using that by (simp add: half_def)
  have "rs \<noteq> [] \<Longrightarrow> set rs \<subseteq> set reads \<Longrightarrow>
      \<bar>fst (foldl ?step (0, INT64_MAX) rs) - D\<bar> \<le> (snd (foldl ?step (0, INT64_MAX) rs) + 1) div 2 \<and>
      snd (foldl ?step (0, INT64_MAX) rs) = Min (?gap ` set rs)" for rs
  proof (induction rs rule: rev_induct)
    case (snoc x rs)
    obtain a r b where x: "x = (a, r, b)" by (cases x) auto
    have ok: "a \<le> r - D" "r - D \<le> b" "b - a < INT64_MAX" using snoc.prems(2) assms(2) x by auto
    show ?case
    proof (cases "rs = []")
      case True
      then show ?thesis using one [OF ok(1,2)] ok(3) by (simp add: x Let_def)
    next
      case False
      obtain best bg where f: "foldl ?step (0, INT64_MAX) rs = (best, bg)" by fastforce
      have ih: "\<bar>best - D\<bar> \<le> (bg + 1) div 2" "bg = Min (?gap ` set rs)" using snoc False f by auto
      have "Min (?gap ` set (rs @ [x])) = min (b - a) bg"
        using False ih(2) by (simp add: x Min_insert)
      then show ?thesis using one [OF ok(1,2)] ih f by (auto simp: x Let_def min_def)
    qed
  qed simp
  note all = this [OF assms(1) order.refl]
  show ?thesis unfolding real_minus_mono_def all [THEN conjunct2, symmetric] by (rule all [THEN conjunct1])
qed

theorem clock_offset_bound_witness: "\<bar>real_minus_mono [(10, 1013, 20), (30, 1032, 34)] - 1000\<bar> \<le> 2"
  using clock_offset_bound [of "[(10, 1013, 20), (30, 1032, 34)]" 1000] by (simp add: INT64_MAX_def)

subsection \<open>Which controllers are selected\<close>

lemma set_ctrl_bit:
  assumes "length m = 4" and "ctrl < 256" and "i < 256"
  shows "length (set_ctrl ctrl m) = 4"
    and "bit (set_ctrl ctrl m ! (i div 64)) (i mod 64) \<longleftrightarrow> bit (m ! (i div 64)) (i mod 64) \<or> i = ctrl"
proof -
  show "length (set_ctrl ctrl m) = 4" using assms(1) by (simp add: set_ctrl_def)
  have "i = ctrl \<longleftrightarrow> i div 64 = ctrl div 64 \<and> i mod 64 = ctrl mod 64" by (metis mult_div_mod_eq)
  then show "bit (set_ctrl ctrl m ! (i div 64)) (i mod 64) \<longleftrightarrow> bit (m ! (i div 64)) (i mod 64) \<or> i = ctrl"
    using assms by (auto simp: set_ctrl_def nth_list_update bit_simps)
qed

lemma set_ctrls_bit:
  assumes "\<forall>c \<in> set cs. c < 256" and "i < 256"
  shows "length (foldl (\<lambda>m c. set_ctrl c m) (replicate 4 0) cs) = 4"
    and "bit (foldl (\<lambda>m c. set_ctrl c m) (replicate 4 0) cs ! (i div 64)) (i mod 64) \<longleftrightarrow> i \<in> set cs"
proof -
  have "length (foldl (\<lambda>m c. set_ctrl c m) m cs) = 4 \<and>
      (bit (foldl (\<lambda>m c. set_ctrl c m) m cs ! (i div 64)) (i mod 64) \<longleftrightarrow> bit (m ! (i div 64)) (i mod 64) \<or> i \<in> set cs)"
    if "length m = 4" for m
    using that assms(1)
  proof (induction cs arbitrary: m)
    case (Cons c cs)
    then show ?case using set_ctrl_bit [of m c i] assms(2) by auto
  qed simp
  from this [of "replicate 4 0"] show "length (foldl (\<lambda>m c. set_ctrl c m) (replicate 4 0) cs) = 4"
    "bit (foldl (\<lambda>m c. set_ctrl c m) (replicate 4 0) cs ! (i div 64)) (i mod 64) \<longleftrightarrow> i \<in> set cs"
    using assms(2) by simp_all
qed

text \<open>The test of the BPF programs on a mask is the bit of the controller's number.\<close>

lemma ctrl_selected_bit:
  assumes "unat inst < 256" and "f_ctrl_filter f = 1"
  shows "ctrl_selected f inst \<longleftrightarrow> bit (f_ctrl_mask f ! (unat inst div 64)) (unat inst mod 64)"
proof -
  have "drop_bit 6 inst AND 3 = take_bit 2 (drop_bit 6 inst)" "inst AND 63 = take_bit 6 inst"
    by (simp_all add: take_bit_eq_mask mask_eq_exp_minus_1)
  then have i: "unat (drop_bit 6 inst AND 3) = unat inst div 64" "unat (inst AND 63) = unat inst mod 64"
    using assms(1) by (simp_all add: unsigned_take_bit_eq unat_drop_bit_eq take_bit_eq_mod drop_bit_eq_div unat_div unat_mod)
  have "inst \<le> 255" using assms(1) by (simp add: word_le_nat_alt)
  moreover have "has_flag m (push_bit (unat inst mod 64) 1) \<longleftrightarrow> bit m (unat inst mod 64)" for m :: u64
    using has_flag_bit [of m "unat inst mod 64"] by (simp add: push_bit_eq_mult)
  ultimately show ?thesis using assms(2) by (simp add: ctrl_selected_def i)
qed

text \<open>What a session name stands for: the number of its namespace, and its controllers.\<close>

definition session_nsid :: "sysfs \<Rightarrow> string \<Rightarrow> u32 \<Rightarrow> u32" where
  "session_nsid y s ns = (case fs_nsid y (snprintf_s 256 (''/sys/block/'' @ s @ ''/nsid'')) of Some n \<Rightarrow> n | None \<Rightarrow> ns)"

definition session_ctrl :: "sysfs \<Rightarrow> u32 \<Rightarrow> u32 \<Rightarrow> u32 \<Rightarrow> bool" where
  "session_ctrl y subsys ns inst \<longleftrightarrow> unat inst < 256 \<and>
    (if \<exists>i < 256. fs_exists y (path_device subsys i ns) then fs_exists y (path_device subsys (unat inst) ns) else inst = subsys)"

lemma session_mask:
  assumes "resolve_session y s = Some sel" and "s \<noteq> ''all''" and "scan_session s = Some (subsys, ns)"
  shows "ctrl_selected (fill_filter off c (Some sel)) inst \<longleftrightarrow> session_ctrl y subsys ns inst"
    and "f_nsid (fill_filter off c (Some sel)) = session_nsid y s ns"
proof -
  let ?cs = "filter (\<lambda>i. fs_exists y (path_device subsys i ns)) [0 ..< 256]"
  have less: "\<forall>i \<in> set ?cs. i < 256" by simp
  have sel: "f_ctrl_filter sel = 1" "\<not> (?cs = [] \<and> subsys > 255)" "f_nsid sel = session_nsid y s ns"
    "f_ctrl_mask sel = (let m = foldl (\<lambda>m c. set_ctrl c m) (replicate 4 0) ?cs in if ?cs = [] then set_ctrl (unat subsys) m else m)"
    using assms(1-3) by (auto simp: resolve_session_def session_nsid_def Let_def split: if_splits)
  have f: "f_ctrl_filter (fill_filter off c (Some sel)) = 1" "f_ctrl_mask (fill_filter off c (Some sel)) = f_ctrl_mask sel"
    using sel(1) by (simp_all add: fill_filter_def Let_def)
  show "f_nsid (fill_filter off c (Some sel)) = session_nsid y s ns" using sel(3) by (simp add: fill_filter_def Let_def)
  have any: "?cs = [] \<longleftrightarrow> \<not> (\<exists>i < 256. fs_exists y (path_device subsys i ns))" by (auto simp: filter_empty_conv)
  show "ctrl_selected (fill_filter off c (Some sel)) inst \<longleftrightarrow> session_ctrl y subsys ns inst"
  proof (cases "unat inst < 256")
    case small: True
    have "bit (f_ctrl_mask sel ! (unat inst div 64)) (unat inst mod 64) \<longleftrightarrow>
        (if ?cs = [] then inst = subsys else unat inst \<in> set ?cs)"
    proof (cases "?cs = []")
      case True
      then have "unat subsys < 256" using sel(2) by (simp add: word_less_nat_alt not_less)
      then show ?thesis using True set_ctrl_bit(2) [of "replicate 4 0" "unat subsys" "unat inst"] small sel(4)
        by (simp add: word_unat_eq_iff)
    next
      case False
      then show ?thesis using set_ctrls_bit(2) [OF less small] sel(4) by (simp add: Let_def)
    qed
    then show ?thesis using ctrl_selected_bit [OF small f(1)] f(2) any small unfolding session_ctrl_def by (cases "?cs = []") auto
  next
    case False
    then have "\<not> inst \<le> 255" by (simp add: word_le_nat_alt)
    then show ?thesis using False f(1) unfolding ctrl_selected_def session_ctrl_def by simp
  qed
qed

text \<open>
  \<^bold>\<open>C20.\<close> A session selects its own commands: with the filter of a session name \<^verbatim>\<open>nvmeXnY\<close>, of the commands that
  the BPF host programs select without a session, those pass that go to the namespace of the
  device through one of its controllers. A controller is one of them exactly when sysfs has a path device of it for this
  namespace or, where it has none for any controller, when its number is the one in the name; numbers above 255
  never pass. The number of the namespace is the one in sysfs or, where that cannot be read, the one in the name; it must
  not be 0, which NVMe gives to no namespace.
\<close>

theorem session_selects:
  assumes "resolve_session y s = Some sel" and "s \<noteq> ''all''" and "scan_session s = Some (subsys, ns)"
    and "session_nsid y s ns \<noteq> 0"
  shows "host_selected (fill_filter off c (Some sel)) i bytes inst \<longleftrightarrow>
    host_selected (fill_filter off c None) i bytes inst \<and> id_nsid i = session_nsid y s ns \<and> unat inst < 256 \<and>
    (if \<exists>j < 256. fs_exists y (path_device subsys j ns) then fs_exists y (path_device subsys (unat inst) ns)
     else inst = subsys)"
proof -
  let ?f = "fill_filter off c (Some sel)" and ?g = "fill_filter off c None"
  have f: "io_type_matches ?f op = io_type_matches ?g op" "ntp_sampled ?f a b n = ntp_sampled ?g a b n"
    "ntp_size_matches ?f bytes = ntp_size_matches ?g bytes" for op a b n
    by (simp_all add: fill_filter_def Let_def io_type_matches_def ntp_sampled_def ntp_size_matches_def)
  have g: "ctrl_selected ?g inst" "f_nsid ?g = 0" by (simp_all add: fill_filter_def Let_def ctrl_selected_def zero_filter_def)
  show ?thesis
    using assms(4) g unfolding host_selected_def f session_mask [OF assms(1-3)] session_ctrl_def by auto
qed

definition ex_sysfs :: sysfs where
  "ex_sysfs = \<lparr>fs_nsid = (\<lambda>_. Some 7), fs_exists = (\<lambda>p. p = ''/sys/block/nvme1c2n3'')\<rparr>"

theorem session_selects_witness:
  "\<exists>sel. resolve_session ex_sysfs ''nvme1n3'' = Some sel \<and>
    host_selected (fill_filter 0 (config_defaults\<lparr>cf_sample_every := 1\<rparr>) (Some sel)) (zero_cmd_id\<lparr>id_nsid := 7\<rparr>) 4096 2 \<and>
    \<not> host_selected (fill_filter 0 (config_defaults\<lparr>cf_sample_every := 1\<rparr>) (Some sel)) (zero_cmd_id\<lparr>id_nsid := 7\<rparr>) 4096 5 \<and>
    \<not> host_selected (fill_filter 0 (config_defaults\<lparr>cf_sample_every := 1\<rparr>) (Some sel)) (zero_cmd_id\<lparr>id_nsid := 8\<rparr>) 4096 2"
proof -
  let ?c = "config_defaults\<lparr>cf_sample_every := 1\<rparr>"
  have scan: "scan_session ''nvme1n3'' = Some (1, 3)" by code_simp
  have p: "path_device 1 2 3 = ''/sys/block/nvme1c2n3''" "path_device 1 5 3 \<noteq> ''/sys/block/nvme1c2n3''" by code_simp+
  then obtain sel where r: "resolve_session ex_sysfs ''nvme1n3'' = Some sel"
    using scan by (auto simp: resolve_session_def Let_def)
  have "\<exists>i < 256. fs_exists ex_sysfs (path_device 1 i 3)" using p(1) by (intro exI [of _ 2]) (simp add: ex_sysfs_def)
  moreover have "fs_exists ex_sysfs (path_device 1 2 3)" "\<not> fs_exists ex_sysfs (path_device 1 5 3)"
    using p by (simp_all add: ex_sysfs_def)
  moreover have n: "session_nsid ex_sysfs ''nvme1n3'' 3 = 7" by (simp add: session_nsid_def ex_sysfs_def)
  moreover have "host_selected (fill_filter 0 ?c None) (zero_cmd_id\<lparr>id_nsid := 7\<rparr>) 4096 2" by code_simp
  ultimately show ?thesis using r session_selects [OF r _ scan, of 0 ?c] by auto
qed

subsection \<open>What the filter means\<close>

lemma set_sizes_take:
  assumes "n \<le> length xs" and "length ys = length xs"
  shows "foldl (\<lambda>s i. s[i := xs ! i]) ys [0 ..< n] = take n xs @ drop n ys"
  using assms(1)
proof (induction n)
  case (Suc n)
  have "drop n ys = ys ! n # drop (Suc n) ys" using Suc.prems assms(2) by (simp add: Cons_nth_drop_Suc)
  then show ?case using Suc by (simp add: list_update_append take_Suc_conv_app_nth)
qed simp

lemma filter_sizes:
  assumes "config_ok c" and "unat (cf_min_size c) < 2 ^ 32" and "unat (cf_max_size c) < 2 ^ 32"
  shows "ntp_size_matches (fill_filter off c sel) bytes \<longleftrightarrow>
    (if cf_n_sizes c \<noteq> 0 then bytes \<in> set (take (cf_n_sizes c) (cf_sizes c))
     else (cf_min_size c = 0 \<or> cf_min_size c \<le> ucast bytes) \<and> (cf_max_size c = 0 \<or> ucast bytes \<le> cf_max_size c))"
proof -
  let ?f = "fill_filter off c sel" and ?n = "cf_n_sizes c"
  have n: "?n \<le> NTP_MAX_SIZE_FILTERS" "length (cf_sizes c) = NTP_MAX_SIZE_FILTERS" using assms(1) by (simp_all add: config_ok_def)
  have f: "f_n_sizes ?f = of_nat ?n" "f_min_bytes ?f = ucast (cf_min_size c)" "f_max_bytes ?f = ucast (cf_max_size c)"
    "f_sizes ?f = take ?n (cf_sizes c) @ replicate (NTP_MAX_SIZE_FILTERS - ?n) 0"
    using set_sizes_take [of ?n "cf_sizes c" "replicate NTP_MAX_SIZE_FILTERS 0"] n
    by (auto simp: fill_filter_def Let_def split: option.split)
  have un: "unat (f_n_sizes ?f) = ?n" using n(1) by (simp add: f(1) unat_of_nat NTP_MAX_SIZE_FILTERS_def)
  have cast: "unat (ucast w :: u32) = unat w" if "unat w < 2 ^ 32" for w :: u64
    using that by (simp add: unsigned_ucast_eq take_bit_eq_mod)
  have up: "unat (ucast bytes :: u64) = unat bytes"
    using unsigned_less [of bytes, where 'a = nat] by (simp add: unsigned_ucast_eq take_bit_eq_mod)
  have lim: "(ucast m :: u32) = 0 \<longleftrightarrow> m = 0" "bytes < (ucast m :: u32) \<longleftrightarrow> ucast bytes < m"
    "(ucast m :: u32) < bytes \<longleftrightarrow> m < ucast bytes" if "unat m < 2 ^ 32" for m :: u64
    using cast [OF that] up unat_eq_zero [of m] unat_eq_zero [of "ucast m :: u32"] unfolding word_less_nat_alt by simp_all
  show ?thesis
  proof (cases "?n = 0")
    case True
    show ?thesis unfolding ntp_size_matches_def f(1-3) lim [OF assms(2)] lim [OF assms(3)] True not_less [symmetric] by simp
  next
    case False
    have "(\<exists>i < NTP_MAX_SIZE_FILTERS. i < ?n \<and> f_sizes ?f ! i = bytes) \<longleftrightarrow> bytes \<in> set (take ?n (cf_sizes c))"
    proof -
      have at: "f_sizes ?f ! i = cf_sizes c ! i" if "i < ?n" for i using that n by (simp add: f(4) nth_append)
      have "set (take ?n (cf_sizes c)) = (\<lambda>i. cf_sizes c ! i) ` {..< ?n}"
        using n nth_image [of ?n "cf_sizes c"] by (simp add: atLeast0LessThan)
      then show ?thesis using n(1) at by (auto intro: less_le_trans)
    qed
    moreover have "f_n_sizes ?f \<noteq> 0" using False un by auto
    ultimately show ?thesis using False by (auto simp: ntp_size_matches_def un list_ex_iff)
  qed
qed

text \<open>
  \<^bold>\<open>C19.\<close> The BPF host programs select what the configuration says: with a valid configuration whose
  size limits fit in 32 bits and which gives a list of sizes or a range but not both, a command passes the filter that the loader
  builds exactly when its direction is asked for, the sampling picks it, its size is one of the sizes listed, if any are, and
  within the limits, if any are given, and its session is asked for: all of them, or the controllers and the namespace
  of the one named.
\<close>

theorem filter_means_config:
  assumes "config_ok c" and "unat (cf_min_size c) < 2 ^ 32" and "unat (cf_max_size c) < 2 ^ 32"
    and "resolve_session y (cf_session c) = Some sel"
    and "cf_n_sizes c = 0 \<or> cf_min_size c = 0 \<and> cf_max_size c = 0"
  shows "host_selected (fill_filter off c (Some sel)) i bytes inst \<longleftrightarrow>
    (case cf_io_type c of NTP_IO_READ \<Rightarrow> id_opcode i \<noteq> NTP_NVME_CMD_WRITE
       | NTP_IO_WRITE \<Rightarrow> id_opcode i = NTP_NVME_CMD_WRITE | NTP_IO_BOTH \<Rightarrow> True) \<and>
    (cf_sample_every c = 1 \<or> ntp_sample_hash (id_cid i) (id_slba i) (id_nlb i) mod ucast (cf_sample_every c) = 0) \<and>
    (cf_n_sizes c = 0 \<or> bytes \<in> set (take (cf_n_sizes c) (cf_sizes c))) \<and>
    (cf_min_size c = 0 \<or> cf_min_size c \<le> ucast bytes) \<and> (cf_max_size c = 0 \<or> ucast bytes \<le> cf_max_size c) \<and>
    (cf_session c = ''all'' \<or>
     (\<exists>subsys ns. scan_session (cf_session c) = Some (subsys, ns) \<and> session_ctrl y subsys ns inst \<and>
       (session_nsid y (cf_session c) ns = 0 \<or> id_nsid i = session_nsid y (cf_session c) ns)))"
proof -
  let ?f = "fill_filter off c (Some sel)"
  have "cf_sample_every c \<noteq> 0" using assms(1) by (simp add: config_ok_def)
  moreover from this have "cf_sample_every c \<le> 1 \<longleftrightarrow> cf_sample_every c = 1"
    by (metis order.refl word_le_less_eq word_less_1)
  ultimately have sampled: "ntp_sampled ?f a b n \<longleftrightarrow>
      cf_sample_every c = 1 \<or> ntp_sample_hash a b n mod ucast (cf_sample_every c) = 0" for a b n
    by (simp add: fill_filter_def Let_def ntp_sampled_def)
  have io: "io_type_matches ?f op \<longleftrightarrow> (case cf_io_type c of NTP_IO_READ \<Rightarrow> op \<noteq> NTP_NVME_CMD_WRITE
       | NTP_IO_WRITE \<Rightarrow> op = NTP_NVME_CMD_WRITE | NTP_IO_BOTH \<Rightarrow> True)" for op
    by (cases "cf_io_type c") (simp_all add: io_type_matches_def fill_filter_def Let_def)
  have session: "ctrl_selected ?f inst \<and> (f_nsid ?f = 0 \<or> id_nsid i = f_nsid ?f) \<longleftrightarrow> cf_session c = ''all'' \<or>
     (\<exists>subsys ns. scan_session (cf_session c) = Some (subsys, ns) \<and> session_ctrl y subsys ns inst \<and>
       (session_nsid y (cf_session c) ns = 0 \<or> id_nsid i = session_nsid y (cf_session c) ns))"
  proof (cases "cf_session c = ''all''")
    case True
    then have "sel = zero_filter" using assms(4) by (simp add: resolve_session_def)
    then show ?thesis using True by (simp add: fill_filter_def Let_def ctrl_selected_def zero_filter_def)
  next
    case False
    then obtain subsys ns where scan: "scan_session (cf_session c) = Some (subsys, ns)"
      using assms(4) by (auto simp: resolve_session_def split: option.splits)
    show ?thesis using False scan session_mask [OF assms(4) False scan, of off c] by simp
  qed
  have size: "ntp_size_matches ?f bytes \<longleftrightarrow> (cf_n_sizes c = 0 \<or> bytes \<in> set (take (cf_n_sizes c) (cf_sizes c))) \<and>
      (cf_min_size c = 0 \<or> cf_min_size c \<le> ucast bytes) \<and> (cf_max_size c = 0 \<or> ucast bytes \<le> cf_max_size c)"
    using filter_sizes [OF assms(1-3), of off "Some sel" bytes] assms(5) by (cases "cf_n_sizes c = 0") simp_all
  show ?thesis unfolding host_selected_def sampled io size session by (simp only: conj_assoc)
qed

theorem filter_means_config_witness:
  "host_selected (fill_filter 0 (config_defaults\<lparr>cf_sample_every := 1, cf_min_size := 4096\<rparr>) (Some zero_filter)) zero_cmd_id 8192 3"
proof -
  let ?c = "config_defaults\<lparr>cf_sample_every := 1, cf_min_size := 4096\<rparr>"
  have c: "config_ok ?c" "resolve_session ex_sysfs (cf_session ?c) = Some zero_filter" "cf_session ?c = ''all''" "cf_n_sizes ?c = 0"
    "cf_io_type ?c = NTP_IO_BOTH" "cf_min_size ?c = 4096" "cf_max_size ?c = 0" "cf_sample_every ?c = 1"
    by (simp_all add: config_ok_def config_defaults_def snprintf_s_def resolve_session_def)
  have "(4096 :: u64) \<le> ucast (8192 :: u32)" by simp
  note all = filter_means_config [OF c(1) _ _ c(2), of 0 zero_cmd_id 8192 3, unfolded c(3-)]
  show ?thesis by (rule all [THEN iffD2]) (simp_all add: \<open>4096 \<le> ucast 8192\<close>)
qed

text \<open>
  A lower limit of 4 GiB is lost on the way to the BPF programs: cut to 32 bits it is 0, which means no limit,
  so that commands of every size pass where none should.
\<close>

theorem min_size_wraps:
  "ntp_size_matches (fill_filter off (config_defaults\<lparr>cf_min_size := 0x100000000\<rparr>) sel) bytes"
  by (auto simp: ntp_size_matches_def fill_filter_def config_defaults_def zero_filter_def Let_def split: option.split)

end
