(* ===== verification/Spdk_Procs.thy ===== *)
theory Spdk_Procs
  imports Config
begin

text \<open>
  The processes of an SPDK application (\<^verbatim>\<open>src/src/spdk.c\<close>): which of them run the binaries given, and where in
  their memory the variable is that switches their sampling on. What libelf gives of a file, the lines
  of \<^verbatim>\<open>/proc/PID/maps\<close>, the entries of \<^verbatim>\<open>/proc\<close> and \<^verbatim>\<open>realpath\<close> are parameters.
\<close>

subsection \<open>ELF files\<close>

datatype section_type = SHT_SYMTAB | SHT_DYNSYM | SHT_NOTE | SHT_OTHER

text \<open>A symbol: whether it is undefined, its name if it has one, its value. A note: its type, its name and descriptor as bytes.\<close>

record elf_section =
  es_readable :: bool
  es_entsize :: u64
  es_type :: section_type
  es_syms :: "(bool \<times> string option \<times> u64) option list option"
  es_notes :: "(nat \<times> string \<times> string) list option"

text \<open>
  What libelf gives of an ELF file: whether it is of fixed position (its header may be unreadable), its program
  headers (loadable or not, virtual address, offset), its sections, and the size of an address.
\<close>

record elf_view =
  ev_fixed :: "bool option"
  ev_phdrs :: "(bool \<times> u64 \<times> u64) option list option"
  ev_sections :: "elf_section list"
  ev_addr_size :: nat

record sym_loc =
  sl_value :: u64
  sl_fixed :: bool
  sl_load_vaddr :: u64
  sl_load_off :: u64

text \<open>The first defined symbol of a name in the symbol tables, in their order.\<close>

definition find_sym :: "string \<Rightarrow> elf_section list \<Rightarrow> u64 option" where
  "find_sym name secs =
    (let tables = filter (\<lambda>s. es_readable s \<and> es_entsize s \<noteq> 0 \<and> (es_type s = SHT_SYMTAB \<or> es_type s = SHT_DYNSYM)) secs;
         syms = concat (map (\<lambda>s. case es_syms s of None \<Rightarrow> [] | Some syms \<Rightarrow> syms) tables)
     in case find (\<lambda>s. case s of Some (undef, Some nm, v) \<Rightarrow> \<not> undef \<and> nm = name | _ \<Rightarrow> False) syms of
          Some (Some (undef, nm, v)) \<Rightarrow> Some v | _ \<Rightarrow> None)"

definition elf_find_symbol :: "elf_view option \<Rightarrow> string \<Rightarrow> sym_loc option" where
  "elf_find_symbol e name =
    (case e of
       None \<Rightarrow> None
     | Some e \<Rightarrow>
         case (ev_fixed e, ev_phdrs e) of
           (Some fixd, Some phs) \<Rightarrow>
             (case find (\<lambda>ph. case ph of Some (ld, va, off) \<Rightarrow> ld | None \<Rightarrow> False) phs of
                Some (Some (ld, va, off)) \<Rightarrow>
                  map_option (\<lambda>v. \<lparr>sl_value = v, sl_fixed = fixd, sl_load_vaddr = va, sl_load_off = off\<rparr>)
                    (find_sym name (ev_sections e))
              | _ \<Rightarrow> None)
         | _ \<Rightarrow> None)"

definition NT_STAPSDT :: nat where "NT_STAPSDT = 3"
definition PROVIDER :: string where "PROVIDER = ''ntprof''"

text \<open>The probe that a note describes: after three addresses the provider, then the name, each ended by a 0.\<close>

definition nul :: char where "nul = CHR 0x00"

definition probe_of :: "nat \<Rightarrow> nat \<times> string \<times> string \<Rightarrow> string option" where
  "probe_of addr_size = (\<lambda>(ty, nm, desc).
    if ty \<noteq> NT_STAPSDT \<or> nm \<noteq> ''stapsdt'' @ [nul] \<or> length desc \<le> 3 * addr_size then None
    else
      let prov = drop (3 * addr_size) desc; rest = dropWhile (\<lambda>c. c \<noteq> nul) prov
      in if rest = [] \<or> tl rest = [] \<or> nul \<notin> set (tl rest) \<or> takeWhile (\<lambda>c. c \<noteq> nul) prov \<noteq> PROVIDER then None
         else Some (takeWhile (\<lambda>c. c \<noteq> nul) (tl rest)))"

text \<open>The table of probe names (at most 64, each cut to 63 characters) with their number of sites.\<close>

definition count_probe :: "(string \<times> nat) list \<Rightarrow> string \<Rightarrow> (string \<times> nat) list" where
  "count_probe probes name =
    (let i = length (takeWhile (\<lambda>(p, k). p \<noteq> name) probes)
     in if i < length probes then probes[i := (fst (probes ! i), snd (probes ! i) + 1)]
        else if length probes = 64 then probes
        else probes @ [(snprintf_s 64 name, 1)])"

definition ntp_spdk_list_probes :: "elf_view option \<Rightarrow> int \<times> (string \<times> nat) list" where
  "ntp_spdk_list_probes e =
    (case e of
       None \<Rightarrow> (-1, [])
     | Some e \<Rightarrow>
         let notes = concat (map (\<lambda>s. case es_notes s of None \<Rightarrow> [] | Some ns \<Rightarrow> ns)
               (filter (\<lambda>s. es_readable s \<and> es_type s = SHT_NOTE) (ev_sections e)));
             names = List.map_filter (probe_of (ev_addr_size e)) notes
         in (int (length names), foldl count_probe [] names))"

subsection \<open>Paths and mappings\<close>

fun real_paths :: "(string \<Rightarrow> string option) \<Rightarrow> string list \<Rightarrow> string list option" where
  "real_paths realpath [] = Some []"
| "real_paths realpath (t # ts) =
    (let t = strip t
     in if t = [] then real_paths realpath ts
        else case realpath t of None \<Rightarrow> None | Some r \<Rightarrow> map_option (Cons r) (real_paths realpath ts))"

definition paths_parse :: "(string \<Rightarrow> string option) \<Rightarrow> string \<Rightarrow> string list option" where
  "paths_parse realpath list =
    (case real_paths realpath (tokens (CHR '','') list) of None \<Rightarrow> None | Some [] \<Rightarrow> None | Some ps \<Rightarrow> Some ps)"

record mapping =
  mp_start :: u64
  mp_offset :: u64
  mp_path :: string

definition hex_digit_val :: "char \<Rightarrow> nat option" where
  "hex_digit_val c =
    (let d = of_char c :: nat
     in if 48 \<le> d \<and> d < 58 then Some (d - 48) else if 97 \<le> d \<and> d < 103 then Some (d - 87)
        else if 65 \<le> d \<and> d < 71 then Some (d - 55) else None)"

abbreviation is_xdigit :: "char \<Rightarrow> bool" where "is_xdigit c \<equiv> hex_digit_val c \<noteq> None"

text \<open>\<^verbatim>\<open>%llx\<close> of \<^verbatim>\<open>sscanf\<close>: white space, a sign, \<^verbatim>\<open>0x\<close>, and hexadecimal digits.\<close>

definition scan_x :: "string \<Rightarrow> (u64 \<times> string) option" where
  "scan_x s =
    (let s = dropWhile is_space s;
         neg = (s \<noteq> [] \<and> hd s = CHR ''-'');
         s = (if s \<noteq> [] \<and> (hd s = CHR ''-'' \<or> hd s = CHR ''+'') then tl s else s);
         s = (if length s > 2 \<and> hd s = CHR ''0'' \<and> to_lower (s ! 1) = CHR ''x'' \<and> is_xdigit (s ! 2) then drop 2 s else s);
         ds = takeWhile is_xdigit s;
         n = foldl (\<lambda>a c. a * 16 + the (hex_digit_val c)) 0 ds
     in if ds = [] then None
        else Some (if n \<ge> 2 ^ 64 then - 1 else if neg then - of_nat n else of_nat n, dropWhile is_xdigit s))"

definition skip_word :: "string \<Rightarrow> string option" where
  "skip_word s = (let s = dropWhile is_space s in if s = [] then None else Some (dropWhile (\<lambda>c. \<not> is_space c) s))"

text \<open>\<^verbatim>\<open>sscanf(line, "%llx-%*x %*s %llx %*s %*s %4095[^\n]", ...)\<close>, and a path that starts with a slash.\<close>

definition mapping_of :: "string \<Rightarrow> mapping option" where
  "mapping_of line =
    (case scan_x line of
       None \<Rightarrow> None
     | Some (start, r) \<Rightarrow>
         if r = [] \<or> hd r \<noteq> CHR ''-'' then None
         else
           case scan_x (tl r) of
             None \<Rightarrow> None
           | Some (end', r) \<Rightarrow>
               case skip_word r of
                 None \<Rightarrow> None
               | Some r \<Rightarrow>
                   case scan_x r of
                     None \<Rightarrow> None
                   | Some (offset, r) \<Rightarrow>
                       case Option.bind (skip_word r) skip_word of
                         None \<Rightarrow> None
                       | Some r \<Rightarrow>
                           let file = take 4095 (takeWhile (\<lambda>c. c \<noteq> CHR 0x0A) (dropWhile is_space r))
                           in if file = [] \<or> hd file \<noteq> CHR ''/'' then None
                              else Some \<lparr>mp_start = start, mp_offset = offset, mp_path = file\<rparr>)"

definition maps_read :: "string list option \<Rightarrow> mapping list option" where
  "maps_read lines = map_option (List.map_filter mapping_of) lines"

definition maps_has :: "mapping list \<Rightarrow> string \<Rightarrow> bool" where
  "maps_has m path = list_ex (\<lambda>x. mp_path x = path) m"

subsection \<open>The sampling variable\<close>

definition GATE_SYMBOL :: string where "GATE_SYMBOL = ''g_ntprof_sample_every''"
definition GATE_LIBRARY :: string where "GATE_LIBRARY = ''libspdk_sock''"

text \<open>What the functions need of the system: the page size, the files, and \<^verbatim>\<open>realpath\<close>.\<close>

record spdk_sys =
  ss_page :: u64
  ss_elf :: "string \<Rightarrow> elf_view option"
  ss_realpath :: "string \<Rightarrow> string option"

definition page_of :: "spdk_sys \<Rightarrow> u64 \<Rightarrow> u64" where
  "page_of y x = x AND NOT (ss_page y - 1)"

definition gate_in :: "spdk_sys \<Rightarrow> mapping list \<Rightarrow> string \<Rightarrow> u64 option" where
  "gate_in y m path =
    (case elf_find_symbol (ss_elf y path) GATE_SYMBOL of
       None \<Rightarrow> None
     | Some s \<Rightarrow>
         if sl_fixed s then Some (sl_value s)
         else map_option (\<lambda>x. mp_start x - page_of y (sl_load_vaddr s) + sl_value s)
           (find (\<lambda>x. mp_path x = path \<and> mp_offset x = page_of y (sl_load_off s)) m))"

definition base_name :: "string \<Rightarrow> string" where
  "base_name path = rev (takeWhile (\<lambda>c. c \<noteq> CHR ''/'') (rev path))"

definition is_gate_library :: "string \<Rightarrow> bool" where
  "is_gate_library path \<longleftrightarrow> CHR ''/'' \<in> set path \<and> take (length GATE_LIBRARY) (base_name path) = GATE_LIBRARY"

fun first_some :: "('a \<Rightarrow> 'b option) \<Rightarrow> 'a list \<Rightarrow> 'b option" where
  "first_some f [] = None"
| "first_some f (x # xs) = (case f x of Some y \<Rightarrow> Some y | None \<Rightarrow> first_some f xs)"

definition gate_address :: "spdk_sys \<Rightarrow> mapping list \<Rightarrow> string list \<Rightarrow> u64 option" where
  "gate_address y m p =
    (case first_some (gate_in y m) (filter (maps_has m) p) of
       Some a \<Rightarrow> Some a
     | None \<Rightarrow> first_some (\<lambda>x. gate_in y m (mp_path x)) (filter (\<lambda>x. is_gate_library (mp_path x)) m))"

subsection \<open>Finding the processes\<close>

record ntp_spdk_proc =
  sp_pid :: int
  sp_gate :: u64

text \<open>\<^verbatim>\<open>strtol\<close> in base 10, with what follows the number.\<close>

definition strtol :: "string \<Rightarrow> int \<times> string" where
  "strtol s =
    (let s1 = dropWhile is_space s;
         neg = (s1 \<noteq> [] \<and> hd s1 = CHR ''-'');
         s2 = (if s1 \<noteq> [] \<and> (hd s1 = CHR ''-'' \<or> hd s1 = CHR ''+'') then tl s1 else s1);
         ds = takeWhile is_digit s2;
         n = (if neg then - digits_val ds else digits_val ds)
     in if ds = [] then (0, s) else (max (- (2 ^ 63)) (min (2 ^ 63 - 1) n), dropWhile is_digit s2))"

text \<open>
  The loop over the entries of \<^verbatim>\<open>/proc\<close>: the mappings of the entries that are other processes and can be
  read. \<open>None\<close>: a process that runs the application has no sampling variable.
\<close>

definition proc_maps :: "int \<Rightarrow> (int \<Rightarrow> string list option) \<Rightarrow> string \<Rightarrow> (int \<times> mapping list) option" where
  "proc_maps self maps name =
    (let (pid, rest) = strtol name
     in if rest \<noteq> [] \<or> pid \<le> 0 \<or> pid = self then None else map_option (Pair pid) (maps_read (maps pid)))"

fun find_loop ::
  "spdk_sys \<Rightarrow> nat \<Rightarrow> string list \<Rightarrow> (int \<times> mapping list) option list \<Rightarrow> ntp_spdk_proc list \<Rightarrow> ntp_spdk_proc list option" where
  "find_loop y mx p [] procs = Some procs"
| "find_loop y mx p (None # es) procs = find_loop y mx p es procs"
| "find_loop y mx p (Some (pid, m) # es) procs =
    (if \<not> maps_has m (hd p) then find_loop y mx p es procs
     else if length procs = mx then Some procs
     else case gate_address y m p of
            None \<Rightarrow> None
          | Some g \<Rightarrow> find_loop y mx p es (procs @ [\<lparr>sp_pid = pid, sp_gate = g\<rparr>]))"

text \<open>\<open>proc\<close>: the entries of the directory, or \<open>None\<close> when it cannot be read.\<close>

definition ntp_spdk_find ::
  "spdk_sys \<Rightarrow> int \<Rightarrow> string list option \<Rightarrow> (int \<Rightarrow> string list option) \<Rightarrow> string \<Rightarrow> nat \<Rightarrow> ntp_spdk_proc list option" where
  "ntp_spdk_find y self proc maps list mx =
    (case paths_parse (ss_realpath y) list of
       None \<Rightarrow> None
     | Some p \<Rightarrow> case proc of None \<Rightarrow> None | Some names \<Rightarrow> find_loop y mx p (map (proc_maps self maps) names) [])"

text \<open>
  Writing the sampling period: the memory of the processes before and after, the result, and whether the user is told
  that somebody samples already. \<open>opens\<close>, \<open>reads\<close> and \<open>writes\<close> say what the system allows.
\<close>

type_synonym gate_mem = "int \<times> u64 \<Rightarrow> u32"

definition ntp_spdk_set_gate ::
  "(int \<Rightarrow> int option) \<Rightarrow> bool \<Rightarrow> int option \<Rightarrow> ntp_spdk_proc \<Rightarrow> u32 \<Rightarrow> gate_mem \<Rightarrow> int \<times> bool \<times> gate_mem" where
  "ntp_spdk_set_gate open_errno reads write_errno p every mem =
    (case open_errno (sp_pid p) of
       Some err \<Rightarrow> (- err, False, mem)
     | None \<Rightarrow>
         let old = mem (sp_pid p, sp_gate p); warn = (every \<noteq> 0 \<and> reads \<and> old \<noteq> 0)
         in case write_errno of
              Some err \<Rightarrow> (if err \<noteq> 0 then - err else - 5, warn, mem)
            | None \<Rightarrow> (0, warn, mem((sp_pid p, sp_gate p) := every)))"

subsection \<open>Which processes are found\<close>

text \<open>The other processes, in the order of \<^verbatim>\<open>/proc\<close>, that map the application.\<close>

definition running :: "string \<Rightarrow> (int \<times> mapping list) option list \<Rightarrow> (int \<times> mapping list) list" where
  "running app es = filter (\<lambda>(pid, m). maps_has m app) (List.map_filter (\<lambda>e. e) es)"

lemma running_Cons:
  "running app (None # es) = running app es"
  "running app (Some (pid, m) # es) = (if maps_has m app then [(pid, m)] else []) @ running app es"
  by (simp_all add: running_def map_filter_simps)

lemma find_loop_eq:
  "length procs \<le> mx \<Longrightarrow> find_loop y mx p es procs =
    (let sel = take (mx - length procs) (running (hd p) es)
     in if list_all (\<lambda>(pid, m). gate_address y m p \<noteq> None) sel
        then Some (procs @ map (\<lambda>(pid, m). \<lparr>sp_pid = pid, sp_gate = the (gate_address y m p)\<rparr>) sel) else None)"
proof (induction y mx p es procs rule: find_loop.induct)
  case (3 y mx p pid m es procs)
  show ?case
  proof (cases "maps_has m (hd p) \<and> length procs \<noteq> mx")
    case True
    then have "mx - length procs = Suc (mx - Suc (length procs))" "length procs < mx" using "3.prems" by auto
    then show ?thesis using 3 True by (auto simp: running_Cons Let_def split: option.split)
  next
    case False
    then show ?thesis using 3 by (auto simp: running_Cons Let_def)
  qed
qed (simp_all add: running_Cons running_def map_filter_simps Let_def)

text \<open>
  The SPDK processes that are profiled are the first ones, in the order of \<^verbatim>\<open>/proc\<close> and at most as many as
  asked for, of the other processes that map the first file of the list, each with the address of its
  sampling variable; and the search fails exactly when the list is no list of existing files,
  \<^verbatim>\<open>/proc\<close> cannot be read, or one of these processes has no such variable.
\<close>

theorem spdk_find_exact:
  "ntp_spdk_find y self proc maps list mx =
    (case (paths_parse (ss_realpath y) list, proc) of
       (Some p, Some names) \<Rightarrow>
         let sel = take mx (running (hd p) (map (proc_maps self maps) names))
         in if list_all (\<lambda>(pid, m). gate_address y m p \<noteq> None) sel
            then Some (map (\<lambda>(pid, m). \<lparr>sp_pid = pid, sp_gate = the (gate_address y m p)\<rparr>) sel) else None
     | _ \<Rightarrow> None)"
  by (auto simp: ntp_spdk_find_def find_loop_eq Let_def split: option.split)

lemma running_other:
  "(pid, m) \<in> set (running app (map (proc_maps self maps) names)) \<Longrightarrow> 0 < pid \<and> pid \<noteq> self \<and> maps_has m app"
  by (auto simp: running_def List.map_filter_def proc_maps_def Let_def split: prod.splits if_splits)

text \<open>
  In a position-independent file the address is that of the symbol, moved by as much as the first segment was when it was mapped.
\<close>

lemma gate_in_moved:
  assumes "elf_find_symbol (ss_elf y path) GATE_SYMBOL = Some s" and "\<not> sl_fixed s"
    and "x \<in> set m" and "mp_path x = path" and "mp_offset x = page_of y (sl_load_off s)"
    and "\<forall>x \<in> set m. mp_path x = path \<and> mp_offset x = page_of y (sl_load_off s) \<longrightarrow>
      mp_start x = bias + page_of y (sl_load_vaddr s)"
  shows "gate_in y m path = Some (bias + sl_value s)"
proof -
  let ?P = "\<lambda>x. mp_path x = path \<and> mp_offset x = page_of y (sl_load_off s)"
  obtain z where z: "find ?P m = Some z" using assms(3-5) by (cases "find ?P m") (auto simp: find_None_iff)
  then have "mp_start z = bias + page_of y (sl_load_vaddr s)" using assms(6) by (auto simp: find_Some_iff)
  then show ?thesis using assms(1,2) z by (simp add: gate_in_def)
qed

text \<open>What was written is there, and nothing else has changed.\<close>

lemma set_gate_writes:
  assumes "ntp_spdk_set_gate oe rd we p every mem = (0, warn, mem')"
    and "\<And>pid e. oe pid = Some e \<Longrightarrow> e \<noteq> 0"
  shows "mem' = mem((sp_pid p, sp_gate p) := every)"
  using assms by (auto simp: ntp_spdk_set_gate_def Let_def split: option.splits if_splits)

end
