(* ===== verification/Loader.thy ===== *)
theory Loader
  imports Loader_Select Loader_Filter Spdk_Procs
begin

text \<open>
  Opening, attaching and stopping the BPF objects (\<^verbatim>\<open>src/src/loader.c\<close>). libbpf and the operating system are
  parameters: what they answer is a record of functions. What the loader does to the running system, in order, is a list of
  actions: it arms and disarms its objects, and writes the sampling period into SPDK processes.
\<close>

subsection \<open>State\<close>

text \<open>A link is the program it attaches and, for a USDT probe, the file. \<open>oi_link_cap\<close> is the size of the array of links.\<close>

record obj_inst =
  oi_desc :: obj_desc
  oi_filter :: ntp_filter
  oi_ring :: u64
  oi_armed :: bool
  oi_progs :: "(bpf_prog \<times> bool) list"
  oi_links :: "(bpf_prog \<times> string option) list"
  oi_link_cap :: nat
  oi_usdt_paths :: "string option"
  oi_procs :: "ntp_spdk_proc list"
  oi_gated :: bool

record ntp_loader =
  ld_inst :: "obj_inst list"
  ld_stamp :: bool

datatype act = Arm nat | Disarm nat | Gate ntp_spdk_proc u32 bool

text \<open>
  Whether an object loads may depend on the BTF, on the programs selected, and on what was set up before: \<open>Some (f, n, shared)\<close> is
  the filter in its read-only data, the size of its ring buffer, and whether it uses the ring buffer of another object;
  \<open>None\<close> is an object as it was opened.
\<close>

record load_env =
  le_sys :: sys
  le_readable :: "string \<Rightarrow> bool"
  le_open :: "obj_desc \<Rightarrow> string option \<Rightarrow> bpf_prog list option"
  le_find :: "string \<Rightarrow> ntp_spdk_proc list option"
  le_reads :: "obj_desc \<Rightarrow> (int \<times> int \<times> int) list"
  le_reuse :: "obj_desc \<Rightarrow> bool"
  le_load :: "obj_desc \<Rightarrow> string option \<Rightarrow> (ntp_filter \<times> u64 \<times> bool) option \<Rightarrow> (bpf_prog \<times> bool) list \<Rightarrow> bool"
  le_skip :: "string option"
  le_usdt :: "bpf_prog \<Rightarrow> string \<Rightarrow> bool"
  le_attach :: "bpf_prog \<Rightarrow> bool"
  le_ksyms :: "string list option"
  le_sysfs :: sysfs
  le_stamp :: bool
  le_ring :: bool
  le_gate :: "ntp_spdk_proc \<Rightarrow> u32 \<Rightarrow> int"

subsection \<open>Opening an object\<close>

text \<open>\<open>None\<close>: no BTF; \<open>Some None\<close>: the kernel's; \<open>Some (Some path)\<close>: a file of \<^verbatim>\<open>--btf\<close>.\<close>

definition btf_opts :: "load_env \<Rightarrow> ntp_config \<Rightarrow> obj_desc \<Rightarrow> string option option" where
  "btf_opts e c d =
    (if cf_btf_dir c = []
     then if \<not> sys_kernel_btf (le_sys e) then None
          else if od_spdk d \<or> module_btf (le_sys e) d then Some None else None
     else
       let path = snprintf_s 512 (cf_btf_dir c @ ''/'' @ od_btf_module d @ ''.btf'')
       in if le_readable e path then Some (Some path) else None)"

definition set_pids :: "ntp_spdk_proc list \<Rightarrow> u32 list \<Rightarrow> u32 list" where
  "set_pids procs pids = foldl (\<lambda>ps i. ps[i := of_int (sp_pid (procs ! i))]) pids [0 ..< length procs]"

definition usdt_paths_of :: "ntp_config \<Rightarrow> obj_desc \<Rightarrow> string" where
  "usdt_paths_of c d = (if role_and (od_role d) NTP_ROLE_HOST then cf_spdk_host c else cf_spdk_target c)"

definition open_one ::
  "load_env \<Rightarrow> ntp_config \<Rightarrow> ntp_filter \<Rightarrow> string list \<Rightarrow> bool \<Rightarrow> obj_desc \<Rightarrow> obj_inst option" where
  "open_one e c sel ks shared d =
    (case btf_opts e c d of
       None \<Rightarrow> None
     | Some btf \<Rightarrow>
         case le_open e d btf of
           None \<Rightarrow> None
         | Some progs \<Rightarrow>
             case (if od_spdk d then le_find e (usdt_paths_of c d) else Some []) of
               None \<Rightarrow> None
             | Some procs \<Rightarrow>
                 if od_spdk d \<and> procs = [] then None
                 else if shared \<and> \<not> le_reuse e d then None
                 else
                   case select_programs d ks (object_flavour (le_sys e) c d) (cf_exact_queues c) (le_skip e) progs of
                     None \<Rightarrow> None
                   | Some sels \<Rightarrow>
                       let f = fill_filter (real_minus_mono (le_reads e d)) c
                             (if role_and (od_role d) NTP_ROLE_HOST \<and> \<not> od_spdk d then Some sel else None);
                           f = f\<lparr>f_npids := of_nat (length procs), f_pids := set_pids procs (f_pids f)\<rparr>
                       in if \<not> le_load e d btf (Some (f, ring_bytes c, shared)) sels then None
                          else Some \<lparr>oi_desc = d, oi_filter = f, oi_ring = ring_bytes c, oi_armed = False, oi_progs = sels,
                                 oi_links = [], oi_link_cap = 0,
                                 oi_usdt_paths = (if od_spdk d then Some (usdt_paths_of c d) else None),
                                 oi_procs = procs, oi_gated = False\<rparr>)"

fun open_all :: "load_env \<Rightarrow> ntp_config \<Rightarrow> ntp_filter \<Rightarrow> string list \<Rightarrow> bool \<Rightarrow> obj_desc list \<Rightarrow> obj_inst list option" where
  "open_all e c sel ks shared [] = Some []"
| "open_all e c sel ks shared (d # ds) =
    (case open_one e c sel ks shared d of
       None \<Rightarrow> None
     | Some o' \<Rightarrow> map_option (Cons o') (open_all e c sel ks True ds))"

subsection \<open>Attaching\<close>

text \<open>The links of one USDT program: one for every file of the list that has its probe.\<close>

definition attach_usdt :: "load_env \<Rightarrow> string \<Rightarrow> bpf_prog \<Rightarrow> (bpf_prog \<times> string option) list" where
  "attach_usdt e paths prog =
    map (\<lambda>f. (prog, Some f)) (filter (le_usdt e prog) (map strip (tokens (CHR '','') paths)))"

text \<open>From here on an operation that can fail returns whether it succeeded and what it had done until then.\<close>

fun attach_usdt_all ::
  "load_env \<Rightarrow> obj_desc \<Rightarrow> string \<Rightarrow> (bpf_prog \<times> bool) list \<Rightarrow> bool \<times> (bpf_prog \<times> string option) list" where
  "attach_usdt_all e d paths [] = (True, [])"
| "attach_usdt_all e d paths ((p, load) # ps) =
    (if \<not> load \<or> \<not> is_usdt p then attach_usdt_all e d paths ps
     else
       let ls = attach_usdt e paths p
       in if ls = [] \<and> is_required d (bp_name p) then (False, [])
          else let (ok, ls') = attach_usdt_all e d paths ps in (ok, ls @ ls'))"

definition files_of :: "string option \<Rightarrow> nat" where
  "files_of paths = 1 + (case paths of None \<Rightarrow> 0 | Some p \<Rightarrow> length (filter (\<lambda>c. c = CHR '','') p))"

text \<open>Room for the links, and the USDT links of one object.\<close>

definition attach_probes :: "load_env \<Rightarrow> obj_inst \<Rightarrow> bool \<times> obj_inst" where
  "attach_probes e o' =
    (let o' = o'\<lparr>oi_link_cap := length (oi_progs o') * files_of (oi_usdt_paths o')\<rparr>;
         (ok, ls) = attach_usdt_all e (oi_desc o') (case oi_usdt_paths o' of Some p \<Rightarrow> p | None \<Rightarrow> []) (oi_progs o')
     in (ok, o'\<lparr>oi_links := ls\<rparr>))"

text \<open>The links of the other programs, in the order of the programs; a program that is required must attach.\<close>

definition attach_jobs :: "obj_inst \<Rightarrow> bpf_prog list" where
  "attach_jobs o' = map fst (filter (\<lambda>(p, load). load \<and> \<not> is_usdt p) (oi_progs o'))"

definition attach_hooks :: "load_env \<Rightarrow> obj_inst \<Rightarrow> obj_inst" where
  "attach_hooks e o' = o'\<lparr>oi_links := oi_links o' @ map (\<lambda>p. (p, None)) (filter (le_attach e) (attach_jobs o'))\<rparr>"

fun attach_probes_all :: "load_env \<Rightarrow> obj_inst list \<Rightarrow> bool \<times> obj_inst list" where
  "attach_probes_all e [] = (True, [])"
| "attach_probes_all e (o' # os) =
    (let (ok, o') = attach_probes e o'
     in if \<not> ok then (False, o' # os)
        else let (ok, os) = attach_probes_all e os in (ok, o' # os))"

text \<open>All jobs run, and the links of those that worked are kept, also where one that is required failed.\<close>

definition attach_all :: "load_env \<Rightarrow> obj_inst list \<Rightarrow> bool \<times> obj_inst list" where
  "attach_all e os =
    (let (ok, os) = attach_probes_all e os
     in if \<not> ok then (False, os)
        else
          (\<not> list_ex (\<lambda>o'. list_ex (\<lambda>p. \<not> le_attach e p \<and> is_required (oi_desc o') (bp_name p)) (attach_jobs o')) os,
           map (attach_hooks e) os))"

subsection \<open>Starting and stopping\<close>

text \<open>Write the period into the processes of an object, up to the first failure.\<close>

fun set_gates :: "load_env \<Rightarrow> u32 \<Rightarrow> ntp_spdk_proc list \<Rightarrow> bool \<times> act list" where
  "set_gates e every [] = (True, [])"
| "set_gates e every (p # ps) =
    (if le_gate e p every \<noteq> 0 then (False, [Gate p every False])
     else let (ok, acts) = set_gates e every ps in (ok, Gate p every True # acts))"

fun gate_all :: "load_env \<Rightarrow> u32 \<Rightarrow> obj_inst list \<Rightarrow> bool \<times> act list \<times> obj_inst list" where
  "gate_all e every [] = (True, [], [])"
| "gate_all e every (o' # os) =
    (let o' = o'\<lparr>oi_gated := (oi_procs o' \<noteq> [])\<rparr>; (ok, acts) = set_gates e every (oi_procs o')
     in if \<not> ok then (False, acts, o' # os)
        else let (ok, acts', os) = gate_all e every os in (ok, acts @ acts', o' # os))"

definition ungate :: "load_env \<Rightarrow> obj_inst \<Rightarrow> act list \<times> obj_inst" where
  "ungate e o' =
    (if \<not> oi_gated o' then ([], o')
     else (map (\<lambda>p. Gate p 0 (le_gate e p 0 = 0)) (oi_procs o'), o'\<lparr>oi_gated := False\<rparr>))"

definition ntp_loader_close :: "load_env \<Rightarrow> obj_inst list \<Rightarrow> act list" where
  "ntp_loader_close e os = concat (map (\<lambda>o'. fst (ungate e o')) os)"

definition ntp_loader_disarm :: "load_env \<Rightarrow> ntp_loader \<Rightarrow> act list \<times> ntp_loader" where
  "ntp_loader_disarm e l =
    (concat (map (\<lambda>i. fst (ungate e (ld_inst l ! i)) @ [Disarm i]) [0 ..< length (ld_inst l)]),
     l\<lparr>ld_inst := map (\<lambda>o'. (snd (ungate e o'))\<lparr>oi_armed := False\<rparr>) (ld_inst l)\<rparr>)"

definition ntp_loader_open :: "load_env \<Rightarrow> ntp_config \<Rightarrow> ntp_loader option \<times> act list" where
  "ntp_loader_open e c =
    (if cf_role c \<noteq> NTP_ROLE_TARGET \<and> cf_spdk_host c \<noteq> [] \<and> cf_session c \<noteq> ''all'' then (None, [])
     else
       case (resolve_session (le_sysfs e) (cf_session c), map_option ksyms_load (le_ksyms e)) of
         (Some sel, Some ks) \<Rightarrow>
           (case open_all e c sel ks False (filter (wanted c) objects) of
              None \<Rightarrow> (None, [])
            | Some [] \<Rightarrow> (None, [])
            | Some os \<Rightarrow>
                (let (ok, os) = attach_all e os
                 in if \<not> ok \<or> \<not> le_ring e then (None, [])
                    else
                      let arms = map Arm [0 ..< length os];
                          (ok, gates, ros) = gate_all e (cf_sample_every c) (rev (map (\<lambda>o'. o'\<lparr>oi_armed := True\<rparr>) os))
                      in if \<not> ok then (None, arms @ gates @ ntp_loader_close e (rev ros))
                         else (Some \<lparr>ld_inst = rev ros, ld_stamp = le_stamp e\<rparr>, arms @ gates)))
       | _ \<Rightarrow> (None, []))"

subsection \<open>Reading\<close>

definition EINTR :: int where "EINTR = 4"

text \<open>\<open>polled\<close> and \<open>consumed\<close>: what libbpf returns.\<close>

definition ntp_loader_poll :: "int \<Rightarrow> int \<Rightarrow> int" where
  "ntp_loader_poll polled consumed =
    (let n = (if polled = - EINTR then 0 else polled)
     in if n < 0 then n else if consumed < 0 then consumed else n + consumed)"

text \<open>The counters of one object by CPU, where the map can be read.\<close>

definition ntp_loader_counter :: "int \<Rightarrow> (nat \<Rightarrow> ntp_counter \<Rightarrow> u64) option list \<Rightarrow> ntp_counter \<Rightarrow> u64" where
  "ntp_loader_counter ncpu maps c =
    (if ncpu \<le> 0 then 0
     else foldl (\<lambda>tot m. case m of None \<Rightarrow> tot | Some vals \<Rightarrow> foldl (\<lambda>tot k. tot + vals k c) tot [0 ..< nat ncpu]) 0 maps)"

subsection \<open>The state of the sampling variables\<close>

text \<open>What the last successful write has left in a process.\<close>

fun gate_step :: "ntp_spdk_proc \<Rightarrow> u32 option \<Rightarrow> act \<Rightarrow> u32 option" where
  "gate_step q v (Gate p n ok) = (if p = q \<and> ok then Some n else v)"
| "gate_step q v _ = v"

definition gate_value :: "act list \<Rightarrow> ntp_spdk_proc \<Rightarrow> u32 option" where
  "gate_value acts q = foldl (gate_step q) None acts"

lemma gate_value_offs:
  "foldl (gate_step q) v (map (\<lambda>p. Gate p n True) ps) = (if q \<in> set ps then Some n else v)"
  by (induction ps arbitrary: v) auto

lemma gate_value_arms: "foldl (gate_step q) v (map Arm is) = v"
  by (induction "is" arbitrary: v) auto

lemma set_gates_spec:
  "set_gates e n ps = (ok, acts) \<Longrightarrow>
    (ok \<longrightarrow> acts = map (\<lambda>p. Gate p n True) ps) \<and> (q \<notin> set ps \<longrightarrow> foldl (gate_step q) v acts = v)"
  by (induction ps arbitrary: ok acts v) (auto split: if_splits prod.splits)

lemma gate_all_ok:
  "gate_all e n os = (True, acts, os') \<Longrightarrow>
    acts = map (\<lambda>p. Gate p n True) (concat (map oi_procs os)) \<and> os' = map (\<lambda>o'. o'\<lparr>oi_gated := (oi_procs o' \<noteq> [])\<rparr>) os"
proof (induction os arbitrary: acts os')
  case (Cons o' os)
  then show ?case using set_gates_spec [of e n "oi_procs o'"] by (auto simp: Let_def split: prod.splits if_splits)
qed simp

text \<open>A process that was written to is one of an object that counts as gated.\<close>

lemma gate_all_touched:
  assumes "gate_all e n os = (ok, acts, os')" and "foldl (gate_step q) v acts \<noteq> v"
  shows "\<exists>o' \<in> set os'. oi_gated o' \<and> q \<in> set (oi_procs o')"
  using assms
proof (induction os arbitrary: acts os' v ok)
  case (Cons o' os)
  obtain ok1 acts1 where s: "set_gates e n (oi_procs o') = (ok1, acts1)" by fastforce
  show ?case
  proof (cases "foldl (gate_step q) v acts1 = v")
    case False
    then have "q \<in> set (oi_procs o')" using set_gates_spec [OF s] by blast
    then show ?thesis using Cons.prems s by (auto simp: Let_def split: prod.splits if_splits)
  next
    case True
    then show ?thesis using Cons s by (fastforce simp: Let_def split: prod.splits if_splits)
  qed
qed simp

lemma close_gates:
  assumes "\<And>p. le_gate e p 0 = 0"
  shows "foldl (gate_step q) v (ntp_loader_close e os) =
    (if \<exists>o' \<in> set os. oi_gated o' \<and> q \<in> set (oi_procs o') then Some 0 else v)"
proof (induction os arbitrary: v)
  case (Cons o' os)
  have "foldl (gate_step q) v (fst (ungate e o')) = (if oi_gated o' \<and> q \<in> set (oi_procs o') then Some 0 else v)"
    using assms by (auto simp: ungate_def gate_value_offs)
  then show ?case using Cons by (auto simp: ntp_loader_close_def)
qed (simp add: ntp_loader_close_def)

lemma disarm_gates:
  assumes "\<And>p. le_gate e p 0 = 0"
  shows "foldl (gate_step q) v (fst (ntp_loader_disarm e l)) =
    (if \<exists>o' \<in> set (ld_inst l). oi_gated o' \<and> q \<in> set (oi_procs o') then Some 0 else v)"
proof -
  have "foldl (gate_step q) v (concat (map (\<lambda>i. fst (ungate e (os ! i)) @ [Disarm (k + i)]) [0 ..< length os])) =
      foldl (gate_step q) v (ntp_loader_close e os)" for k v and os :: "obj_inst list"
  proof (induction os arbitrary: k v)
    case (Cons o' os)
    have split: "[0 ..< Suc (length os)] = 0 # map Suc [0 ..< length os]" by (simp add: upt_conv_Cons map_Suc_upt del: upt_Suc)
    show ?case using Cons.IH [of _ "Suc k"] by (simp add: split ntp_loader_close_def comp_def del: upt_Suc)
  qed (simp add: ntp_loader_close_def)
  from this [where k = 0] show ?thesis using close_gates [OF assms, of q v "ld_inst l"] by (simp add: ntp_loader_disarm_def)
qed

text \<open>Where opening got to: it stopped before anything was switched on, at a write that failed, or it succeeded.\<close>

lemma loader_open_cases:
  "ntp_loader_open e c = (None, []) \<or>
   (\<exists>sel ks os ros ok gates os'. resolve_session (le_sysfs e) (cf_session c) = Some sel \<and>
      open_all e c sel ks False (filter (wanted c) objects) = Some os \<and>
      attach_probes_all e os = (True, ros) \<and>
      gate_all e (cf_sample_every c) (rev (map (\<lambda>o'. (attach_hooks e o')\<lparr>oi_armed := True\<rparr>) ros)) = (ok, gates, os') \<and>
      ntp_loader_open e c = (if ok then Some \<lparr>ld_inst = rev os', ld_stamp = le_stamp e\<rparr> else None,
        map Arm [0 ..< length ros] @ gates @ (if ok then [] else ntp_loader_close e (rev os'))))"
proof (cases "ntp_loader_open e c = (None, [])")
  case False
  then obtain sel lines where sel: "resolve_session (le_sysfs e) (cf_session c) = Some sel" "le_ksyms e = Some lines"
    and go: "\<not> (cf_role c \<noteq> NTP_ROLE_TARGET \<and> cf_spdk_host c \<noteq> [] \<and> cf_session c \<noteq> ''all'')"
    by (cases "resolve_session (le_sysfs e) (cf_session c)"; cases "le_ksyms e")
      (auto simp: ntp_loader_open_def split: if_splits)
  let ?ks = "ksyms_load lines"
  obtain o1 os where os: "open_all e c sel ?ks False (filter (wanted c) objects) = Some (o1 # os)"
    using False sel go unfolding ntp_loader_open_def
    by (cases "open_all e c sel ?ks False (filter (wanted c) objects)") (auto split: list.splits)
  obtain ok2 os2 where att: "attach_all e (o1 # os) = (ok2, os2)" by fastforce
  have ok2: "ok2" and ring: "le_ring e"
    using False sel go os att unfolding ntp_loader_open_def by (auto simp: Let_def split: if_splits)
  obtain ros where ros: "attach_probes_all e (o1 # os) = (True, ros)" and os2: "os2 = map (attach_hooks e) ros"
    using att ok2 unfolding attach_all_def by (cases "attach_probes_all e (o1 # os)") (auto simp: Let_def split: if_splits)
  obtain ok gates os' where g:
    "gate_all e (cf_sample_every c) (rev (map (\<lambda>o'. (attach_hooks e o')\<lparr>oi_armed := True\<rparr>) ros)) = (ok, gates, os')"
    using prod_cases3 by blast
  have "ntp_loader_open e c = (if ok then Some \<lparr>ld_inst = rev os', ld_stamp = le_stamp e\<rparr> else None,
      map Arm [0 ..< length ros] @ gates @ (if ok then [] else ntp_loader_close e (rev os')))"
    unfolding ntp_loader_open_def if_not_P [OF go] using sel os att ok2 os2 ring g by (simp add: Let_def comp_def)
  then show ?thesis using sel(1) os ros g by blast
qed simp

text \<open>
  \<^bold>\<open>C23.\<close> Sampling in SPDK processes is never left on: when a start fails, whatever was reached, and when a started
  recording is stopped, the last period written to every process is 0, provided that 0 can be written.
\<close>

theorem gates_left_off:
  assumes "\<And>p. le_gate e p 0 = 0" and "ntp_loader_open e c = (lo, acts)"
  shows "gate_value (acts @ (case lo of None \<Rightarrow> [] | Some l \<Rightarrow> fst (ntp_loader_disarm e l))) q \<in> {None, Some 0}"
  using loader_open_cases [of e c]
proof (elim disjE exE conjE)
  assume "ntp_loader_open e c = (None, [])"
  then show ?thesis using assms(2) by (auto simp: gate_value_def)
next
  fix sel ks os ros ok gates os'
  assume g: "gate_all e (cf_sample_every c) (rev (map (\<lambda>o'. (attach_hooks e o')\<lparr>oi_armed := True\<rparr>) ros)) = (ok, gates, os')"
    and o': "ntp_loader_open e c = (if ok then Some \<lparr>ld_inst = rev os', ld_stamp = le_stamp e\<rparr> else None,
        map Arm [0 ..< length ros] @ gates @ (if ok then [] else ntp_loader_close e (rev os')))"
  let ?v = "foldl (gate_step q) None gates"
  have "\<not> (\<exists>o' \<in> set os'. oi_gated o' \<and> q \<in> set (oi_procs o')) \<Longrightarrow> ?v = None" using gate_all_touched [OF g] by blast
  moreover have "foldl (gate_step q) None (map Arm [0 ..< length ros] @ gates) = ?v" by (simp add: gate_value_arms)
  ultimately show ?thesis
    using o' assms(2) close_gates [OF assms(1), of q ?v "rev os'"]
      disarm_gates [OF assms(1), of q ?v "\<lparr>ld_inst = rev os', ld_stamp = le_stamp e\<rparr>"]
    by (cases ok) (auto simp: gate_value_def)
qed

text \<open>A system on which every step of a start works, with one process for each file.\<close>

definition sample_env :: load_env where
  "sample_env = \<lparr>le_sys = \<lparr>sys_kernel_btf = True, sys_module_btf = (\<lambda>_. True), sys_blocked = False\<rparr>, le_readable = (\<lambda>_. True),
     le_open = (\<lambda>_ _. Some []), le_find = (\<lambda>f. Some [\<lparr>sp_pid = int (length f), sp_gate = 4096\<rparr>]), le_reads = (\<lambda>_. []),
     le_reuse = (\<lambda>_. True), le_load = (\<lambda>_ _ _ _. True), le_skip = None, le_usdt = (\<lambda>_ _. True), le_attach = (\<lambda>_. True),
     le_ksyms = Some [], le_sysfs = \<lparr>fs_nsid = (\<lambda>_. None), fs_exists = (\<lambda>_. False)\<rparr>, le_stamp = True, le_ring = True,
     le_gate = (\<lambda>_ _. 0)\<rparr>"

definition sample_spdk :: "string \<Rightarrow> ntp_config" where
  "sample_spdk t = config_defaults\<lparr>cf_role := NTP_ROLE_BOTH, cf_spdk_host := ''/h'', cf_spdk_target := t\<rparr>"

lemmas sample_start = sample_env_def sample_spdk_def config_defaults_def ntp_loader_open_def resolve_session_def open_one_def
  btf_opts_def wanted_def objects_def obj_def role_in_spdk_def module_btf_def usdt_paths_of_def Let_def attach_all_def
  attach_probes_def attach_hooks_def attach_jobs_def NTP_TR_TCP_def NTP_TR_RDMA_def

text \<open>Its outcome with host and target in SPDK: sampling is on in process 3, the target's, then in process 2.\<close>

lemma sample_both:
  "\<exists>l. ntp_loader_open sample_env (sample_spdk ''/tt'') =
    (Some l, [Arm 0, Arm 1, Gate \<lparr>sp_pid = 3, sp_gate = 4096\<rparr> 1000 True, Gate \<lparr>sp_pid = 2, sp_gate = 4096\<rparr> 1000 True])"
  by (simp add: sample_start snprintf_s_def)

lemma sample_mixed: "\<exists>l acts. ntp_loader_open sample_env (sample_spdk '''') = (Some l, acts)"
  by (simp add: sample_start snprintf_s_def)

theorem gates_left_off_witness:
  "\<exists>l acts. ntp_loader_open sample_env (sample_spdk ''/tt'') = (Some l, acts) \<and> gate_value acts \<lparr>sp_pid = 3, sp_gate = 4096\<rparr> = Some 1000 \<and>
    gate_value (acts @ fst (ntp_loader_disarm sample_env l)) \<lparr>sp_pid = 3, sp_gate = 4096\<rparr> \<in> {None, Some 0}"
proof -
  obtain l where l: "ntp_loader_open sample_env (sample_spdk ''/tt'') =
    (Some l, [Arm 0, Arm 1, Gate \<lparr>sp_pid = 3, sp_gate = 4096\<rparr> 1000 True, Gate \<lparr>sp_pid = 2, sp_gate = 4096\<rparr> 1000 True])"
    using sample_both by blast
  show ?thesis using gates_left_off [OF _ l, of "\<lparr>sp_pid = 3, sp_gate = 4096\<rparr>"] l
    by (simp add: sample_env_def gate_value_def)
qed

subsection \<open>Order of starting and stopping\<close>

lemma open_one_desc: "open_one e c sel ks sh d = Some o' \<Longrightarrow> oi_desc o' = d"
  by (auto simp: open_one_def Let_def split: option.splits if_splits)

lemma open_all_descs: "open_all e c sel ks sh ds = Some os \<Longrightarrow> map oi_desc os = ds"
  by (induction ds arbitrary: sh os) (auto simp: open_one_desc split: option.splits)

lemma attach_probes_keeps: "attach_probes e o' = (ok, o'') \<Longrightarrow> oi_desc o'' = oi_desc o' \<and> oi_procs o'' = oi_procs o'"
  by (auto simp: attach_probes_def Let_def split: prod.splits)

lemma attach_probes_all_descs: "attach_probes_all e os = (ok, os') \<Longrightarrow> map oi_desc os' = map oi_desc os"
  by (induction os arbitrary: ok os') (auto simp: Let_def attach_probes_keeps split: prod.splits if_splits)

text \<open>A start that succeeds has one object for each wanted one, in the order of the table; sampling was switched on
  from the last to the first, and is switched off from the first to the last.\<close>

lemma loader_started:
  assumes "ntp_loader_open e c = (Some l, acts)"
  shows "map oi_desc (ld_inst l) = filter (wanted c) objects"
    and "acts = map Arm [0 ..< length (ld_inst l)] @
      map (\<lambda>p. Gate p (cf_sample_every c) True) (concat (map oi_procs (rev (ld_inst l))))"
    and "fst (ntp_loader_disarm e l) =
      concat (map (\<lambda>i. map (\<lambda>p. Gate p 0 (le_gate e p 0 = 0)) (oi_procs (ld_inst l ! i)) @ [Disarm i]) [0 ..< length (ld_inst l)])"
proof -
  obtain sel ks os ros ok gates os' where os: "open_all e c sel ks False (filter (wanted c) objects) = Some os"
    and ros: "attach_probes_all e os = (True, ros)"
    and g: "gate_all e (cf_sample_every c) (rev (map (\<lambda>o'. (attach_hooks e o')\<lparr>oi_armed := True\<rparr>) ros)) = (ok, gates, os')"
    and o': "ntp_loader_open e c = (if ok then Some \<lparr>ld_inst = rev os', ld_stamp = le_stamp e\<rparr> else None,
        map Arm [0 ..< length ros] @ gates @ (if ok then [] else ntp_loader_close e (rev os')))"
    using loader_open_cases [of e c] assms by auto
  have ok: "ok" and l: "l = \<lparr>ld_inst = rev os', ld_stamp = le_stamp e\<rparr>" and acts: "acts = map Arm [0 ..< length ros] @ gates"
    using o' assms by (auto split: if_splits)
  let ?on = "\<lambda>o'. (attach_hooks e o')\<lparr>oi_armed := True, oi_gated := (oi_procs (attach_hooks e o') \<noteq> [])\<rparr>"
  have inst: "ld_inst l = map ?on ros" and gates: "gates = map (\<lambda>p. Gate p (cf_sample_every c) True) (concat (map oi_procs (rev ros)))"
    using gate_all_ok [OF g [unfolded eqTrueI [OF ok]]]
    by (simp_all add: l rev_map comp_def attach_hooks_def)
  show "map oi_desc (ld_inst l) = filter (wanted c) objects"
    using open_all_descs [OF os] attach_probes_all_descs [OF ros] by (simp add: inst attach_hooks_def comp_def)
  show "acts = map Arm [0 ..< length (ld_inst l)] @
      map (\<lambda>p. Gate p (cf_sample_every c) True) (concat (map oi_procs (rev (ld_inst l))))"
    by (simp add: acts gates inst rev_map [symmetric] attach_hooks_def comp_def)
  have "oi_gated (ld_inst l ! i) = (oi_procs (ld_inst l ! i) \<noteq> [])" if "i < length (ld_inst l)" for i
    using that by (simp add: inst)
  then show "fst (ntp_loader_disarm e l) =
      concat (map (\<lambda>i. map (\<lambda>p. Gate p 0 (le_gate e p 0 = 0)) (oi_procs (ld_inst l ! i)) @ [Disarm i]) [0 ..< length (ld_inst l)])"
    unfolding ntp_loader_disarm_def fst_conv by (intro arg_cong [where f = concat] map_cong) (auto simp: ungate_def)
qed

text \<open>Two objects for a configuration with both roles in SPDK, the host's first; with the host alone in SPDK, the target's first.\<close>

lemma both_spdk_objects:
  assumes "cf_transport c \<in> {NTP_TR_TCP, NTP_TR_RDMA}" "cf_role c = NTP_ROLE_BOTH" "cf_spdk_host c \<noteq> []"
  shows "map od_role (filter (wanted c) objects) =
    (if cf_spdk_target c = [] then [NTP_ROLE_TARGET, NTP_ROLE_HOST] else [NTP_ROLE_HOST, NTP_ROLE_TARGET])"
  using assms by (auto simp: objects_def obj_def wanted_def role_in_spdk_def NTP_TR_TCP_def NTP_TR_RDMA_def)

lemma inst_two:
  assumes "map od_role (map oi_desc xs) = [r, r']"
  obtains a b where "xs = [a, b]" "od_role (oi_desc a) = r" "od_role (oi_desc b) = r'"
  using assms by (cases xs; cases "tl xs") auto

text \<open>
  \<^bold>\<open>C24.\<close> With host and target in SPDK, the start arms the two objects, then switches sampling on in the processes of
  the target and after them in those of the host; the stop switches it off in those of the host, disarms the
  host's object, and only then does the same for the target. So at every moment a host samples, its target does too.
\<close>

theorem spdk_start_stop_order:
  assumes "cf_transport c \<in> {NTP_TR_TCP, NTP_TR_RDMA}" and "cf_role c = NTP_ROLE_BOTH" and "cf_spdk_host c \<noteq> []"
    and "cf_spdk_target c \<noteq> []" and "ntp_loader_open e c = (Some l, acts)"
  shows "\<exists>h t. ld_inst l = [h, t] \<and> od_role (oi_desc h) = NTP_ROLE_HOST \<and> od_role (oi_desc t) = NTP_ROLE_TARGET \<and>
    acts = [Arm 0, Arm 1] @ map (\<lambda>p. Gate p (cf_sample_every c) True) (oi_procs t @ oi_procs h) \<and>
    fst (ntp_loader_disarm e l) =
      map (\<lambda>p. Gate p 0 (le_gate e p 0 = 0)) (oi_procs h) @ [Disarm 0] @
      map (\<lambda>p. Gate p 0 (le_gate e p 0 = 0)) (oi_procs t) @ [Disarm 1]"
proof -
  have "map od_role (map oi_desc (ld_inst l)) = [NTP_ROLE_HOST, NTP_ROLE_TARGET]"
    unfolding loader_started(1) [OF assms(5)] both_spdk_objects [OF assms(1-3)] using assms(4) by simp
  then obtain h t where i: "ld_inst l = [h, t]" "od_role (oi_desc h) = NTP_ROLE_HOST" "od_role (oi_desc t) = NTP_ROLE_TARGET"
    by (rule inst_two)
  have "acts = [Arm 0, Arm 1] @ map (\<lambda>p. Gate p (cf_sample_every c) True) (oi_procs t @ oi_procs h)"
    unfolding loader_started(2) [OF assms(5)] i by simp
  moreover have "fst (ntp_loader_disarm e l) =
      map (\<lambda>p. Gate p 0 (le_gate e p 0 = 0)) (oi_procs h) @ [Disarm 0] @
      map (\<lambda>p. Gate p 0 (le_gate e p 0 = 0)) (oi_procs t) @ [Disarm 1]"
    unfolding loader_started(3) [OF assms(5)] i by simp
  ultimately show ?thesis using i by blast
qed

theorem spdk_start_stop_order_witness:
  "\<exists>l acts h t. ntp_loader_open sample_env (sample_spdk ''/tt'') = (Some l, acts) \<and> ld_inst l = [h, t] \<and>
    od_role (oi_desc h) = NTP_ROLE_HOST \<and> fst (ntp_loader_disarm sample_env l) =
      map (\<lambda>p. Gate p 0 True) (oi_procs h) @ [Disarm 0] @ map (\<lambda>p. Gate p 0 True) (oi_procs t) @ [Disarm 1]"
proof -
  obtain l acts where l: "ntp_loader_open sample_env (sample_spdk ''/tt'') = (Some l, acts)" using sample_both by blast
  show ?thesis using spdk_start_stop_order [OF _ _ _ _ l] l
    by (simp add: sample_spdk_def config_defaults_def) (auto simp: sample_env_def)
qed

text \<open>
  With the host in SPDK and the target in the kernel, the table has the target's object first: the stop disarms
  the target before the host's processes stop sampling, the other way round than for two SPDK objects.
\<close>

theorem mixed_stop_order:
  assumes "cf_transport c \<in> {NTP_TR_TCP, NTP_TR_RDMA}" and "cf_role c = NTP_ROLE_BOTH" and "cf_spdk_host c \<noteq> []"
    and "cf_spdk_target c = []" and "ntp_loader_open e c = (Some l, acts)"
  shows "\<exists>t h. ld_inst l = [t, h] \<and> od_role (oi_desc t) = NTP_ROLE_TARGET \<and> od_role (oi_desc h) = NTP_ROLE_HOST \<and>
    fst (ntp_loader_disarm e l) =
      map (\<lambda>p. Gate p 0 (le_gate e p 0 = 0)) (oi_procs t) @ [Disarm 0] @
      map (\<lambda>p. Gate p 0 (le_gate e p 0 = 0)) (oi_procs h) @ [Disarm 1]"
proof -
  have "map od_role (map oi_desc (ld_inst l)) = [NTP_ROLE_TARGET, NTP_ROLE_HOST]"
    unfolding loader_started(1) [OF assms(5)] both_spdk_objects [OF assms(1-3)] using assms(4) by simp
  then obtain t h where i: "ld_inst l = [t, h]" "od_role (oi_desc t) = NTP_ROLE_TARGET" "od_role (oi_desc h) = NTP_ROLE_HOST"
    by (rule inst_two)
  have "fst (ntp_loader_disarm e l) =
      map (\<lambda>p. Gate p 0 (le_gate e p 0 = 0)) (oi_procs t) @ [Disarm 0] @
      map (\<lambda>p. Gate p 0 (le_gate e p 0 = 0)) (oi_procs h) @ [Disarm 1]"
    unfolding loader_started(3) [OF assms(5)] i by simp
  then show ?thesis using i by blast
qed

theorem mixed_stop_order_witness:
  "\<exists>l acts t h. ntp_loader_open sample_env (sample_spdk '''') = (Some l, acts) \<and> ld_inst l = [t, h] \<and>
    od_role (oi_desc t) = NTP_ROLE_TARGET \<and> fst (ntp_loader_disarm sample_env l) =
      map (\<lambda>p. Gate p 0 True) (oi_procs t) @ [Disarm 0] @ map (\<lambda>p. Gate p 0 True) (oi_procs h) @ [Disarm 1]"
proof -
  obtain l acts where l: "ntp_loader_open sample_env (sample_spdk '''') = (Some l, acts)" using sample_mixed by blast
  show ?thesis using mixed_stop_order [OF _ _ _ _ l] l
    by (simp add: sample_spdk_def config_defaults_def) (auto simp: sample_env_def)
qed

subsection \<open>Room for the links\<close>

lemma filter_dropWhile: "filter P (dropWhile (\<lambda>x. \<not> P x) xs) = filter P xs"
  by (induction xs) auto

lemma filter_dropWhile_le: "length (filter P (dropWhile Q xs)) \<le> length (filter P xs)"
  by (induction xs) auto

lemma length_tokens_hd:
  "length (tokens d s) \<le> length (filter (\<lambda>c. c = d) s) + (if s = [] \<or> hd s = d then 0 else 1)"
proof (induction d s rule: tokens.induct)
  case (1 d s)
  let ?s = "dropWhile (\<lambda>c. c = d) s"
  let ?r = "dropWhile (\<lambda>c. c \<noteq> d) ?s"
  show ?case
  proof (cases "?s = []")
    case False
    have "?r = [] \<or> hd ?r = d" using hd_dropWhile [of "\<lambda>c. c \<noteq> d" ?s] by blast
    then have "length (tokens d s) \<le> Suc (length (filter (\<lambda>c. c = d) ?r))"
      using 1 [OF refl False] False by (simp add: tokens.simps [of d s] Let_def split: if_splits)
    moreover have "length (filter (\<lambda>c. c = d) ?s) + (if hd s = d then 1 else 0) \<le> length (filter (\<lambda>c. c = d) s)"
      using False by (cases s) (auto simp: filter_dropWhile_le)
    ultimately show ?thesis using False by (auto simp: filter_dropWhile)
  qed (simp add: tokens.simps [of d s])
qed

lemma length_tokens: "length (tokens d s) \<le> Suc (length (filter (\<lambda>c. c = d) s))"
  using length_tokens_hd [of d s] by (simp split: if_splits)

lemma attach_usdt_all_length:
  assumes "attach_usdt_all e d paths ps = (ok, ls)" and "length (tokens (CHR '','') paths) \<le> n"
  shows "length ls \<le> length (filter (\<lambda>(p, load). load \<and> is_usdt p) ps) * n"
  using assms
proof (induction ps arbitrary: ok ls)
  case (Cons q ps)
  obtain p load where q: "q = (p, load)" by fastforce
  have "length (attach_usdt e paths p) \<le> n"
    unfolding attach_usdt_def length_map using length_filter_le order_trans [OF _ assms(2)] by (metis length_map)
  then show ?case using Cons by (fastforce simp: q Let_def split: if_splits prod.splits)
qed simp

lemma length_filter_disjoint:
  "(\<And>x. \<not> (P x \<and> Q x)) \<Longrightarrow> length (filter P xs) + length (filter Q xs) \<le> length xs"
  by (induction xs) auto

text \<open>A program takes one link as a function hook and one for every file as a probe: the array has a place for each.\<close>

lemma attach_room:
  assumes "attach_probes e o' = (ok, o'')"
  shows "length (oi_links o'') \<le> oi_link_cap o''"
    and "length (oi_links (attach_hooks e o'')) \<le> oi_link_cap (attach_hooks e o'')"
proof -
  let ?n = "files_of (oi_usdt_paths o')"
  let ?u = "filter (\<lambda>(p, load). load \<and> is_usdt p) (oi_progs o')"
  let ?h = "filter (\<lambda>(p, load). load \<and> \<not> is_usdt p) (oi_progs o')"
  let ?paths = "case oi_usdt_paths o' of Some p \<Rightarrow> p | None \<Rightarrow> []"
  have room: "oi_link_cap o'' = length (oi_progs o') * ?n" "oi_progs o'' = oi_progs o'"
    and links: "attach_usdt_all e (oi_desc o') ?paths (oi_progs o') = (ok, oi_links o'')"
    using assms by (auto simp: attach_probes_def Let_def split: prod.splits)
  have "length (tokens (CHR '','') ?paths) \<le> ?n"
    using length_tokens [of "CHR '',''"] by (auto simp: files_of_def tokens.simps [of _ "[]"] split: option.split)
  then have "length (oi_links o'') \<le> length ?u * ?n" by (rule attach_usdt_all_length [OF links])
  moreover have "length (filter (le_attach e) (attach_jobs o'')) \<le> length ?h * ?n"
    using length_filter_le [of "le_attach e" "attach_jobs o''"] by (simp add: attach_jobs_def room files_of_def)
  moreover have "length ?u + length ?h \<le> length (oi_progs o')" by (rule length_filter_disjoint) auto
  then have "length ?u * ?n + length ?h * ?n \<le> length (oi_progs o') * ?n" by (metis add_mult_distrib mult_le_mono1)
  ultimately show "length (oi_links o'') \<le> oi_link_cap o''"
    "length (oi_links (attach_hooks e o'')) \<le> oi_link_cap (attach_hooks e o'')"
    by (simp_all add: attach_hooks_def room)
qed

lemma attach_probes_all_set:
  "attach_probes_all e os = (ok, os') \<Longrightarrow> o'' \<in> set os' \<Longrightarrow>
    (\<exists>o' ok'. attach_probes e o' = (ok', o'')) \<or> \<not> ok \<and> o'' \<in> set os"
proof (induction os arbitrary: ok os')
  case (Cons o' os)
  obtain ok1 o1 where o1: "attach_probes e o' = (ok1, o1)" by fastforce
  show ?case
  proof (cases "ok1 \<and> o'' \<noteq> o1")
    case True
    then show ?thesis using Cons o1 by (auto simp: Let_def split: prod.splits)
  next
    case False
    then show ?thesis using Cons.prems o1 by (auto simp: Let_def split: prod.splits if_splits)
  qed
qed simp

text \<open>
  \<^bold>\<open>C38.\<close> Attaching never runs over the array of links, whether it succeeds or fails: for every object the links it has made
  by then, those of probes in several files and those of functions, are at most the places that were allocated before
  the first was made. Links are only added, so this holds at every moment before, too. The objects come from being
  opened, with no links.
\<close>

theorem links_fit:
  assumes "attach_all e os = (ok, os')" and "\<forall>o' \<in> set os. oi_links o' = []" and "o' \<in> set os'"
  shows "length (oi_links o') \<le> oi_link_cap o'"
proof -
  obtain ok1 ros where ros: "attach_probes_all e os = (ok1, ros)" by fastforce
  show ?thesis
  proof (cases ok1)
    case True
    then have "os' = map (attach_hooks e) ros" using assms(1) ros by (simp add: attach_all_def)
    then obtain r where "r \<in> set ros" "o' = attach_hooks e r" using assms(3) by auto
    then show ?thesis using attach_probes_all_set [OF ros] attach_room(2) True by fastforce
  next
    case False
    then have "o' \<in> set ros" using assms(1,3) ros by (simp add: attach_all_def)
    then show ?thesis using attach_probes_all_set [OF ros] attach_room(1) assms(2) by fastforce
  qed
qed

text \<open>An object with one function and two probes, and a list of two files, neither of which has the probe that is required.\<close>

definition sample_inst :: obj_inst where
  "sample_inst = \<lparr>oi_desc = objects ! 4, oi_filter = zero_filter, oi_ring = 4096, oi_armed = False,
     oi_progs = [(\<lparr>bp_name = ''f'', bp_section = ''kprobe/f''\<rparr>, True), (\<lparr>bp_name = ''u'', bp_section = ''usdt''\<rparr>, True),
       (\<lparr>bp_name = ''ntp_u_nvme_tcp_done'', bp_section = ''usdt''\<rparr>, True)],
     oi_links = [], oi_link_cap = 0, oi_usdt_paths = Some ''/a,/b'', oi_procs = [], oi_gated = False\<rparr>"

theorem links_fit_witness:
  "\<exists>o'. attach_all (sample_env\<lparr>le_usdt := (\<lambda>p _. bp_name p = ''u'')\<rparr>) [sample_inst] = (False, [o']) \<and>
    length (oi_links o') = 2 \<and> oi_link_cap o' = 6 \<and> length (oi_links o') \<le> oi_link_cap o'"
proof -
  have "tokens (CHR '','') ''/a,/b'' = [''/a'', ''/b'']" "is_required (objects ! 4) ''ntp_u_nvme_tcp_done''"
    "\<not> is_required (objects ! 4) ''u''" by code_simp+
  then obtain o' where o': "attach_all (sample_env\<lparr>le_usdt := (\<lambda>p _. bp_name p = ''u'')\<rparr>) [sample_inst] = (False, [o'])"
    "length (oi_links o') = 2" "oi_link_cap o' = 6"
    by (simp add: attach_all_def attach_probes_def attach_usdt_def sample_inst_def
        sample_env_def is_usdt_def files_of_def Let_def)
  then show ?thesis using links_fit [OF o'(1), of o'] by (simp add: sample_inst_def)
qed

end
