(* ===== verification/Loader_Threads.thy ===== *)
theory Loader_Threads
  imports Main
begin

text \<open>
  The loop that attaches and detaches programs from several threads at once (\<^verbatim>\<open>parallel_for()\<close> of
  \<^verbatim>\<open>src/src/loader.c\<close>): workers take indices from one shared counter, atomically, and call the function on each.
  The interleaving of the workers is a step relation; the threads that could be started are a parameter.
\<close>

subsection \<open>Workers\<close>

definition LINK_THREADS :: nat where "LINK_THREADS = 16"

text \<open>Where a worker is: before the atomic increment, in the call for an index, or returned.\<close>

datatype worker = Take | Call nat | Done

record pfor =
  pf_n :: nat
  pf_next :: nat
  pf_workers :: "worker list"
  pf_calls :: "nat list"

text \<open>\<open>pf_calls\<close>: the calls that were begun, in order. A worker increments the counter and tests what it held before.\<close>

definition pfor_take :: "nat \<Rightarrow> pfor \<Rightarrow> pfor" where
  "pfor_take w p =
    (let i = pf_next p; p = p\<lparr>pf_next := Suc i\<rparr>
     in if i < pf_n p then p\<lparr>pf_workers := (pf_workers p)[w := Call i], pf_calls := pf_calls p @ [i]\<rparr>
        else p\<lparr>pf_workers := (pf_workers p)[w := Done]\<rparr>)"

definition pfor_return :: "nat \<Rightarrow> pfor \<Rightarrow> pfor" where
  "pfor_return w p = p\<lparr>pf_workers := (pf_workers p)[w := Take]\<rparr>"

inductive pfor_worker :: "pfor \<Rightarrow> pfor \<Rightarrow> bool" where
  take_index: "w < length (pf_workers p) \<Longrightarrow> pf_workers p ! w = Take \<Longrightarrow> pfor_worker p (pfor_take w p)"
| call_returns: "w < length (pf_workers p) \<Longrightarrow> pf_workers p ! w = Call i \<Longrightarrow> pfor_worker p (pfor_return w p)"

inductive_cases pfor_workerE: "pfor_worker p q"

text \<open>\<open>created\<close>: whether the next thread can be created; the first that cannot ends the starting.\<close>

function start_threads :: "(nat \<Rightarrow> bool) \<Rightarrow> nat \<Rightarrow> nat \<Rightarrow> nat" where
  "start_threads created want started =
    (if started < want \<and> created started then start_threads created want (Suc started) else started)"
  by pat_completeness auto
termination by (relation "measure (\<lambda>(_, want, started). want - started)") auto

declare start_threads.simps [simp del]

text \<open>The calling thread is one more worker.\<close>

definition parallel_for :: "nat \<Rightarrow> bool \<Rightarrow> (nat \<Rightarrow> bool) \<Rightarrow> pfor" where
  "parallel_for n parallel created =
    (let want = (if parallel then if n < LINK_THREADS then n else LINK_THREADS else 0)
     in \<lparr>pf_n = n, pf_next = 0, pf_workers = replicate (Suc (start_threads created want 0)) Take, pf_calls = []\<rparr>)"

definition pfor_joined :: "pfor \<Rightarrow> bool" where
  "pfor_joined p = list_all (\<lambda>w. w = Done) (pf_workers p)"

subsection \<open>Invariant\<close>

definition pfor_inv :: "nat \<Rightarrow> pfor \<Rightarrow> bool" where
  "pfor_inv n p \<longleftrightarrow> pf_n p = n \<and> pf_calls p = [0 ..< min (pf_next p) n] \<and> pf_workers p \<noteq> [] \<and>
     (Done \<in> set (pf_workers p) \<longrightarrow> n \<le> pf_next p)"

lemma pfor_inv_step: "pfor_worker p q \<Longrightarrow> pfor_inv n p \<Longrightarrow> pfor_inv n q"
  by (erule pfor_workerE)
    (auto simp: pfor_inv_def pfor_take_def pfor_return_def Let_def min_def dest: set_update_subset_insert [THEN subsetD])

lemma pfor_inv_reachable: "pfor_worker\<^sup>*\<^sup>* (parallel_for n par created) p \<Longrightarrow> pfor_inv n p"
proof (induction rule: rtranclp_induct)
  case base
  show ?case by (simp add: parallel_for_def pfor_inv_def Let_def)
qed (rule pfor_inv_step)

text \<open>Until every worker has returned there is a step.\<close>

lemma pfor_progress: "\<not> pfor_joined p \<Longrightarrow> \<exists>q. pfor_worker p q"
proof -
  assume "\<not> pfor_joined p"
  then obtain w where "w < length (pf_workers p)" "pf_workers p ! w \<noteq> Done"
    by (auto simp: pfor_joined_def list_all_iff in_set_conv_nth)
  then show ?thesis by (cases "pf_workers p ! w") (auto intro: pfor_worker.intros)
qed

text \<open>The workers that have not returned, the indices left and the calls under way bound the steps that are left.\<close>

fun worker_left :: "worker \<Rightarrow> nat" where
  "worker_left Take = 1"
| "worker_left (Call _) = 2"
| "worker_left Done = 0"

definition pfor_left :: "pfor \<Rightarrow> nat" where
  "pfor_left p = 2 * (pf_n p - pf_next p) + sum_list (map worker_left (pf_workers p))"

lemma pfor_decreases: "pfor_worker p q \<Longrightarrow> pfor_left q < pfor_left p"
proof (erule pfor_workerE)
  fix w assume w: "w < length (pf_workers p)" "pf_workers p ! w = Take" and q: "q = pfor_take w p"
  have "worker_left (pf_workers p ! w) \<le> sum_list (map worker_left (pf_workers p))" using w(1) by (intro member_le_sum_list) auto
  then show ?thesis using w
    by (auto simp: q pfor_left_def pfor_take_def Let_def map_update sum_list_update)
next
  fix w i assume w: "w < length (pf_workers p)" "pf_workers p ! w = Call i" and q: "q = pfor_return w p"
  have "worker_left (pf_workers p ! w) \<le> sum_list (map worker_left (pf_workers p))" using w(1) by (intro member_le_sum_list) auto
  then show ?thesis using w by (auto simp: q pfor_left_def pfor_return_def map_update sum_list_update)
qed

lemma pfor_wf: "wfP (\<lambda>q p. pfor_worker p q)"
  by (rule wfp_if_convertible_to_nat [where f = pfor_left]) (rule pfor_decreases)

lemma start_threads_bound: "start_threads created want s \<le> max s want"
  by (induction created want s rule: start_threads.induct) (subst start_threads.simps, auto)

lemma pfor_joined_stuck: "pfor_joined p \<Longrightarrow> \<not> pfor_worker p q"
  by (auto simp: pfor_joined_def list_all_length elim!: pfor_workerE)

lemma pfor_threads: "pfor_worker\<^sup>*\<^sup>* (parallel_for n par created) p \<Longrightarrow> length (pf_workers p) \<le> Suc LINK_THREADS"
proof (induction rule: rtranclp_induct)
  case base
  show ?case using start_threads_bound [of created "if n < LINK_THREADS then n else LINK_THREADS" 0]
      start_threads_bound [of created 0 0] by (auto simp: parallel_for_def Let_def split: if_splits)
next
  case (step p q)
  then show ?case by (auto simp: pfor_take_def pfor_return_def Let_def elim!: pfor_workerE)
qed

text \<open>
  \<^bold>\<open>C25.\<close> Whatever threads could be created and however the workers interleave, the loop over the programs ends with
  every worker returned, and never otherwise; then the function was called once for each index and for nothing else.
\<close>

theorem parallel_for_each:
  "wfP (\<lambda>q p. pfor_worker p q) \<and>
   (\<forall>p. pfor_worker\<^sup>*\<^sup>* (parallel_for n par created) p \<longrightarrow>
      (\<nexists>q. pfor_worker p q) = pfor_joined p \<and> (pfor_joined p \<longrightarrow> pf_calls p = [0 ..< n]) \<and>
      length (pf_workers p) \<le> Suc LINK_THREADS)"
proof (intro conjI allI impI)
  show "wfP (\<lambda>q p. pfor_worker p q)" by (rule pfor_wf)
next
  fix p assume r: "pfor_worker\<^sup>*\<^sup>* (parallel_for n par created) p"
  show "(\<nexists>q. pfor_worker p q) = pfor_joined p" using pfor_progress pfor_joined_stuck by blast
  show "pf_calls p = [0 ..< n]" if "pfor_joined p"
    using pfor_inv_reachable [OF r] that by (cases "pf_workers p") (auto simp: pfor_inv_def pfor_joined_def min_def)
  show "length (pf_workers p) \<le> Suc LINK_THREADS" using pfor_threads [OF r] by simp
qed

theorem parallel_for_each_witness:
  "\<exists>p. pfor_worker\<^sup>*\<^sup>* (parallel_for (Suc 0) False (\<lambda>_. True)) p \<and> pfor_joined p \<and> pf_calls p = [0 ..< Suc 0]"
proof -
  let ?p = "parallel_for (Suc 0) False (\<lambda>_. True)"
  let ?q = "pfor_take 0 (pfor_return 0 (pfor_take 0 ?p))"
  have p: "?p = \<lparr>pf_n = Suc 0, pf_next = 0, pf_workers = [Take], pf_calls = []\<rparr>"
    by (simp add: parallel_for_def start_threads.simps)
  have "pfor_worker ?p (pfor_take 0 ?p)" by (rule take_index) (simp_all add: p)
  also have "pfor_worker\<^sup>*\<^sup>* (pfor_take 0 ?p) (pfor_return 0 (pfor_take 0 ?p))"
    by (rule r_into_rtranclp, rule call_returns [where i = 0]) (simp_all add: p pfor_take_def)
  also have "pfor_worker\<^sup>*\<^sup>* (pfor_return 0 (pfor_take 0 ?p)) ?q"
    by (rule r_into_rtranclp, rule take_index) (simp_all add: p pfor_take_def pfor_return_def)
  finally have r: "pfor_worker\<^sup>*\<^sup>* ?p ?q" by simp
  have "pfor_joined ?q" by (simp add: p pfor_take_def pfor_return_def pfor_joined_def)
  then show ?thesis using r parallel_for_each [of "Suc 0" False "\<lambda>_. True"] by blast
qed

end
