(* ===== verification/Probe.thy ===== *)
theory Probe
  imports Loader Report Offline
begin

text \<open>
  The command \<^verbatim>\<open>probe\<close> (\<^verbatim>\<open>ntp_probe()\<close> of \<^verbatim>\<open>src/src/loader.c\<close>, \<^verbatim>\<open>cmd_probe()\<close> of \<^verbatim>\<open>src/src/record.c\<close>), and the check of whether
  fentry hooks can attach, which the choice of the flavour rests on. The padding of
  columns and the text of an error number are left out. \<^verbatim>\<open>probe\<close> loads an object as it was opened, with no
  filter set and with a ring buffer of its own, so its load may end otherwise than that of a recording; what holds is that it names every
  object whose BTF or required functions a recording would miss.
\<close>

subsection \<open>Can fentry hooks attach?\<close>

definition FC_OK :: char where "FC_OK = CHR ''y''"
definition FC_UNKNOWN :: char where "FC_UNKNOWN = CHR ''?''"
definition FC_BLOCKED :: char where "FC_BLOCKED = CHR ''b''"

text \<open>In the grandchild: what loading and attaching the program return.\<close>

definition fentry_check_attach :: "int \<Rightarrow> int \<Rightarrow> char" where
  "fentry_check_attach prog link = (if prog < 0 then FC_UNKNOWN else if link < 0 then FC_UNKNOWN else FC_OK)"

text \<open>
  What the operating system does: the kernel's BTF, the function's id in it, the pipe, the fork, how many descriptors \<^verbatim>\<open>poll\<close> finds
  ready in the time given, and the byte read, which the grandchild wrote.
\<close>

record fentry_env =
  fe_btf :: bool
  fe_id :: int
  fe_pipe :: bool
  fe_pid :: int
  fe_poll :: int
  fe_byte :: "(int \<times> int) option"

definition fentry_check :: "fentry_env \<Rightarrow> char" where
  "fentry_check e =
    (if \<not> fe_btf e then FC_UNKNOWN
     else if fe_id e < 0 \<or> \<not> fe_pipe e then FC_UNKNOWN
     else if fe_pid e > 0
     then if fe_poll e \<noteq> 1 then FC_BLOCKED
          else (case fe_byte e of None \<Rightarrow> FC_UNKNOWN | Some (prog, link) \<Rightarrow> fentry_check_attach prog link)
     else FC_UNKNOWN)"

text \<open>Only a grandchild that says nothing in time makes the tool leave fentry.\<close>

lemma fentry_check_blocked:
  "fentry_check e = FC_BLOCKED \<longleftrightarrow> fe_btf e \<and> fe_id e \<ge> 0 \<and> fe_pipe e \<and> fe_pid e > 0 \<and> fe_poll e \<noteq> 1"
  by (auto simp: fentry_check_def fentry_check_attach_def FC_OK_def FC_UNKNOWN_def FC_BLOCKED_def split: option.splits)

subsection \<open>One object\<close>

text \<open>The symbol that was looked up.\<close>

definition what_of :: "bpf_prog \<Rightarrow> string" where
  "what_of p =
    (let sec = bp_section p
     in snprintf_s 256
       (if is_usdt p then ''USDT ntprof:'' @ drop (length USDT_PREFIX) (bp_name p)
        else if CHR ''/'' \<notin> set sec then sec
        else if starts_with ''raw_tp/'' sec \<or> starts_with ''tp_btf/'' sec then ''tracepoint '' @ after_slash sec
        else after_slash sec))"

definition probe_note :: "obj_desc \<Rightarrow> string list \<Rightarrow> string \<Rightarrow> string" where
  "probe_note d ks name =
    snprintf_s 160
      (if is_required d name then '' (required)''
       else case fallback_for name of
         None \<Rightarrow> []
       | Some f \<Rightarrow> '' (for '' @ f @ '': '' @ (if ksyms_has ks f then ''not needed'' else ''inlined, used'') @ '')'')"

definition probe_prog :: "obj_desc \<Rightarrow> string list \<Rightarrow> bpf_prog \<Rightarrow> field list" where
  "probe_prog d ks p =
    [Txt ''  '', Txt (if target_present ks p then ''ok'' else ''--''), Txt (bp_name p), Txt (what_of p), Txt (probe_note d ks (bp_name p)),
     newline]"

text \<open>The outcome of loading without attaching.\<close>

datatype probed = Not_opened | Load_skipped | Load_failed | Load_ok

definition probe_load :: "load_env \<Rightarrow> ntp_config \<Rightarrow> string list \<Rightarrow> obj_desc \<Rightarrow> probed" where
  "probe_load e c ks d =
    (case btf_opts e c d of
       None \<Rightarrow> Not_opened
     | Some btf \<Rightarrow>
         case le_open e d btf of
           None \<Rightarrow> Not_opened
         | Some progs \<Rightarrow>
             case select_programs d ks (object_flavour (le_sys e) c d) (cf_exact_queues c) (le_skip e) progs of
               None \<Rightarrow> Load_skipped
             | Some sels \<Rightarrow> if le_load e d btf None sels then Load_ok else Load_failed)"

text \<open>The SPDK files and processes. \<open>elf\<close>: what libelf gives of a file.\<close>

definition probe_file :: "(string \<Rightarrow> elf_view option) \<Rightarrow> string \<Rightarrow> field list" where
  "probe_file elf path =
    (let (n, probes) = ntp_spdk_list_probes (elf path)
     in [Txt ''  USDT probes in '', Txt path, Txt '':'', newline] @
        concat (map (\<lambda>(name, sites). [Txt ''  ok   '', Txt name, Cnt sites, Txt (if sites = 1 then '' site'' else '' sites''), newline]) probes) @
        (if n = 0 then [Txt ''  (none)'', newline] else []))"

definition probe_spdk :: "load_env \<Rightarrow> (string \<Rightarrow> elf_view option) \<Rightarrow> ntp_config \<Rightarrow> obj_desc \<Rightarrow> field list" where
  "probe_spdk e elf c d =
    (let paths = usdt_paths_of c d; procs = (case le_find e paths of None \<Rightarrow> [] | Some ps \<Rightarrow> ps)
     in concat (map (\<lambda>t. probe_file elf (strip t)) (tokens (CHR '','') paths)) @ [Txt ''  running processes:''] @
        concat (map (\<lambda>p. [Lng (sp_pid p), Txt '' (sampling variable at '', Cnt (unat (sp_gate p)), Txt '')'']) procs) @
        [Txt (if procs \<noteq> [] then [] else '' none''), newline])"

definition probe_object :: "load_env \<Rightarrow> (string \<Rightarrow> elf_view option) \<Rightarrow> ntp_config \<Rightarrow> string list \<Rightarrow> obj_desc \<Rightarrow> field list" where
  "probe_object e elf c ks d =
    [newline, Txt (od_name d), Txt '' (module BTF '', Txt (od_btf_module d), Txt '': '',
     Txt (if module_btf (le_sys e) d then ''present'' else ''absent''),
     Txt (if object_flavour (le_sys e) c d \<noteq> choose_flavour (le_sys e) c then ''; kprobes'' else []), Txt '')'', newline] @
    (if od_spdk d then probe_spdk e elf c d else []) @
    (case Option.bind (btf_opts e c d) (le_open e d) of
       None \<Rightarrow> [Txt ''  cannot open object'', newline]
     | Some progs \<Rightarrow>
         concat (map (probe_prog d ks) progs) @
         (case probe_load e c ks d of
            Load_ok \<Rightarrow> [Txt ''  load: ok'', newline]
          | Load_failed \<Rightarrow> [Txt ''  load: FAILED: '', newline]
          | _ \<Rightarrow> [Txt ''  load: skipped, a required attach point is missing'', newline]))"

subsection \<open>The command\<close>

definition ntp_probe :: "load_env \<Rightarrow> (string \<Rightarrow> elf_view option) \<Rightarrow> ntp_config \<Rightarrow> int \<times> field list" where
  "ntp_probe e elf c =
    (case le_ksyms e of
       None \<Rightarrow> (-1, [])
     | Some lines \<Rightarrow>
         (0, [Txt ''kernel BTF: '',
              Txt (if sys_kernel_btf (le_sys e) then ''yes'' else ''no (CO-RE needs --btf DIR, see tools/gen-btf.sh)''), newline,
              Txt ''function hooks: '',
              Txt (if choose_flavour (le_sys e) c = FL_FENTRY then ''fentry/fexit (they can attach now)'' else ''kprobe/kretprobe''), newline] @
             concat (map (probe_object e elf c (ksyms_load lines)) (filter (wanted c) objects))))"

definition cmd_probe :: "load_env \<Rightarrow> (string \<Rightarrow> elf_view option) \<Rightarrow> ntp_config \<Rightarrow> int \<times> field list" where
  "cmd_probe e elf c = (let (ret, out) = ntp_probe e elf c in (if ret \<noteq> 0 then EXIT_FAILURE else EXIT_SUCCESS, out))"

subsection \<open>What probing says of recording\<close>

text \<open>
  An object that \<^verbatim>\<open>probe\<close> cannot open or skips is one that a recording does not open either.
\<close>

lemma probe_warns:
  assumes "open_one e c sel ks shared d = Some o'"
  shows "probe_load e c ks d \<in> {Load_failed, Load_ok}"
  using assms by (auto simp: open_one_def probe_load_def split: option.splits if_splits)

end
