(* ===== verification/Dump.thy ===== *)
theory Dump
  imports Offline Report
begin

text \<open>
  The command \<^verbatim>\<open>dump\<close> and the line on joining of \<^verbatim>\<open>report\<close> (\<^verbatim>\<open>src/src/offline.c\<close>). A dump is text, one row of
  comma-separated values for each record; it is shown that the rows determine the records.
\<close>

subsection \<open>Numbers as text\<close>

text \<open>\<^verbatim>\<open>%x\<close>, \<^verbatim>\<open>%#x\<close> and \<^verbatim>\<open>%lld\<close>.\<close>

fun hex :: "nat \<Rightarrow> string" where
  "hex n = (if n < 16 then [hex_digit n] else hex (n div 16) @ [hex_digit (n mod 16)])"

declare hex.simps [simp del]

definition alt_hex :: "nat \<Rightarrow> string" where
  "alt_hex n = (if n = 0 then ''0'' else ''0x'' @ hex n)"

definition sdec :: "int \<Rightarrow> string" where
  "sdec i = (if i < 0 then CHR ''-'' # dec (nat (- i)) else dec (nat i))"

fun csv :: "string list \<Rightarrow> string" where
  "csv [] = []"
| "csv [x] = x"
| "csv (x # y # xs) = x @ CHR '','' # csv (y # xs)"

subsection \<open>Rows\<close>

definition host_ts_names :: "string list" where
  "host_ts_names = [''start'', ''queue_rq'', ''cmd_sent'', ''r2t_arr'', ''r2t_proc'', ''data_start'', ''data_sent'', ''c2h_arr'',
     ''c2h_proc'', ''rsp_arr'', ''rsp_proc'', ''nvme_done'', ''blk_done'', ''send_done'', ''c2h_last_arr'', ''c2h_done'']"

definition tgt_ts_names :: "string list" where
  "tgt_ts_names = [''cmd_arr'', ''cmd_proc'', ''r2t_queued'', ''r2t_sent'', ''data_arr'', ''data_proc'', ''exec'', ''be_issue'',
     ''be_done'', ''complete'', ''rsp_queued'', ''c2h_sent'', ''rsp_sent'', ''send_done'', ''data_last_arr'', ''data_done'']"

definition dump_id :: "ntp_rec_hdr \<Rightarrow> ntp_cmd_id \<Rightarrow> string" where
  "dump_id h i =
    csv [dec (unat (hdr_transport h)), alt_hex (unat (hdr_flags h)), dec (unat (hdr_cpu h)), dec (unat (id_cntlid i)),
      dec (unat (id_qid i)), dec (unat (id_cid i)), dec (unat (id_opcode i)), dec (unat (id_nsid i)), dec (unat (id_slba i)),
      dec (unat (id_nlb i))]"

definition dump_times :: "u64 list \<Rightarrow> string" where
  "dump_times ts =
    (let (base, offs) = dump_ts ts
     in CHR '','' # dec (unat base) @
        concat (map (\<lambda>d. case d of Some d \<Rightarrow> CHR '','' # sdec (sint d) | None \<Rightarrow> '','') offs))"

definition dump_host :: "ntp_host_rec \<Rightarrow> string" where
  "dump_host h =
    ''host,'' @ dump_id (h_hdr h) (h_id h) @ CHR '','' #
    csv [dec (unat (h_bytes h)), cstr (h_disk h), dec (unat (h_ctrl_instance h)), dec (unat (h_q_unsent h)),
      dec (unat (h_q_inflight h))] @
    dump_times (map (h_ts h) enum_class.enum) @ CHR '','' # dec (unat (h_c2h_busy_ns h)) @ CHR '','' #
    dec (unat (h_c2h_skbs h)) @ [CHR 0x0A]"

definition dump_target :: "ntp_tgt_rec \<Rightarrow> string" where
  "dump_target t =
    ''target,'' @ dump_id (t_hdr t) (t_id t) @ CHR '','' #
    csv [dec (unat (t_bytes t)), [], [], dec (unat (t_q_outstanding t)), dec (unat (t_q_resp_queue t))] @
    dump_times (map (t_ts t) enum_class.enum) @ CHR '','' # dec (unat (t_h2c_busy_ns t)) @ CHR '','' #
    dec (unat (t_h2c_skbs t)) @ [CHR 0x0A]"

subsection \<open>The command\<close>

text \<open>The callbacks print: their argument is the text so far.\<close>

definition dump_ops :: "string ntp_reader_ops" where
  "dump_ops = \<lparr>op_host = Some (\<lambda>h out. (0, out @ dump_host h)), op_target = Some (\<lambda>t out. (0, out @ dump_target t))\<rparr>"

definition dump_header :: string where
  "dump_header =
    ''kind,transport,flags,cpu,cntlid,qid,cid,opcode,nsid,slba,nlb,bytes,disk,ctrl,queue1,queue2,base_ns'' @
    concat (map (\<lambda>n. '',h_'' @ n) host_ts_names) @ '',h_c2h_busy_ns,h_c2h_skbs  (target rows: base_ns'' @
    concat (map (\<lambda>n. '',t_'' @ n) tgt_ts_names) @ '',t_h2c_busy_ns,t_h2c_skbs)'' @ [CHR 0x0A]"

fun dump_files :: "(string \<Rightarrow> stream option) \<Rightarrow> string list \<Rightarrow> string \<Rightarrow> int \<times> string" where
  "dump_files fs [] out = (EXIT_SUCCESS, out)"
| "dump_files fs (p # ps) out =
    (let (e, out) = ntp_read_file (fs p) dump_ops out
     in if read_ret e \<noteq> 0 then (EXIT_FAILURE, out) else dump_files fs ps out)"

definition cmd_dump :: "(string \<Rightarrow> stream option) \<Rightarrow> string list \<Rightarrow> int \<times> string" where
  "cmd_dump fs files = (if files = [] then (EXIT_FAILURE, []) else dump_files fs files dump_header)"

subsection \<open>The line on joining\<close>

definition print_join :: "(rat \<Rightarrow> rat) \<Rightarrow> run \<Rightarrow> field list" where
  "print_join rnd r =
    (let js = jn_st (r_joiner r); n = length (r_hosts r)
     in [Txt (CHR 0x0A # ''records: ''), Cnt n, Txt '' host''] @
        (if r_targets r \<noteq> 0
         then [Txt '', '', Cnt (unat (r_targets r)), Txt '' target; '', Cnt (unat (matched js)), Txt '' matched ('',
               Fix 0 (if n \<noteq> 0 then rnd (rnd (100 * rnd (of_nat (unat (matched js)))) / rnd (of_nat n)) else 0), Txt '' % of the host's)'']
         else []) @ [newline] @
        (if r_targets r \<noteq> 0 \<and> host_unmatched js * 100 > of_nat n
         then [Txt ''  '', Cnt (unat (host_unmatched js)), 
               Txt '' host records found no target record: start the target's recording first and stop it last, with the same -s'', newline]
         else []))"

subsection \<open>Values without separators\<close>

text \<open>A value of a row: neither a comma nor the end of a line.\<close>

definition plain_value :: "string \<Rightarrow> bool" where
  "plain_value s = list_all (\<lambda>c. c \<noteq> CHR '','' \<and> c \<noteq> CHR 0x0A) s"

lemma plain_value_simps [simp]:
  "plain_value []" "plain_value (c # s) \<longleftrightarrow> c \<noteq> CHR '','' \<and> c \<noteq> CHR 0x0A \<and> plain_value s"
  "plain_value (s @ t) \<longleftrightarrow> plain_value s \<and> plain_value t"
  by (auto simp: plain_value_def)

lemma digit_plain: "is_digit c \<Longrightarrow> c \<noteq> CHR '','' \<and> c \<noteq> CHR 0x0A \<and> c \<noteq> CHR ''-''"
  by (auto simp: is_digit_def)

lemma plain_dec [simp]: "plain_value (dec n)"
  using dec_digits(1) [of n] digit_plain by (auto simp: plain_value_def list_all_iff)

lemma dec_inject [simp]: "dec m = dec n \<longleftrightarrow> m = n"
  using digits_val_dec by (metis of_nat_eq_iff)

lemma dec_not_minus: "dec n \<noteq> CHR ''-'' # s"
proof
  assume "dec n = CHR ''-'' # s"
  then show False using dec_digits(1) [of n] by (simp add: is_digit_def)
qed

lemma plain_sdec [simp]: "plain_value (sdec i)" and sdec_not_Nil [simp]: "sdec i \<noteq> []"
  using dec_digits(2) by (auto simp: sdec_def)

lemma sdec_inject [simp]: "sdec i = sdec j \<longleftrightarrow> i = j"
  using dec_not_minus by (auto simp: sdec_def split: if_splits) (metis dec_not_minus)+

text \<open>The value of hexadecimal digits.\<close>

definition hex_number :: "string \<Rightarrow> nat" where
  "hex_number s = foldl (\<lambda>a c. a * 16 + (case hex_val c of Some d \<Rightarrow> d | None \<Rightarrow> 0)) 0 s"

lemma hex_number_hex: "hex_number (hex n) = n"
proof (induction n rule: hex.induct)
  case (1 n)
  show ?case
  proof (cases "n < 16")
    case True
    then show ?thesis using hex_val_digit [of n] by (simp add: hex.simps [of n] hex_number_def)
  next
    case False
    then show ?thesis using 1 hex_val_digit [of "n mod 16"] by (simp add: hex.simps [of n] hex_number_def)
  qed
qed

lemma plain_hex_digit: "d < 16 \<Longrightarrow> plain_value [hex_digit d]"
  using hex_val_digit [of d] by (auto simp: hex_val_def Let_def split: if_splits)

lemma plain_hex: "plain_value (hex n)"
proof (induction n rule: hex.induct)
  case (1 n)
  show ?case
  proof (cases "n < 16")
    case True
    then show ?thesis using plain_hex_digit [of n] by (simp add: hex.simps [of n])
  next
    case False
    then show ?thesis using 1 plain_hex_digit [of "n mod 16"] by (simp add: hex.simps [of n])
  qed
qed

lemma plain_alt_hex [simp]: "plain_value (alt_hex n)"
  by (simp add: alt_hex_def plain_hex)

lemma alt_hex_inject [simp]: "alt_hex m = alt_hex n \<longleftrightarrow> m = n"
  using hex_number_hex by (auto simp: alt_hex_def) metis

lemma unat_inject: "unat a = unat b \<longleftrightarrow> a = b" for a b :: "'a :: len word"
  by (auto intro: unsigned_word_eqI)

subsection \<open>Rows determine their values\<close>

lemma plain_split:
  assumes "plain_value x" and "plain_value y" and "c \<in> {CHR '','', CHR 0x0A}" and "x @ c # r = y @ c # r'"
  shows "x = y \<and> r = r'"
  using assms
proof (induction x arbitrary: y)
  case Nil
  then show ?case by (cases y) auto
next
  case (Cons a x)
  then show ?case by (cases y) auto
qed

lemma csv_Cons: "xs \<noteq> [] \<Longrightarrow> csv (x # xs) = x @ CHR '','' # csv xs"
  by (cases xs) simp_all

lemma csv_append: "xs \<noteq> [] \<Longrightarrow> ys \<noteq> [] \<Longrightarrow> csv (xs @ ys) = csv xs @ CHR '','' # csv ys"
proof (induction xs)
  case (Cons x xs)
  then show ?case by (cases "xs = []") (simp_all add: csv_Cons)
qed simp

lemma csv_inject:
  assumes "length xs = length ys" and "list_all plain_value xs" and "list_all plain_value ys"
    and "csv xs @ CHR 0x0A # r = csv ys @ CHR 0x0A # r'"
  shows "(xs = [] \<longrightarrow> xs = ys) \<and> (xs \<noteq> [] \<longrightarrow> xs = ys \<and> r = r')"
  using assms
proof (induction xs ys rule: list_induct2)
  case (Cons x xs y ys)
  show ?case
  proof (cases "xs = []")
    case True
    then show ?thesis using Cons plain_split [of x y "CHR 0x0A" r r'] by auto
  next
    case False
    then have "ys \<noteq> []" using Cons.hyps by auto
    with False Cons.prems have "x @ CHR '','' # (csv xs @ CHR 0x0A # r) = y @ CHR '','' # (csv ys @ CHR 0x0A # r')"
      by (simp add: csv_Cons)
    then show ?thesis using plain_split [of x y "CHR '',''"] Cons False by auto
  qed
qed simp

text \<open>The values of a row.\<close>

definition id_values :: "ntp_rec_hdr \<Rightarrow> ntp_cmd_id \<Rightarrow> string list" where
  "id_values h i = [dec (unat (hdr_transport h)), alt_hex (unat (hdr_flags h)), dec (unat (hdr_cpu h)), dec (unat (id_cntlid i)),
      dec (unat (id_qid i)), dec (unat (id_cid i)), dec (unat (id_opcode i)), dec (unat (id_nsid i)), dec (unat (id_slba i)),
      dec (unat (id_nlb i))]"

definition time_values :: "u64 list \<Rightarrow> string list" where
  "time_values ts = (let (base, offs) = dump_ts ts in dec (unat base) # map (\<lambda>d. case d of Some d \<Rightarrow> sdec (sint d) | None \<Rightarrow> []) offs)"

lemma times_csv: "dump_times ts @ CHR '','' # csv (y # ys) = CHR '','' # csv (time_values ts @ y # ys)"
proof -
  have rows: "x @ concat (map (\<lambda>d. case d of Some d \<Rightarrow> CHR '','' # sdec (sint d) | None \<Rightarrow> '','') offs) @ CHR '','' # csv (y # ys) =
      csv (x # map (\<lambda>d. case d of Some d \<Rightarrow> sdec (sint d) | None \<Rightarrow> []) offs @ y # ys)" for x and offs :: "i64 option list"
    by (induction offs arbitrary: x) (auto simp: csv_Cons split: option.split)
  show ?thesis using rows by (auto simp: dump_times_def time_values_def csv_Cons split: prod.split)
qed

definition host_values :: "ntp_host_rec \<Rightarrow> string list" where
  "host_values h = ''host'' # id_values (h_hdr h) (h_id h) @
    [dec (unat (h_bytes h)), cstr (h_disk h), dec (unat (h_ctrl_instance h)), dec (unat (h_q_unsent h)), dec (unat (h_q_inflight h))] @
    time_values (map (h_ts h) enum_class.enum) @ [dec (unat (h_c2h_busy_ns h)), dec (unat (h_c2h_skbs h))]"

definition tgt_values :: "ntp_tgt_rec \<Rightarrow> string list" where
  "tgt_values t = ''target'' # id_values (t_hdr t) (t_id t) @
    [dec (unat (t_bytes t)), [], [], dec (unat (t_q_outstanding t)), dec (unat (t_q_resp_queue t))] @
    time_values (map (t_ts t) enum_class.enum) @ [dec (unat (t_h2c_busy_ns t)), dec (unat (t_h2c_skbs t))]"

lemma times_end: "dump_times ts @ CHR '','' # a @ CHR '','' # b @ r = CHR '','' # csv (time_values ts @ [a, b]) @ r"
proof -
  have "dump_times ts @ CHR '','' # a @ CHR '','' # b @ r = (dump_times ts @ CHR '','' # csv [a, b]) @ r" by simp
  then show ?thesis unfolding times_csv by simp
qed

lemma host_row: "dump_host h = csv (host_values h) @ [CHR 0x0A]"
  unfolding dump_host_def times_end by (simp add: host_values_def id_values_def dump_id_def csv_Cons)

lemma tgt_row: "dump_target t = csv (tgt_values t) @ [CHR 0x0A]"
  unfolding dump_target_def times_end by (simp add: tgt_values_def id_values_def dump_id_def csv_Cons)

lemma plain_times: "list_all plain_value (time_values ts)"
  by (auto simp: time_values_def list_all_iff split: prod.split option.split)

lemma time_values_inject: "length ts = length ts' \<Longrightarrow> time_values ts = time_values ts' \<Longrightarrow> ts = ts'"
proof -
  let ?f = "\<lambda>d :: i64 option. case d of Some d \<Rightarrow> sdec (sint d) | None \<Rightarrow> []"
  assume "time_values ts = time_values ts'"
  then have base: "fst (dump_ts ts) = fst (dump_ts ts')" and offs: "map ?f (snd (dump_ts ts)) = map ?f (snd (dump_ts ts'))"
    by (auto simp: time_values_def unat_inject split: prod.splits)
  have "inj ?f"
    by (rule injI) (auto split: option.splits simp: sdec_not_Nil [symmetric] intro: signed_word_eqI)
  with offs have "snd (dump_ts ts) = snd (dump_ts ts')" by (simp add: inj_map_eq_map)
  with base have "dump_ts ts = dump_ts ts'" by (rule prod_eqI)
  then show "ts = ts'" using dump_ts_roundtrip [of ts] dump_ts_roundtrip [of ts'] by (auto simp: Let_def split: prod.splits)
qed

subsection \<open>Dumps determine their records\<close>

text \<open>
  A record as the BPF programs hand it over: the padding is clear, and the name of the disk ends inside its array,
  has neither a comma nor a newline, and is followed by zeros.
\<close>

definition name_ok :: "u8 list \<Rightarrow> bool" where
  "name_ok bs \<longleftrightarrow> length bs = NTP_DISK_NAME_LEN \<and> 0 \<in> set bs \<and> list_all (\<lambda>b. b = 0) (dropWhile (\<lambda>b. b \<noteq> 0) bs) \<and> plain_value (cstr bs)"

fun clean :: "ntp_rec \<Rightarrow> bool" where
  "clean (Host_rec h) \<longleftrightarrow> hdr_kind (h_hdr h) = NTP_REC_HOST \<and> id_pad (h_id h) = 0 \<and> h_pad h = 0 \<and> h_pad2 h = 0 \<and> name_ok (h_disk h)"
| "clean (Tgt_rec t) \<longleftrightarrow> hdr_kind (t_hdr t) = NTP_REC_TARGET \<and> id_pad (t_id t) = 0 \<and> t_pad2 t = 0"

fun rec_values :: "ntp_rec \<Rightarrow> string list" where
  "rec_values (Host_rec h) = host_values h" | "rec_values (Tgt_rec t) = tgt_values t"

fun dump_rec :: "ntp_rec \<Rightarrow> string" where
  "dump_rec (Host_rec h) = dump_host h" | "dump_rec (Tgt_rec t) = dump_target t"

lemma dump_rec_csv: "dump_rec x = csv (rec_values x) @ [CHR 0x0A]"
  by (cases x) (simp_all add: host_row tgt_row)

lemma length_time_values: "length (time_values ts) = Suc (length ts)"
  by (simp add: time_values_def dump_ts_def Let_def)

lemma length_events: "length (enum_class.enum :: ntp_host_ts list) = 16" "length (enum_class.enum :: ntp_tgt_ts list) = 16"
  by (simp_all add: enum_ntp_host_ts_def enum_ntp_tgt_ts_def)

lemma rec_values_length: "length (rec_values x) = 35"
  by (cases x) (simp_all add: host_values_def tgt_values_def id_values_def length_time_values length_events)

lemma rec_values_plain: "clean x \<Longrightarrow> list_all plain_value (rec_values x)"
  by (cases x) (simp_all add: host_values_def tgt_values_def id_values_def plain_times name_ok_def)

lemma cstr_inject:
  assumes "name_ok bs" and "name_ok bs'" and "cstr bs = cstr bs'"
  shows "bs = bs'"
proof -
  let ?P = "\<lambda>b :: u8. b \<noteq> 0"
  have "inj (\<lambda>b :: u8. char_of (unat b))"
  proof (rule injI)
    fix a b :: u8 assume "(char_of (unat a) :: char) = char_of (unat b)"
    then have "unat a mod 256 = unat b mod 256" by (metis of_char_of)
    moreover have "unat a < 256" "unat b < 256" using unsigned_less [of a] unsigned_less [of b] by simp_all
    ultimately show "a = b" by (simp add: unat_inject)
  qed
  then have t: "takeWhile ?P bs = takeWhile ?P bs'" using assms(3) by (simp add: cstr_def inj_map_eq_map)
  have zeros: "dropWhile ?P xs = replicate (NTP_DISK_NAME_LEN - length (takeWhile ?P xs)) 0" if "name_ok xs" for xs
  proof -
    have "length (takeWhile ?P xs) + length (dropWhile ?P xs) = NTP_DISK_NAME_LEN"
      using that by (metis length_append name_ok_def takeWhile_dropWhile_id)
    moreover have "\<forall>b \<in> set (dropWhile ?P xs). b = 0" using that unfolding name_ok_def list_all_iff by blast
    ultimately show ?thesis by (intro replicate_eqI) (simp_all only: diff_add_inverse [symmetric])
  qed
  show ?thesis using t zeros [OF assms(1)] zeros [OF assms(2)] by (metis takeWhile_dropWhile_id)
qed

text \<open>The words that a row shows, from equal rows.\<close>

lemma id_values_inject:
  assumes "id_values h i = id_values h' i'" and "hdr_kind h = hdr_kind h'" and "id_pad i = id_pad i'"
  shows "h = h' \<and> i = i'"
  using assms by (simp add: id_values_def unat_inject)

lemma rec_values_inject:
  assumes "clean x" and "clean y" and "rec_values x = rec_values y"
  shows "x = y"
proof (cases x; cases y)
  fix h h' assume xy: "x = Host_rec h" "y = Host_rec h'"
  have ts: "length (time_values (map (h_ts h) enum_class.enum)) = length (time_values (map (h_ts h') enum_class.enum))"
    by (simp add: length_time_values)
  have v: "id_values (h_hdr h) (h_id h) = id_values (h_hdr h') (h_id h')"
    "time_values (map (h_ts h) enum_class.enum) = time_values (map (h_ts h') enum_class.enum)" "cstr (h_disk h) = cstr (h_disk h')"
    "h_bytes h = h_bytes h'" "h_ctrl_instance h = h_ctrl_instance h'" "h_q_unsent h = h_q_unsent h'" "h_q_inflight h = h_q_inflight h'"
    "h_c2h_busy_ns h = h_c2h_busy_ns h'" "h_c2h_skbs h = h_c2h_skbs h'"
    using assms(3) ts by (simp_all add: xy host_values_def id_values_def unat_inject)
  have "h_ts h e = h_ts h' e" for e using time_values_inject [OF _ v(2)] by (simp add: enum_UNIV)
  then have "h_ts h = h_ts h'" by blast
  then show ?thesis using v id_values_inject [OF v(1)] cstr_inject [OF _ _ v(3)] assms(1,2) by (simp add: xy)
next
  fix t t' assume xy: "x = Tgt_rec t" "y = Tgt_rec t'"
  have ts: "length (time_values (map (t_ts t) enum_class.enum)) = length (time_values (map (t_ts t') enum_class.enum))"
    by (simp add: length_time_values)
  have v: "id_values (t_hdr t) (t_id t) = id_values (t_hdr t') (t_id t')"
    "time_values (map (t_ts t) enum_class.enum) = time_values (map (t_ts t') enum_class.enum)"
    "t_bytes t = t_bytes t'" "t_q_outstanding t = t_q_outstanding t'" "t_q_resp_queue t = t_q_resp_queue t'"
    "t_h2c_busy_ns t = t_h2c_busy_ns t'" "t_h2c_skbs t = t_h2c_skbs t'"
    using assms(3) ts by (simp_all add: xy tgt_values_def id_values_def unat_inject)
  have "t_ts t e = t_ts t' e" for e using time_values_inject [OF _ v(2)] by (simp add: enum_UNIV)
  then have "t_ts t = t_ts t'" by blast
  then show ?thesis using v id_values_inject [OF v(1)] assms(1,2) by (simp add: xy)
next
  fix h t assume "x = Host_rec h" "y = Tgt_rec t"
  then show ?thesis using assms(3) by (simp add: host_values_def tgt_values_def)
next
  fix h t assume "x = Tgt_rec t" "y = Host_rec h"
  then show ?thesis using assms(3) by (simp add: host_values_def tgt_values_def)
qed

lemma dump_recs_inject:
  assumes "list_all clean xs" and "list_all clean ys" and "concat (map dump_rec xs) = concat (map dump_rec ys)"
  shows "xs = ys"
  using assms
proof (induction xs arbitrary: ys)
  case Nil
  then show ?case by (cases ys) (simp_all add: dump_rec_csv)
next
  case (Cons x xs)
  then obtain y ys' where ys: "ys = y # ys'" by (cases ys) (simp_all add: dump_rec_csv)
  have "rec_values x \<noteq> []" using rec_values_length [of x] by auto
  moreover have "csv (rec_values x) @ CHR 0x0A # concat (map dump_rec xs) = csv (rec_values y) @ CHR 0x0A # concat (map dump_rec ys')"
    using Cons.prems(3) dump_rec_csv [of x] dump_rec_csv [of y] by (simp add: ys)
  ultimately have "rec_values x = rec_values y \<and> concat (map dump_rec xs) = concat (map dump_rec ys')"
    using csv_inject [of "rec_values x" "rec_values y"] Cons.prems rec_values_plain rec_values_length by (simp add: ys)
  then show ?case using Cons rec_values_inject by (auto simp: ys)
qed

subsection \<open>What the command prints\<close>

interpretation dump_sink: reader_sink dump_ops "\<lambda>x out. out @ dump_rec x"
  by unfold_locales (simp_all add: dump_ops_def)

lemma fold_dump: "fold (\<lambda>x out. out @ dump_rec x) rs out = out @ concat (map dump_rec rs)"
  by (induction rs arbitrary: out) simp_all

lemma dump_files_recorded:
  "list_all2 (\<lambda>p. recorded (fs p)) files rss \<Longrightarrow>
    dump_files fs files out = (EXIT_SUCCESS, out @ concat (map dump_rec (concat (map snd rss))))"
proof (induction files rss arbitrary: out rule: list_all2_induct)
  case (Cons p ps r rs)
  obtain f recs where r: "r = (f, recs)" by fastforce
  have "ntp_read_file (fs p) dump_ops out = (Finished, out @ concat (map dump_rec recs))"
    using dump_sink.reads_fold [of "fs p" f recs out] Cons.hyps(1) by (simp add: r fold_dump)
  then show ?case using Cons.IH by (simp add: r read_ret_def)
qed simp

lemma cmd_dump_recorded:
  assumes "list_all2 (\<lambda>p. recorded (fs p)) files rss" and "files \<noteq> []"
  shows "cmd_dump fs files = (EXIT_SUCCESS, dump_header @ concat (map dump_rec (concat (map snd rss))))"
  using dump_files_recorded [OF assms(1)] assms(2) by (simp add: cmd_dump_def)

text \<open>
  \<^bold>\<open>C16.\<close> Dumping loses nothing. The text that \<^verbatim>\<open>dump\<close> prints for the files of a run is the header followed by one
  row for each record, in order, and two runs whose dumps are the same text have the same records, field for field,
  when their records are as the programs hand them over.
\<close>

theorem dump_lossless:
  assumes "list_all2 (\<lambda>p. recorded (fs p)) files rss" and "files \<noteq> []"
    and "list_all2 (\<lambda>p. recorded (fs p)) files' rss'" and "files' \<noteq> []"
    and "list_all clean (concat (map snd rss))" and "list_all clean (concat (map snd rss'))"
  shows "cmd_dump fs files = (EXIT_SUCCESS, dump_header @ concat (map dump_rec (concat (map snd rss)))) \<and>
    (snd (cmd_dump fs files) = snd (cmd_dump fs files') \<longrightarrow> concat (map snd rss) = concat (map snd rss'))"
  using cmd_dump_recorded [OF assms(1,2)] cmd_dump_recorded [OF assms(3,4)] dump_recs_inject [OF assms(5,6)] by simp

lemma ex_clean: "list_all clean [Host_rec ex_host, Tgt_rec ex_tgt]"
  by code_simp

theorem dump_lossless_witness:
  "cmd_dump ex_fs [''t'', ''h''] = (EXIT_SUCCESS, dump_header @ dump_target ex_tgt @ dump_host ex_host)"
proof -
  let ?rss = "[(ex_tgt_hdr, [Tgt_rec ex_tgt]), (ex_host_hdr, [Host_rec ex_host])]"
  have "list_all clean (concat (map snd ?rss))" using ex_clean by simp
  then show ?thesis using dump_lossless [OF ex_run_recorded(1) _ ex_run_recorded(1)] by simp
qed

end
