(* ===== verification/Command_Line.thy ===== *)
theory Command_Line
  imports Offline
begin

text \<open>
  The command line (\<^verbatim>\<open>src/src/main.c\<close>). The options are read twice with \<^verbatim>\<open>getopt_long\<close>: first for the task
  specification and the verbosity, then for everything else, over the specification. \<^verbatim>\<open>getopt_long\<close> is modelled as
  the C library has it without \<^verbatim>\<open>POSIXLY_CORRECT\<close>: options and operands may be mixed, a long name may be shortened
  as long as it stays unambiguous, \<^verbatim>\<open>--\<close> ends the options, and the vector is permuted so that the operands come last.
\<close>

subsection \<open>Options\<close>

text \<open>\<open>Opt\<close>: an option with a letter; \<open>Unknown\<close> is what \<^verbatim>\<open>getopt_long\<close> returns as \<^verbatim>\<open>'?'\<close>.\<close>

datatype opt = Opt char | OPT_SESSION | OPT_IO_TYPE | OPT_SIZE | OPT_AGGR | OPT_OFFLINE | OPT_BTF | OPT_EXACT_QUEUES
  | OPT_KPROBES | OPT_FENTRY | OPT_SPDK_HOST | OPT_SPDK_TARGET | OPT_DETAIL | OPT_ALL_GROUPS | Unknown

definition long_opts :: "(string \<times> bool \<times> opt) list" where
  "long_opts =
    [(''config'', True, Opt (CHR ''c'')), (''role'', True, Opt (CHR ''r'')), (''transport'', True, Opt (CHR ''t'')),
     (''duration'', True, Opt (CHR ''d'')), (''interval'', True, Opt (CHR ''i'')), (''sample'', True, Opt (CHR ''s'')),
     (''output'', True, Opt (CHR ''o'')), (''json'', True, Opt (CHR ''j'')), (''session'', True, OPT_SESSION),
     (''io-type'', True, OPT_IO_TYPE), (''size'', True, OPT_SIZE), (''aggregation'', True, OPT_AGGR),
     (''offline'', False, OPT_OFFLINE), (''btf'', True, OPT_BTF), (''exact-queues'', False, OPT_EXACT_QUEUES),
     (''kprobes'', False, OPT_KPROBES), (''fentry'', False, OPT_FENTRY), (''spdk-host'', True, OPT_SPDK_HOST),
     (''spdk-target'', True, OPT_SPDK_TARGET), (''detail'', False, OPT_DETAIL), (''all-groups'', False, OPT_ALL_GROUPS),
     (''verbose'', False, Opt (CHR ''v'')), (''version'', False, Opt (CHR ''V'')), (''help'', False, Opt (CHR ''h''))]"

definition short_opts :: string where "short_opts = ''c:r:t:d:i:s:o:j:vVh''"

text \<open>An option with its argument; what \<^verbatim>\<open>getopt_long\<close> takes from the vector after an option, \<open>None\<close> where it reports an error.\<close>

type_synonym event = "opt \<times> string option"

text \<open>Whether a letter is an option, and whether it takes an argument.\<close>

fun letter_in :: "string \<Rightarrow> char \<Rightarrow> bool option" where
  "letter_in [] c = None"
| "letter_in (x # xs) c = (if x = c \<and> c \<noteq> CHR '':'' then Some (xs \<noteq> [] \<and> hd xs = CHR '':'') else letter_in xs c)"

definition take_arg :: "opt \<Rightarrow> string list \<Rightarrow> event list \<times> string list option" where
  "take_arg o' rest = (case rest of [] \<Rightarrow> ([(Unknown, None)], None) | a # rest \<Rightarrow> ([(o', Some a)], Some rest))"

fun short_scan :: "string \<Rightarrow> string list \<Rightarrow> event list \<times> string list option" where
  "short_scan [] rest = ([], Some rest)"
| "short_scan (c # cs) rest =
    (case letter_in short_opts c of
       None \<Rightarrow> ([(Unknown, None)], None)
     | Some False \<Rightarrow> let (ev, r) = short_scan cs rest in ((Opt c, None) # ev, r)
     | Some True \<Rightarrow> if cs \<noteq> [] then ([(Opt c, Some cs)], Some rest) else take_arg (Opt c) rest)"

definition long_find :: "string \<Rightarrow> (bool \<times> opt) option" where
  "long_find name =
    (case map_of long_opts name of
       Some o' \<Rightarrow> Some o'
     | None \<Rightarrow> (case filter (\<lambda>(n, _). take (length name) n = name) long_opts of [(_, o')] \<Rightarrow> Some o' | _ \<Rightarrow> None))"

definition long_scan :: "string \<Rightarrow> string list \<Rightarrow> event list \<times> string list option" where
  "long_scan s rest =
    (let name = takeWhile (\<lambda>c. c \<noteq> CHR ''='') s; val = dropWhile (\<lambda>c. c \<noteq> CHR ''='') s
     in case long_find name of
          None \<Rightarrow> ([(Unknown, None)], None)
        | Some (arg, o') \<Rightarrow>
            if val \<noteq> [] then if arg then ([(o', Some (tl val))], Some rest) else ([(Unknown, None)], None)
            else if arg then take_arg o' rest else ([(o', None)], Some rest))"

definition is_option :: "string \<Rightarrow> bool" where
  "is_option a \<longleftrightarrow> 2 \<le> length a \<and> hd a = CHR ''-''"

definition opt_scan :: "string \<Rightarrow> string list \<Rightarrow> event list \<times> string list option" where
  "opt_scan a rest = (if a ! 1 = CHR ''-'' then long_scan (drop 2 a) rest else short_scan (tl a) rest)"

lemma take_arg_rest: "take_arg o' rest = (ev, Some r) \<Longrightarrow> \<exists>u. rest = u @ r"
  by (auto simp: take_arg_def split: list.splits)

lemma short_scan_rest: "short_scan s rest = (ev, Some r) \<Longrightarrow> \<exists>u. rest = u @ r"
  by (induction s rest arbitrary: ev rule: short_scan.induct)
    (auto simp: Let_def dest!: take_arg_rest split: option.splits bool.splits if_splits prod.splits)

lemma opt_scan_rest: "opt_scan a rest = (ev, Some r) \<Longrightarrow> \<exists>u. rest = u @ r"
  by (auto simp: opt_scan_def long_scan_def Let_def dest!: short_scan_rest take_arg_rest split: option.splits if_splits prod.splits)

text \<open>All of a vector: the options, the words they take up, and the operands. An error ends it.\<close>

function getopt :: "string list \<Rightarrow> event list \<times> string list \<times> string list" where
  "getopt [] = ([], [], [])"
| "getopt (a # as) =
    (if a = ''--'' then ([], [a], as)
     else if is_option a
     then (case opt_scan a as of
             (ev, None) \<Rightarrow> (ev, a # as, [])
           | (ev, Some rest) \<Rightarrow>
               let (ev', opts, operands) = getopt rest
               in (ev @ ev', a # take (length as - length rest) as @ opts, operands))
     else let (ev, opts, operands) = getopt as in (ev, opts, a # operands))"
  by pat_completeness auto
termination
  by (relation "measure length") (auto dest!: opt_scan_rest [OF sym])

declare getopt.simps(2) [simp del]

subsection \<open>Applying the options\<close>

definition parse_uint :: "string \<Rightarrow> u32 \<Rightarrow> u32 option" where
  "parse_uint v lo =
    (let (x, rest, _) = strtoull v
     in if v = [] \<or> rest \<noteq> [] \<or> x < ucast lo \<or> x > 0xffffffff then None else Some (ucast x))"

definition apply_option :: "ntp_config \<Rightarrow> opt \<Rightarrow> string \<Rightarrow> int \<times> ntp_config" where
  "apply_option c o' v =
    (case o' of
       Opt ch \<Rightarrow>
         if ch = CHR ''r''
         then if v = ''host'' then (0, c\<lparr>cf_role := NTP_ROLE_HOST\<rparr>)
              else if v = ''target'' then (0, c\<lparr>cf_role := NTP_ROLE_TARGET\<rparr>)
              else if v = ''both'' then (0, c\<lparr>cf_role := NTP_ROLE_BOTH\<rparr>) else (-1, c)
         else if ch = CHR ''t''
         then if v = ''tcp'' then (0, c\<lparr>cf_transport := NTP_TR_TCP\<rparr>)
              else if v = ''rdma'' then (0, c\<lparr>cf_transport := NTP_TR_RDMA\<rparr>) else (-1, c)
         else if ch = CHR ''d'' then store (\<lambda>x c. c\<lparr>cf_duration_s := x\<rparr>) c (parse_uint v 1)
         else if ch = CHR ''i'' then store (\<lambda>x c. c\<lparr>cf_interval_s := x\<rparr>) c (parse_uint v 1)
         else if ch = CHR ''s'' then store (\<lambda>x c. c\<lparr>cf_sample_every := x\<rparr>) c (parse_uint v 1)
         else if ch = CHR ''o'' then (0, c\<lparr>cf_output := snprintf_s 256 v\<rparr>)
         else if ch = CHR ''j'' then (0, c\<lparr>cf_json := snprintf_s 256 v\<rparr>)
         else (-1, c)
     | OPT_SESSION \<Rightarrow> (0, c\<lparr>cf_session := snprintf_s 64 v\<rparr>)
     | OPT_IO_TYPE \<Rightarrow> config_set_io_type c v
     | OPT_SIZE \<Rightarrow> config_set_sizes c v
     | OPT_AGGR \<Rightarrow> config_set_aggr c v
     | OPT_OFFLINE \<Rightarrow> (0, c\<lparr>cf_online := False\<rparr>)
     | OPT_BTF \<Rightarrow> (0, c\<lparr>cf_btf_dir := snprintf_s 256 v\<rparr>)
     | OPT_EXACT_QUEUES \<Rightarrow> (0, c\<lparr>cf_exact_queues := True\<rparr>)
     | OPT_KPROBES \<Rightarrow> (0, c\<lparr>cf_force_kprobes := True\<rparr>)
     | OPT_FENTRY \<Rightarrow> (0, c\<lparr>cf_force_fentry := True\<rparr>)
     | OPT_SPDK_HOST \<Rightarrow> (0, c\<lparr>cf_spdk_host := snprintf_s 512 v\<rparr>)
     | OPT_SPDK_TARGET \<Rightarrow> (0, c\<lparr>cf_spdk_target := snprintf_s 512 v\<rparr>)
     | OPT_DETAIL \<Rightarrow> (0, c\<lparr>cf_rep_detail := True\<rparr>)
     | OPT_ALL_GROUPS \<Rightarrow> (0, c\<lparr>cf_rep_all_groups := True\<rparr>)
     | Unknown \<Rightarrow> (-1, c))"

subsection \<open>The program\<close>

text \<open>What it does: print, fail, or call a command.\<close>

datatype outcome = Usage int | Version | Failure | Record ntp_config | Report ntp_config "string list"
  | Compare ntp_config string string | Probe ntp_config | Dump "string list"

text \<open>The first pass: the name of the task specification and the verbosity, unless an option ends the program.\<close>

fun first_pass :: "event list \<Rightarrow> string option \<Rightarrow> nat \<Rightarrow> outcome + string option \<times> nat" where
  "first_pass [] ini verbose = Inr (ini, verbose)"
| "first_pass ((o', v) # ev) ini verbose =
    (if o' = Opt (CHR ''c'') then first_pass ev v verbose
     else if o' = Opt (CHR ''v'') then first_pass ev ini (Suc verbose)
     else if o' = Opt (CHR ''h'') then Inl (Usage EXIT_SUCCESS)
     else if o' = Opt (CHR ''V'') then Inl Version
     else if o' = Unknown then Inl (Usage EXIT_FAILURE)
     else first_pass ev ini verbose)"

text \<open>The second pass. Options without an argument do not read it.\<close>

fun apply_options :: "ntp_config \<Rightarrow> event list \<Rightarrow> ntp_config option" where
  "apply_options c [] = Some c"
| "apply_options c ((o', v) # ev) =
    (if o' = Opt (CHR ''c'') \<or> o' = Opt (CHR ''v'') \<or> o' = Opt (CHR ''V'') then apply_options c ev
     else case apply_option c o' (case v of Some v \<Rightarrow> v | None \<Rightarrow> []) of
       (ret, c) \<Rightarrow> if ret \<noteq> 0 then None else apply_options c ev)"

definition dispatch :: "string \<Rightarrow> ntp_config \<Rightarrow> string list \<Rightarrow> outcome" where
  "dispatch cmd c operands =
    (if cmd = ''record'' then if operands \<noteq> [] then Failure else Record c
     else if cmd = ''report'' then Report c operands
     else if cmd = ''compare'' then if length operands \<noteq> 2 then Failure else Compare c (operands ! 0) (operands ! 1)
     else if cmd = ''probe'' then Probe c
     else if cmd = ''dump'' then Dump operands
     else Failure)"

text \<open>\<open>args\<close>: the arguments after the name of the program; \<open>fs\<close>: the text of a file.\<close>

definition main :: "(string \<Rightarrow> string option) \<Rightarrow> string list \<Rightarrow> outcome" where
  "main fs args =
    (case args of
       [] \<Rightarrow> Usage EXIT_FAILURE
     | cmd # argv \<Rightarrow>
         if cmd = ''-h'' \<or> cmd = ''--help'' then Usage EXIT_SUCCESS
         else if cmd = ''version'' \<or> cmd = ''-V'' \<or> cmd = ''--version'' then Version
         else
           let (ev, opts, operands) = getopt argv
           in case first_pass ev None 0 of
                Inl out \<Rightarrow> out
              | Inr (ini, verbose) \<Rightarrow>
                  let (err, c) = (case ini of None \<Rightarrow> (None, config_defaults) | Some f \<Rightarrow> config_load_ini config_defaults (fs f));
                      (ev, _, operands) = getopt (opts @ operands)
                  in if err \<noteq> None then Failure
                     else case apply_options c ev of None \<Rightarrow> Failure | Some c \<Rightarrow> dispatch cmd c operands)"

subsection \<open>The second scan\<close>

text \<open>An option takes the same words whatever follows them.\<close>

lemma take_arg_frame: "take_arg o' (u @ r) = (ev, Some r) \<Longrightarrow> take_arg o' (u @ r') = (ev, Some r')"
  by (cases u) (auto simp: take_arg_def split: list.splits)

lemma short_scan_frame: "short_scan s (u @ r) = (ev, Some r) \<Longrightarrow> short_scan s (u @ r') = (ev, Some r')"
proof (induction s arbitrary: ev)
  case (Cons c s)
  then show ?case
    by (auto simp: Let_def dest!: take_arg_frame [where r' = r'] split: option.splits bool.splits if_splits prod.splits)
qed simp

lemma opt_scan_frame: "opt_scan a (u @ r) = (ev, Some r) \<Longrightarrow> opt_scan a (u @ r') = (ev, Some r')"
  by (auto simp: opt_scan_def long_scan_def Let_def dest: short_scan_frame take_arg_frame split: option.splits if_splits prod.splits)

text \<open>A scan that fails reports it.\<close>

lemma opt_scan_None: "opt_scan a rest = (ev, None) \<Longrightarrow> Unknown \<in> fst ` set ev"
proof -
  have t: "take_arg o' rest = (ev, None) \<Longrightarrow> Unknown \<in> fst ` set ev" for o' ev
    by (auto simp: take_arg_def split: list.splits)
  have "short_scan s rest = (ev, None) \<Longrightarrow> Unknown \<in> fst ` set ev" for s ev
    by (induction s arbitrary: ev) (auto simp: Let_def dest!: t split: option.splits bool.splits if_splits prod.splits)
  then show "opt_scan a rest = (ev, None) \<Longrightarrow> Unknown \<in> fst ` set ev"
    by (auto simp: opt_scan_def long_scan_def Let_def dest!: t split: option.splits if_splits prod.splits)
qed

lemma getopt_operands: "list_all (\<lambda>z. \<not> is_option z) zs \<Longrightarrow> getopt zs = ([], [], zs)"
  by (induction zs) (auto simp: getopt.simps is_option_def)

text \<open>The vector that the first scan leaves, with further operands between, gives the same options again.\<close>

lemma getopt_rescan:
  assumes "getopt xs = (ev, opts, ops)" and "Unknown \<notin> fst ` set ev" and "list_all (\<lambda>z. \<not> is_option z) zs"
  shows "getopt (opts @ zs @ ops) = (ev, opts, zs @ ops)"
  using assms
proof (induction xs arbitrary: ev opts ops zs rule: getopt.induct)
  case 1
  then show ?case by (simp add: getopt_operands)
next
  case (2 a as)
  consider (dashes) "a = ''--''" | (operand) "\<not> is_option a" "a \<noteq> ''--''" | (opt) "is_option a" "a \<noteq> ''--''" by blast
  then show ?case
  proof cases
    case dashes
    then show ?thesis using 2(3) by (auto simp: getopt.simps)
  next
    case operand
    obtain ev' opts' ops' where g: "getopt as = (ev', opts', ops')" by (metis prod_cases3)
    then have "ev = ev'" "opts = opts'" "ops = a # ops'" using 2(3) operand by (auto simp: getopt.simps)
    then show ?thesis using 2(2) [OF operand(2,1) g, of "zs @ [a]"] 2(4,5) operand by simp
  next
    case opt
    obtain ev1 r where s: "opt_scan a as = (ev1, r)" by fastforce
    have "r \<noteq> None" using opt_scan_None [of a as ev1] s 2(3,4) opt by (cases r) (auto simp: getopt.simps)
    then obtain rest where r: "r = Some rest" by blast
    obtain ev' opts' ops' where g: "getopt rest = (ev', opts', ops')" by (metis prod_cases3)
    obtain u where u: "as = u @ rest" using opt_scan_rest s r by blast
    have e: "ev = ev1 @ ev'" "opts = a # u @ opts'" "ops = ops'" using 2(3) opt s r g u by (auto simp: getopt.simps)
    have "getopt (opts' @ zs @ ops') = (ev', opts', zs @ ops')"
      using 2(1) [OF opt(2,1) s [symmetric] r g] 2(4,5) e by auto
    moreover have "opt_scan a (u @ opts' @ zs @ ops') = (ev1, Some (opts' @ zs @ ops'))"
      using opt_scan_frame s r u by blast
    ultimately show ?thesis using opt e by (simp add: getopt.simps)
  qed
qed

lemma first_pass_known: "first_pass ev ini verbose = Inr x \<Longrightarrow> Unknown \<notin> fst ` set ev"
  by (induction ev ini verbose rule: first_pass.induct) (auto split: if_splits)

text \<open>The argument of the last option of a kind.\<close>

definition last_arg :: "opt \<Rightarrow> event list \<Rightarrow> string option" where
  "last_arg o' ev = foldl (\<lambda>r (p, v). if p = o' then v else r) None ev"

lemma first_pass_ini:
  "first_pass ev ini verbose = Inr (ini', verbose') \<Longrightarrow>
    ini' = foldl (\<lambda>r (p, v). if p = Opt (CHR ''c'') then v else r) ini ev"
  by (induction ev ini verbose rule: first_pass.induct) (auto split: if_splits)

text \<open>How a command is reached: from the task specification, if one is given, and the options over it.\<close>

lemma first_pass_out: "first_pass ev ini verbose = Inl out \<Longrightarrow> out = Version \<or> (\<exists>r. out = Usage r)"
  by (induction ev ini verbose rule: first_pass.induct) (auto split: if_splits)

lemma main_steps:
  assumes m: "main fs (cmd # argv) = out" and g: "getopt argv = (ev, opts, operands)"
    and out: "out \<noteq> Failure" "out \<noteq> Version" "\<And>r. out \<noteq> Usage r"
  obtains c0 c where "case last_arg (Opt (CHR ''c'')) ev of None \<Rightarrow> c0 = config_defaults
      | Some f \<Rightarrow> config_load_ini config_defaults (fs f) = (None, c0)"
    and "apply_options c0 ev = Some c" and "out = dispatch cmd c operands"
proof -
  have cmd: "cmd \<notin> {''-h'', ''--help'', ''version'', ''-V'', ''--version''}" using m out(1,2) out(3) [of EXIT_SUCCESS] by (auto simp: main_def)
  obtain ini verbose where p: "first_pass ev None 0 = Inr (ini, verbose)"
    using m g out cmd first_pass_out [of ev None 0 out] by (cases "first_pass ev None 0") (auto simp: main_def)
  have again: "getopt (opts @ operands) = (ev, opts, operands)"
    using getopt_rescan [OF g first_pass_known [OF p], of "[]"] by simp
  obtain err c0 where i: "(case ini of None \<Rightarrow> (None, config_defaults) | Some f \<Rightarrow> config_load_ini config_defaults (fs f)) = (err, c0)"
    by fastforce
  have "main fs (cmd # argv) =
      (if err \<noteq> None then Failure else case apply_options c0 ev of None \<Rightarrow> Failure | Some c \<Rightarrow> dispatch cmd c operands)"
    using cmd by (simp add: main_def g p again i)
  then obtain c where "err = None" "apply_options c0 ev = Some c" "out = dispatch cmd c operands"
    using m out(1) by (auto split: if_splits option.splits)
  moreover have "ini = last_arg (Opt (CHR ''c'')) ev" using first_pass_ini [OF p] by (simp add: last_arg_def)
  ultimately show ?thesis using that [of c0 c] i by (auto split: option.splits)
qed

subsection \<open>Settings\<close>

text \<open>What the commands rely on: the invariant of a configuration, a transport that has objects, and strings inside their buffers.\<close>

definition settings_ok :: "ntp_config \<Rightarrow> bool" where
  "settings_ok c \<longleftrightarrow> config_ok c \<and> cf_transport c \<in> {NTP_TR_TCP, NTP_TR_RDMA} \<and>
     length (cf_output c) < 256 \<and> length (cf_json c) < 256 \<and> length (cf_btf_dir c) < 256"

text \<open>The keys of a task specification leave the settings that only options make.\<close>

definition option_only :: "ntp_config \<Rightarrow> ntp_role \<times> u8 \<times> u32 \<times> string \<times> string \<times> string \<times> bool \<times> bool" where
  "option_only c = (cf_role c, cf_transport c, cf_duration_s c, cf_output c, cf_json c, cf_btf_dir c, cf_force_kprobes c, cf_force_fentry c)"

lemma option_only_updates:
  "option_only (c\<lparr>cf_session := s\<rparr>) = option_only c" "option_only (c\<lparr>cf_data_dir := s\<rparr>) = option_only c"
  "option_only (c\<lparr>cf_spdk_host := s\<rparr>) = option_only c" "option_only (c\<lparr>cf_spdk_target := s\<rparr>) = option_only c"
  "option_only (c\<lparr>cf_min_size := x\<rparr>) = option_only c" "option_only (c\<lparr>cf_max_size := x\<rparr>) = option_only c"
  "option_only (c\<lparr>cf_online := b\<rparr>) = option_only c" "option_only (c\<lparr>cf_exact_queues := b\<rparr>) = option_only c"
  "option_only (c\<lparr>cf_rep_distribution := b\<rparr>) = option_only c" "option_only (c\<lparr>cf_rep_throughput := b\<rparr>) = option_only c"
  "option_only (c\<lparr>cf_rep_breakdown := b\<rparr>) = option_only c" "option_only (c\<lparr>cf_rep_queue_length := b\<rparr>) = option_only c"
  "option_only (c\<lparr>cf_rep_detail := b\<rparr>) = option_only c" "option_only (c\<lparr>cf_rep_all_groups := b\<rparr>) = option_only c"
  "option_only (c\<lparr>cf_group_by_size := b\<rparr>) = option_only c" "option_only (c\<lparr>cf_group_by_type := b\<rparr>) = option_only c"
  "option_only (c\<lparr>cf_group_by_session := b\<rparr>) = option_only c" "option_only (c\<lparr>cf_interval_s := n\<rparr>) = option_only c"
  "option_only (c\<lparr>cf_sample_every := n\<rparr>) = option_only c" "option_only (c\<lparr>cf_buffer_mb := n\<rparr>) = option_only c"
  by (simp_all add: option_only_def)

lemma store_option_only: "(\<And>y. option_only (upd y c) = option_only c) \<Longrightarrow> option_only (snd (store upd c x)) = option_only c"
  by (simp add: store_def split: option.split)

lemma apply_key_option_only: "option_only (snd (apply_key c s k v)) = option_only c"
proof -
  have set: "option_only (snd (config_set_io_type c v)) = option_only c" "option_only (snd (config_set_aggr c v)) = option_only c"
    "option_only (snd (config_set_sizes c v)) = option_only c"
    by (simp_all add: option_only_def config_set_io_type_def config_set_aggr_def config_set_sizes_def Let_def split: prod.split)
  show ?thesis
    unfolding apply_key_def Let_def
    by (simp add: if_distrib [of snd] if_distrib [of option_only] set store_option_only option_only_updates)
qed

lemma config_load_ini_option_only: "option_only (snd (config_load_ini c f)) = option_only c"
  using ini_lines_keeps [of "\<lambda>c'. option_only c' = option_only c" c] apply_key_option_only
  by (simp add: config_load_ini_def split: option.split)

lemma config_load_ini_settings: "config_load_ini config_defaults f = (r, c) \<Longrightarrow> settings_ok c"
proof -
  assume l: "config_load_ini config_defaults f = (r, c)"
  have "option_only c = option_only config_defaults" using config_load_ini_option_only [of config_defaults f] l by simp
  moreover have "config_ok c"
    using l ini_lines_ok [OF config_ok_defaults] config_ok_defaults by (metis config_load_ini_def option.case snd_conv not_None_eq)
  ultimately show ?thesis by (auto simp: settings_ok_def option_only_def config_defaults_def)
qed

lemma parse_uint_set_uint: "parse_uint v 1 = Some x \<Longrightarrow> x \<noteq> 0"
proof -
  assume "parse_uint v 1 = Some x"
  then obtain y :: u64 where y: "y \<noteq> 0" "y \<le> 0xffffffff" "x = ucast y"
    by (auto simp: parse_uint_def Let_def not_less split: prod.splits if_splits)
  then show "x \<noteq> 0"
    using unat_ucast_down [OF y(2)] by (metis unsigned_0 unsigned_word_eqI)
qed

lemma apply_option_settings: "settings_ok c \<Longrightarrow> settings_ok (snd (apply_option c o' v))"
proof -
  assume ok: "settings_ok c"
  have "config_ok c" using ok by (simp add: settings_ok_def)
  then have sz: "config_ok (snd (config_set_sizes c v))" for v
    using config_set_sizes_ok [of c v] by (metis prod.collapse)
  have sizes: "settings_ok (snd (config_set_sizes c v))" for v
    using ok sz [of v] by (auto simp: settings_ok_def config_set_sizes_def Let_def split: prod.splits if_splits)
  have num: "settings_ok (snd (store (\<lambda>x c. c\<lparr>cf_duration_s := x\<rparr>) c (parse_uint v 1)))"
    "settings_ok (snd (store (\<lambda>x c. c\<lparr>cf_interval_s := x\<rparr>) c (parse_uint v 1)))"
    "settings_ok (snd (store (\<lambda>x c. c\<lparr>cf_sample_every := x\<rparr>) c (parse_uint v 1)))" for v
    using ok parse_uint_set_uint [of v] by (auto simp: store_def settings_ok_def config_ok_def split: option.split)
  have enums: "settings_ok (snd (config_set_io_type c v))" "settings_ok (snd (config_set_aggr c v))" for v
    using ok by (simp_all add: config_set_io_type_def config_set_aggr_def settings_ok_def config_ok_def)
  have others: "settings_ok (c\<lparr>cf_output := snprintf_s 256 v\<rparr>)" "settings_ok (c\<lparr>cf_json := snprintf_s 256 v\<rparr>)"
    "settings_ok (c\<lparr>cf_btf_dir := snprintf_s 256 v\<rparr>)" "settings_ok (c\<lparr>cf_session := snprintf_s 64 v\<rparr>)"
    "settings_ok (c\<lparr>cf_spdk_host := snprintf_s 512 v\<rparr>)" "settings_ok (c\<lparr>cf_spdk_target := snprintf_s 512 v\<rparr>)"
    "settings_ok (c\<lparr>cf_role := r\<rparr>)" "settings_ok (c\<lparr>cf_transport := NTP_TR_TCP\<rparr>)" "settings_ok (c\<lparr>cf_transport := NTP_TR_RDMA\<rparr>)"
    "settings_ok (c\<lparr>cf_online := b\<rparr>)" "settings_ok (c\<lparr>cf_exact_queues := b\<rparr>)" "settings_ok (c\<lparr>cf_force_kprobes := b\<rparr>)"
    "settings_ok (c\<lparr>cf_force_fentry := b\<rparr>)" "settings_ok (c\<lparr>cf_rep_detail := b\<rparr>)" "settings_ok (c\<lparr>cf_rep_all_groups := b\<rparr>)" for r b v
    using ok by (simp_all add: settings_ok_def config_ok_def length_snprintf_s)
  show ?thesis
    by (cases o') (simp_all add: apply_option_def if_distrib [of snd] if_distrib [of settings_ok] sizes num enums others ok)
qed

lemma apply_options_settings: "apply_options c ev = Some c' \<Longrightarrow> settings_ok c \<Longrightarrow> settings_ok c'"
proof (induction c ev rule: apply_options.induct)
  case (2 c o' v ev)
  show ?case
    using 2 apply_option_settings [of c o' "case v of Some v \<Rightarrow> v | None \<Rightarrow> []"]
    by (auto split: if_splits prod.splits)
qed simp

lemma main_settings:
  assumes "main fs args \<in> {Record c, Report c files, Compare c base loaded, Probe c}"
  shows "settings_ok c"
proof -
  obtain cmd argv where a: "args = cmd # argv" using assms by (cases args) (auto simp: main_def)
  obtain ev opts operands where g: "getopt argv = (ev, opts, operands)" by (metis prod_cases3)
  obtain c0 c1 where ini: "case last_arg (Opt (CHR ''c'')) ev of None \<Rightarrow> c0 = config_defaults
      | Some f \<Rightarrow> config_load_ini config_defaults (fs f) = (None, c0)"
    and c1: "apply_options c0 ev = Some c1" and out: "main fs (cmd # argv) = dispatch cmd c1 operands"
    by (rule main_steps [OF refl g, of fs cmd]) (use assms a in auto)
  have "settings_ok config_defaults"
    using config_ok_defaults by (simp add: settings_ok_def config_defaults_def)
  then have "settings_ok c0" using ini config_load_ini_settings by (auto split: option.splits)
  then have "settings_ok c1" using apply_options_settings [OF c1] by blast
  moreover have "c = c1" using out assms a by (auto simp: dispatch_def split: if_splits)
  ultimately show ?thesis by simp
qed

text \<open>
  \<^bold>\<open>C26.\<close> Whatever the arguments and the task specification, a command is only called with settings in which every
  number, name and list is what the command's code assumes: a non-zero period, interval and buffer, size filters inside
  their array and none 0, a transport that has BPF objects, and every string shorter than its buffer.
\<close>

theorem commands_get_settings:
  assumes "main fs args \<in> {Record c, Report c files, Compare c base loaded, Probe c}"
  shows "settings_ok c"
  using assms by (rule main_settings)

subsection \<open>Options over the task specification\<close>

definition flags :: "opt set" where
  "flags = {OPT_OFFLINE, OPT_EXACT_QUEUES, OPT_KPROBES, OPT_FENTRY, OPT_DETAIL, OPT_ALL_GROUPS, Opt (CHR ''v''), Opt (CHR ''V''),
     Opt (CHR ''h''), Unknown}"

definition args_given :: "event list \<Rightarrow> bool" where
  "args_given ev = list_all (\<lambda>(p, v). v = None \<longrightarrow> p \<in> flags) ev"

lemma letter_flag: "letter_in short_opts c = Some False \<Longrightarrow> Opt c \<in> flags"
  by (auto simp: short_opts_def flags_def split: if_splits)

lemma long_find_in: "long_find n = Some o' \<Longrightarrow> o' \<in> snd ` set long_opts"
proof (cases "map_of long_opts n")
  case None
  assume "long_find n = Some o'"
  with None obtain m where "filter (\<lambda>(m, _). take (length n) m = n) long_opts = [(m, o')]"
    by (auto simp: long_find_def split: list.splits)
  then have "(m, o') \<in> set (filter (\<lambda>(m, _). take (length n) m = n) long_opts)" by simp
  then show ?thesis by force
next
  case (Some p)
  assume "long_find n = Some o'"
  then show ?thesis using map_of_SomeD [OF Some] Some by (force simp: long_find_def)
qed

lemma long_flag: "long_find n = Some (False, o') \<Longrightarrow> o' \<in> flags"
  using long_find_in [of n "(False, o')"] by (auto simp: long_opts_def flags_def)

lemma opt_scan_args: "args_given (fst (opt_scan a rest))"
proof -
  have t: "args_given (fst (take_arg o' rest))" for o' by (auto simp: take_arg_def args_given_def flags_def split: list.split)
  have "args_given (fst (short_scan s rest))" for s
  proof (induction s)
    case (Cons c s)
    have "Unknown \<in> flags" by (simp add: flags_def)
    with Cons show ?case using t letter_flag [of c]
      by (auto simp: args_given_def Let_def split: option.split bool.split prod.split)
  qed (simp add: args_given_def)
  then show ?thesis using t long_flag
    by (auto simp: opt_scan_def long_scan_def Let_def split: option.split) (auto simp: args_given_def flags_def)
qed

lemma getopt_args: "args_given (fst (getopt xs))"
proof (induction xs rule: getopt.induct)
  case (2 a as)
  show ?case using 2 opt_scan_args [of a as]
    by (auto simp: getopt.simps args_given_def Let_def split: prod.split option.split)
qed (simp add: args_given_def)

lemma apply_options_append:
  "apply_options c (ev @ ev') = (case apply_options c ev of None \<Rightarrow> None | Some c \<Rightarrow> apply_options c ev')"
  by (induction c ev rule: apply_options.induct) (auto split: prod.split)

text \<open>
  A setting that one option makes has the value of the last such option, or keeps its value when there is none; a switch is on
  when it is given.
\<close>

definition opt_value :: "opt \<Rightarrow> event list \<Rightarrow> 'a \<Rightarrow> (string \<Rightarrow> 'a) \<Rightarrow> 'a" where
  "opt_value o' ev old g = (case last_arg o' ev of None \<Rightarrow> old | Some v \<Rightarrow> g v)"

definition switched :: "opt \<Rightarrow> event list \<Rightarrow> bool" where
  "switched o' ev \<longleftrightarrow> o' \<in> fst ` set ev"

text \<open>What one option of the second pass does to a setting is what the options do to it together.\<close>

lemma apply_options_step:
  assumes "apply_options c [(p, v)] = Some c'"
  shows "c' = c \<and> p \<in> {Opt (CHR ''c''), Opt (CHR ''v''), Opt (CHR ''V'')} \<or>
    apply_option c p (case v of Some v \<Rightarrow> v | None \<Rightarrow> []) = (0, c')"
  using assms by (auto split: if_splits prod.splits)

lemma options_fold:
  assumes "apply_options c ev = Some c'" and "settings_ok c" and "F [] = f c"
    and step: "\<And>ev p v c c'. F ev = f c \<Longrightarrow> settings_ok c \<Longrightarrow> (p, v) \<in> set all \<Longrightarrow> apply_options c [(p, v)] = Some c' \<Longrightarrow>
      F (ev @ [(p, v)]) = f c'"
    and sub: "set ev \<subseteq> set all"
  shows "f c' = F ev"
  using assms(1) sub
proof (induction ev arbitrary: c' rule: rev_induct)
  case (snoc e ev)
  obtain p v where e: "e = (p, v)" by fastforce
  obtain c1 where c1: "apply_options c ev = Some c1" "apply_options c1 [e] = Some c'"
    using snoc.prems(1) by (auto simp: apply_options_append split: option.splits)
  have "settings_ok c1" using apply_options_settings [OF c1(1) assms(2)] .
  moreover have "F ev = f c1" using snoc.IH [OF c1(1)] snoc.prems(2) by simp
  ultimately show ?case using step [of ev c1 p v c'] c1(2) snoc.prems(2) by (simp add: e)
qed (use assms(3) in simp)

lemma last_wins:
  fixes f :: "ntp_config \<Rightarrow> 'a"
  assumes "apply_options c ev = Some c'" and "settings_ok c" and "args_given ev" and o': "o' \<notin> flags" "o' \<noteq> Opt (CHR ''c'')"
    and own: "\<And>c v c'. settings_ok c \<Longrightarrow> apply_option c o' v = (0, c') \<Longrightarrow> f c' = g v"
    and other: "\<And>c p v. p \<noteq> o' \<Longrightarrow> f (snd (apply_option c p v)) = f c"
  shows "f c' = opt_value o' ev (f c) g"
proof (rule options_fold [OF assms(1,2), where all = ev])
  show "opt_value o' [] (f c) g = f c" by (simp add: opt_value_def last_arg_def)
next
  fix ev' p v c1 c2
  assume ih: "opt_value o' ev' (f c) g = f c1" and ok: "settings_ok c1" and e: "(p, v) \<in> set ev"
    and step: "apply_options c1 [(p, v)] = Some c2"
  show "opt_value o' (ev' @ [(p, v)]) (f c) g = f c2"
  proof (cases "p = o'")
    case True
    then obtain w where "v = Some w" using assms(3) e o'(1) by (auto simp: args_given_def list_all_iff)
    then show ?thesis
      using apply_options_step [OF step] True o' own [OF ok] by (auto simp: opt_value_def last_arg_def flags_def)
  next
    case False
    have "f c2 = f c1" using apply_options_step [OF step] other [OF False, of c1] by (metis snd_conv)
    then show ?thesis using ih False by (simp add: opt_value_def last_arg_def)
  qed
qed simp

lemma switch_on:
  fixes f :: "ntp_config \<Rightarrow> 'a"
  assumes "apply_options c ev = Some c'" and "settings_ok c" and "o' \<notin> {Opt (CHR ''c''), Opt (CHR ''v''), Opt (CHR ''V'')}"
    and own: "\<And>c v. f (snd (apply_option c o' v)) = x"
    and other: "\<And>c p v. p \<noteq> o' \<Longrightarrow> f (snd (apply_option c p v)) = f c"
  shows "f c' = (if switched o' ev then x else f c)"
proof (rule options_fold [OF assms(1,2), where all = ev])
  fix ev' p v c1 c2
  assume ih: "(if switched o' ev' then x else f c) = f c1" and step: "apply_options c1 [(p, v)] = Some c2"
  have "f c2 = (if p = o' then x else f c1)"
    using apply_options_step [OF step] other [of p c1] own [of c1] assms(3) by (metis insertCI snd_conv)
  then show "(if switched o' (ev' @ [(p, v)]) then x else f c) = f c2" using ih by (auto simp: switched_def)
qed (simp_all add: switched_def)

lemma never_set:
  assumes "apply_options c ev = Some c'" and "settings_ok c" and "\<And>c p v. f (snd (apply_option c p v)) = f c"
  shows "f c' = f c"
  by (rule options_fold [OF assms(1,2), of "\<lambda>_. f c" f, where all = ev])
    (use assms(3) apply_options_step in \<open>fastforce, metis snd_conv, simp\<close>)

text \<open>Each setting is made by one option only, and some by none.\<close>

lemma setter_results:
  "snd (config_set_io_type c v) = c\<lparr>cf_io_type := cf_io_type (snd (config_set_io_type c v))\<rparr>"
  "snd (config_set_aggr c v) = c\<lparr>cf_aggr := cf_aggr (snd (config_set_aggr c v))\<rparr>"
  "snd (config_set_sizes c v) = c\<lparr>cf_sizes := cf_sizes (snd (config_set_sizes c v)), cf_n_sizes := cf_n_sizes (snd (config_set_sizes c v))\<rparr>"
  by (simp_all add: config_set_io_type_def config_set_aggr_def config_set_sizes_def Let_def split: prod.split)

lemma setter_keeps:
  "(\<And>x. f (c\<lparr>cf_io_type := x\<rparr>) = f c) \<Longrightarrow> f (snd (config_set_io_type c v)) = f c"
  "(\<And>x. f (c\<lparr>cf_aggr := x\<rparr>) = f c) \<Longrightarrow> f (snd (config_set_aggr c v)) = f c"
  "(\<And>x y. f (c\<lparr>cf_sizes := x, cf_n_sizes := y\<rparr>) = f c) \<Longrightarrow> f (snd (config_set_sizes c v)) = f c"
  "(\<And>y. f (upd y c) = f c) \<Longrightarrow> f (snd (store upd c x)) = f c"
  by (metis setter_results(1)) (metis setter_results(2), metis setter_results(3), simp add: store_def split: option.split)

lemma other_settings:
  "p \<noteq> OPT_SESSION \<Longrightarrow> cf_session (snd (apply_option c p v)) = cf_session c"
  "p \<noteq> OPT_IO_TYPE \<Longrightarrow> cf_io_type (snd (apply_option c p v)) = cf_io_type c"
  "p \<noteq> OPT_SIZE \<Longrightarrow> cf_sizes (snd (apply_option c p v)) = cf_sizes c"
  "p \<noteq> OPT_SIZE \<Longrightarrow> cf_n_sizes (snd (apply_option c p v)) = cf_n_sizes c"
  "p \<noteq> OPT_AGGR \<Longrightarrow> cf_aggr (snd (apply_option c p v)) = cf_aggr c"
  "p \<noteq> Opt (CHR ''i'') \<Longrightarrow> cf_interval_s (snd (apply_option c p v)) = cf_interval_s c"
  "p \<noteq> Opt (CHR ''s'') \<Longrightarrow> cf_sample_every (snd (apply_option c p v)) = cf_sample_every c"
  "p \<noteq> Opt (CHR ''r'') \<Longrightarrow> cf_role (snd (apply_option c p v)) = cf_role c"
  "p \<noteq> Opt (CHR ''t'') \<Longrightarrow> cf_transport (snd (apply_option c p v)) = cf_transport c"
  "p \<noteq> Opt (CHR ''d'') \<Longrightarrow> cf_duration_s (snd (apply_option c p v)) = cf_duration_s c"
  "p \<noteq> Opt (CHR ''o'') \<Longrightarrow> cf_output (snd (apply_option c p v)) = cf_output c"
  "p \<noteq> Opt (CHR ''j'') \<Longrightarrow> cf_json (snd (apply_option c p v)) = cf_json c"
  "p \<noteq> OPT_BTF \<Longrightarrow> cf_btf_dir (snd (apply_option c p v)) = cf_btf_dir c"
  "p \<noteq> OPT_SPDK_HOST \<Longrightarrow> cf_spdk_host (snd (apply_option c p v)) = cf_spdk_host c"
  "p \<noteq> OPT_SPDK_TARGET \<Longrightarrow> cf_spdk_target (snd (apply_option c p v)) = cf_spdk_target c"
  "p \<noteq> OPT_OFFLINE \<Longrightarrow> cf_online (snd (apply_option c p v)) = cf_online c"
  "p \<noteq> OPT_EXACT_QUEUES \<Longrightarrow> cf_exact_queues (snd (apply_option c p v)) = cf_exact_queues c"
  "p \<noteq> OPT_KPROBES \<Longrightarrow> cf_force_kprobes (snd (apply_option c p v)) = cf_force_kprobes c"
  "p \<noteq> OPT_FENTRY \<Longrightarrow> cf_force_fentry (snd (apply_option c p v)) = cf_force_fentry c"
  "p \<noteq> OPT_DETAIL \<Longrightarrow> cf_rep_detail (snd (apply_option c p v)) = cf_rep_detail c"
  "p \<noteq> OPT_ALL_GROUPS \<Longrightarrow> cf_rep_all_groups (snd (apply_option c p v)) = cf_rep_all_groups c"
  by (cases p; simp add: apply_option_def if_distrib [of snd] setter_keeps)+

lemma ini_only_settings:
  "cf_min_size (snd (apply_option c p v)) = cf_min_size c"
  "cf_max_size (snd (apply_option c p v)) = cf_max_size c"
  "cf_data_dir (snd (apply_option c p v)) = cf_data_dir c"
  "cf_buffer_mb (snd (apply_option c p v)) = cf_buffer_mb c"
  "cf_rep_distribution (snd (apply_option c p v)) = cf_rep_distribution c"
  "cf_rep_throughput (snd (apply_option c p v)) = cf_rep_throughput c"
  "cf_rep_breakdown (snd (apply_option c p v)) = cf_rep_breakdown c"
  "cf_rep_queue_length (snd (apply_option c p v)) = cf_rep_queue_length c"
  "cf_group_by_size (snd (apply_option c p v)) = cf_group_by_size c"
  "cf_group_by_type (snd (apply_option c p v)) = cf_group_by_type c"
  "cf_group_by_session (snd (apply_option c p v)) = cf_group_by_session c"
  by (cases p; simp add: apply_option_def if_distrib [of snd] setter_keeps)+

lemma switch_values:
  "cf_online (snd (apply_option c OPT_OFFLINE v)) = False" "cf_exact_queues (snd (apply_option c OPT_EXACT_QUEUES v)) = True"
  "cf_force_kprobes (snd (apply_option c OPT_KPROBES v)) = True" "cf_force_fentry (snd (apply_option c OPT_FENTRY v)) = True"
  "cf_rep_detail (snd (apply_option c OPT_DETAIL v)) = True" "cf_rep_all_groups (snd (apply_option c OPT_ALL_GROUPS v)) = True"
  by (simp_all add: apply_option_def)

text \<open>What the words of an option mean where it is accepted.\<close>

definition io_type_of :: "string \<Rightarrow> ntp_io_type" where
  "io_type_of v = (if strcaseeq v ''read'' then NTP_IO_READ else if strcaseeq v ''write'' then NTP_IO_WRITE else NTP_IO_BOTH)"

definition aggr_of :: "string \<Rightarrow> ntp_aggr" where
  "aggr_of v = (if strcaseeq v ''avg'' then NTP_AGG_AVG else if strcaseeq v ''min'' then NTP_AGG_MIN
     else if strcaseeq v ''max'' then NTP_AGG_MAX else NTP_AGG_DIST)"

definition role_of :: "string \<Rightarrow> ntp_role" where
  "role_of v = (if v = ''host'' then NTP_ROLE_HOST else if v = ''target'' then NTP_ROLE_TARGET else NTP_ROLE_BOTH)"

definition config_sizes :: "ntp_config \<Rightarrow> u32 list" where
  "config_sizes c = take (cf_n_sizes c) (cf_sizes c)"

lemma option_values:
  "apply_option c OPT_SESSION v = (0, c') \<Longrightarrow> cf_session c' = snprintf_s 64 v"
  "apply_option c OPT_IO_TYPE v = (0, c') \<Longrightarrow> cf_io_type c' = io_type_of v"
  "apply_option c OPT_AGGR v = (0, c') \<Longrightarrow> cf_aggr c' = aggr_of v"
  "apply_option c (Opt (CHR ''r'')) v = (0, c') \<Longrightarrow> cf_role c' = role_of v"
  "apply_option c (Opt (CHR ''t'')) v = (0, c') \<Longrightarrow> cf_transport c' = (if v = ''tcp'' then NTP_TR_TCP else NTP_TR_RDMA)"
  "apply_option c (Opt (CHR ''d'')) v = (0, c') \<Longrightarrow> cf_duration_s c' = the (parse_uint v 1)"
  "apply_option c (Opt (CHR ''i'')) v = (0, c') \<Longrightarrow> cf_interval_s c' = the (parse_uint v 1)"
  "apply_option c (Opt (CHR ''s'')) v = (0, c') \<Longrightarrow> cf_sample_every c' = the (parse_uint v 1)"
  "apply_option c (Opt (CHR ''o'')) v = (0, c') \<Longrightarrow> cf_output c' = snprintf_s 256 v"
  "apply_option c (Opt (CHR ''j'')) v = (0, c') \<Longrightarrow> cf_json c' = snprintf_s 256 v"
  "apply_option c OPT_BTF v = (0, c') \<Longrightarrow> cf_btf_dir c' = snprintf_s 256 v"
  "apply_option c OPT_SPDK_HOST v = (0, c') \<Longrightarrow> cf_spdk_host c' = snprintf_s 512 v"
  "apply_option c OPT_SPDK_TARGET v = (0, c') \<Longrightarrow> cf_spdk_target c' = snprintf_s 512 v"
  by (auto simp: apply_option_def config_set_io_type_def config_set_aggr_def store_def io_type_of_def aggr_of_def role_of_def
      split: if_splits option.splits)

lemma other_sizes: "p \<noteq> OPT_SIZE \<Longrightarrow> config_sizes (snd (apply_option c p v)) = config_sizes c"
  by (simp add: config_sizes_def other_settings)

lemma size_option:
  assumes "settings_ok c" and "apply_option c OPT_SIZE v = (0, c')"
  shows "config_sizes c' = map (the \<circ> size_token) (tokens (CHR '','') v)"
proof -
  let ?xs = "map size_token (tokens (CHR '','') v)"
  have "config_set_sizes c v = (0, c')" "config_ok c" using assms by (simp_all add: apply_option_def settings_ok_def)
  then have "map Some (config_sizes c') = ?xs"
    using config_sizes_spec [of c v] by (auto simp: config_sizes_def Let_def split: if_splits)
  then have "map the (map Some (config_sizes c')) = map the ?xs" by simp
  then show ?thesis by (simp add: comp_def)
qed

lemma ini_settings:
  assumes "case file of None \<Rightarrow> c0 = config_defaults | Some f \<Rightarrow> config_load_ini config_defaults (fs f) = (None, c0)"
  shows "settings_ok c0" and "option_only c0 = option_only config_defaults"
  using assms config_load_ini_settings config_ok_defaults config_load_ini_option_only [of config_defaults]
  by (auto simp: settings_ok_def config_defaults_def split: option.splits) (metis snd_conv)

text \<open>
  \<^bold>\<open>C28.\<close> Options given on the command line override the task specification, for every command that uses
  a configuration and for every setting. The configuration of the command comes from the file of the last \<^verbatim>\<open>-c\<close> (from
  the defaults without one); each setting that has an option has the value of the last such option, wherever
  among the arguments it stands, and without one the file's; a switch is on when it is given; and the settings that have no
  option are the file's.
\<close>

theorem options_override_ini:
  assumes "main fs (cmd # argv) \<in> {Record c, Report c files, Compare c base loaded, Probe c}"
    and "getopt argv = (ev, opts, operands)"
  shows "main fs (cmd # argv) = dispatch cmd c operands \<and>
    (\<exists>c0. (case last_arg (Opt (CHR ''c'')) ev of None \<Rightarrow> c0 = config_defaults
        | Some f \<Rightarrow> config_load_ini config_defaults (fs f) = (None, c0)) \<and>
      config_sizes c = opt_value OPT_SIZE ev (config_sizes c0) (\<lambda>v. map (the \<circ> size_token) (tokens (CHR '','') v)) \<and>
      cf_session c = opt_value OPT_SESSION ev (cf_session c0) (snprintf_s 64) \<and>
      cf_io_type c = opt_value OPT_IO_TYPE ev (cf_io_type c0) io_type_of \<and>
      (cf_online c \<longleftrightarrow> \<not> switched OPT_OFFLINE ev \<and> cf_online c0) \<and>
      cf_interval_s c = opt_value (Opt (CHR ''i'')) ev (cf_interval_s c0) (\<lambda>v. the (parse_uint v 1)) \<and>
      cf_sample_every c = opt_value (Opt (CHR ''s'')) ev (cf_sample_every c0) (\<lambda>v. the (parse_uint v 1)) \<and>
      cf_aggr c = opt_value OPT_AGGR ev (cf_aggr c0) aggr_of \<and>
      (cf_rep_detail c \<longleftrightarrow> switched OPT_DETAIL ev \<or> cf_rep_detail c0) \<and>
      (cf_rep_all_groups c \<longleftrightarrow> switched OPT_ALL_GROUPS ev \<or> cf_rep_all_groups c0) \<and>
      cf_role c = opt_value (Opt (CHR ''r'')) ev NTP_ROLE_HOST role_of \<and>
      cf_transport c = opt_value (Opt (CHR ''t'')) ev NTP_TR_TCP (\<lambda>v. if v = ''tcp'' then NTP_TR_TCP else NTP_TR_RDMA) \<and>
      cf_duration_s c = opt_value (Opt (CHR ''d'')) ev 0 (\<lambda>v. the (parse_uint v 1)) \<and>
      cf_output c = opt_value (Opt (CHR ''o'')) ev [] (snprintf_s 256) \<and>
      cf_json c = opt_value (Opt (CHR ''j'')) ev [] (snprintf_s 256) \<and>
      cf_btf_dir c = opt_value OPT_BTF ev [] (snprintf_s 256) \<and>
      (cf_exact_queues c \<longleftrightarrow> switched OPT_EXACT_QUEUES ev \<or> cf_exact_queues c0) \<and>
      (cf_force_kprobes c \<longleftrightarrow> switched OPT_KPROBES ev) \<and>
      (cf_force_fentry c \<longleftrightarrow> switched OPT_FENTRY ev) \<and>
      cf_spdk_host c = opt_value OPT_SPDK_HOST ev (cf_spdk_host c0) (snprintf_s 512) \<and>
      cf_spdk_target c = opt_value OPT_SPDK_TARGET ev (cf_spdk_target c0) (snprintf_s 512) \<and>
      cf_min_size c = cf_min_size c0 \<and> cf_max_size c = cf_max_size c0 \<and>
      cf_data_dir c = cf_data_dir c0 \<and> cf_buffer_mb c = cf_buffer_mb c0 \<and>
      cf_rep_distribution c = cf_rep_distribution c0 \<and> cf_rep_throughput c = cf_rep_throughput c0 \<and>
      cf_rep_breakdown c = cf_rep_breakdown c0 \<and> cf_rep_queue_length c = cf_rep_queue_length c0 \<and>
      cf_group_by_size c = cf_group_by_size c0 \<and> cf_group_by_type c = cf_group_by_type c0 \<and>
      cf_group_by_session c = cf_group_by_session c0)"
proof -
  obtain c0 c1 where ini: "case last_arg (Opt (CHR ''c'')) ev of None \<Rightarrow> c0 = config_defaults
      | Some f \<Rightarrow> config_load_ini config_defaults (fs f) = (None, c0)"
    and c1: "apply_options c0 ev = Some c1" and out: "main fs (cmd # argv) = dispatch cmd c1 operands"
    by (rule main_steps [OF refl assms(2), of fs cmd]) (use assms in auto)
  have "c1 = c" using out assms(1) by (auto simp: dispatch_def split: if_splits)
  note c = c1 [unfolded this] and out = out [unfolded this]
  note ok = ini_settings(1) [OF ini] and only = ini_settings(2) [OF ini]
  have "args_given ev" using getopt_args [of argv] assms(2) by simp
  note last = last_wins [OF c ok this] and on = switch_on [OF c ok] and never = never_set [OF c ok]
  have sizes: "config_sizes c = opt_value OPT_SIZE ev (config_sizes c0) (\<lambda>v. map (the \<circ> size_token) (tokens (CHR '','') v))"
    by (rule last [where f = config_sizes]) (auto simp: flags_def size_option other_sizes)
  have words: "cf_session c = opt_value OPT_SESSION ev (cf_session c0) (snprintf_s 64)"
    "cf_output c = opt_value (Opt (CHR ''o'')) ev (cf_output c0) (snprintf_s 256)"
    "cf_json c = opt_value (Opt (CHR ''j'')) ev (cf_json c0) (snprintf_s 256)"
    "cf_btf_dir c = opt_value OPT_BTF ev (cf_btf_dir c0) (snprintf_s 256)"
    "cf_spdk_host c = opt_value OPT_SPDK_HOST ev (cf_spdk_host c0) (snprintf_s 512)"
    "cf_spdk_target c = opt_value OPT_SPDK_TARGET ev (cf_spdk_target c0) (snprintf_s 512)"
    by (rule last; auto simp: flags_def option_values other_settings)+
  have vals: "cf_io_type c = opt_value OPT_IO_TYPE ev (cf_io_type c0) io_type_of"
    "cf_aggr c = opt_value OPT_AGGR ev (cf_aggr c0) aggr_of"
    "cf_role c = opt_value (Opt (CHR ''r'')) ev (cf_role c0) role_of"
    "cf_transport c = opt_value (Opt (CHR ''t'')) ev (cf_transport c0) (\<lambda>v. if v = ''tcp'' then NTP_TR_TCP else NTP_TR_RDMA)"
    "cf_duration_s c = opt_value (Opt (CHR ''d'')) ev (cf_duration_s c0) (\<lambda>v. the (parse_uint v 1))"
    "cf_interval_s c = opt_value (Opt (CHR ''i'')) ev (cf_interval_s c0) (\<lambda>v. the (parse_uint v 1))"
    "cf_sample_every c = opt_value (Opt (CHR ''s'')) ev (cf_sample_every c0) (\<lambda>v. the (parse_uint v 1))"
    by (rule last; auto simp: flags_def option_values other_settings)+
  have switches: "cf_online c = (if switched OPT_OFFLINE ev then False else cf_online c0)"
    "cf_exact_queues c = (if switched OPT_EXACT_QUEUES ev then True else cf_exact_queues c0)"
    "cf_force_kprobes c = (if switched OPT_KPROBES ev then True else cf_force_kprobes c0)"
    "cf_force_fentry c = (if switched OPT_FENTRY ev then True else cf_force_fentry c0)"
    "cf_rep_detail c = (if switched OPT_DETAIL ev then True else cf_rep_detail c0)"
    "cf_rep_all_groups c = (if switched OPT_ALL_GROUPS ev then True else cf_rep_all_groups c0)"
    by (rule on; simp add: switch_values other_settings)+
  note kept = never [of cf_min_size] never [of cf_max_size] never [of cf_data_dir] never [of cf_buffer_mb]
    never [of cf_rep_distribution] never [of cf_rep_throughput] never [of cf_rep_breakdown] never [of cf_rep_queue_length]
    never [of cf_group_by_size] never [of cf_group_by_type] never [of cf_group_by_session]
  show ?thesis
    using out ini sizes
    by (intro conjI exI [of _ c0])
      (use only in \<open>simp_all add: words vals switches kept ini_only_settings option_only_def config_defaults_def\<close>)
qed

text \<open>A command line with a shortened name, without a task specification.\<close>

definition sample_args :: "string list" where
  "sample_args = [''--samp'', ''5'', ''-v'', ''-i7'']"

lemma sample_getopt:
  "getopt sample_args = ([(Opt (CHR ''s''), Some ''5''), (Opt (CHR ''v''), None), (Opt (CHR ''i''), Some ''7'')], sample_args, [])"
  by code_simp

lemma sample_main:
  "main (\<lambda>_. None) (''record'' # sample_args) = Record (config_defaults\<lparr>cf_sample_every := 5, cf_interval_s := 7\<rparr>)"
proof -
  have "parse_uint ''5'' 1 = Some 5" "parse_uint ''7'' 1 = Some 7" by code_simp+
  then show ?thesis by (simp add: main_def sample_getopt apply_option_def store_def dispatch_def)
qed

theorem commands_get_settings_witness: "settings_ok (config_defaults\<lparr>cf_sample_every := 5, cf_interval_s := 7\<rparr>)"
  using commands_get_settings [of "\<lambda>_. None" "''record'' # sample_args"] sample_main by blast

theorem options_override_ini_witness:
  "\<exists>c. main (\<lambda>_. None) (''record'' # sample_args) = Record c \<and> cf_interval_s c = the (parse_uint ''7'' 1) \<and>
    cf_session c = cf_session config_defaults \<and> cf_rep_detail c = cf_rep_detail config_defaults"
proof -
  let ?c = "config_defaults\<lparr>cf_sample_every := 5, cf_interval_s := 7\<rparr>"
  have "main (\<lambda>_. None) (''record'' # sample_args) \<in> {Record ?c, Report ?c [], Compare ?c [] [], Probe ?c}" using sample_main by simp
  from options_override_ini [OF this sample_getopt]
  have "cf_interval_s ?c = the (parse_uint ''7'' 1)" "cf_session ?c = cf_session config_defaults"
    "cf_rep_detail ?c = cf_rep_detail config_defaults"
    by (auto simp: last_arg_def opt_value_def switched_def)
  then show ?thesis using sample_main by blast
qed

end
