(* ===== verification/Spec2Isabelle.thy ===== *)
theory Spec2Isabelle
  imports Stage_Props Recording Bpf_Tcp_Times Bpf_Rdma_Host Bpf_Tcp_Target Bpf_Rdma_Target Bpf_Spdk
    Loader Loader_Threads Probe Dump Command_Line
begin

text \<open>
  \<^bold>\<open>ntprof: a verification development.\<close>

  \<^verbatim>\<open>ntprof\<close> measures where the time of each NVMe-over-Fabrics I/O goes. BPF programs, attached to kernel functions or
  to probes in SPDK processes, write one record per sampled command, on the host and on the target; the tool reads
  the records from a ring buffer, joins the two records of a command, computes the time spent in each component and
  stage, groups the samples, and reports. Recordings can be saved and analysed later.

  \<^bold>\<open>From the command line to the hooks\<close>
  \<^item> \<open>C_Strings\<close>, \<open>Config\<close>: \<^verbatim>\<open>src/src/util.c\<close> (parsers) and \<^verbatim>\<open>src/src/config.c\<close>. The configuration is a record with the
    fields of \<^verbatim>\<open>struct ntp_config\<close>; every setter returns the code the C function returns and the configuration as it
    leaves it. Shown: what an ini file does, line by line, with its sections, quotes and comments, and that no file breaks
    the invariant.
  \<^item> \<open>Command_Line\<close>: \<^verbatim>\<open>src/src/main.c\<close>, with \<^verbatim>\<open>getopt_long\<close> as the C library has it. Shown: the second scan of the
    permuted vector finds the same options, every option overrides the ini file, and every command gets usable settings.
  \<^item> \<open>Loader_Select\<close>, \<open>Loader_Filter\<close>, \<open>Spdk_Procs\<close>, \<open>Loader\<close>, \<open>Loader_Threads\<close>: \<^verbatim>\<open>src/src/loader.c\<close> and
    \<^verbatim>\<open>src/src/spdk.c\<close>: which objects and programs are loaded, the filter they get, the processes they attach to, the
    order in which sampling is switched on and off, and the threads that attach. libbpf, libelf and the operating
    system are parameters (\<open>load_env\<close>, \<open>spdk_sys\<close>, \<open>sysfs\<close>, \<open>sys\<close>). Shown: the selection is exact, the filter admits
    what the configuration and its session say, sampling is never left on, links never overrun their array, also where
    attaching fails, and the parallel loop calls
    its function once per index under every interleaving and ends.
  \<^item> \<open>Probe\<close>: the command \<^verbatim>\<open>probe\<close> and the check of whether fentry hooks can attach. It loads the object as opened,
    which may end otherwise than the load of a recording; an object that it cannot open or skips, a recording cannot open.

  \<^bold>\<open>In the kernel\<close>
  \<^item> \<open>Ntprof_Records\<close>: the records and flags of \<^verbatim>\<open>src/bpf/ntprof.h\<close> on fixed-width words.
  \<^item> \<open>Bpf_Common\<close>, \<open>Bpf_Host\<close>, \<open>Bpf_Host_Run\<close>, \<open>Bpf_Host_Queues\<close>, \<open>Bpf_Tcp_Host\<close>, \<open>Bpf_Tcp_Times\<close>, \<open>Bpf_Rdma_Host\<close>: the host's programs
    (\<^verbatim>\<open>src/bpf/common.bpf.h\<close>, \<^verbatim>\<open>host.bpf.h\<close>, \<^verbatim>\<open>nvme_tcp_host.bpf.c\<close>, \<^verbatim>\<open>nvme_rdma_host.bpf.c\<close>). The state holds the BPF maps; each
    hook is a function on it, and a run is any sequence of hooks, with the object armed and disarmed in between. The locales \<open>host_object\<close>, \<open>timed_host_object\<close> and
    \<open>counting_host_object\<close> state what a transport's hooks promise, their lemmas are proved once, and both transports
    interpret them. Shown: slots and counters account for every sampled request, records pass the filter, their times
    are those of their own events, they come out at completion or are counted as stale or dropped, and exact queue counts
    count.
  \<^item> \<open>Bpf_Target\<close>, \<open>Bpf_Tcp_Target\<close>, \<open>Bpf_Rdma_Target\<close>: the same for the target, under the locale \<open>tgt_object\<close>.
  \<^item> \<open>Bpf_Spdk\<close>: the programs on SPDK's probes (\<^verbatim>\<open>src/bpf/spdk.bpf.h\<close> and the four objects), under the locale
    \<open>spdk_object\<close>; the binary search over a ring of socket calls equals a scan of the ring.

  \<^bold>\<open>From the records to the report\<close>
  \<^item> \<open>Stage_Model\<close>, \<open>Stage_Props\<close>: \<^verbatim>\<open>src/src/model.c\<close>, the components and stages of a command, on 64-bit words. Shown: the
    parts sum to the end-to-end time, for both transports and every class, each component of the host is the time of its
    intervals on a path written down independently of the code, and when records are refused.
  \<^item> \<open>Join_Table\<close>, \<open>Joiner\<close>: \<^verbatim>\<open>src/src/join.c\<close>, a chained hash table under the locale \<open>fifo_store\<close> (which extends \<open>record_bag\<close>)
    and the joiner on it. Shown: pairs are first in, first out per command, nothing is lost, invented or used twice.
  \<^item> \<open>Trace_File\<close>: \<^verbatim>\<open>src/src/trace_file.c\<close> byte for byte. Shown: what was written is what is read, for every version.
  \<^item> \<open>Stats\<close>: \<^verbatim>\<open>src/src/stats.c\<close>. Floating point is exact arithmetic followed by a rounding that is a parameter.
  \<^item> \<open>Report\<close>: \<^verbatim>\<open>src/src/report.c\<close> and the labels of \<^verbatim>\<open>stats.c\<close>. What is printed is a list of fields: text, and numbers with
    the value that is formatted. Shown: every group is printed or folded exactly once, largest first; the rows of a group
    whose records are all joined, or none, add up to its latency; JSON strings can be read back.
  \<^item> \<open>Offline\<close>: \<^verbatim>\<open>src/src/offline.c\<close>, where the reader, the joiner and the statistics meet. Shown: a report is the
    statistics of the records of all files, joined first in, first out, whatever the order of the files.
  \<^item> \<open>Dump\<close>: the command \<^verbatim>\<open>dump\<close> of \<^verbatim>\<open>src/src/offline.c\<close>, as text. Shown: equal dumps come from equal records.
  \<^item> \<open>Recording\<close>: \<^verbatim>\<open>src/src/record.c\<close>: the session, its loop over polls of the ring buffer, and the parent process.
    Shown: every record is accounted for as long as no line of waiting records fills up, the intervals partition the total, a
    later report of the file a recording saved is the statistics of what it received, which for a host alone are the
    totals it printed, and the parent always ends.

  This theory adds what spans the first two groups: a recording that the command line starts.

  \<^bold>\<open>Bounds and fuel.\<close> Integers have the width of the C code and wrap. The unrolled search over a ring of 512 entries does
  ten halvings, as the code does, and the theorem on it shows that ten are enough. The hash tables have the code's 16384
  slots. Every other loop is a recursion with a termination proof. Loops that wait for the environment run over a
  finite list of what the environment answers (polls, wakes), and the theorems hold for every such list.

  \<^bold>\<open>Not modelled.\<close> The text of \<^verbatim>\<open>usage()\<close>, of \<^verbatim>\<open>config_print()\<close> and of log messages; clocks,
  which are arguments; memory allocation, which ends the process when it fails; signals, except as the stop flag and the count
  of interrupts; concurrency inside the kernel: a BPF program runs to its end before the next one, except that the reader of
  the ring buffer may run at any time. libbpf and libelf are third-party code: what they return is a parameter.
\<close>

subsection \<open>A recording from the command line\<close>

lemma role_objects:
  assumes "cf_transport c \<in> {NTP_TR_TCP, NTP_TR_RDMA}"
  shows "distinct (map od_role (filter (wanted c) objects))"
    and "set (map od_role (filter (wanted c) objects)) =
      (case cf_role c of NTP_ROLE_HOST \<Rightarrow> {NTP_ROLE_HOST} | NTP_ROLE_TARGET \<Rightarrow> {NTP_ROLE_TARGET}
       | NTP_ROLE_BOTH \<Rightarrow> {NTP_ROLE_HOST, NTP_ROLE_TARGET})"
  using assms
  by (cases "cf_role c"; cases "cf_spdk_host c = []"; cases "cf_spdk_target c = []";
      auto simp: objects_def obj_def wanted_def role_in_spdk_def NTP_TR_TCP_def NTP_TR_RDMA_def)+

text \<open>
  \<^bold>\<open>C27.\<close> From the command line to the BPF programs: whenever the arguments start a recording, there is exactly one
  object to load for each role asked for (so the loader's complaint that there is none cannot come up), and the filter
  written into each has the sampling period of the settings, which is not 0, and at most as many sizes as its array holds.
\<close>

theorem recording_starts:
  assumes "main fs args = Record c"
  shows "distinct (map od_role (filter (wanted c) objects)) \<and>
    set (map od_role (filter (wanted c) objects)) =
      (case cf_role c of NTP_ROLE_HOST \<Rightarrow> {NTP_ROLE_HOST} | NTP_ROLE_TARGET \<Rightarrow> {NTP_ROLE_TARGET}
       | NTP_ROLE_BOTH \<Rightarrow> {NTP_ROLE_HOST, NTP_ROLE_TARGET}) \<and>
    f_sample_every (fill_filter off c sel) = cf_sample_every c \<and> cf_sample_every c \<noteq> 0 \<and>
    unat (f_n_sizes (fill_filter off c sel)) = cf_n_sizes c \<and> cf_n_sizes c \<le> NTP_MAX_SIZE_FILTERS"
proof -
  have ok: "settings_ok c" using main_settings assms by blast
  then have c: "cf_transport c \<in> {NTP_TR_TCP, NTP_TR_RDMA}" "cf_sample_every c \<noteq> 0" "cf_n_sizes c \<le> NTP_MAX_SIZE_FILTERS"
    by (simp_all add: settings_ok_def config_ok_def)
  have "f_sample_every (fill_filter off c sel) = cf_sample_every c" "f_n_sizes (fill_filter off c sel) = of_nat (cf_n_sizes c)"
    using c(2) by (auto simp: fill_filter_def Let_def split: option.split)
  moreover have "unat (of_nat (cf_n_sizes c) :: u8) = cf_n_sizes c" using c(3) by (simp add: unat_of_nat NTP_MAX_SIZE_FILTERS_def)
  ultimately show ?thesis using role_objects [OF c(1)] c by simp
qed

theorem recording_starts_witness:
  "set (map od_role (filter (wanted (config_defaults\<lparr>cf_sample_every := 5, cf_interval_s := 7\<rparr>)) objects)) = {NTP_ROLE_HOST} \<and>
    f_sample_every (fill_filter 0 (config_defaults\<lparr>cf_sample_every := 5, cf_interval_s := 7\<rparr>) None) = 5"
  using recording_starts [OF sample_main, of 0 None] by (simp add: config_defaults_def)

end
